(* ===== verification/Prelude.thy ===== *)
theory Prelude
  imports Main "HOL-Library.Word" "HOL-Library.Multiset"
begin

text \<open>
  Shared vocabulary of the development.

  \<^item> Names for the C types the sources use: a \<^verbatim>\<open>uint8_t\<close> is a \<open>byte\<close>, a
    \<^verbatim>\<open>uint32_t\<close> (and \<^verbatim>\<open>pmix_rank_t\<close>) is a \<open>u32\<close>, a \<^verbatim>\<open>json_int_t\<close>, a
    \<^verbatim>\<open>uintptr_t\<close> or a \<^verbatim>\<open>size_t\<close> kept at its width is a \<open>u64\<close>; \<open>sint\<close> and
    \<open>unat\<close> read a word as a signed or an unsigned number. A \<^verbatim>\<open>size_t\<close> that counts the bytes
    of an object in memory is a \<open>nat\<close>, with the wrap-around modulo \<open>size_max\<close>
    written where the code computes with it.
  \<^item> The outcome of a C function that can fail or run into undefined behaviour.
  \<^item> Generic facts on lists, options, C strings and words that several components use.
\<close>

unbundle bit_operations_syntax

type_synonym byte = "8 word"
type_synonym u16 = "16 word"
type_synonym u32 = "32 word"
type_synonym u64 = "64 word"

named_theorems byte_bits \<open>rewrite rules that decide equations between bytes bit by bit\<close>
named_theorems outcome_simps \<open>how the C outcome monad computes\<close>

definition size_max :: nat where
  "size_max = 2 ^ 64"

definition int_max :: int where
  "int_max = 2 ^ 31 - 1"

subsection \<open>Outcomes of C functions\<close>

text \<open>
  A C function that returns a pointer or a status either succeeds with a value, fails (a null
  pointer or a negative status) or executes an operation whose behaviour the C standard leaves
  undefined (a read out of bounds, a null pointer passed to a string function).
\<close>

datatype 'a outcome = Ok (the_ok: 'a) | Fail | Undef

text \<open>
  The values of \<^verbatim>\<open>errno\<close> the sources set; \<open>E_OTHER\<close> is one set by a library call that
  failed. Two more results are not error numbers: \<open>ASSERT\<close> is a failed assertion, which aborts, and
  \<open>OVERRUN\<close> is an access outside a buffer, undefined in C.
\<close>

datatype errno =
    EINVAL | ENOMEM | EINPROGRESS | ENOSPC | ENOENT | EDOM | EOVERFLOW | E_OTHER | ASSERT | OVERRUN

primrec bind_outcome :: "'a outcome \<Rightarrow> ('a \<Rightarrow> 'b outcome) \<Rightarrow> 'b outcome" where
  "bind_outcome (Ok x) f = f x"
| "bind_outcome Fail f = Fail"
| "bind_outcome Undef f = Undef"

primrec of_option :: "'a option \<Rightarrow> 'a outcome" where
  "of_option None = Fail"
| "of_option (Some x) = Ok x"

declare bind_outcome.simps [outcome_simps] of_option.simps [outcome_simps]

lemma bind_outcome_Ok_iff [outcome_simps]:
  "bind_outcome r f = Ok y \<longleftrightarrow> (\<exists>x. r = Ok x \<and> f x = Ok y)"
  by (cases r) auto

lemma of_option_Ok_iff [outcome_simps]: "of_option r = Ok x \<longleftrightarrow> r = Some x"
  by (cases r) auto

lemma of_option_not_Undef [simp]: "of_option r \<noteq> Undef"
  by (cases r) auto

lemma bind_outcome_Undef_iff:
  "bind_outcome r f = Undef \<longleftrightarrow> r = Undef \<or> (\<exists>x. r = Ok x \<and> f x = Undef)"
  by (cases r) auto

text \<open>A loop over an array that stops at the first element that does not succeed.\<close>

primrec traverse :: "('a \<Rightarrow> 'b outcome) \<Rightarrow> 'a list \<Rightarrow> 'b list outcome" where
  "traverse f [] = Ok []"
| "traverse f (x # xs) = bind_outcome (f x) (\<lambda>y. bind_outcome (traverse f xs) (\<lambda>ys. Ok (y # ys)))"

lemma traverse_Ok_iff:
  "traverse f xs = Ok ys \<longleftrightarrow> list_all2 (\<lambda>x y. f x = Ok y) xs ys"
proof (induction xs arbitrary: ys)
  case Nil
  then show ?case by auto
next
  case (Cons x xs)
  then show ?case by (cases ys) (auto simp: outcome_simps)
qed

lemma traverse_not_Undef: "(\<And>x. x \<in> set xs \<Longrightarrow> f x \<noteq> Undef) \<Longrightarrow> traverse f xs \<noteq> Undef"
  by (induction xs) (auto simp: bind_outcome_Undef_iff)

lemma traverse_cong [fundef_cong]:
  "xs = ys \<Longrightarrow> (\<And>x. x \<in> set ys \<Longrightarrow> f x = g x) \<Longrightarrow> traverse f xs = traverse g ys"
  by (induction ys arbitrary: xs) auto

subsection \<open>C strings\<close>

text \<open>
  A C string is a \<open>string\<close>, the characters up to its terminator. \<open>c_string\<close> is what the
  string functions see of a buffer: the part before the first NUL.
\<close>

abbreviation NUL :: char where
  "NUL \<equiv> CHR 0x00"

definition c_string :: "string \<Rightarrow> string" where
  "c_string s = takeWhile (\<lambda>c. c \<noteq> NUL) s"

definition nul_free :: "string \<Rightarrow> bool" where
  "nul_free s \<longleftrightarrow> NUL \<notin> set s"

lemma c_string_nul_free [simp]: "nul_free s \<Longrightarrow> c_string s = s"
  by (auto simp: c_string_def nul_free_def takeWhile_eq_all_conv)

lemma nul_free_c_string [simp]: "nul_free (c_string s)"
  unfolding nul_free_def c_string_def by (auto dest: set_takeWhileD)

lemma nul_free_take [simp]: "nul_free s \<Longrightarrow> nul_free (take n s)"
  by (auto simp: nul_free_def dest: in_set_takeD)

lemma length_c_string_le: "length (c_string s) \<le> length s"
  by (simp add: c_string_def length_takeWhile_le)

subsection \<open>Bytes bit by bit\<close>

lemma less_8_cases:
  "(n::nat) < 8 \<Longrightarrow> n = 0 \<or> n = 1 \<or> n = 2 \<or> n = 3 \<or> n = 4 \<or> n = 5 \<or> n = 6 \<or> n = 7"
  by arith

lemma byte_eqI:
  fixes a b :: byte
  assumes "bit a 0 = bit b 0" "bit a 1 = bit b 1" "bit a 2 = bit b 2" "bit a 3 = bit b 3"
    and "bit a 4 = bit b 4" "bit a 5 = bit b 5" "bit a 6 = bit b 6" "bit a 7 = bit b 7"
  shows "a = b"
proof (rule bit_word_eqI)
  fix n assume "n < LENGTH(8)"
  then have "n < 8" by simp
  from less_8_cases [OF this] show "bit a n = bit b n"
    by (elim disjE) (simp_all only: assms)
qed

lemmas [byte_bits] = bit_simps bit_numeral_rec

lemma byte_le_63I: "(x::byte) AND 63 = x \<Longrightarrow> x \<le> 63"
  using word_and_le1 [of x 63] by (metis and.commute)

lemma unat_byte_le_63: "(x::byte) \<le> 63 \<Longrightarrow> unat x < 64"
  by (simp add: word_le_nat_alt)

subsection \<open>Integer conversions\<close>

text \<open>Widening an integer, with or without its sign, and truncating it again loses nothing.\<close>

lemma truncate_sign_extend:
  fixes x :: "'a::len word"
  assumes "LENGTH('a) \<le> LENGTH('b::len)"
  shows "ucast (scast x :: 'b word) = x"
proof (rule bit_word_eqI)
  fix n assume "n < LENGTH('a)"
  then have "LENGTH('a) - 1 = n \<or> \<not> LENGTH('a) - 1 \<le> n" by auto
  with assms \<open>n < LENGTH('a)\<close> show "bit (ucast (scast x :: 'b word) :: 'a word) n = bit x n"
    by (auto simp: bit_simps)
qed

lemma truncate_zero_extend:
  fixes x :: "'a::len word"
  assumes "LENGTH('a) \<le> LENGTH('b::len)"
  shows "ucast (ucast x :: 'b word) = x"
  using assms by (intro bit_word_eqI) (auto simp: bit_simps)

text \<open>
  The conversions between \<^verbatim>\<open>size_t\<close> and \<^verbatim>\<open>int\<close> as the compiler makes them: truncation to 32
  bits read with a sign, and sign extension to 64 bits read without.
\<close>

definition int_of_size :: "nat \<Rightarrow> int" where
  "int_of_size n = sint (of_nat n :: u32)"

definition size_of_int :: "int \<Rightarrow> nat" where
  "size_of_int i = nat (i mod int size_max)"

lemma unat_of_nat_small: "n < 2 ^ LENGTH('a) \<Longrightarrow> unat (of_nat n :: 'a::len word) = n"
  by (simp add: unat_of_nat)

lemma sint_of_nat_small:
  assumes "n < 2 ^ (LENGTH('a::len) - 1)"
  shows "sint (of_nat n :: 'a word) = int n"
proof -
  have "int n < 2 ^ (LENGTH('a) - 1)"
    using assms by (metis of_nat_less_numeral_power_cancel_iff)
  moreover have "- (2 ^ (LENGTH('a) - 1)) \<le> int n"
    by (rule order_trans [of _ 0]) simp_all
  ultimately show ?thesis
    using signed_take_bit_int_eq_self [of "LENGTH('a) - 1" "int n"]
      sint_sbintrunc' [of "int n", where 'a = 'a]
    by simp
qed

lemma int_of_size_small [simp]: "n < 2 ^ 31 \<Longrightarrow> int_of_size n = int n"
  unfolding int_of_size_def by (rule sint_of_nat_small) simp

lemma size_of_int_nat [simp]: "n < 2 ^ 64 \<Longrightarrow> size_of_int (int n) = n"
  by (simp add: size_of_int_def size_max_def)

subsection \<open>Lists\<close>

lemma list_all2_same_map: "list_all2 (\<lambda>x y. y = f x) xs ys \<longleftrightarrow> ys = map f xs"
  by (induction xs arbitrary: ys) (auto simp: list_all2_Cons1)

end
