(* ===== verification/Cstdlib.thy ===== *)
theory Cstdlib
  imports Complex_Main Cstdio "HOL-Library.Log_Nat"
begin

text \<open>
  The C library functions that turn the arguments of the benchmark programs into numbers, in the C locale:
  \<^verbatim>\<open>strtod\<close>, \<^verbatim>\<open>atoi\<close>, \<^verbatim>\<open>atol\<close> and \<^verbatim>\<open>strcasecmp\<close>, with the \<^verbatim>\<open>double\<close>s they produce and the conversion
  of a \<^verbatim>\<open>double\<close> to an unsigned integer. A \<^verbatim>\<open>double\<close> is a rational number that has been rounded to 53
  significant bits, an infinity or not a number; the two zeros are not distinguished.

  \<open>prog\<close> is what a piece of a program does that may end the process: it returns a value, ends the process
  with an exit status and what it printed, or executes an operation that C leaves undefined.
\<close>

datatype 'a prog = Return 'a | Exit int string | Undefined

primrec bind_prog :: "'a prog \<Rightarrow> ('a \<Rightarrow> 'b prog) \<Rightarrow> 'b prog" where
  "bind_prog (Return x) f = f x"
| "bind_prog (Exit rc out) f = Exit rc out"
| "bind_prog Undefined f = Undefined"

lemma bind_prog_Return_iff: "bind_prog m f = Return y \<longleftrightarrow> (\<exists>x. m = Return x \<and> f x = Return y)"
  by (cases m) auto

text \<open>A loop that runs the program of every element and collects the values.\<close>

primrec traverse_prog :: "('a \<Rightarrow> 'b prog) \<Rightarrow> 'a list \<Rightarrow> 'b list prog" where
  "traverse_prog f [] = Return []"
| "traverse_prog f (x # xs) =
     bind_prog (f x) (\<lambda>y. bind_prog (traverse_prog f xs) (\<lambda>ys. Return (y # ys)))"

lemma traverse_prog_Return:
  "(\<And>x. x \<in> set xs \<Longrightarrow> f x = Return (g x)) \<Longrightarrow> traverse_prog f xs = Return (map g xs)"
  by (induction xs) auto

lemma traverse_prog_Return_iff:
  "traverse_prog f xs = Return ys \<longleftrightarrow> list_all2 (\<lambda>x y. f x = Return y) xs ys"
proof (induction xs arbitrary: ys)
  case (Cons x xs)
  then show ?case by (cases ys) (auto simp: bind_prog_Return_iff)
qed auto

text \<open>A loop that threads a state through the program of every element.\<close>

primrec fold_prog :: "('a \<Rightarrow> 's \<Rightarrow> 's prog) \<Rightarrow> 'a list \<Rightarrow> 's \<Rightarrow> 's prog" where
  "fold_prog f [] s = Return s"
| "fold_prog f (x # xs) s = bind_prog (f x s) (fold_prog f xs)"

lemma fold_prog_invariant:
  assumes "I s" and "\<And>x s. x \<in> set xs \<Longrightarrow> I s \<Longrightarrow> \<exists>s'. f x s = Return s' \<and> I s'"
  shows "\<exists>s'. fold_prog f xs s = Return s' \<and> I s'"
  using assms
proof (induction xs arbitrary: s)
  case (Cons x xs)
  from Cons.prems obtain s' where "f x s = Return s'" "I s'" by fastforce
  with Cons show ?case by simp
qed simp

lemma fold_prog_append: "fold_prog f (xs @ ys) s = bind_prog (fold_prog f xs s) (fold_prog f ys)"
proof (induction xs arbitrary: s)
  case (Cons x xs)
  then show ?case by (cases "f x s") simp_all
qed simp

lemma fold_prog_upt:
  assumes "I 0 s" and "\<And>k s. k < n \<Longrightarrow> I k s \<Longrightarrow> \<exists>s'. f k s = Return s' \<and> I (Suc k) s'"
  shows "\<exists>s'. fold_prog f [0..<n] s = Return s' \<and> I n s'"
  using assms(2)
proof (induction n)
  case (Suc n)
  then obtain s' where "fold_prog f [0..<n] s = Return s'" "I n s'" by (meson less_SucI)
  moreover obtain s'' where "f n s' = Return s''" "I (Suc n) s''" using Suc.prems [of n s'] calculation(2) by auto
  ultimately show ?case by (simp add: fold_prog_append)
qed (use assms(1) in simp)

lemma fold_prog_map: "fold_prog f (map g xs) s = fold_prog (\<lambda>x. f (g x)) xs s"
proof (induction xs arbitrary: s)
  case (Cons x xs)
  then show ?case by (cases "f (g x) s") simp_all
qed simp

text \<open>Programs with loops that may not end: no result, or that of the program.\<close>

definition bind_run :: "'a prog option \<Rightarrow> ('a \<Rightarrow> 'b prog option) \<Rightarrow> 'b prog option" where
  "bind_run m f = (case m of None \<Rightarrow> None | Some (Return x) \<Rightarrow> f x | Some (Exit rc out) \<Rightarrow> Some (Exit rc out)
     | Some Undefined \<Rightarrow> Some Undefined)"

lemma bind_run_Return [simp]: "bind_run (Some (Return x)) f = f x"
  by (simp add: bind_run_def)

primrec fold_run :: "('a \<Rightarrow> 's \<Rightarrow> 's prog option) \<Rightarrow> 'a list \<Rightarrow> 's \<Rightarrow> 's prog option" where
  "fold_run f [] s = Some (Return s)"
| "fold_run f (x # xs) s = bind_run (f x s) (fold_run f xs)"

primrec traverse_run :: "('a \<Rightarrow> 'b prog option) \<Rightarrow> 'a list \<Rightarrow> 'b list prog option" where
  "traverse_run f [] = Some (Return [])"
| "traverse_run f (x # xs) = bind_run (f x) (\<lambda>y. bind_run (traverse_run f xs) (\<lambda>ys. Some (Return (y # ys))))"

text \<open>
  The program has a result with a certain property and neither exits nor does anything undefined; only if \<open>sure\<close>
  does not hold it may go on for ever.
\<close>

definition comes_to :: "bool \<Rightarrow> ('a \<Rightarrow> bool) \<Rightarrow> 'a prog option \<Rightarrow> bool" where
  "comes_to sure P m \<longleftrightarrow> (m = None \<and> \<not> sure) \<or> (\<exists>x. m = Some (Return x) \<and> P x)"

lemma comes_to_Return [simp]: "comes_to sure P (Some (Return x)) \<longleftrightarrow> P x"
  by (simp add: comes_to_def)

lemma comes_to_sure [simp]: "comes_to True P m \<longleftrightarrow> (\<exists>x. m = Some (Return x) \<and> P x)"
  by (simp add: comes_to_def)

lemma comes_to_mono: "comes_to sure P m \<Longrightarrow> (\<And>x. P x \<Longrightarrow> Q x) \<Longrightarrow> comes_to sure Q m"
  by (auto simp: comes_to_def)

lemma comes_to_bind: "comes_to sure P m \<Longrightarrow> (\<And>x. P x \<Longrightarrow> comes_to sure Q (f x)) \<Longrightarrow> comes_to sure Q (bind_run m f)"
  by (cases m) (auto simp: comes_to_def bind_run_def split: prog.splits)

lemma fold_run_append: "fold_run f (xs @ ys) s = bind_run (fold_run f xs s) (fold_run f ys)"
proof (induction xs arbitrary: s)
  case (Cons x xs)
  then show ?case by (simp add: bind_run_def split: option.splits prog.splits)
qed simp

lemma fold_run_upt:
  assumes "I 0 s" and "\<And>k s. k < n \<Longrightarrow> I k s \<Longrightarrow> comes_to sure (I (Suc k)) (f k s)"
  shows "comes_to sure (I n) (fold_run f [0..<n] s)"
  using assms(2)
proof (induction n)
  case (Suc n)
  have "comes_to sure (I (Suc n)) (bind_run (fold_run f [0..<n] s) (f n))"
    by (rule comes_to_bind [OF Suc.IH]) (use Suc.prems in auto)
  moreover have "fold_run f [n] = f n" by (simp add: fun_eq_iff bind_run_def split: option.splits prog.splits)
  ultimately show ?case by (simp add: fold_run_append del: fold_run.simps)
qed (use assms(1) in simp)

lemma traverse_run_all:
  assumes "\<And>x. x \<in> set xs \<Longrightarrow> comes_to sure (Q x) (f x)"
  shows "comes_to sure (\<lambda>ys. list_all2 Q xs ys) (traverse_run f xs)"
  using assms
proof (induction xs)
  case (Cons x xs)
  have IH: "comes_to sure (\<lambda>ys. list_all2 Q xs ys) (traverse_run f xs)" using Cons by simp
  show ?case unfolding traverse_run.simps
    by (rule comes_to_bind [where P = "Q x"], use Cons.prems in simp, rule comes_to_bind [OF IH]) simp
qed simp

text \<open>The values of an \<^verbatim>\<open>int\<close>; arithmetic that leaves them is undefined.\<close>

definition int_ok :: "int \<Rightarrow> bool" where
  "int_ok i \<longleftrightarrow> - (2 ^ 31) \<le> i \<and> i < 2 ^ 31"

subsection \<open>Doubles\<close>

datatype dbl = Fin rat | Inf bool | NaN

definition pow2 :: "int \<Rightarrow> rat" where
  "pow2 e = 2 powi e"

text \<open>The exponent of a positive number: the largest \<open>e\<close> with \<open>pow2 e \<le> x\<close>.\<close>

definition exponent :: "rat \<Rightarrow> int" where
  "exponent x =
     (case quotient_of x of
        (p, q) \<Rightarrow> let e = int (floorlog 2 (nat p)) - int (floorlog 2 (nat q)) in if pow2 e \<le> x then e else e - 1)"

text \<open>The nearest integer, an even one in case of a tie.\<close>

definition round_even :: "rat \<Rightarrow> int" where
  "round_even x =
     (let f = \<lfloor>x\<rfloor>; r = x - of_int f in
      if r < 1 / 2 then f else if 1 / 2 < r then f + 1 else if even f then f else f + 1)"

text \<open>
  The number of \<open>p\<close> significant bits nearest to a number, with exponents from \<open>m\<close> to \<open>e\<close>: round to nearest
  even, for the formats \<^verbatim>\<open>binary64\<close> and \<^verbatim>\<open>binary32\<close>.
\<close>

definition round_to :: "nat \<Rightarrow> int \<Rightarrow> nat \<Rightarrow> rat \<Rightarrow> dbl" where
  "round_to p m e x =
     (if x = 0 then Fin 0
      else let a = \<bar>x\<bar>; ulp = pow2 (max (exponent a - (int p - 1)) m); v = of_int (round_even (a / ulp)) * ulp in
           if 2 ^ e \<le> v then Inf (x < 0) else Fin (if x < 0 then - v else v))"

definition double_of :: "rat \<Rightarrow> dbl" where
  "double_of = round_to 53 (- 1074) 1024"

definition single_of :: "rat \<Rightarrow> dbl" where
  "single_of = round_to 24 (- 149) 128"

text \<open>The conversion to \<^verbatim>\<open>size_t\<close>, undefined when the truncated value does not fit.\<close>

definition size_of_double :: "dbl \<Rightarrow> u64 option" where
  "size_of_double d =
     (case d of Fin x \<Rightarrow> if - 1 < x \<and> x < 2 ^ 64 then Some (if x < 0 then 0 else word_of_int \<lfloor>x\<rfloor>) else None | _ \<Rightarrow> None)"

lemma floorlog_1 [simp]: "floorlog 2 (Suc 0) = 1"
  by (simp add: floorlog_def)

lemma exponent_nat:
  assumes "2 ^ k \<le> n" "n < 2 ^ Suc k" shows "exponent (of_nat n) = int k"
proof -
  have "0 < n" using assms(1) by (metis gr0I le_zero_eq power_not_zero zero_neq_numeral)
  then have f: "floorlog 2 n = Suc k" using assms floorlog_leI [of n 2 "Suc k"] floorlog_geI [of 2 "Suc k" n]
    by (intro antisym) simp_all
  have q: "quotient_of (of_nat n) = (int n, 1)" by (simp add: of_nat_rat quotient_of_Fract normalize_def)
  have "(2::rat) ^ k \<le> of_nat n" using assms(1) by (metis of_nat_le_iff of_nat_numeral of_nat_power)
  then show ?thesis by (simp add: exponent_def q f pow2_def)
qed

lemma round_even_int [simp]: "round_even (of_int i) = i"
  by (simp add: round_even_def)

lemma ex_power_bounds: "0 < n \<Longrightarrow> \<exists>j. 2 ^ j \<le> n \<and> n < (2::nat) ^ Suc j"
  using floorlog_bounds [of n 2] by (intro exI [of _ "floorlog 2 n - 1"]) (auto simp: floorlog_def)

text \<open>An integer of at most \<open>p\<close> significant bits is exact.\<close>

lemma round_to_nat_shift:
  assumes "n < 2 ^ p" "p + k \<le> e" "m \<le> int k - int p"
  shows "round_to p m e (of_nat (n * 2 ^ k)) = Fin (of_nat (n * 2 ^ k))"
proof (cases "n = 0")
  case False
  let ?m = "n * 2 ^ k"
  obtain j where j: "2 ^ j \<le> n" "n < 2 ^ Suc j" using False ex_power_bounds [of n] by auto
  then have "2 ^ j < (2::nat) ^ p" using assms(1) by linarith
  then have jp: "j < p" using power_less_imp_less_exp [of "2::nat" j p] by simp
  have "2 ^ (j + k) \<le> ?m" "?m < 2 ^ Suc (j + k)"
    using j mult_strict_right_mono [OF j(2), of "2 ^ k"] by (simp_all add: power_add)
  then have x: "exponent (of_nat ?m) = int (j + k)" by (rule exponent_nat)
  define U where "U = pow2 (max (exponent (of_nat ?m) - (int p - 1)) m)"
  have ulp: "U = 2 powi (int k - int (p - 1 - j))" unfolding U_def x using jp assms(3)
    by (simp add: pow2_def max_def of_nat_diff algebra_simps)
  then have U0: "U \<noteq> 0" by simp
  have m: "of_nat ?m = of_nat n * U * 2 ^ (p - 1 - j)" by (simp add: ulp power_int_diff)
  have "of_nat ?m / U = of_int (int n * 2 ^ (p - 1 - j))" unfolding m using U0 by simp
  then have r: "round_even (of_nat ?m / U) = int n * 2 ^ (p - 1 - j)" by (metis round_even_int)
  have "of_nat ?m < (2::rat) ^ Suc (j + k)"
    using \<open>?m < 2 ^ Suc (j + k)\<close> by (metis of_nat_less_iff of_nat_numeral of_nat_power)
  also have "(2::rat) ^ Suc (j + k) \<le> 2 ^ e" using jp assms(2) by (intro power_increasing) simp_all
  finally have "\<not> (2::rat) ^ e \<le> of_nat ?m" by (simp only: not_le)
  moreover have "of_int (int n * 2 ^ (p - 1 - j)) * U = of_nat ?m" unfolding m by simp
  moreover have "(of_nat ?m :: rat) \<noteq> 0" "\<not> (of_nat ?m :: rat) < 0" "\<bar>of_nat ?m :: rat\<bar> = of_nat ?m"
    using False by (simp_all add: not_less)
  ultimately show ?thesis using r unfolding round_to_def Let_def U_def by (simp only: if_False)
qed (simp add: round_to_def)

lemma double_of_nat_shift:
  assumes "n < 2 ^ 53" "k \<le> 900"
  shows "double_of (of_nat (n * 2 ^ k)) = Fin (of_nat (n * 2 ^ k))"
  unfolding double_of_def by (rule round_to_nat_shift) (use assms in simp_all)

lemma single_of_nat: "n < 2 ^ 24 \<Longrightarrow> single_of (of_nat n) = Fin (of_nat n)"
  unfolding single_of_def using round_to_nat_shift [of n 24 0 128 "- 149"] by simp

text \<open>The arithmetic of a \<^verbatim>\<open>double\<close> that measures time, which the benchmarks take as a parameter.\<close>

record 'd fpu =
  f_int :: "int \<Rightarrow> 'd"
  f_add :: "'d \<Rightarrow> 'd \<Rightarrow> 'd"
  f_sub :: "'d \<Rightarrow> 'd \<Rightarrow> 'd"
  f_mul :: "'d \<Rightarrow> 'd \<Rightarrow> 'd"
  f_div :: "'d \<Rightarrow> 'd \<Rightarrow> 'd"
  f_less :: "'d \<Rightarrow> 'd \<Rightarrow> bool"
  f_trunc :: "'d \<Rightarrow> int option"

subsection \<open>Strings to numbers\<close>

definition is_space :: "char \<Rightarrow> bool" where
  "is_space c \<longleftrightarrow> (of_char c :: nat) = 32 \<or> (9 \<le> (of_char c :: nat) \<and> (of_char c :: nat) \<le> 13)"

definition to_lower :: "char \<Rightarrow> char" where
  "to_lower c = (let n = of_char c :: nat in if 65 \<le> n \<and> n \<le> 90 then char_of (n + 32) else c)"

definition strcaseeq :: "string \<Rightarrow> string \<Rightarrow> bool" where
  "strcaseeq a b \<longleftrightarrow> map to_lower a = map to_lower b"

text \<open>The character at an index up to the length of the string, where the terminator is.\<close>

definition char_at :: "string \<Rightarrow> nat \<Rightarrow> char" where
  "char_at s i = (if i < length s then s ! i else NUL)"

text \<open>An optional sign: whether it is a minus, and the rest.\<close>

definition read_sign :: "string \<Rightarrow> bool \<times> string" where
  "read_sign s =
     (case s of c # t \<Rightarrow> if c = CHR ''-'' then (True, t) else if c = CHR ''+'' then (False, t) else (False, s)
      | [] \<Rightarrow> (False, []))"

text \<open>\<^verbatim>\<open>strtol\<close> in base 10 stops at the bounds of a \<^verbatim>\<open>long\<close>; \<^verbatim>\<open>atoi\<close> keeps its low 32 bits.\<close>

definition atol :: "string \<Rightarrow> int" where
  "atol s =
     (case read_sign (dropWhile is_space s) of
        (neg, t) \<Rightarrow>
          let n = int (read_nat (takeWhile is_digit t)) in
          if neg then max (- (2 ^ 63)) (- n) else min (2 ^ 63 - 1) n)"

definition atoi :: "string \<Rightarrow> int" where
  "atoi s = sint (word_of_int (atol s) :: u32)"

definition hex_value :: "char \<Rightarrow> nat option" where
  "hex_value c =
     (let n = of_char (to_lower c) :: nat in
      if is_digit c then Some (n - 48) else if 97 \<le> n \<and> n \<le> 102 then Some (n - 87) else None)"

definition read_hex :: "string \<Rightarrow> nat" where
  "read_hex s = foldl (\<lambda>n c. 16 * n + (case hex_value c of Some d \<Rightarrow> d | None \<Rightarrow> 0)) 0 s"

text \<open>An exponent introduced by the letter \<open>c\<close>, if one follows.\<close>

definition read_exponent :: "char \<Rightarrow> string \<Rightarrow> int \<times> string" where
  "read_exponent c s =
     (if s \<noteq> [] \<and> to_lower (hd s) = c then
        (case read_sign (tl s) of
           (neg, t) \<Rightarrow>
             if t \<noteq> [] \<and> is_digit (hd t)
             then let n = int (read_nat (takeWhile is_digit t)) in (if neg then - n else n, dropWhile is_digit t)
             else (0, s))
      else (0, s))"

text \<open>Digits with an optional fraction: all digits, the number of them in the fraction, and the rest.\<close>

definition read_digits :: "(char \<Rightarrow> bool) \<Rightarrow> string \<Rightarrow> string \<times> nat \<times> string" where
  "read_digits isd s =
     (let a = takeWhile isd s; t = dropWhile isd s in
      if t \<noteq> [] \<and> hd t = CHR ''.'' \<and> (a \<noteq> [] \<or> (tl t \<noteq> [] \<and> isd (hd (tl t))))
      then let b = takeWhile isd (tl t) in (a @ b, length b, dropWhile isd (tl t))
      else (a, 0, t))"

definition with_sign :: "bool \<Rightarrow> rat \<Rightarrow> rat" where
  "with_sign neg x = (if neg then - x else x)"

definition prefix_ci :: "string \<Rightarrow> string \<Rightarrow> bool" where
  "prefix_ci p s \<longleftrightarrow> strcaseeq p (take (length p) s)"

definition nan_rest :: "string \<Rightarrow> string" where
  "nan_rest s =
     (let t = dropWhile (\<lambda>c. is_digit c \<or> c = CHR ''_'' \<or> (97 \<le> (of_char (to_lower c) :: nat) \<and> (of_char (to_lower c) :: nat) \<le> 122)) (tl s) in
      if s \<noteq> [] \<and> hd s = CHR ''('' \<and> t \<noteq> [] \<and> hd t = CHR '')'' then tl t else s)"

text \<open>The number at the start of a text and what follows it; the text itself where there is none.\<close>

definition strtod :: "string \<Rightarrow> dbl \<times> string" where
  "strtod s =
     (case read_sign (dropWhile is_space s) of
        (neg, t) \<Rightarrow>
          (case (read_digits (\<lambda>c. hex_value c \<noteq> None) (drop 2 t), read_digits is_digit t) of
             ((hs, hfrac, hrest), (ds, nfrac, rest)) \<Rightarrow>
               if prefix_ci ''infinity'' t then (Inf neg, drop 8 t)
               else if prefix_ci ''inf'' t then (Inf neg, drop 3 t)
               else if prefix_ci ''nan'' t then (NaN, nan_rest (drop 3 t))
               else if prefix_ci ''0x'' t \<and> hs \<noteq> [] then
                 (case read_exponent CHR ''p'' hrest of
                    (e, r) \<Rightarrow> (double_of (with_sign neg (of_nat (read_hex hs) * pow2 (e - 4 * int hfrac))), r))
               else if ds \<noteq> [] then
                 (case read_exponent CHR ''e'' rest of
                    (e, r) \<Rightarrow>
                      (double_of (with_sign neg
                         (if 0 \<le> e - int nfrac then of_nat (read_nat ds) * 10 ^ nat (e - int nfrac)
                          else of_nat (read_nat ds) / 10 ^ nat (int nfrac - e))), r))
               else (Fin 0, s)))"

lemma is_digit_not_space: "is_digit c \<Longrightarrow> \<not> is_space c"
  by (auto simp: is_digit_def is_space_def)

lemma digit_sign: "is_digit c \<Longrightarrow> c \<noteq> CHR ''-'' \<and> c \<noteq> CHR ''+''"
  by (auto simp: is_digit_def)

lemma takeWhile_digits [simp]:
  "(t = [] \<or> \<not> is_digit (hd t)) \<Longrightarrow> takeWhile is_digit (show_nat n @ t) = show_nat n"
  "(t = [] \<or> \<not> is_digit (hd t)) \<Longrightarrow> dropWhile is_digit (show_nat n @ t) = t"
  using show_nat_digits [of _ n] by (cases t; simp add: takeWhile_append dropWhile_append)+

text \<open>A decimal number is read without its leading blanks and without a sign.\<close>

lemma show_nat_start: "read_sign (dropWhile is_space (show_nat n @ t)) = (False, show_nat n @ t)"
proof -
  obtain c u where s: "show_nat n = c # u" by (metis show_nat_ne list.exhaust)
  then have "is_digit c" using show_nat_digits [of c n] by simp
  with digit_sign [of c] is_digit_not_space [of c] show ?thesis by (simp add: s read_sign_def)
qed

lemma atol_show_nat:
  assumes "n < 2 ^ 63" and "t = [] \<or> \<not> is_digit (hd t)"
  shows "atol (show_nat n @ t) = int n"
proof -
  have "int n \<le> 2 ^ 63 - 1" using assms(1) by (simp add: zless_iff_Suc_zadd)
  then show ?thesis using assms(2) by (simp add: atol_def show_nat_start read_show_nat)
qed

lemma atoi_show_nat:
  assumes "n < 2 ^ 31" and "t = [] \<or> \<not> is_digit (hd t)"
  shows "atoi (show_nat n @ t) = int n"
  using assms atol_show_nat [of n t] sint_of_nat_small [of n, where 'a = 32] by (simp add: atoi_def)

end
