(* ===== verification/Getopt.thy ===== *)
theory Getopt
  imports Cstdlib
begin

text \<open>
  \<^verbatim>\<open>getopt_long\<close> of the GNU C library, for option strings without optional arguments, and \<^verbatim>\<open>strtok\<close>. The
  scan over the arguments does not depend on what the program does with the options, so all results are given
  at once, in order, with the operands that are left. A table of long options that does not end with an empty
  entry is read up to an exact match; without one the scan runs over its end.
\<close>

datatype opt_event =
    Opt char "string option"
  | Unknown char
  | Missing char
  | Overrun

record long_option =
  lname :: string
  has_arg :: bool
  lval :: char

record getopt_cfg =
  optstring :: string
  permute :: bool
  long_options :: "long_option list"

text \<open>A leading plus ends the scan at the first operand; otherwise operands are moved to the end.\<close>

definition getopt_cfg_of :: "string \<Rightarrow> long_option list \<Rightarrow> getopt_cfg" where
  "getopt_cfg_of s lo =
     (if s \<noteq> [] \<and> hd s = CHR ''+'' then \<lparr>optstring = tl s, permute = False, long_options = lo\<rparr>
      else \<lparr>optstring = s, permute = True, long_options = lo\<rparr>)"

text \<open>Whether a letter is an option and then whether it takes an argument.\<close>

definition opt_arg :: "string \<Rightarrow> char \<Rightarrow> bool option" where
  "opt_arg s c =
     (if c = CHR '':'' \<or> c = CHR '';'' then None
      else case dropWhile (\<lambda>d. d \<noteq> c) s of [] \<Rightarrow> None | _ # t \<Rightarrow> Some (t \<noteq> [] \<and> hd t = CHR '':''))"

definition is_option :: "string \<Rightarrow> bool" where
  "is_option a \<longleftrightarrow> 2 \<le> length a \<and> hd a = CHR ''-''"

text \<open>An option of a group of letters: the result, the rest of the group and the remaining arguments.\<close>

definition short_option :: "getopt_cfg \<Rightarrow> char \<Rightarrow> string \<Rightarrow> string list \<Rightarrow> opt_event \<times> string \<times> string list" where
  "short_option G c cs rest =
     (case opt_arg (optstring G) c of
        None \<Rightarrow> (Unknown c, cs, rest)
      | Some False \<Rightarrow> (Opt c None, cs, rest)
      | Some True \<Rightarrow>
          if cs \<noteq> [] then (Opt c (Some cs), [], rest)
          else (case rest of [] \<Rightarrow> (Missing c, [], []) | b # bs \<Rightarrow> (Opt c (Some b), [], bs)))"

definition long_option :: "getopt_cfg \<Rightarrow> string \<Rightarrow> string list \<Rightarrow> opt_event \<times> string list" where
  "long_option G a rest =
     (let nm = takeWhile (\<lambda>c. c \<noteq> CHR ''='') a; eq = dropWhile (\<lambda>c. c \<noteq> CHR ''='') a in
      case List.find (\<lambda>l. lname l = nm) (long_options G) of
        None \<Rightarrow> (Overrun, [])
      | Some l \<Rightarrow>
          if eq \<noteq> [] then (if has_arg l then (Opt (lval l) (Some (tl eq)), rest) else (Unknown (lval l), rest))
          else if \<not> has_arg l then (Opt (lval l) None, rest)
          else (case rest of [] \<Rightarrow> (Missing (lval l), []) | b # bs \<Rightarrow> (Opt (lval l) (Some b), bs)))"

lemma short_option_rest:
  "short_option G c cs rest = (e, cs', rest') \<Longrightarrow> length cs' \<le> length cs \<and> length (concat rest') + length rest' \<le> length (concat rest) + length rest"
  by (auto simp: short_option_def split: option.splits bool.splits list.splits if_splits)

lemma long_option_rest:
  "long_option G a rest = (e, rest') \<Longrightarrow> length (concat rest') + length rest' \<le> length (concat rest) + length rest"
  by (auto simp: long_option_def Let_def split: option.splits list.splits if_splits)

text \<open>The scan: the letters left of a group, the arguments left, and the operands passed over.\<close>

function getopt_scan :: "getopt_cfg \<Rightarrow> string \<Rightarrow> string list \<Rightarrow> string list \<Rightarrow> opt_event list \<times> string list" where
  "getopt_scan G (c # cs) rest skipped =
     (case short_option G c cs rest of
        (e, cs', rest') \<Rightarrow> (case getopt_scan G cs' rest' skipped of (es, ops) \<Rightarrow> (e # es, ops)))"
| "getopt_scan G [] [] skipped = ([], skipped)"
| "getopt_scan G [] (a # rest) skipped =
     (if a = ''--'' then ([], skipped @ rest)
      else if \<not> is_option a then
        (if permute G then getopt_scan G [] rest (skipped @ [a]) else ([], skipped @ a # rest))
      else if take 2 a = ''--'' then
        (case long_option G (drop 2 a) rest of
           (Overrun, _) \<Rightarrow> ([Overrun], [])
         | (e, rest') \<Rightarrow> (case getopt_scan G [] rest' skipped of (es, ops) \<Rightarrow> (e # es, ops)))
      else getopt_scan G (tl a) rest skipped)"
  by pat_completeness auto
termination
  by (relation "measure (\<lambda>(G, cs, rest, skipped). length cs + length (concat rest) + length rest)")
    (auto simp: is_option_def dest!: short_option_rest [OF sym] long_option_rest [OF sym])

definition getopt_long :: "getopt_cfg \<Rightarrow> string list \<Rightarrow> opt_event list \<times> string list" where
  "getopt_long G argv = getopt_scan G [] (drop 1 argv) []"

text \<open>An option is reported without an argument only if it does not take one.\<close>

definition event_ok :: "getopt_cfg \<Rightarrow> opt_event \<Rightarrow> bool" where
  "event_ok G e = (case e of
     Opt c None \<Rightarrow> opt_arg (optstring G) c = Some False \<or> (\<exists>l\<in>set (long_options G). lval l = c \<and> \<not> has_arg l)
   | _ \<Rightarrow> True)"

lemma short_option_ok: "short_option G c cs rest = (e, cs', rest') \<Longrightarrow> event_ok G e \<and> e \<noteq> Overrun"
  by (auto simp: short_option_def event_ok_def split: option.splits bool.splits list.splits if_splits)

lemma long_option_ok: "long_option G a rest = (e, rest') \<Longrightarrow> event_ok G e"
  by (auto simp: long_option_def event_ok_def Let_def find_Some_iff split: option.splits list.splits if_splits)

lemma getopt_scan_ok: "getopt_scan G cs rest skipped = (es, ops) \<Longrightarrow> list_all (event_ok G) es"
proof (induction G cs rest skipped arbitrary: es ops rule: getopt_scan.induct)
  case (1 G c cs rest skipped)
  then show ?case by (auto split: prod.splits dest!: short_option_ok)
next
  case (3 G a rest skipped)
  then show ?case
    by (auto split: prod.splits if_splits opt_event.splits dest: long_option_ok simp: event_ok_def)
qed auto

text \<open>\<^verbatim>\<open>strtok\<close>: the next token and what follows its delimiter.\<close>

definition strtok :: "char \<Rightarrow> string \<Rightarrow> string option \<times> string" where
  "strtok d s =
     (let t = dropWhile (\<lambda>c. c = d) s in
      if t = [] then (None, []) else (Some (takeWhile (\<lambda>c. c \<noteq> d) t), drop 1 (dropWhile (\<lambda>c. c \<noteq> d) t)))"

definition strncaseeq :: "string \<Rightarrow> string \<Rightarrow> nat \<Rightarrow> bool" where
  "strncaseeq a b n \<longleftrightarrow> strcaseeq (take n a) (take n b)"

end
