(* ===== verification/Osu_Options.thy ===== *)
theory Osu_Options
  imports Getopt
begin

text \<open>
  The options of the OSU micro-benchmarks (\<^verbatim>\<open>t/osu-micro-benchmarks/util/osu_util.c\<close>, and the one-sided options
  of \<^verbatim>\<open>osu_util_mpi.c\<close>). Every benchmark sets its type and subtype and calls \<^verbatim>\<open>process_options\<close>; the rest of the
  program runs with the options this leaves. The compile-time switches for accelerators and the version of
  MPI are a record. What is written to \<^verbatim>\<open>stderr\<close> is left out.

  The lemmas show that an accepted command line leaves valid options, when the processing is undefined, and
  how message sizes are read.
\<close>

datatype accel_type = NONE | CUDA | OPENACC | MANAGED | ROCM
datatype target_type = CPU | GPU | BOTH
datatype benchmark_type = COLLECTIVE | PT2PT | ONE_SIDED | MBW_MR | OSHM | UPC | UPCXX
datatype test_subtype = BW | LAT | LAT_MT | LAT_MP | NBC
datatype test_synctype = ALL_SYNC | ACTIVE_SYNC
datatype osu_window = WIN_CREATE | WIN_ALLOCATE | WIN_DYNAMIC
datatype osu_sync = LOCK | PSCW | FENCE | FLUSH | FLUSH_LOCAL | LOCK_ALL
datatype buffer_num = SINGLE | MULTIPLE
datatype po_ret_type = PO_CUDA_NOT_AVAIL | PO_OPENACC_NOT_AVAIL | PO_BAD_USAGE | PO_HELP_MESSAGE | PO_VERSION_MESSAGE | PO_OKAY

record options_t =
  accel :: accel_type
  target :: target_type
  show_size :: bool
  show_full :: bool
  min_message_size :: u64
  max_message_size :: u64
  iterations :: u64
  iterations_large :: u64
  max_mem_limit :: u64
  skip :: u64
  skip_large :: u64
  window_size_large :: u64
  num_probes :: int
  device_array_size :: int
  bench :: benchmark_type
  subtype :: test_subtype
  synctype :: test_synctype
  src_type :: char
  dst_type :: char
  MMsrc :: char
  MMdst :: char
  num_threads :: int
  sender_thread :: int
  num_processes :: int
  sender_processes :: int
  managedSend :: char
  managedRecv :: char
  win :: osu_window
  sync :: osu_sync
  window_size :: int
  window_varied :: bool
  print_rate :: int
  pairs :: int
  validate :: int
  buf_num :: buffer_num

record bad_usage_t =
  bad_message :: "string option"
  badarg :: "string option"
  badopt :: char

record build =
  CUDA_ENABLED :: bool
  OPENACC_ENABLED :: bool
  ROCM_ENABLED :: bool
  CUDA_KERNEL_ENABLED :: bool
  MPI_VERSION_3 :: bool

record po_state =
  po_opts :: options_t
  po_bad :: bad_usage_t

subsection \<open>Constants\<close>

definition MIN_NUM_THREADS :: int where "MIN_NUM_THREADS = 1"
definition MAX_NUM_THREADS :: int where "MAX_NUM_THREADS = 128"
definition DEF_NUM_THREADS :: int where "DEF_NUM_THREADS = 2"
definition MIN_NUM_PROCESSES :: int where "MIN_NUM_PROCESSES = 1"
definition MAX_NUM_PROCESSES :: int where "MAX_NUM_PROCESSES = 128"
definition DEF_NUM_PROCESSES :: int where "DEF_NUM_PROCESSES = 2"
definition MAX_MESSAGE_SIZE :: u64 where "MAX_MESSAGE_SIZE = push_bit 22 1"
definition MAX_MSG_SIZE_COLL :: u64 where "MAX_MSG_SIZE_COLL = push_bit 20 1"
definition MIN_MESSAGE_SIZE :: u64 where "MIN_MESSAGE_SIZE = 1"
definition MAX_MEM_LIMIT :: int where "MAX_MEM_LIMIT = 512 * 1024 * 1024"
definition MAX_MEM_LOWER_LIMIT :: int where "MAX_MEM_LOWER_LIMIT = 1 * 1024 * 1024"
definition WINDOW_SIZE_LARGE :: int where "WINDOW_SIZE_LARGE = 64"

subsection \<open>Setters\<close>

text \<open>A setter returns 0, or -1 for a value it refuses, and the options it leaves.\<close>

definition set_min_message_size :: "int \<Rightarrow> options_t \<Rightarrow> int \<times> options_t" where
  "set_min_message_size v opts = (if 0 \<ge> v then (-1, opts) else (0, opts\<lparr>min_message_size := word_of_int v\<rparr>))"

definition set_max_message_size :: "int \<Rightarrow> options_t \<Rightarrow> int \<times> options_t" where
  "set_max_message_size v opts = (if 0 > v then (-1, opts) else (0, opts\<lparr>max_message_size := word_of_int v\<rparr>))"

text \<open>The text is cut at its first token by \<^verbatim>\<open>strtok\<close>; the text that is left is returned too.\<close>

definition cut_token :: "string \<Rightarrow> string" where
  "cut_token s = takeWhile (\<lambda>c. c = CHR '':'') s @ takeWhile (\<lambda>c. c \<noteq> CHR '':'') (dropWhile (\<lambda>c. c = CHR '':'') s)"

definition set_message_size :: "string \<Rightarrow> options_t \<Rightarrow> int \<times> options_t \<times> string" where
  "set_message_size s opts =
     (let count = length (filter (\<lambda>c. c = CHR '':'') s) in
      if count = 0 then (case set_max_message_size (atol s) opts of (r, opts) \<Rightarrow> (r, opts, s))
      else if count = 1 then
        (case strtok CHR '':'' s of
           (None, _) \<Rightarrow> (-1, opts, s)
         | (Some v1, rest) \<Rightarrow>
             (case strtok CHR '':'' rest of
                (Some v2, _) \<Rightarrow>
                  (case set_min_message_size (atol v1) opts of
                     (_, opts) \<Rightarrow> (case set_max_message_size (atol v2) opts of (r, opts) \<Rightarrow> (r, opts, cut_token s)))
              | (None, _) \<Rightarrow>
                  (case (if char_at s 0 = CHR '':'' then set_max_message_size (atol v1) opts
                         else set_min_message_size (atol v1) opts) of (r, opts) \<Rightarrow> (r, opts, cut_token s))))
      else (-1, opts, s))"

definition set_receiver_threads :: "int \<Rightarrow> options_t \<Rightarrow> int \<times> options_t" where
  "set_receiver_threads v opts =
     (if MIN_NUM_THREADS > v \<or> v \<ge> MAX_NUM_THREADS then (-1, opts) else (0, opts\<lparr>num_threads := v\<rparr>))"

definition set_sender_threads :: "int \<Rightarrow> options_t \<Rightarrow> int \<times> options_t" where
  "set_sender_threads v opts =
     (if MIN_NUM_THREADS > v \<or> v \<ge> MAX_NUM_THREADS then (-1, opts) else (0, opts\<lparr>sender_thread := v\<rparr>))"

definition set_threads :: "string \<Rightarrow> options_t \<Rightarrow> int \<times> options_t \<times> string" where
  "set_threads s opts =
     (let count = length (filter (\<lambda>c. c = CHR '':'') s) in
      if count = 0 then
        (case set_receiver_threads (atoi s) opts of (r, opts) \<Rightarrow> (r, opts\<lparr>sender_thread := -1\<rparr>, s))
      else if count = 1 then
        (case strtok CHR '':'' s of
           (Some v1, rest) \<Rightarrow>
             (case strtok CHR '':'' rest of
                (Some v2, _) \<Rightarrow>
                  (case set_sender_threads (atoi v1) opts of
                     (r, opts) \<Rightarrow>
                       if r = -1 then (r, opts, cut_token s)
                       else (case set_receiver_threads (atoi v2) opts of (r, opts) \<Rightarrow> (r, opts, cut_token s)))
              | (None, _) \<Rightarrow> (-1, opts, cut_token s))
         | (None, _) \<Rightarrow> (-1, opts, s))
      else (-1, opts, s))"

definition set_receiver_processes :: "int \<Rightarrow> options_t \<Rightarrow> int \<times> options_t" where
  "set_receiver_processes v opts =
     (if MIN_NUM_PROCESSES > v \<or> v \<ge> MAX_NUM_PROCESSES then (-1, opts) else (0, opts\<lparr>num_processes := v\<rparr>))"

definition set_sender_processes :: "int \<Rightarrow> options_t \<Rightarrow> int \<times> options_t" where
  "set_sender_processes v opts =
     (if MIN_NUM_PROCESSES > v \<or> v \<ge> MAX_NUM_PROCESSES then (-1, opts) else (0, opts\<lparr>sender_processes := v\<rparr>))"

definition set_processes :: "string \<Rightarrow> options_t \<Rightarrow> int \<times> options_t \<times> string" where
  "set_processes s opts =
     (let count = length (filter (\<lambda>c. c = CHR '':'') s) in
      if count = 0 then
        (case set_receiver_processes (atoi s) opts of (r, opts) \<Rightarrow> (r, opts\<lparr>sender_processes := -1\<rparr>, s))
      else if count = 1 then
        (case strtok CHR '':'' s of
           (Some v1, rest) \<Rightarrow>
             (case strtok CHR '':'' rest of
                (Some v2, _) \<Rightarrow>
                  (case set_sender_processes (atoi v1) opts of
                     (r, opts) \<Rightarrow>
                       if r = -1 then (r, opts, cut_token s)
                       else (case set_receiver_processes (atoi v2) opts of (r, opts) \<Rightarrow> (r, opts, cut_token s)))
              | (None, _) \<Rightarrow> (-1, opts, cut_token s))
         | (None, _) \<Rightarrow> (-1, opts, s))
      else (-1, opts, s))"

definition set_num_warmup :: "int \<Rightarrow> options_t \<Rightarrow> int \<times> options_t" where
  "set_num_warmup v opts =
     (if 0 > v then (-1, opts) else (0, opts\<lparr>skip := word_of_int v, skip_large := word_of_int v\<rparr>))"

definition set_num_iterations :: "int \<Rightarrow> options_t \<Rightarrow> int \<times> options_t" where
  "set_num_iterations v opts =
     (if 1 > v then (-1, opts) else (0, opts\<lparr>iterations := word_of_int v, iterations_large := word_of_int v\<rparr>))"

definition set_validate :: "int \<Rightarrow> options_t \<Rightarrow> int \<times> options_t" where
  "set_validate v opts = (if v < 0 \<or> v > 1 then (-1, opts) else (0, opts\<lparr>validate := v\<rparr>))"

definition set_window_size :: "int \<Rightarrow> options_t \<Rightarrow> int \<times> options_t" where
  "set_window_size v opts = (if 1 > v then (-1, opts) else (0, opts\<lparr>window_size := v\<rparr>))"

definition set_device_array_size :: "int \<Rightarrow> options_t \<Rightarrow> int \<times> options_t" where
  "set_device_array_size v opts = (if v < 1 then (-1, opts) else (0, opts\<lparr>device_array_size := v\<rparr>))"

definition set_num_probes :: "int \<Rightarrow> options_t \<Rightarrow> int \<times> options_t" where
  "set_num_probes v opts = (if v < 0 then (-1, opts) else (0, opts\<lparr>num_probes := v\<rparr>))"

definition set_max_memlimit :: "int \<Rightarrow> options_t \<Rightarrow> int \<times> options_t" where
  "set_max_memlimit v opts =
     (let opts = opts\<lparr>max_mem_limit := word_of_int v\<rparr> in
      (0, if v < MAX_MEM_LOWER_LIMIT then opts\<lparr>max_mem_limit := word_of_int MAX_MEM_LOWER_LIMIT\<rparr> else opts))"

text \<open>The setters of the window and the synchronization of the one-sided benchmarks.\<close>

definition process_one_sided_options :: "build \<Rightarrow> char \<Rightarrow> string \<Rightarrow> options_t \<Rightarrow> po_ret_type \<times> options_t" where
  "process_one_sided_options B opt arg opts =
     (if opt = CHR ''w'' then
        (if MPI_VERSION_3 B \<and> strcaseeq arg ''create'' then (PO_OKAY, opts\<lparr>win := WIN_CREATE\<rparr>)
         else if MPI_VERSION_3 B \<and> strcaseeq arg ''allocate'' then (PO_OKAY, opts\<lparr>win := WIN_ALLOCATE\<rparr>)
         else if MPI_VERSION_3 B \<and> strcaseeq arg ''dynamic'' then (PO_OKAY, opts\<lparr>win := WIN_DYNAMIC\<rparr>)
         else (PO_BAD_USAGE, opts))
      else if opt = CHR ''s'' then
        (if strcaseeq arg ''pscw'' then (PO_OKAY, opts\<lparr>sync := PSCW\<rparr>)
         else if strcaseeq arg ''fence'' then (PO_OKAY, opts\<lparr>sync := FENCE\<rparr>)
         else if synctype opts = ALL_SYNC then
           (if strcaseeq arg ''lock'' then (PO_OKAY, opts\<lparr>sync := LOCK\<rparr>)
            else if MPI_VERSION_3 B \<and> strcaseeq arg ''flush'' then (PO_OKAY, opts\<lparr>sync := FLUSH\<rparr>)
            else if MPI_VERSION_3 B \<and> strcaseeq arg ''flush_local'' then (PO_OKAY, opts\<lparr>sync := FLUSH_LOCAL\<rparr>)
            else if MPI_VERSION_3 B \<and> strcaseeq arg ''lock_all'' then (PO_OKAY, opts\<lparr>sync := LOCK_ALL\<rparr>)
            else (PO_BAD_USAGE, opts))
         else (PO_BAD_USAGE, opts))
      else (PO_BAD_USAGE, opts))"

subsection \<open>Option strings and defaults\<close>

definition enable_accel_support :: "build \<Rightarrow> options_t \<Rightarrow> bool" where
  "enable_accel_support B opts \<longleftrightarrow>
     (CUDA_ENABLED B \<or> OPENACC_ENABLED B \<or> ROCM_ENABLED B) \<and> \<not> (subtype opts = LAT_MT \<or> subtype opts = LAT_MP)"

text \<open>The table of long options; it has no empty entry at its end.\<close>

definition osu_long_options :: "long_option list" where
  "osu_long_options = map (\<lambda>(n, a, v). \<lparr>lname = n, has_arg = a, lval = v\<rparr>)
    [(''help'', False, CHR ''h''), (''version'', False, CHR ''v''), (''full'', False, CHR ''f''),
     (''message-size'', True, CHR ''m''), (''window-size'', True, CHR ''W''), (''num-test-calls'', True, CHR ''t''),
     (''iterations'', True, CHR ''i''), (''warmup'', True, CHR ''x''), (''array-size'', True, CHR ''a''),
     (''sync-option'', True, CHR ''s''), (''win-options'', True, CHR ''w''), (''mem-limit'', True, CHR ''M''),
     (''accelerator'', True, CHR ''d''), (''cuda-target'', True, CHR ''r''), (''print-rate'', True, CHR ''R''),
     (''num-pairs'', True, CHR ''p''), (''vary-window'', True, CHR ''V''), (''validation'', True, CHR ''c''),
     (''buffer-num'', True, CHR ''b'')]"

definition osu_optstring :: "build \<Rightarrow> options_t \<Rightarrow> string" where
  "osu_optstring B opts =
     (let acc = enable_accel_support B opts; b = bench opts; t = subtype opts in
      if b = PT2PT then
        (if acc then (if t = BW then ''+:x:i:t:m:d:W:hvb'' else ''+:x:i:m:d:hv'')
         else if t = LAT_MT then ''+:hvm:x:i:t:''
         else if t = LAT_MP then ''+:hvm:x:i:t:''
         else if t = BW then ''+:hvm:x:i:t:W:b:''
         else ''+:hvm:x:i:b:'')
      else if b = COLLECTIVE then
        (if t = LAT then
           (if acc then (if CUDA_KERNEL_ENABLED B then ''+:d:hvfm:i:x:M:r:a:c:'' else ''+:d:hvfm:i:x:M:a:c:'')
            else ''+:hvfm:i:x:M:a:c:'')
         else
           (if acc then (if CUDA_KERNEL_ENABLED B then ''+:d:hvfm:i:x:M:t:r:a:c:'' else ''+:d:hvfm:i:x:M:t:a:c:'')
            else ''+:hvfm:i:x:M:t:a:c''))
      else if b = ONE_SIDED then
        (if t = BW then (if acc then ''+:w:s:hvm:d:x:i:W:'' else ''+:w:s:hvm:x:i:W:'')
         else (if acc then ''+:w:s:hvm:d:x:i:'' else ''+:w:s:hvm:x:i:''))
      else if b = MBW_MR then (if acc then ''p:W:R:x:i:m:d:Vhvb:'' else ''p:W:R:x:i:m:Vhvb:'')
      else '':hvfm:i:M:'')"

definition set_loops :: "u64 \<Rightarrow> u64 \<Rightarrow> u64 \<Rightarrow> u64 \<Rightarrow> options_t \<Rightarrow> options_t" where
  "set_loops its sk its_large sk_large opts =
     opts\<lparr>iterations := its, skip := sk, iterations_large := its_large, skip_large := sk_large\<rparr>"

definition common_defaults :: "options_t \<Rightarrow> options_t" where
  "common_defaults opts = opts\<lparr>accel := NONE, show_size := True, show_full := False, num_probes := 0,
     device_array_size := 32, target := CPU, min_message_size := MIN_MESSAGE_SIZE,
     max_message_size := (if bench opts = COLLECTIVE then MAX_MSG_SIZE_COLL else MAX_MESSAGE_SIZE),
     max_mem_limit := word_of_int MAX_MEM_LIMIT, window_size_large := word_of_int WINDOW_SIZE_LARGE,
     window_size := WINDOW_SIZE_LARGE, window_varied := False, print_rate := 1, validate := 0, buf_num := SINGLE,
     src_type := CHR ''H'', dst_type := CHR ''H''\<rparr>"

text \<open>The cases of the multithreaded and the multiprocess test fall through to those after them.\<close>

definition latency_defaults :: "options_t \<Rightarrow> options_t" where
  "latency_defaults opts =
     (let opts = (if bench opts = COLLECTIVE then set_loops 1000 100 100 10 opts else set_loops 10000 100 1000 10 opts) in
      if bench opts = PT2PT then opts\<lparr>min_message_size := 0\<rparr> else opts)"

definition process_defaults :: "options_t \<Rightarrow> options_t" where
  "process_defaults opts =
     latency_defaults (opts\<lparr>num_processes := DEF_NUM_PROCESSES, min_message_size := 0, sender_processes := DEF_NUM_PROCESSES\<rparr>)"

definition subtype_defaults :: "options_t \<Rightarrow> options_t" where
  "subtype_defaults opts =
     (case subtype opts of
        BW \<Rightarrow> set_loops 100 10 20 2 opts
      | LAT_MT \<Rightarrow> process_defaults (opts\<lparr>num_threads := DEF_NUM_THREADS, min_message_size := 0, sender_thread := -1\<rparr>)
      | LAT_MP \<Rightarrow> process_defaults opts
      | _ \<Rightarrow> latency_defaults opts)"

definition bench_defaults :: "options_t \<Rightarrow> options_t" where
  "bench_defaults opts =
     (case bench opts of
        OSHM \<Rightarrow> (set_loops 1000 200 100 10 opts)\<lparr>max_message_size := push_bit 20 1\<rparr>
      | UPC \<Rightarrow> (set_loops 1000 200 100 10 (opts\<lparr>show_size := False\<rparr>))\<lparr>max_message_size := push_bit 20 1\<rparr>
      | UPCXX \<Rightarrow> (set_loops 1000 200 100 10 (opts\<lparr>show_size := False\<rparr>))\<lparr>max_message_size := push_bit 20 1\<rparr>
      | _ \<Rightarrow> opts)"

definition default_options :: "options_t \<Rightarrow> options_t" where
  "default_options opts = bench_defaults (subtype_defaults (common_defaults opts))"

subsection \<open>Processing\<close>

type_synonym step = "po_ret_type option \<times> po_state"

definition bad_usage :: "string \<Rightarrow> string option \<Rightarrow> po_state \<Rightarrow> step prog" where
  "bad_usage msg arg st = Return (Some PO_BAD_USAGE, st\<lparr>po_bad := (po_bad st)\<lparr>bad_message := Some msg, badarg := arg\<rparr>\<rparr>)"

text \<open>A use of the argument: a null pointer where the option has none.\<close>

definition with_arg :: "string option \<Rightarrow> (string \<Rightarrow> step prog) \<Rightarrow> step prog" where
  "with_arg arg f = (case arg of None \<Rightarrow> Undefined | Some s \<Rightarrow> f s)"

definition checked_set :: "string \<Rightarrow> string \<Rightarrow> int \<times> options_t \<Rightarrow> po_state \<Rightarrow> step prog" where
  "checked_set msg arg r st =
     (case r of (rc, os) \<Rightarrow>
        if rc \<noteq> 0 then bad_usage msg (Some arg) (st\<lparr>po_opts := os\<rparr>) else Return (None, st\<lparr>po_opts := os\<rparr>))"

definition set_accelerator :: "build \<Rightarrow> bool \<Rightarrow> string option \<Rightarrow> po_state \<Rightarrow> step prog" where
  "set_accelerator B acc arg st =
     (if \<not> acc then bad_usage ''Benchmark Does Not Support Accelerator Transfers'' arg st
      else with_arg arg (\<lambda>s.
        let set = (\<lambda>on a msg. if on then Return (None, st\<lparr>po_opts := (po_opts st)\<lparr>accel := a\<rparr>\<rparr>) else bad_usage msg arg st) in
        if strncaseeq s ''cuda'' 10 then
          set (CUDA_ENABLED B) CUDA (''CUDA Support Not Enabled'' @ [CHR 0x0A] @ ''Please recompile benchmark with CUDA support'')
        else if strncaseeq s ''managed'' 10 then
          set (CUDA_ENABLED B) MANAGED
            (''CUDA Managed Memory Support Not Enabled'' @ [CHR 0x0A] @ ''Please recompile benchmark with CUDA support'')
        else if strncaseeq s ''openacc'' 10 then
          set (OPENACC_ENABLED B) OPENACC
            (''OpenACC Support Not Enabled'' @ [CHR 0x0A] @ ''Please recompile benchmark with OpenACC support'')
        else if strncaseeq s ''rocm'' 10 then
          set (ROCM_ENABLED B) ROCM (''ROCm Support Not Enabled'' @ [CHR 0x0A] @ ''Please recompile benchmark with ROCm support'')
        else bad_usage ''Invalid Accel Type Specified'' arg st))"

definition set_target :: "build \<Rightarrow> string option \<Rightarrow> po_state \<Rightarrow> step prog" where
  "set_target B arg st =
     (if CUDA_KERNEL_ENABLED B then with_arg arg (\<lambda>s.
        if strncaseeq s ''cpu'' 10 then Return (None, st\<lparr>po_opts := (po_opts st)\<lparr>target := CPU\<rparr>\<rparr>)
        else if strncaseeq s ''gpu'' 10 then Return (None, st\<lparr>po_opts := (po_opts st)\<lparr>target := GPU\<rparr>\<rparr>)
        else if strncaseeq s ''both'' 10 then Return (None, st\<lparr>po_opts := (po_opts st)\<lparr>target := BOTH\<rparr>\<rparr>)
        else bad_usage ''Please use cpu, gpu, or both'' arg st)
      else bad_usage (''CUDA Kernel Support Not Enabled'' @ [CHR 0x0A] @ ''Please recompile benchmark with CUDA Kernel support'') arg st)"

definition set_test_calls :: "string option \<Rightarrow> po_state \<Rightarrow> step prog" where
  "set_test_calls arg st =
     (if bench (po_opts st) = COLLECTIVE then
        with_arg arg (\<lambda>s. checked_set ''Invalid Number of Probes'' s (set_num_probes (atoi s) (po_opts st)) st)
      else if bench (po_opts st) = PT2PT \<and> subtype (po_opts st) = LAT_MT then
        with_arg arg (\<lambda>s. case set_threads s (po_opts st) of
          (rc, os, s') \<Rightarrow> checked_set ''Invalid Number of Threads'' s' (rc, os) st)
      else if bench (po_opts st) = PT2PT \<and> subtype (po_opts st) = LAT_MP then
        with_arg arg (\<lambda>s. case set_processes s (po_opts st) of
          (rc, os, s') \<Rightarrow> checked_set ''Invalid Number of Processes'' s' (rc, os) st)
      else Return (None, st))"

text \<open>
  The switch of the loop, for an option letter and its argument. An invalid argument of the validation
  option only leaves a message.
\<close>

definition handle_option :: "build \<Rightarrow> bool \<Rightarrow> char \<Rightarrow> string option \<Rightarrow> po_state \<Rightarrow> step prog" where
  "handle_option B acc c arg st =
     (if c = CHR ''h'' then Return (Some PO_HELP_MESSAGE, st)
      else if c = CHR ''v'' then Return (Some PO_VERSION_MESSAGE, st)
      else if c = CHR ''m'' then with_arg arg (\<lambda>s. case set_message_size s (po_opts st) of
        (rc, os, s') \<Rightarrow> checked_set ''Invalid Message Size'' s' (rc, os) st)
      else if c = CHR ''t'' then set_test_calls arg st
      else if c = CHR ''i'' then with_arg arg (\<lambda>s.
        checked_set ''Invalid Number of Iterations'' s (set_num_iterations (atoi s) (po_opts st)) st)
      else if c = CHR ''x'' then with_arg arg (\<lambda>s.
        checked_set ''Invalid Number of Warmup Iterations'' s (set_num_warmup (atoi s) (po_opts st)) st)
      else if c = CHR ''R'' then with_arg arg (\<lambda>s.
        Return (if atoi s \<noteq> 0 \<and> atoi s \<noteq> 1 then Some PO_BAD_USAGE else None, st\<lparr>po_opts := (po_opts st)\<lparr>print_rate := atoi s\<rparr>\<rparr>))
      else if c = CHR ''W'' then with_arg arg (\<lambda>s.
        checked_set ''Invalid Window Size'' s (set_window_size (atoi s) (po_opts st)) st)
      else if c = CHR ''V'' then Return (None, st\<lparr>po_opts := (po_opts st)\<lparr>window_varied := True\<rparr>\<rparr>)
      else if c = CHR ''p'' then with_arg arg (\<lambda>s. Return (None, st\<lparr>po_opts := (po_opts st)\<lparr>pairs := atoi s\<rparr>\<rparr>))
      else if c = CHR ''a'' then with_arg arg (\<lambda>s.
        checked_set ''Invalid Device Array Size'' s (set_device_array_size (atoi s) (po_opts st)) st)
      else if c = CHR ''f'' then Return (None, st\<lparr>po_opts := (po_opts st)\<lparr>show_full := True\<rparr>\<rparr>)
      else if c = CHR ''M'' then with_arg arg (\<lambda>s. Return (None, st\<lparr>po_opts := snd (set_max_memlimit (atol s) (po_opts st))\<rparr>))
      else if c = CHR ''d'' then set_accelerator B acc arg st
      else if c = CHR ''r'' then set_target B arg st
      else if c = CHR ''w'' \<or> c = CHR ''s'' then with_arg arg (\<lambda>s.
        case process_one_sided_options B c s (po_opts st) of
          (ret, os) \<Rightarrow> if ret = PO_BAD_USAGE then bad_usage ''Invalid option or invalid argument'' arg (st\<lparr>po_opts := os\<rparr>)
                      else Return (None, st\<lparr>po_opts := os\<rparr>))
      else if c = CHR ''c'' then with_arg arg (\<lambda>s. case set_validate (atoi s) (po_opts st) of
        (rc, os) \<Rightarrow> Return (None, st\<lparr>po_opts := os, po_bad := (po_bad st)\<lparr>bad_message := if rc \<noteq> 0 then Some ''Invalid option or invalid argument'' else None\<rparr>\<rparr>))
      else if c = CHR ''b'' then with_arg arg (\<lambda>s.
        if strncaseeq s ''single'' 10 then Return (None, st\<lparr>po_opts := (po_opts st)\<lparr>buf_num := SINGLE\<rparr>\<rparr>)
        else if strncaseeq s ''multiple'' 10 then Return (None, st\<lparr>po_opts := (po_opts st)\<lparr>buf_num := MULTIPLE\<rparr>\<rparr>)
        else bad_usage ''Please use 'single' or 'multiple' for buffer type'' arg st)
      else Return (Some PO_BAD_USAGE, st\<lparr>po_bad := (po_bad st)\<lparr>bad_message := Some ''Invalid option''\<rparr>\<rparr>))"

text \<open>
  One pass of the loop. Without a leading colon in the option string a missing argument is reported like an
  unknown option. An option of the table that the switch does not know reports the letter \<^verbatim>\<open>optopt\<close> has.
\<close>

definition option_step :: "build \<Rightarrow> bool \<Rightarrow> bool \<Rightarrow> opt_event \<Rightarrow> po_state \<Rightarrow> step prog" where
  "option_step B acc colon e st =
     (case e of
        Opt c arg \<Rightarrow> handle_option B acc c arg (st\<lparr>po_bad := \<lparr>bad_message = None, badarg = None, badopt = c\<rparr>\<rparr>)
      | Unknown c \<Rightarrow> Return (Some PO_BAD_USAGE, st\<lparr>po_bad := \<lparr>bad_message = Some ''Invalid option'', badarg = None, badopt = c\<rparr>\<rparr>)
      | Missing c \<Rightarrow> Return (Some PO_BAD_USAGE, st\<lparr>po_bad := \<lparr>bad_message =
          Some (if colon then ''Option Missing Required Argument'' else ''Invalid option''), badarg = None, badopt = c\<rparr>\<rparr>)
      | Overrun \<Rightarrow> Undefined)"

primrec option_loop :: "build \<Rightarrow> bool \<Rightarrow> bool \<Rightarrow> opt_event list \<Rightarrow> po_state \<Rightarrow> step prog" where
  "option_loop B acc colon [] st = Return (None, st)"
| "option_loop B acc colon (e # es) st =
     bind_prog (option_step B acc colon e st) (\<lambda>(r, st).
       case r of None \<Rightarrow> option_loop B acc colon es st | Some ret \<Rightarrow> Return (Some ret, st))"

definition setAccel :: "build \<Rightarrow> char \<Rightarrow> po_state \<Rightarrow> po_ret_type \<times> po_state" where
  "setAccel B buf_type st =
     (if buf_type = CHR ''H'' then (PO_OKAY, st)
      else if buf_type = CHR ''M'' \<or> buf_type = CHR ''D'' then
        (let st = (if buf_type = CHR ''M'' then st\<lparr>po_opts := (po_opts st)\<lparr>buf_num := MULTIPLE\<rparr>\<rparr> else st) in
         if bench (po_opts st) \<noteq> PT2PT \<and> bench (po_opts st) \<noteq> ONE_SIDED \<and> bench (po_opts st) \<noteq> MBW_MR then
           (PO_BAD_USAGE, st\<lparr>po_bad := (po_bad st)\<lparr>badopt := buf_type,
              bad_message := Some ''This argument is only supported for one-sided and pt2pt benchmarks''\<rparr>\<rparr>)
         else if accel (po_opts st) = NONE then
           (PO_OKAY, st\<lparr>po_opts := (po_opts st)\<lparr>accel :=
              if OPENACC_ENABLED B \<and> \<not> CUDA_ENABLED B then OPENACC
              else if CUDA_ENABLED B then CUDA else if ROCM_ENABLED B then ROCM else accel (po_opts st)\<rparr>\<rparr>)
         else (PO_OKAY, st))
      else (PO_BAD_USAGE, st))"

text \<open>
  The location of managed memory from the second letter of an operand, or \<open>None\<close> for a bad one.
\<close>

definition managed_location :: "build \<Rightarrow> string \<Rightarrow> char option" where
  "managed_location B s =
     (if \<not> CUDA_KERNEL_ENABLED B then None
      else if char_at s 1 = NUL then Some CHR ''H''
      else if char_at s 1 = CHR ''D'' \<or> char_at s 1 = CHR ''H'' then Some (char_at s 1)
      else None)"

definition set_src :: "build \<Rightarrow> string \<Rightarrow> po_state \<Rightarrow> bool \<times> po_state" where
  "set_src B a st =
     (let st = st\<lparr>po_opts := (po_opts st)\<lparr>src_type := char_at a 0\<rparr>\<rparr> in
      if char_at a 0 \<noteq> CHR ''M'' then (True, st)
      else case managed_location B a of
        Some l \<Rightarrow> (True, st\<lparr>po_opts := (po_opts st)\<lparr>MMsrc := l\<rparr>\<rparr>)
      | None \<Rightarrow> (False, if CUDA_KERNEL_ENABLED B then st\<lparr>po_opts := (po_opts st)\<lparr>MMsrc := char_at a 1\<rparr>\<rparr> else st))"

definition set_dst :: "build \<Rightarrow> string \<Rightarrow> po_state \<Rightarrow> bool \<times> po_state" where
  "set_dst B a st =
     (let st = st\<lparr>po_opts := (po_opts st)\<lparr>dst_type := char_at a 0\<rparr>\<rparr> in
      if char_at a 0 \<noteq> CHR ''M'' then (True, st)
      else case managed_location B a of
        Some l \<Rightarrow> (True, st\<lparr>po_opts := (po_opts st)\<lparr>MMdst := l\<rparr>\<rparr>)
      | None \<Rightarrow> (False, if CUDA_KERNEL_ENABLED B then st\<lparr>po_opts := (po_opts st)\<lparr>MMdst := char_at a 1\<rparr>\<rparr> else st))"

text \<open>What \<^verbatim>\<open>setAccel\<close> returns for the two operands is not looked at.\<close>

definition process_operands :: "build \<Rightarrow> bool \<Rightarrow> string list \<Rightarrow> po_state \<Rightarrow> po_ret_type \<times> po_state" where
  "process_operands B acc ops st =
     (if \<not> acc then (PO_OKAY, st)
      else case ops of
        [a, b] \<Rightarrow>
          (case set_src B a st of (ok, st) \<Rightarrow>
             if \<not> ok then (PO_BAD_USAGE, st)
             else (case set_dst B b st of (ok, st) \<Rightarrow>
                     if \<not> ok then (PO_BAD_USAGE, st)
                     else (PO_OKAY, if accel (po_opts st) = NONE
                             then snd (setAccel B (char_at b 0) (snd (setAccel B (char_at a 0) st))) else st)))
      | [] \<Rightarrow> (PO_OKAY, st)
      | _ \<Rightarrow> (PO_BAD_USAGE, st))"

definition process_options :: "build \<Rightarrow> string list \<Rightarrow> po_state \<Rightarrow> (po_ret_type \<times> po_state) prog" where
  "process_options B argv st =
     (let acc = enable_accel_support B (po_opts st);
          s = osu_optstring B (po_opts st);
          G = getopt_cfg_of s osu_long_options;
          (es, ops) = getopt_long G argv in
      bind_prog (option_loop B acc (optstring G \<noteq> [] \<and> hd (optstring G) = CHR '':'') es (st\<lparr>po_opts := default_options (po_opts st)\<rparr>))
        (\<lambda>(r, st). case r of Some ret \<Rightarrow> Return (ret, st) | None \<Rightarrow> Return (process_operands B acc ops st)))"

subsection \<open>Valid options\<close>

definition opts_ok :: "options_t \<Rightarrow> bool" where
  "opts_ok os \<longleftrightarrow>
     1 \<le> window_size os \<and> 1 \<le> device_array_size os \<and> 0 \<le> num_probes os \<and> validate os \<in> {0, 1} \<and> print_rate os \<in> {0, 1}
     \<and> 2 ^ 20 \<le> unat (max_mem_limit os) \<and> unat (min_message_size os) < 2 ^ 63 \<and> unat (max_message_size os) < 2 ^ 63
     \<and> 0 < unat (iterations os) \<and> unat (iterations os) < 2 ^ 31 \<and> 0 < unat (iterations_large os) \<and> unat (iterations_large os) < 2 ^ 31
     \<and> unat (skip os) < 2 ^ 31 \<and> unat (skip_large os) < 2 ^ 31
     \<and> (subtype os = LAT_MT \<longrightarrow> num_threads os \<in> {1..<128} \<and> sender_thread os \<in> {-1} \<union> {1..<128})
     \<and> (subtype os \<in> {LAT_MT, LAT_MP} \<longrightarrow> num_processes os \<in> {1..<128} \<and> sender_processes os \<in> {-1} \<union> {1..<128})"

definition same_test :: "options_t \<Rightarrow> options_t \<Rightarrow> bool" where
  "same_test os os' \<longleftrightarrow> bench os' = bench os \<and> subtype os' = subtype os \<and> synctype os' = synctype os"

lemma atoi_range: "- (2 ^ 31) \<le> atoi s" "atoi s < 2 ^ 31"
  using sint_range_size [of "word_of_int (atol s) :: u32"] by (simp_all add: atoi_def word_size)

lemma atol_range: "- (2 ^ 63) \<le> atol s" "atol s < 2 ^ 63"
  by (auto simp: atol_def Let_def split: prod.split)

lemma unat_of_size [simp]:
  assumes "0 \<le> v" "v < 9223372036854775808" shows "unat (word_of_int v :: u64) = nat v"
  using assms by (simp add: unat_eq_nat_uint uint_word_of_int)

named_theorems keeps_options

definition options_kept :: "options_t \<Rightarrow> options_t \<Rightarrow> bool" where
  "options_kept os os' \<longleftrightarrow> (opts_ok os \<longrightarrow> opts_ok os') \<and> same_test os os'"

lemma options_kept_refl [simp]: "options_kept os os"
  by (simp add: options_kept_def same_test_def)

lemma options_kept_trans: "options_kept a b \<Longrightarrow> options_kept b c \<Longrightarrow> options_kept a c"
  by (auto simp: options_kept_def same_test_def)

lemmas kept_defs = options_kept_def opts_ok_def same_test_def

lemma set_min_message_size_keeps [keeps_options]: "v < 2 ^ 63 \<Longrightarrow> options_kept os (snd (set_min_message_size v os))"
  by (cases "0 < v") (simp_all add: set_min_message_size_def kept_defs nat_less_iff)

lemma set_max_message_size_keeps [keeps_options]: "v < 2 ^ 63 \<Longrightarrow> options_kept os (snd (set_max_message_size v os))"
  by (cases "0 \<le> v") (simp_all add: set_max_message_size_def kept_defs nat_less_iff)

lemma set_receiver_threads_keeps [keeps_options]: "options_kept os (snd (set_receiver_threads v os))"
  by (simp add: set_receiver_threads_def kept_defs MIN_NUM_THREADS_def MAX_NUM_THREADS_def)

lemma set_sender_threads_keeps [keeps_options]: "options_kept os (snd (set_sender_threads v os))"
  by (simp add: set_sender_threads_def kept_defs MIN_NUM_THREADS_def MAX_NUM_THREADS_def)

lemma set_receiver_processes_keeps [keeps_options]: "options_kept os (snd (set_receiver_processes v os))"
  by (simp add: set_receiver_processes_def kept_defs MIN_NUM_PROCESSES_def MAX_NUM_PROCESSES_def)

lemma set_sender_processes_keeps [keeps_options]: "options_kept os (snd (set_sender_processes v os))"
  by (simp add: set_sender_processes_def kept_defs MIN_NUM_PROCESSES_def MAX_NUM_PROCESSES_def)

lemma set_num_warmup_keeps [keeps_options]: "v < 2 ^ 31 \<Longrightarrow> options_kept os (snd (set_num_warmup v os))"
  by (cases "0 \<le> v") (simp_all add: set_num_warmup_def kept_defs nat_less_iff)

lemma set_num_iterations_keeps [keeps_options]: "v < 2 ^ 31 \<Longrightarrow> options_kept os (snd (set_num_iterations v os))"
  by (cases "0 < v") (simp_all add: set_num_iterations_def kept_defs nat_less_iff)

lemma set_validate_keeps [keeps_options]: "options_kept os (snd (set_validate v os))"
  by (cases "v = 0 \<or> v = 1") (auto simp: set_validate_def kept_defs)

lemma set_window_size_keeps [keeps_options]: "options_kept os (snd (set_window_size v os))"
  by (simp add: set_window_size_def kept_defs)

lemma set_device_array_size_keeps [keeps_options]: "options_kept os (snd (set_device_array_size v os))"
  by (simp add: set_device_array_size_def kept_defs)

lemma set_num_probes_keeps [keeps_options]: "options_kept os (snd (set_num_probes v os))"
  by (simp add: set_num_probes_def kept_defs)

lemma set_max_memlimit_keeps [keeps_options]:
  assumes "v < 2 ^ 63" shows "options_kept os (snd (set_max_memlimit v os))"
proof -
  have k: "2 ^ 20 \<le> unat w \<Longrightarrow> options_kept os (os\<lparr>max_mem_limit := w\<rparr>)" for w by (simp add: kept_defs)
  show ?thesis
  proof (cases "v < MAX_MEM_LOWER_LIMIT")
    case True
    then show ?thesis using k [of "word_of_int MAX_MEM_LOWER_LIMIT"] by (simp add: set_max_memlimit_def MAX_MEM_LOWER_LIMIT_def)
  next
    case False
    then have "2 ^ 20 \<le> unat (word_of_int v :: u64)"
      using assms by (simp add: MAX_MEM_LOWER_LIMIT_def le_nat_iff)
    with False show ?thesis using k [of "word_of_int v"] by (simp add: set_max_memlimit_def)
  qed
qed

lemma set_sender_default [keeps_options]:
  "options_kept os (os\<lparr>sender_thread := -1\<rparr>)" "options_kept os (os\<lparr>sender_processes := -1\<rparr>)"
  by (auto simp: kept_defs)

text \<open>A pair of a result and the options a setter leaves.\<close>

lemma snd_kept: "f os = (r, os') \<Longrightarrow> options_kept os (snd (f os)) \<Longrightarrow> options_kept os os'"
  by simp

lemma pair_kept: "(r, os') = p \<Longrightarrow> options_kept os (snd p) \<Longrightarrow> options_kept os os'"
  by (metis snd_conv)

lemma set_message_size_keeps [keeps_options]: "options_kept os (fst (snd (set_message_size s os)))"
proof -
  note r = atol_range(2)
  show ?thesis
    using set_min_message_size_keeps [OF r] set_max_message_size_keeps [OF r] 
    by (auto simp: set_message_size_def Let_def split: prod.splits option.splits)
      (metis options_kept_trans snd_conv)+
qed

lemma set_threads_keeps [keeps_options]: "options_kept os (fst (snd (set_threads s os)))"
  using set_receiver_threads_keeps set_sender_threads_keeps set_sender_default(1)
  by (auto simp: set_threads_def Let_def split: prod.splits option.splits)
    (metis options_kept_trans snd_conv)+

lemma set_processes_keeps [keeps_options]: "options_kept os (fst (snd (set_processes s os)))"
  using set_receiver_processes_keeps set_sender_processes_keeps set_sender_default(2)
  by (auto simp: set_processes_def Let_def split: prod.splits option.splits)
    (metis options_kept_trans snd_conv)+

lemma field_keeps:
  "options_kept os (os\<lparr>accel := a\<rparr>)" "options_kept os (os\<lparr>target := t\<rparr>)" "options_kept os (os\<lparr>show_full := b\<rparr>)"
  "options_kept os (os\<lparr>window_varied := b\<rparr>)" "options_kept os (os\<lparr>pairs := i\<rparr>)" "options_kept os (os\<lparr>buf_num := n\<rparr>)"
  "options_kept os (os\<lparr>src_type := c\<rparr>)" "options_kept os (os\<lparr>dst_type := c\<rparr>)"
  "options_kept os (os\<lparr>MMsrc := c\<rparr>)" "options_kept os (os\<lparr>MMdst := c\<rparr>)"
  "options_kept os (os\<lparr>win := w\<rparr>)" "options_kept os (os\<lparr>sync := y\<rparr>)"
  by (simp_all add: kept_defs)

lemma one_sided_keeps [keeps_options]: "options_kept os (snd (process_one_sided_options B c s os))"
  by (simp add: process_one_sided_options_def field_keeps)

text \<open>A step that goes on with the loop keeps the options valid and of the same test.\<close>

definition step_keeps :: "po_state \<Rightarrow> step prog \<Rightarrow> bool" where
  "step_keeps st m \<longleftrightarrow> (\<forall>r st'. m = Return (r, st') \<longrightarrow> r \<noteq> Some PO_OKAY \<and> (r = None \<longrightarrow> options_kept (po_opts st) (po_opts st')))"

lemma step_keeps_intros:
  "step_keeps st (bad_usage msg arg st')"
  "(\<And>s. step_keeps st (f s)) \<Longrightarrow> step_keeps st (with_arg arg f)"
  "options_kept (po_opts st) (snd p) \<Longrightarrow> step_keeps st (checked_set msg a p st)"
  "options_kept (po_opts st) (fst (snd q)) \<Longrightarrow> step_keeps st (case q of (rc, os, s') \<Rightarrow> checked_set msg s' (rc, os) st)"
  "options_kept (po_opts st) (po_opts st') \<Longrightarrow> step_keeps st (Return (None, st'))"
  "step_keeps st (Return (Some PO_HELP_MESSAGE, st'))" "step_keeps st (Return (Some PO_VERSION_MESSAGE, st'))"
  "step_keeps st (Return (Some PO_BAD_USAGE, st'))"
  by (auto simp: step_keeps_def bad_usage_def with_arg_def checked_set_def split: option.splits prod.splits)

lemma step_keeps_set: "options_kept (po_opts st) os \<Longrightarrow> step_keeps st (Return (None, st\<lparr>po_opts := os\<rparr>))"
  by (simp add: step_keeps_def)

lemma step_keeps_if: "step_keeps st m \<Longrightarrow> step_keeps st m' \<Longrightarrow> step_keeps st (if b then m else m')"
  by simp

lemma set_accelerator_keeps: "step_keeps st (set_accelerator B acc arg st)"
  unfolding set_accelerator_def Let_def
  by (intro step_keeps_if step_keeps_intros(2)) (rule step_keeps_set field_keeps step_keeps_intros(1))+

lemma set_target_keeps: "step_keeps st (set_target B arg st)"
  unfolding set_target_def
  by (intro step_keeps_if step_keeps_intros(2)) (rule step_keeps_set field_keeps step_keeps_intros(1))+

lemma set_test_calls_keeps: "step_keeps st (set_test_calls arg st)"
  unfolding set_test_calls_def
  by (intro step_keeps_if step_keeps_intros(2)) (rule step_keeps_intros(3,4) keeps_options | simp add: step_keeps_def)+

lemma print_rate_keeps: "step_keeps st (Return (if i \<noteq> 0 \<and> i \<noteq> 1 then Some PO_BAD_USAGE else None,
    st\<lparr>po_opts := (po_opts st)\<lparr>print_rate := i\<rparr>\<rparr>))"
  by (auto simp: step_keeps_def kept_defs)

lemma one_sided_step_keeps: "step_keeps st (case process_one_sided_options B c s (po_opts st) of
    (ret, os) \<Rightarrow> if ret = PO_BAD_USAGE then bad_usage msg arg (st\<lparr>po_opts := os\<rparr>) else Return (None, st\<lparr>po_opts := os\<rparr>))"
  using one_sided_keeps [of "po_opts st" B c s]
  by (auto split: prod.splits intro!: step_keeps_intros)

lemma validate_step_keeps: "step_keeps st (case set_validate v (po_opts st) of
    (rc, os) \<Rightarrow> Return (None, st\<lparr>po_opts := os, po_bad := b rc\<rparr>))"
  using set_validate_keeps [of "po_opts st" v]
  by (auto split: prod.splits intro!: step_keeps_intros)

lemma handle_option_keeps: "step_keeps st (handle_option B acc c arg st)"
  unfolding handle_option_def
  by (intro step_keeps_if step_keeps_intros(2))
    (rule set_accelerator_keeps set_target_keeps set_test_calls_keeps print_rate_keeps one_sided_step_keeps
      validate_step_keeps step_keeps_intros(1,6,7,8,3,4) step_keeps_set field_keeps keeps_options atoi_range atol_range)+

lemma option_step_keeps: "step_keeps st (option_step B acc colon e st)"
proof (cases e)
  case (Opt c arg)
  let ?st = "st\<lparr>po_bad := \<lparr>bad_message = None, badarg = None, badopt = c\<rparr>\<rparr>"
  have "step_keeps ?st (handle_option B acc c arg ?st)" by (rule handle_option_keeps)
  with Opt show ?thesis by (simp add: option_step_def step_keeps_def)
qed (simp_all add: option_step_def step_keeps_def)

lemma option_loop_keeps: "step_keeps st (option_loop B acc colon es st)"
proof (induction es arbitrary: st)
  case (Cons e es)
  show ?case
    unfolding step_keeps_def
  proof (intro allI impI)
    fix r st' assume "option_loop B acc colon (e # es) st = Return (r, st')"
    then obtain r1 st1 where s: "option_step B acc colon e st = Return (r1, st1)"
        "(case r1 of None \<Rightarrow> option_loop B acc colon es st1 | Some ret \<Rightarrow> Return (Some ret, st1)) = Return (r, st')"
      by (auto simp: bind_prog_Return_iff)
    then show "r \<noteq> Some PO_OKAY \<and> (r = None \<longrightarrow> options_kept (po_opts st) (po_opts st'))"
      using option_step_keeps [of st B acc colon e] Cons.IH [of st1]
      by (auto simp: step_keeps_def split: option.splits intro: options_kept_trans)
  qed
qed (simp add: step_keeps_def)

lemma setAccel_keeps: "options_kept (po_opts st) (po_opts (snd (setAccel B c st)))"
  by (auto simp: setAccel_def Let_def intro: options_kept_trans [OF field_keeps(6) field_keeps(1)] field_keeps)

lemma set_operand_keeps:
  "options_kept (po_opts st) (po_opts (snd (set_src B a st)))" "options_kept (po_opts st) (po_opts (snd (set_dst B a st)))"
  unfolding set_src_def set_dst_def Let_def
  by (auto split: option.splits intro: field_keeps options_kept_trans [OF field_keeps(7) field_keeps(9)]
      options_kept_trans [OF field_keeps(8) field_keeps(10)])

lemma process_operands_keeps: "options_kept (po_opts st) (po_opts (snd (process_operands B acc ops st)))"
proof (cases "\<exists>a b. ops = [a, b]")
  case True
  then obtain a b where ops: "ops = [a, b]" by blast
  obtain ok1 st1 ok2 st2 where s: "set_src B a st = (ok1, st1)" "set_dst B b st1 = (ok2, st2)" by (metis surj_pair)
  then have "options_kept (po_opts st) (po_opts st1)" "options_kept (po_opts st1) (po_opts st2)"
    using set_operand_keeps(1) [of st B a] set_operand_keeps(2) [of st1 B b] by simp_all
  moreover have "options_kept (po_opts st2) (po_opts (snd (setAccel B c (snd (setAccel B d st2)))))" for c d
    using setAccel_keeps options_kept_trans by blast
  ultimately show ?thesis
    by (auto simp: ops process_operands_def s intro: options_kept_trans)
qed (auto simp: process_operands_def split: list.splits)

lemma default_options_ok: "opts_ok (default_options os)"
  by (cases "bench os"; cases "subtype os")
    (simp_all add: default_options_def bench_defaults_def subtype_defaults_def process_defaults_def latency_defaults_def
      common_defaults_def set_loops_def opts_ok_def Let_def MAX_MEM_LIMIT_def MIN_MESSAGE_SIZE_def MAX_MSG_SIZE_COLL_def
      MAX_MESSAGE_SIZE_def WINDOW_SIZE_LARGE_def DEF_NUM_THREADS_def DEF_NUM_PROCESSES_def)

lemma default_options_test: "same_test os (default_options os)"
  by (cases "bench os"; cases "subtype os")
    (simp_all add: default_options_def bench_defaults_def subtype_defaults_def process_defaults_def latency_defaults_def
      common_defaults_def set_loops_def same_test_def Let_def)

text \<open>
  C32. An accepted command line leaves valid options, whatever the command line, the benchmark and the build:
  the loops run at least once and fit their counters, the windows, arrays and thread and process counts are
  in range, the memory limit is at least its lower bound, and the message sizes are not negative.
\<close>

theorem process_options_valid:
  assumes "process_options B argv st = Return (PO_OKAY, st')"
  shows "opts_ok (po_opts st') \<and> same_test (po_opts st) (po_opts st')"
proof -
  let ?acc = "enable_accel_support B (po_opts st)"
  obtain es ops where g: "getopt_long (getopt_cfg_of (osu_optstring B (po_opts st)) osu_long_options) argv = (es, ops)" by fastforce
  let ?st = "st\<lparr>po_opts := default_options (po_opts st)\<rparr>"
  from assms g obtain r st1 colon where l: "option_loop B ?acc colon es ?st = Return (r, st1)"
      "(case r of Some ret \<Rightarrow> (ret, st1) | None \<Rightarrow> process_operands B ?acc ops st1) = (PO_OKAY, st')"
    by (auto simp: process_options_def Let_def bind_prog_Return_iff split: option.splits)
  then have k: "r \<noteq> Some PO_OKAY" "r = None \<longrightarrow> options_kept (po_opts ?st) (po_opts st1)"
    using option_loop_keeps [of ?st B ?acc colon es] by (auto simp: step_keeps_def)
  with l(2) have r: "r = None" "st' = snd (process_operands B ?acc ops st1)" by (auto split: option.splits)
  have "options_kept (po_opts ?st) (po_opts st')"
    using k(2) process_operands_keeps [of st1 B ?acc ops] r options_kept_trans by blast
  then show ?thesis
    using default_options_ok [of "po_opts st"] default_options_test [of "po_opts st"]
    by (auto simp: options_kept_def same_test_def)
qed

subsection \<open>Defined behaviour\<close>

lemma opt_arg_mem: "opt_arg s c = Some b \<Longrightarrow> c \<in> set s"
proof (rule ccontr)
  assume "opt_arg s c = Some b" "c \<notin> set s"
  moreover from this(2) have "dropWhile (\<lambda>d. d \<noteq> c) s = []" by (auto simp: dropWhile_eq_Nil_conv)
  ultimately show False by (simp add: opt_arg_def split: if_splits del: dropWhile_eq_Nil_conv)
qed

definition plain_letters :: "string \<Rightarrow> bool" where
  "plain_letters s \<longleftrightarrow> list_all (\<lambda>c. opt_arg s c = Some False \<longrightarrow> c \<in> set ''hvfV'') s"

lemma plain_lettersD: "plain_letters s \<Longrightarrow> opt_arg s c = Some False \<Longrightarrow> c \<in> set ''hvfV''"
  using opt_arg_mem by (fastforce simp: plain_letters_def list_all_iff)

definition step_returns :: "step prog \<Rightarrow> bool" where
  "step_returns m \<longleftrightarrow> (\<exists>r st'. m = Return (r, st'))"

lemma step_returns_with_arg:
  "(\<And>s. step_returns (f s)) \<Longrightarrow> arg \<noteq> None \<Longrightarrow> step_returns (with_arg arg f)"
  by (cases arg) (simp_all add: with_arg_def)

lemma step_returns_case:
  "(\<And>a b. step_returns (h a b)) \<Longrightarrow> step_returns (case p of (a, b) \<Rightarrow> h a b)"
  "(\<And>a b c. step_returns (g a b c)) \<Longrightarrow> step_returns (case q of (a, b, c) \<Rightarrow> g a b c)"
  "step_returns m \<Longrightarrow> step_returns m' \<Longrightarrow> step_returns (if b then m else m')"
  by (cases p; cases q; simp)+

lemma step_returns_Return: "step_returns (Return x)"
  unfolding step_returns_def by (cases x) blast

lemma step_returns_bad_usage: "step_returns (bad_usage msg arg st)"
  unfolding bad_usage_def by (rule step_returns_Return)

lemma step_returns_checked_set: "step_returns (checked_set msg a p st)"
  unfolding checked_set_def by (intro step_returns_case step_returns_Return step_returns_bad_usage)

lemma handle_option_defined:
  assumes "arg \<noteq> None \<or> c \<in> set ''hvfV''"
  shows "step_returns (handle_option B acc c arg st)"
proof (cases "arg = None")
  case True
  with assms have "c = CHR ''h'' \<or> c = CHR ''v'' \<or> c = CHR ''f'' \<or> c = CHR ''V''" by simp
  then show ?thesis by (elim disjE) (simp_all add: handle_option_def step_returns_Return)
next
  case False
  then show ?thesis
    unfolding handle_option_def set_test_calls_def set_accelerator_def set_target_def Let_def
    by (intro step_returns_case step_returns_with_arg step_returns_Return step_returns_bad_usage
        step_returns_checked_set)
qed

lemma option_loop_defined:
  assumes "plain_letters (optstring G)" "\<forall>l\<in>set (long_options G). has_arg l \<or> lval l \<in> set ''hvfV''"
    and "list_all (event_ok G) es" "Overrun \<notin> set es"
  shows "\<exists>r st'. option_loop B acc colon es st = Return (r, st')"
  using assms(3,4)
proof (induction es arbitrary: st)
  case (Cons e es)
  have "\<exists>r st'. option_step B acc colon e st = Return (r, st')"
  proof (cases e)
    case (Opt c arg)
    have "arg \<noteq> None \<or> c \<in> set ''hvfV''"
      using Cons.prems(1) Opt assms(2) plain_lettersD [OF assms(1)] by (cases arg) (auto simp: event_ok_def)
    from handle_option_defined [OF this] show ?thesis by (simp add: option_step_def Opt step_returns_def)
  qed (use Cons.prems in \<open>simp_all add: option_step_def\<close>)
  then obtain r st' where "option_step B acc colon e st = Return (r, st')" by blast
  with Cons show ?case by (cases r) auto
qed simp

definition long_names_ok :: "long_option list \<Rightarrow> string list \<Rightarrow> bool" where
  "long_names_ok los argv \<longleftrightarrow>
     (\<forall>a\<in>set argv. take 2 a = ''--'' \<longrightarrow> a = ''--'' \<or> takeWhile (\<lambda>c. c \<noteq> CHR ''='') (drop 2 a) \<in> lname ` set los)"

lemma long_option_no_overrun:
  "takeWhile (\<lambda>c. c \<noteq> CHR ''='') a \<in> lname ` set (long_options G) \<Longrightarrow> long_option G a rest = (e, rest') \<Longrightarrow> e \<noteq> Overrun"
  by (auto simp: long_option_def Let_def find_None_iff split: option.splits list.splits if_splits)

lemma option_rest_subset:
  "short_option G c cs rest = (e, cs', rest') \<Longrightarrow> set rest' \<subseteq> set rest"
  "long_option G a rest = (e, rest') \<Longrightarrow> set rest' \<subseteq> set rest"
  by (auto simp: short_option_def long_option_def Let_def split: option.splits bool.splits list.splits if_splits)

lemma getopt_scan_no_overrun:
  "long_names_ok (long_options G) rest \<Longrightarrow> getopt_scan G cs rest skipped = (es, ops) \<Longrightarrow> Overrun \<notin> set es"
proof (induction G cs rest skipped arbitrary: es ops rule: getopt_scan.induct)
  case (1 G c cs rest skipped)
  obtain e cs' rest' where s: "short_option G c cs rest = (e, cs', rest')" by (metis surj_pair)
  then have "long_names_ok (long_options G) rest'" using 1(2) option_rest_subset(1) [OF s] by (auto simp: long_names_ok_def)
  then show ?case using 1(1) [OF s [symmetric] refl] 1(3) short_option_ok [OF s] by (auto simp: s split: prod.splits)
next
  case (3 G a rest skipped)
  have tl: "long_names_ok (long_options G) rest" using "3.prems"(1) by (simp add: long_names_ok_def)
  consider "a = ''--''" | "a \<noteq> ''--''" "\<not> is_option a" | "a \<noteq> ''--''" "is_option a" "take 2 a \<noteq> ''--''"
    | "a \<noteq> ''--''" "is_option a" "take 2 a = ''--''" by blast
  then show ?case
  proof cases
    case 4
    obtain e rest' where l: "long_option G (drop 2 a) rest = (e, rest')" by (metis surj_pair)
    have e: "e \<noteq> Overrun"
      by (rule long_option_no_overrun [OF _ l]) (use "3.prems"(1) 4 in \<open>auto simp: long_names_ok_def\<close>)
    have "long_names_ok (long_options G) rest'" using tl option_rest_subset(2) [OF l] by (auto simp: long_names_ok_def)
    then show ?thesis using 3 4 l e by (auto split: opt_event.splits prod.splits)
  qed (use 3 tl in \<open>auto split: if_splits\<close>)
qed simp

lemma osu_optstring_plain:
  assumes "\<not> (bench os = COLLECTIVE \<and> subtype os \<noteq> LAT \<and> \<not> enable_accel_support B os)"
    and "\<not> (bench os = PT2PT \<and> subtype os = BW \<and> enable_accel_support B os)"
  shows "plain_letters (optstring (getopt_cfg_of (osu_optstring B os) osu_long_options))"
  using assms
  by (cases "enable_accel_support B os"; cases "bench os"; cases "subtype os"; cases "CUDA_KERNEL_ENABLED B")
    (simp_all add: osu_optstring_def getopt_cfg_of_def plain_letters_def opt_arg_def)

text \<open>
  C33. Whatever the arguments, processing returns, unless the option string lacks a colon that the switch relies
  on (non-blocking collectives without an accelerator, bandwidth tests with one), or a long option is not
  spelled out, for which the table is read past its end.
\<close>

theorem process_options_returns:
  assumes "\<not> (bench (po_opts st) = COLLECTIVE \<and> subtype (po_opts st) \<noteq> LAT \<and> \<not> enable_accel_support B (po_opts st))"
    and "\<not> (bench (po_opts st) = PT2PT \<and> subtype (po_opts st) = BW \<and> enable_accel_support B (po_opts st))"
    and "\<forall>a\<in>set argv. take 2 a = ''--'' \<longrightarrow>
      a = ''--'' \<or> takeWhile (\<lambda>c. c \<noteq> CHR ''='') (drop 2 a) \<in> lname ` set osu_long_options"
  shows "\<exists>ret st'. process_options B argv st = Return (ret, st')"
proof -
  let ?G = "getopt_cfg_of (osu_optstring B (po_opts st)) osu_long_options"
  obtain es ops where g: "getopt_scan ?G [] (drop 1 argv) [] = (es, ops)" by fastforce
  have lo: "long_options ?G = osu_long_options" by (simp add: getopt_cfg_of_def)
  have "long_names_ok (long_options ?G) (drop 1 argv)"
    using assms(3) unfolding lo long_names_ok_def by (auto dest: in_set_dropD)
  from getopt_scan_no_overrun [OF this g] getopt_scan_ok [OF g]
  have es: "list_all (event_ok ?G) es" "Overrun \<notin> set es" by simp_all
  have l: "\<forall>l\<in>set (long_options ?G). has_arg l \<or> lval l \<in> set ''hvfV''" by (simp only: lo) (simp add: osu_long_options_def)
  from option_loop_defined [OF osu_optstring_plain [OF assms(1,2)] l es]
  have "\<And>colon. \<exists>r st'. option_loop B (enable_accel_support B (po_opts st)) colon es
      (st\<lparr>po_opts := default_options (po_opts st)\<rparr>) = Return (r, st')" by blast
  then obtain r st' where l: "option_loop B (enable_accel_support B (po_opts st))
      (optstring ?G \<noteq> [] \<and> hd (optstring ?G) = CHR '':'') es (st\<lparr>po_opts := default_options (po_opts st)\<rparr>) = Return (r, st')" by blast
  obtain ret st2 where "(case r of Some ret \<Rightarrow> (ret, st')
      | None \<Rightarrow> process_operands B (enable_accel_support B (po_opts st)) ops st') = (ret, st2)" by fastforce
  then have "process_options B argv st = Return (ret, st2)"
    using g l by (cases r) (simp_all add: process_options_def getopt_long_def Let_def)
  then show ?thesis by blast
qed

text \<open>C34. The validation option of the non-blocking collectives dereferences a null pointer.\<close>

theorem nbc_validation_undefined:
  assumes "bench (po_opts st) = COLLECTIVE" "subtype (po_opts st) \<noteq> LAT" "\<not> enable_accel_support B (po_opts st)"
  shows "process_options B (name # ''-c'' # args) st = Undefined"
proof -
  let ?s = "''+:hvfm:i:x:M:t:a:c''"
  have s: "osu_optstring B (po_opts st) = ?s" using assms by (simp add: osu_optstring_def Let_def)
  obtain es ops where g: "getopt_scan (getopt_cfg_of ?s osu_long_options) [] args [] = (es, ops)" by fastforce
  then have "getopt_long (getopt_cfg_of ?s osu_long_options) (name # ''-c'' # args) = (Opt CHR ''c'' None # es, ops)"
    by (simp add: getopt_long_def is_option_def short_option_def getopt_cfg_of_def opt_arg_def)
  then show ?thesis
    by (simp add: process_options_def s Let_def option_step_def handle_option_def with_arg_def)
qed

subsection \<open>Message sizes\<close>

lemma digits_no_colon: "c \<in> set (show_nat n) \<Longrightarrow> c \<noteq> CHR '':''"
  using show_nat_digits [of c n] by (auto simp: is_digit_def)

lemma digits_count: "filter (\<lambda>c. c = CHR '':'') (show_nat n) = []"
  using digits_no_colon by (auto simp: filter_empty_conv)

lemma digits_take: "takeWhile (\<lambda>c. c \<noteq> CHR '':'') (show_nat n @ t) = show_nat n @ takeWhile (\<lambda>c. c \<noteq> CHR '':'') t"
    "dropWhile (\<lambda>c. c \<noteq> CHR '':'') (show_nat n @ t) = dropWhile (\<lambda>c. c \<noteq> CHR '':'') t"
  using digits_no_colon [of _ n] by (simp_all add: takeWhile_append dropWhile_append)

lemma digits_skip: "dropWhile (\<lambda>c. c = CHR '':'') (show_nat n @ t) = show_nat n @ t"
    "takeWhile (\<lambda>c. c = CHR '':'') (show_nat n @ t) = []"
proof -
  obtain c u where "show_nat n = c # u" by (metis show_nat_ne list.exhaust)
  with digits_no_colon [of c n] show "dropWhile (\<lambda>c. c = CHR '':'') (show_nat n @ t) = show_nat n @ t"
    "takeWhile (\<lambda>c. c = CHR '':'') (show_nat n @ t) = []" by simp_all
qed

lemma digits_tok: "strtok CHR '':'' (show_nat n @ t) =
    (Some (show_nat n @ takeWhile (\<lambda>c. c \<noteq> CHR '':'') t), drop 1 (dropWhile (\<lambda>c. c \<noteq> CHR '':'') t))"
  by (simp add: strtok_def digits_skip digits_take show_nat_ne Let_def)

lemma digits_start: "char_at (show_nat n @ t) 0 \<noteq> CHR '':''"
  using digits_no_colon [of "hd (show_nat n)" n] show_nat_ne [of n] by (cases "show_nat n") (auto simp: char_at_def)

text \<open>
  A size alone is the maximum; with a colon the size before it is the minimum and the one after it the
  maximum. In the pair a minimum of 0 is passed over in silence, where \<open>0:\<close> alone is refused.
\<close>

theorem set_message_size_reads:
  assumes "a < 2 ^ 63" "b < 2 ^ 63"
  shows "set_message_size (show_nat b) os = (0, os\<lparr>max_message_size := of_nat b\<rparr>, show_nat b)
    \<and> set_message_size (show_nat a @ '':'' @ show_nat b) os =
      (0, (if a = 0 then os else os\<lparr>min_message_size := of_nat a\<rparr>)\<lparr>max_message_size := of_nat b\<rparr>, show_nat a)
    \<and> set_message_size (show_nat a @ '':'') os =
      (if a = 0 then (-1, os, show_nat a) else (0, os\<lparr>min_message_size := of_nat a\<rparr>, show_nat a))
    \<and> set_message_size ('':'' @ show_nat b) os = (0, os\<lparr>max_message_size := of_nat b\<rparr>, '':'' @ show_nat b)"
proof -
  have at: "atol (show_nat a) = int a" "atol (show_nat b) = int b"
    using atol_show_nat [OF assms(1), of "[]"] atol_show_nat [OF assms(2), of "[]"] by simp_all
  have cut: "cut_token (show_nat a @ CHR '':'' # t) = show_nat a" "cut_token (CHR '':'' # show_nat b) = CHR '':'' # show_nat b" for t
    using digits_skip [of b "[]"] digits_take(1) [of b "[]"] by (simp_all add: cut_token_def digits_skip digits_take(1))
  have tok: "strtok CHR '':'' (show_nat a @ CHR '':'' # t) = (Some (show_nat a), t)" for t
    by (simp add: digits_tok)
  have tokb: "strtok CHR '':'' (show_nat b) = (Some (show_nat b), [])" "strtok CHR '':'' (CHR '':'' # show_nat b) = (Some (show_nat b), [])"
    using digits_tok [of b "[]"] by (simp_all add: strtok_def)
  have none: "strtok CHR '':'' [] = (None, [])" by (simp add: strtok_def)
  have st: "char_at (show_nat a @ CHR '':'' # t) 0 \<noteq> CHR '':''" for t using digits_start by simp
  have c0: "char_at (CHR '':'' # show_nat b) 0 = CHR '':''" by (simp add: char_at_def)
  show ?thesis
    by (simp add: set_message_size_def Let_def digits_count tok tokb none at cut st c0 set_max_message_size_def set_min_message_size_def)
qed

subsection \<open>Instances\<close>

definition zero_options :: "benchmark_type \<Rightarrow> test_subtype \<Rightarrow> options_t" where
  "zero_options b t = \<lparr>accel = NONE, target = CPU, show_size = False, show_full = False, min_message_size = 0,
     max_message_size = 0, iterations = 0, iterations_large = 0, max_mem_limit = 0, skip = 0, skip_large = 0,
     window_size_large = 0, num_probes = 0, device_array_size = 0, bench = b, subtype = t, synctype = ALL_SYNC,
     src_type = NUL, dst_type = NUL, MMsrc = NUL, MMdst = NUL, num_threads = 0, sender_thread = 0, num_processes = 0,
     sender_processes = 0, managedSend = NUL, managedRecv = NUL, win = WIN_CREATE, sync = LOCK, window_size = 0, window_varied = False, print_rate = 0,
     pairs = 0, validate = 0, buf_num = SINGLE\<rparr>"

definition host_build :: build where
  "host_build = \<lparr>CUDA_ENABLED = False, OPENACC_ENABLED = False, ROCM_ENABLED = False, CUDA_KERNEL_ENABLED = False,
     MPI_VERSION_3 = True\<rparr>"

definition start_state :: "benchmark_type \<Rightarrow> test_subtype \<Rightarrow> po_state" where
  "start_state b t = \<lparr>po_opts = zero_options b t, po_bad = \<lparr>bad_message = None, badarg = None, badopt = NUL\<rparr>\<rparr>"

definition accepted :: "(po_ret_type \<times> 'a) prog \<Rightarrow> bool" where
  "accepted r = (case r of Return (ret, _) \<Rightarrow> ret = PO_OKAY | _ \<Rightarrow> False)"

lemma acceptedE: "accepted r \<Longrightarrow> \<exists>s. r = Return (PO_OKAY, s)"
  by (cases r) (auto simp: accepted_def)

theorem process_options_valid_witness:
  "\<exists>st'. process_options host_build [''osu_latency'', ''-i'', ''5'', ''--message-size=2:64''] (start_state PT2PT LAT)
      = Return (PO_OKAY, st') \<and> opts_ok (po_opts st')"
proof -
  have "accepted (process_options host_build [''osu_latency'', ''-i'', ''5'', ''--message-size=2:64''] (start_state PT2PT LAT))"
    by code_simp
  from acceptedE [OF this] obtain st' where
    "process_options host_build [''osu_latency'', ''-i'', ''5'', ''--message-size=2:64''] (start_state PT2PT LAT) = Return (PO_OKAY, st')"
    by blast
  with process_options_valid [OF this] show ?thesis by blast
qed

theorem process_options_returns_witness:
  "\<exists>ret st'. process_options host_build [''osu_bcast'', ''--full'', ''-zf'', ''-m''] (start_state COLLECTIVE LAT) = Return (ret, st')"
  by (rule process_options_returns)
    (simp_all add: start_state_def zero_options_def host_build_def osu_long_options_def)

theorem nbc_validation_undefined_witness:
  "process_options host_build [''osu_ibcast'', ''-c'', ''1''] (start_state COLLECTIVE NBC) = Undefined"
  by (rule nbc_validation_undefined) (simp_all add: start_state_def zero_options_def host_build_def enable_accel_support_def)

theorem set_message_size_reads_witness:
  "set_message_size (show_nat 2 @ '':'' @ show_nat 64) (zero_options PT2PT LAT) =
   (0, (zero_options PT2PT LAT)\<lparr>min_message_size := 2, max_message_size := 64\<rparr>, show_nat 2)"
  using set_message_size_reads [of 2 64] by simp

end
