(* ===== verification/Mpi_Collectives.thy ===== *)
theory Mpi_Collectives
  imports Cstdlib
begin

text \<open>
  The collective operations of MPI that the benchmarks call. MPI is not part of the repository: its
  operations are a record of functions on the buffers of all members of a communicator, in rank order, and
  the locale \<open>mpi_collectives\<close> states what the MPI standard promises of them. A call is described by its
  transfers: which bytes of which member's send buffer arrive where in which member's receive buffer. A call
  whose transfers fit the buffers and do not overlap delivers them, changes no other byte of the buffers and
  the length of none.
\<close>

datatype mpi_type = MPI_BYTE | MPI_CHAR | MPI_DOUBLE

primrec extent :: "mpi_type \<Rightarrow> nat" where
  "extent MPI_BYTE = 1"
| "extent MPI_CHAR = 1"
| "extent MPI_DOUBLE = 8"

type_synonym bufs = "byte list list"

record mpi_coll =
  MPI_Bcast :: "int \<Rightarrow> mpi_type \<Rightarrow> nat \<Rightarrow> bufs \<Rightarrow> bufs"
  MPI_Alltoall :: "int \<Rightarrow> mpi_type \<Rightarrow> int \<Rightarrow> mpi_type \<Rightarrow> bufs \<Rightarrow> bufs \<Rightarrow> bufs"
  MPI_Alltoallv :: "int list list \<Rightarrow> int list list \<Rightarrow> mpi_type \<Rightarrow> int list list \<Rightarrow> int list list \<Rightarrow> mpi_type
    \<Rightarrow> bufs \<Rightarrow> bufs \<Rightarrow> bufs"
  MPI_Allgather :: "int \<Rightarrow> mpi_type \<Rightarrow> int \<Rightarrow> mpi_type \<Rightarrow> bufs \<Rightarrow> bufs \<Rightarrow> bufs"
  MPI_Allgatherv :: "int list \<Rightarrow> mpi_type \<Rightarrow> int list list \<Rightarrow> int list list \<Rightarrow> mpi_type \<Rightarrow> bufs \<Rightarrow> bufs \<Rightarrow> bufs"
  MPI_Gather :: "int \<Rightarrow> mpi_type \<Rightarrow> int \<Rightarrow> mpi_type \<Rightarrow> nat \<Rightarrow> bufs \<Rightarrow> bufs \<Rightarrow> bufs"
  MPI_Gatherv :: "int list \<Rightarrow> mpi_type \<Rightarrow> int list list \<Rightarrow> int list list \<Rightarrow> mpi_type \<Rightarrow> nat \<Rightarrow> bufs \<Rightarrow> bufs \<Rightarrow> bufs"
  MPI_Scatter :: "int \<Rightarrow> mpi_type \<Rightarrow> int \<Rightarrow> mpi_type \<Rightarrow> nat \<Rightarrow> bufs \<Rightarrow> bufs \<Rightarrow> bufs"
  MPI_Scatterv :: "int list list \<Rightarrow> int list list \<Rightarrow> mpi_type \<Rightarrow> int list \<Rightarrow> mpi_type \<Rightarrow> nat \<Rightarrow> bufs \<Rightarrow> bufs \<Rightarrow> bufs"
  MPI_Allreduce :: "int \<Rightarrow> mpi_type \<Rightarrow> bufs \<Rightarrow> bufs \<Rightarrow> bufs"
  MPI_Reduce :: "int \<Rightarrow> mpi_type \<Rightarrow> nat \<Rightarrow> bufs \<Rightarrow> bufs \<Rightarrow> bufs"

subsection \<open>Transfers\<close>

record transfer =
  dst :: nat
  dst_off :: nat
  src :: nat
  src_off :: nat
  len :: nat

definition in_range :: "bufs \<Rightarrow> bufs \<Rightarrow> transfer \<Rightarrow> bool" where
  "in_range sb rb t \<longleftrightarrow>
     src t < length sb \<and> src_off t + len t \<le> length (sb ! src t)
     \<and> dst t < length rb \<and> dst_off t + len t \<le> length (rb ! dst t)"

definition apart :: "transfer \<Rightarrow> transfer \<Rightarrow> bool" where
  "apart t u \<longleftrightarrow> t = u \<or> dst t \<noteq> dst u \<or> dst_off t + len t \<le> dst_off u \<or> dst_off u + len u \<le> dst_off t"

definition fits :: "transfer list \<Rightarrow> bufs \<Rightarrow> bufs \<Rightarrow> bool" where
  "fits T sb rb \<longleftrightarrow> (\<forall>t\<in>set T. in_range sb rb t) \<and> (\<forall>t\<in>set T. \<forall>u\<in>set T. apart t u)"

definition covers :: "transfer \<Rightarrow> nat \<Rightarrow> nat \<Rightarrow> bool" where
  "covers t d i \<longleftrightarrow> d = dst t \<and> dst_off t \<le> i \<and> i < dst_off t + len t"

definition delivered :: "transfer list \<Rightarrow> bufs \<Rightarrow> bufs \<Rightarrow> bufs \<Rightarrow> bool" where
  "delivered T sb rb rb' \<longleftrightarrow> map length rb' = map length rb
     \<and> (\<forall>t\<in>set T. \<forall>b<len t. rb' ! dst t ! (dst_off t + b) = sb ! src t ! (src_off t + b))
     \<and> (\<forall>d<length rb. \<forall>i<length (rb ! d). (\<forall>t\<in>set T. \<not> covers t d i) \<longrightarrow> rb' ! d ! i = rb ! d ! i)"

text \<open>The transfers of the operations, for \<open>N\<close> members and blocks of \<open>n\<close> bytes.\<close>

definition bcast_transfers :: "nat \<Rightarrow> nat \<Rightarrow> nat \<Rightarrow> transfer list" where
  "bcast_transfers N rt n = map (\<lambda>i. \<lparr>dst = i, dst_off = 0, src = rt, src_off = 0, len = n\<rparr>) [0..<N]"

definition scatter_transfers :: "nat \<Rightarrow> nat \<Rightarrow> nat \<Rightarrow> transfer list" where
  "scatter_transfers N rt n = map (\<lambda>i. \<lparr>dst = i, dst_off = 0, src = rt, src_off = i * n, len = n\<rparr>) [0..<N]"

definition scatterv_transfers :: "nat \<Rightarrow> nat \<Rightarrow> (nat \<Rightarrow> nat) \<Rightarrow> (nat \<Rightarrow> nat) \<Rightarrow> transfer list" where
  "scatterv_transfers N rt displ cnt =
     map (\<lambda>i. \<lparr>dst = i, dst_off = 0, src = rt, src_off = displ i, len = cnt i\<rparr>) [0..<N]"

definition gather_transfers :: "nat \<Rightarrow> nat \<Rightarrow> (nat \<Rightarrow> nat) \<Rightarrow> (nat \<Rightarrow> nat) \<Rightarrow> transfer list" where
  "gather_transfers N i displ cnt =
     map (\<lambda>j. \<lparr>dst = i, dst_off = displ j, src = j, src_off = 0, len = cnt j\<rparr>) [0..<N]"

definition alltoall_transfers ::
    "nat \<Rightarrow> (nat \<Rightarrow> nat \<Rightarrow> nat) \<Rightarrow> (nat \<Rightarrow> nat \<Rightarrow> nat) \<Rightarrow> (nat \<Rightarrow> nat \<Rightarrow> nat) \<Rightarrow> transfer list" where
  "alltoall_transfers N sdispl rdispl cnt =
     concat (map (\<lambda>i. map (\<lambda>j. \<lparr>dst = i, dst_off = rdispl i j, src = j, src_off = sdispl j i, len = cnt i j\<rparr>)
       [0..<N]) [0..<N])"

abbreviation bytes :: "int \<Rightarrow> mpi_type \<Rightarrow> nat" where
  "bytes c ty \<equiv> nat c * extent ty"

locale mpi_collectives =
  fixes M :: mpi_coll
  assumes bcast: "0 \<le> c \<Longrightarrow> fits (bcast_transfers (length bs) rt (bytes c ty)) bs bs
      \<Longrightarrow> delivered (bcast_transfers (length bs) rt (bytes c ty)) bs bs (MPI_Bcast M c ty rt bs)"
    and alltoall: "0 \<le> c \<Longrightarrow> 0 \<le> c' \<Longrightarrow> bytes c ty = bytes c' ty' \<Longrightarrow> length sb = length rb
      \<Longrightarrow> T = alltoall_transfers (length rb) (\<lambda>j i. i * bytes c ty) (\<lambda>i j. j * bytes c ty) (\<lambda>i j. bytes c ty)
      \<Longrightarrow> fits T sb rb \<Longrightarrow> delivered T sb rb (MPI_Alltoall M c ty c' ty' sb rb)"
    and alltoallv: "length sb = length rb
      \<Longrightarrow> (\<And>i j. i < length rb \<Longrightarrow> j < length rb \<Longrightarrow> 0 \<le> rc ! i ! j \<and> sc ! j ! i = rc ! i ! j \<and> 0 \<le> rd ! i ! j \<and> 0 \<le> sd ! j ! i)
      \<Longrightarrow> T = alltoall_transfers (length rb) (\<lambda>j i. bytes (sd ! j ! i) ty) (\<lambda>i j. bytes (rd ! i ! j) ty) (\<lambda>i j. bytes (rc ! i ! j) ty)
      \<Longrightarrow> fits T sb rb \<Longrightarrow> delivered T sb rb (MPI_Alltoallv M sc sd ty rc rd ty sb rb)"
    and allgather: "0 \<le> c \<Longrightarrow> 0 \<le> c' \<Longrightarrow> bytes c ty = bytes c' ty' \<Longrightarrow> length sb = length rb
      \<Longrightarrow> T = alltoall_transfers (length rb) (\<lambda>j i. 0) (\<lambda>i j. j * bytes c ty) (\<lambda>i j. bytes c ty)
      \<Longrightarrow> fits T sb rb \<Longrightarrow> delivered T sb rb (MPI_Allgather M c ty c' ty' sb rb)"
    and allgatherv: "length sb = length rb
      \<Longrightarrow> (\<And>i j. i < length rb \<Longrightarrow> j < length rb \<Longrightarrow> 0 \<le> rc ! i ! j \<and> cs ! j = rc ! i ! j \<and> 0 \<le> rd ! i ! j)
      \<Longrightarrow> T = alltoall_transfers (length rb) (\<lambda>j i. 0) (\<lambda>i j. bytes (rd ! i ! j) ty) (\<lambda>i j. bytes (rc ! i ! j) ty)
      \<Longrightarrow> fits T sb rb \<Longrightarrow> delivered T sb rb (MPI_Allgatherv M cs ty rc rd ty sb rb)"
    and gather: "0 \<le> c \<Longrightarrow> 0 \<le> c' \<Longrightarrow> bytes c ty = bytes c' ty' \<Longrightarrow> length sb = length rb
      \<Longrightarrow> T = gather_transfers (length rb) rt (\<lambda>j. j * bytes c ty) (\<lambda>j. bytes c ty)
      \<Longrightarrow> fits T sb rb \<Longrightarrow> delivered T sb rb (MPI_Gather M c ty c' ty' rt sb rb)"
    and gatherv: "length sb = length rb \<Longrightarrow> rt < length rb
      \<Longrightarrow> (\<And>j. j < length rb \<Longrightarrow> 0 \<le> rc ! rt ! j \<and> cs ! j = rc ! rt ! j \<and> 0 \<le> rd ! rt ! j)
      \<Longrightarrow> T = gather_transfers (length rb) rt (\<lambda>j. bytes (rd ! rt ! j) ty) (\<lambda>j. bytes (rc ! rt ! j) ty)
      \<Longrightarrow> fits T sb rb \<Longrightarrow> delivered T sb rb (MPI_Gatherv M cs ty rc rd ty rt sb rb)"
    and scatter: "0 \<le> c \<Longrightarrow> 0 \<le> c' \<Longrightarrow> bytes c ty = bytes c' ty' \<Longrightarrow> length sb = length rb
      \<Longrightarrow> T = scatter_transfers (length rb) rt (bytes c ty)
      \<Longrightarrow> fits T sb rb \<Longrightarrow> delivered T sb rb (MPI_Scatter M c ty c' ty' rt sb rb)"
    and scatterv: "length sb = length rb \<Longrightarrow> rt < length rb
      \<Longrightarrow> (\<And>i. i < length rb \<Longrightarrow> 0 \<le> sc ! rt ! i \<and> cr ! i = sc ! rt ! i \<and> 0 \<le> sd ! rt ! i)
      \<Longrightarrow> T = scatterv_transfers (length rb) rt (\<lambda>i. bytes (sd ! rt ! i) ty) (\<lambda>i. bytes (sc ! rt ! i) ty)
      \<Longrightarrow> fits T sb rb \<Longrightarrow> delivered T sb rb (MPI_Scatterv M sc sd ty cr ty rt sb rb)"
    and allreduce: "0 \<le> c \<Longrightarrow> length sb = length rb \<Longrightarrow> \<forall>b\<in>set sb \<union> set rb. bytes c ty \<le> length b
      \<Longrightarrow> map length (MPI_Allreduce M c ty sb rb) = map length rb"
    and reduce: "0 \<le> c \<Longrightarrow> length sb = length rb \<Longrightarrow> \<forall>b\<in>set sb \<union> set rb. bytes c ty \<le> length b \<Longrightarrow> rt < length rb
      \<Longrightarrow> map length (MPI_Reduce M c ty rt sb rb) = map length rb"

text \<open>When the transfers of the operations fit.\<close>

lemma set_alltoall_transfers:
  "t \<in> set (alltoall_transfers N sd rd cnt) \<longleftrightarrow> (\<exists>i<N. \<exists>j<N.
     t = \<lparr>dst = i, dst_off = rd i j, src = j, src_off = sd j i, len = cnt i j\<rparr>)"
  by (auto simp: alltoall_transfers_def image_iff Bex_def)

lemma set_gather_transfers:
  "t \<in> set (gather_transfers N i rd cnt) \<longleftrightarrow> (\<exists>j<N. t = \<lparr>dst = i, dst_off = rd j, src = j, src_off = 0, len = cnt j\<rparr>)"
  by (auto simp: gather_transfers_def)

lemma apart_ordered:
  fixes N :: nat
  assumes "\<And>j k. j < k \<Longrightarrow> k < N \<Longrightarrow> rd j + cnt j \<le> (rd k :: nat)" and "j < N" "k < N"
  shows "j = k \<or> rd j + cnt j \<le> rd k \<or> rd k + cnt k \<le> rd j"
  using assms by (cases j k rule: linorder_cases) auto

lemma fits_alltoall:
  assumes "length sb = N" "length rb = N"
    and "\<And>i j. i < N \<Longrightarrow> j < N \<Longrightarrow> sd j i + cnt i j \<le> length (sb ! j) \<and> rd i j + cnt i j \<le> length (rb ! i)"
    and ord: "\<And>i j k. i < N \<Longrightarrow> j < k \<Longrightarrow> k < N \<Longrightarrow> rd i j + cnt i j \<le> rd i k"
  shows "fits (alltoall_transfers N sd rd cnt) sb rb"
proof -
  have "apart t u" if tu: "t \<in> set (alltoall_transfers N sd rd cnt)" "u \<in> set (alltoall_transfers N sd rd cnt)" for t u
  proof -
    obtain i j i' k where ij: "i < N" "j < N" "i' < N" "k < N"
      "t = \<lparr>dst = i, dst_off = rd i j, src = j, src_off = sd j i, len = cnt i j\<rparr>"
      "u = \<lparr>dst = i', dst_off = rd i' k, src = k, src_off = sd k i', len = cnt i' k\<rparr>"
      using tu by (auto simp: set_alltoall_transfers)
    with apart_ordered [of N "rd i" "cnt i" j k, OF ord] show ?thesis by (cases "i = i'") (auto simp: apart_def)
  qed
  then show ?thesis using assms(1-3) by (auto simp: fits_def set_alltoall_transfers in_range_def)
qed

lemma fits_gather:
  assumes "length sb = N" "length rb = N" "i < N"
    and "\<And>j. j < N \<Longrightarrow> cnt j \<le> length (sb ! j) \<and> rd j + cnt j \<le> length (rb ! i)"
    and ord: "\<And>j k. j < k \<Longrightarrow> k < N \<Longrightarrow> rd j + cnt j \<le> rd k"
  shows "fits (gather_transfers N i rd cnt) sb rb"
proof -
  have "apart t u" if tu: "t \<in> set (gather_transfers N i rd cnt)" "u \<in> set (gather_transfers N i rd cnt)" for t u
  proof -
    obtain j k where jk: "j < N" "k < N" "t = \<lparr>dst = i, dst_off = rd j, src = j, src_off = 0, len = cnt j\<rparr>"
      "u = \<lparr>dst = i, dst_off = rd k, src = k, src_off = 0, len = cnt k\<rparr>"
      using tu by (auto simp: set_gather_transfers)
    with apart_ordered [of N rd cnt j k, OF ord] show ?thesis by (auto simp: apart_def)
  qed
  then show ?thesis using assms(1-4) by (auto simp: fits_def set_gather_transfers in_range_def)
qed

lemma fits_bcast:
  "rt < length bs \<Longrightarrow> (\<And>b. b \<in> set bs \<Longrightarrow> n \<le> length b) \<Longrightarrow> fits (bcast_transfers (length bs) rt n) bs bs"
  by (auto simp: fits_def bcast_transfers_def in_range_def apart_def)

lemma fits_scatter:
  assumes "rt < N" "length sb = N" "length rb = N" "N * n \<le> length (sb ! rt)" "\<And>b. b \<in> set rb \<Longrightarrow> n \<le> length b"
  shows "fits (scatter_transfers N rt n) sb rb"
proof -
  have "i * n + n \<le> length (sb ! rt)" if "i < N" for i
    using that assms(4) mult_le_mono1 [of "Suc i" N n] by simp
  with assms show ?thesis by (auto simp: fits_def scatter_transfers_def in_range_def apart_def)
qed

lemma fits_scatterv:
  assumes "rt < N" "length sb = N" "length rb = N" "\<And>i. i < N \<Longrightarrow> sd i + cnt i \<le> length (sb ! rt) \<and> cnt i \<le> length (rb ! i)"
  shows "fits (scatterv_transfers N rt sd cnt) sb rb"
  using assms by (auto simp: fits_def scatterv_transfers_def in_range_def apart_def)

lemma block_order: "j < k \<Longrightarrow> j * n + n \<le> k * (n::nat)"
  using mult_le_mono1 [of "Suc j" k n] by simp

subsection \<open>A reference implementation\<close>

definition write_at :: "nat \<Rightarrow> 'a list \<Rightarrow> 'a list \<Rightarrow> 'a list" where
  "write_at off xs buf = take off buf @ xs @ drop (off + length xs) buf"

lemma length_write_at [simp]: "off + length xs \<le> length buf \<Longrightarrow> length (write_at off xs buf) = length buf"
  by (simp add: write_at_def)

lemma nth_write_at:
  "off + length xs \<le> length buf \<Longrightarrow> i < length buf
   \<Longrightarrow> write_at off xs buf ! i = (if off \<le> i \<and> i < off + length xs then xs ! (i - off) else buf ! i)"
  by (auto simp: write_at_def nth_append)

definition put :: "bufs \<Rightarrow> transfer \<Rightarrow> bufs \<Rightarrow> bufs" where
  "put sb t rb = rb[dst t := write_at (dst_off t) (take (len t) (drop (src_off t) (sb ! src t))) (rb ! dst t)]"

definition deliver :: "transfer list \<Rightarrow> bufs \<Rightarrow> bufs \<Rightarrow> bufs" where
  "deliver T sb rb = fold (put sb) T rb"

lemma put_nth:
  assumes "in_range sb rb t" "d < length rb" "i < length (rb ! d)"
  shows "put sb t rb ! d ! i =
    (if covers t d i then sb ! src t ! (src_off t + (i - dst_off t)) else rb ! d ! i)"
proof -
  let ?B = "take (len t) (drop (src_off t) (sb ! src t))"
  have "length ?B = len t" using assms(1) by (auto simp: in_range_def)
  moreover from this have "?B ! k = sb ! src t ! (src_off t + k)" if "k < len t" for k
    using that assms(1) by (simp add: in_range_def)
  ultimately show ?thesis using assms by (auto simp: put_def in_range_def nth_list_update nth_write_at covers_def)
qed

lemma map_length_put: "in_range sb rb t \<Longrightarrow> map length (put sb t rb) = map length rb"
  by (auto simp: put_def map_update in_range_def list_update_same_conv)

lemma map_length_eqD:
  assumes "map length xs = map length ys"
  shows "length xs = length ys" "d < length ys \<Longrightarrow> length (xs ! d) = length (ys ! d)"
proof -
  show "length xs = length ys" using assms by (rule map_eq_imp_length_eq)
  then show "length (xs ! d) = length (ys ! d)" if "d < length ys"
    using arg_cong [OF assms, of "\<lambda>l. l ! d"] that by simp
qed

lemma in_range_cong: "map length rb' = map length rb \<Longrightarrow> in_range sb rb' t = in_range sb rb t"
  using map_length_eqD [of rb' rb] by (auto simp: in_range_def)

lemma delivered_put:
  assumes "delivered T sb rb rb'" and "in_range sb rb t" and "\<forall>u\<in>set T. in_range sb rb u \<and> apart t u"
  shows "delivered (t # T) sb rb (put sb t rb')"
proof -
  have len': "map length rb' = map length rb" using assms(1) by (simp add: delivered_def)
  then have r: "in_range sb rb' t" using assms(2) in_range_cong by blast
  have at: "put sb t rb' ! dst t ! (dst_off t + b) = sb ! src t ! (src_off t + b)" if "b < len t" for b
    using r that put_nth [OF r, of "dst t" "dst_off t + b"] by (simp add: in_range_def covers_def)
  have "put sb t rb' ! dst u ! (dst_off u + b) = sb ! src u ! (src_off u + b)" if u: "u \<in> set T" "b < len u" for u b
  proof (cases "u = t")
    case False
    have ur: "in_range sb rb' u" and ap: "apart t u" using u assms(3) in_range_cong [OF len'] by blast+
    have "\<not> covers t (dst u) (dst_off u + b)" using False ap u(2) by (auto simp: apart_def covers_def)
    then have "put sb t rb' ! dst u ! (dst_off u + b) = rb' ! dst u ! (dst_off u + b)"
      using put_nth [OF r, of "dst u" "dst_off u + b"] ur u(2) by (auto simp: in_range_def)
    with u assms(1) show ?thesis by (simp add: delivered_def)
  qed (use at u in simp)
  moreover have "put sb t rb' ! d ! i = rb ! d ! i"
    if d: "d < length rb" "i < length (rb ! d)" "\<forall>u\<in>set (t # T). \<not> covers u d i" for d i
    using map_length_eqD [OF len'] put_nth [OF r, of d i] d assms(1) by (simp add: delivered_def)
  ultimately show ?thesis using at trans [OF map_length_put [OF r] len'] unfolding delivered_def by simp
qed

lemma deliver_delivered: "fits T sb rb \<Longrightarrow> delivered T sb rb (deliver T sb rb)"
proof (induction T rule: rev_induct)
  case Nil
  then show ?case by (simp add: delivered_def deliver_def)
next
  case (snoc t T)
  then have "delivered (t # T) sb rb (put sb t (deliver T sb rb))"
    by (intro delivered_put) (auto simp: fits_def)
  then show ?case by (simp add: deliver_def delivered_def)
qed

text \<open>
  The reductions combine the bytes at a position with a given function; the standard says nothing about
  the order in which the values are added.
\<close>

definition reduced :: "(byte list \<Rightarrow> byte) \<Rightarrow> nat \<Rightarrow> bufs \<Rightarrow> byte list \<Rightarrow> byte list" where
  "reduced f n sb buf = write_at 0 (map (\<lambda>b. f (map (\<lambda>s. s ! b) sb)) [0..<n]) buf"

definition ref_mpi :: "(byte list \<Rightarrow> byte) \<Rightarrow> mpi_coll" where
  "ref_mpi f = \<lparr>
     MPI_Bcast = (\<lambda>c ty rt bs. deliver (bcast_transfers (length bs) rt (bytes c ty)) bs bs),
     MPI_Alltoall = (\<lambda>c ty c' ty' sb rb.
       deliver (alltoall_transfers (length rb) (\<lambda>j i. i * bytes c ty) (\<lambda>i j. j * bytes c ty) (\<lambda>i j. bytes c ty)) sb rb),
     MPI_Alltoallv = (\<lambda>sc sd ty rc rd ty' sb rb.
       deliver (alltoall_transfers (length rb) (\<lambda>j i. bytes (sd ! j ! i) ty) (\<lambda>i j. bytes (rd ! i ! j) ty)
         (\<lambda>i j. bytes (rc ! i ! j) ty)) sb rb),
     MPI_Allgather = (\<lambda>c ty c' ty' sb rb.
       deliver (alltoall_transfers (length rb) (\<lambda>j i. 0) (\<lambda>i j. j * bytes c ty) (\<lambda>i j. bytes c ty)) sb rb),
     MPI_Allgatherv = (\<lambda>sc ty rc rd ty' sb rb.
       deliver (alltoall_transfers (length rb) (\<lambda>j i. 0) (\<lambda>i j. bytes (rd ! i ! j) ty) (\<lambda>i j. bytes (rc ! i ! j) ty)) sb rb),
     MPI_Gather = (\<lambda>c ty c' ty' rt sb rb.
       deliver (gather_transfers (length rb) rt (\<lambda>j. j * bytes c ty) (\<lambda>j. bytes c ty)) sb rb),
     MPI_Gatherv = (\<lambda>sc ty rc rd ty' rt sb rb.
       deliver (gather_transfers (length rb) rt (\<lambda>j. bytes (rd ! rt ! j) ty) (\<lambda>j. bytes (rc ! rt ! j) ty)) sb rb),
     MPI_Scatter = (\<lambda>c ty c' ty' rt sb rb. deliver (scatter_transfers (length rb) rt (bytes c ty)) sb rb),
     MPI_Scatterv = (\<lambda>sc sd ty cr ty' rt sb rb.
       deliver (scatterv_transfers (length rb) rt (\<lambda>i. bytes (sd ! rt ! i) ty) (\<lambda>i. bytes (sc ! rt ! i) ty)) sb rb),
     MPI_Allreduce = (\<lambda>c ty sb rb. map (reduced f (bytes c ty) sb) rb),
     MPI_Reduce = (\<lambda>c ty rt sb rb. rb[rt := reduced f (bytes c ty) sb (rb ! rt)])\<rparr>"

lemma length_reduced [simp]: "n \<le> length buf \<Longrightarrow> length (reduced f n sb buf) = length buf"
  by (simp add: reduced_def)

interpretation refmpi: mpi_collectives "ref_mpi f"
  by unfold_locales (simp_all add: ref_mpi_def deliver_delivered map_update list_update_same_conv)

end
