(* ===== verification/Mpi_Floats.thy ===== *)
theory Mpi_Floats
  imports Mpi_Collectives
begin

text \<open>
  \<^verbatim>\<open>float\<close>s and the reductions of MPI on them. A \<^verbatim>\<open>float\<close> is a rational number rounded to 24 significant
  bits, an infinity or not a number. The MPI standard leaves the order of the additions of a reduction to the
  library: \<open>float_sums\<close> relates the contributions of the members to the sums an order can give, and the locale
  \<open>mpi_reductions\<close> promises one of them for every element.
\<close>

subsection \<open>Single precision\<close>

definition to_single :: "dbl \<Rightarrow> dbl" where
  "to_single d = (case d of Fin x \<Rightarrow> single_of x | _ \<Rightarrow> d)"

fun float_add :: "dbl \<Rightarrow> dbl \<Rightarrow> dbl" where
  "float_add (Fin x) (Fin y) = single_of (x + y)"
| "float_add (Inf a) (Inf b) = (if a = b then Inf a else NaN)"
| "float_add (Inf a) (Fin y) = Inf a"
| "float_add (Fin x) (Inf b) = Inf b"
| "float_add _ _ = NaN"

fun float_neg :: "dbl \<Rightarrow> dbl" where
  "float_neg (Fin x) = Fin (- x)"
| "float_neg (Inf a) = Inf (\<not> a)"
| "float_neg NaN = NaN"

definition float_sub :: "dbl \<Rightarrow> dbl \<Rightarrow> dbl" where
  "float_sub x y = float_add x (float_neg y)"

text \<open>The value with a given bit pattern.\<close>

definition float_of_bits :: "u32 \<Rightarrow> dbl" where
  "float_of_bits w =
     (let s = bit w 31; e = unat (drop_bit 23 w AND 255); m = unat (take_bit 23 w);
          v = (if e = 0 then of_nat m * pow2 (- 149) else of_nat (2 ^ 23 + m) * pow2 (int e - 150)) in
      if e = 255 then (if m = 0 then Inf s else NaN) else Fin (if s then - v else v))"

text \<open>The conversion to an \<^verbatim>\<open>int\<close>, undefined when the truncated value does not fit.\<close>

definition int_of_float :: "dbl \<Rightarrow> int option" where
  "int_of_float d =
     (case d of
        Fin x \<Rightarrow> (let i = (if x < 0 then - \<lfloor>- x\<rfloor> else \<lfloor>x\<rfloor>) in if int_ok i then Some i else None)
      | _ \<Rightarrow> None)"

text \<open>Rounding of an integer with more than 24 bits.\<close>

lemma round_even_div:
  assumes "0 < d"
  shows "round_even (of_nat m / of_nat d) =
    int (if 2 * (m mod d) < d \<or> (2 * (m mod d) = d \<and> even (m div d)) then m div d else m div d + 1)"
proof -
  have f: "\<lfloor>of_nat m / of_nat d :: rat\<rfloor> = int (m div d)" by (metis floor_divide_of_nat_eq)
  have "(of_nat m / of_nat d :: rat) = of_nat (m div d) + of_nat (m mod d) / of_nat d"
    by (metis (no_types) assms div_mult_mod_eq nonzero_mult_div_cancel_right of_nat_0_less_iff of_nat_add of_nat_mult
        add_divide_distrib less_irrefl)
  then have r: "of_nat m / of_nat d - of_int (int (m div d)) = (of_nat (m mod d) / of_nat d :: rat)" by simp
  have "(of_nat (m mod d) / of_nat d :: rat) < 1 / 2 \<longleftrightarrow> of_nat (2 * (m mod d)) < (of_nat d :: rat)"
    and "1 / 2 < (of_nat (m mod d) / of_nat d :: rat) \<longleftrightarrow> (of_nat d :: rat) < of_nat (2 * (m mod d))"
    using assms by (auto simp: field_simps)
  then have c: "(of_nat (m mod d) / of_nat d :: rat) < 1 / 2 \<longleftrightarrow> 2 * (m mod d) < d"
    and c': "1 / 2 < (of_nat (m mod d) / of_nat d :: rat) \<longleftrightarrow> d < 2 * (m mod d)" by (simp_all only: of_nat_less_iff)
  show ?thesis unfolding round_even_def f Let_def r c c' by auto
qed

lemma single_of_round:
  assumes "2 ^ (23 + j) \<le> n" "n < 2 ^ (24 + j)" "j \<le> 100"
  shows "single_of (of_nat n) = Fin (of_int (round_even (of_nat n / of_nat (2 ^ j))) * of_nat (2 ^ j))"
proof -
  have x: "exponent (of_nat n) = int (23 + j)" using assms by (intro exponent_nat) simp_all
  then have u: "pow2 (max (exponent (of_nat n) - (int 24 - 1)) (- 149)) = of_nat (2 ^ j)" by (simp add: pow2_def)
  have "round_even (of_nat n / of_nat (2 ^ j)) \<le> int (n div 2 ^ j + 1)"
    by (subst round_even_div) simp_all
  also have "n div 2 ^ j < 2 ^ 24" using assms(2) by (intro less_mult_imp_div_less) (simp add: power_add mult.commute)
  then have "int (n div 2 ^ j + 1) \<le> 2 ^ 24" by simp
  finally have "of_int (round_even (of_nat n / of_nat (2 ^ j))) \<le> (2 ^ 24 :: rat)"
    by (simp add: of_int_le_iff [of _ "2 ^ 24", where 'a = rat, simplified])
  then have "of_int (round_even (of_nat n / of_nat (2 ^ j))) * of_nat (2 ^ j) \<le> (2 ^ 24 * 2 ^ j :: rat)"
    by (intro mult_mono) simp_all
  also have "(2 ^ 24 * 2 ^ j :: rat) \<le> 2 ^ 124" unfolding power_add [symmetric] using assms(3) by (intro power_increasing) simp_all
  finally have "\<not> (2 ^ 128 :: rat) \<le> of_int (round_even (of_nat n / of_nat (2 ^ j))) * of_nat (2 ^ j)" by simp
  moreover have "n \<noteq> 0" using assms(1) by (metis le_zero_eq power_not_zero zero_neq_numeral)
  ultimately show ?thesis using u by (simp add: single_of_def round_to_def Let_def del: of_nat_power)
qed

lemma float_sub_self [simp]: "float_sub (Fin x) (Fin x) = Fin 0"
  by (simp add: float_sub_def single_of_def round_to_def)

lemma int_of_float_0 [simp]: "int_of_float (Fin 0) = Some 0"
  by (simp add: int_of_float_def int_ok_def)

subsection \<open>Reductions\<close>

text \<open>
  MPI adds the contributions of the members in an order of its choice, each addition rounded: the results that
  are possible for a multiset of contributions.
\<close>

inductive float_sums :: "dbl multiset \<Rightarrow> dbl \<Rightarrow> bool" where
  single: "float_sums {#x#} x"
| add: "float_sums A x \<Longrightarrow> float_sums B y \<Longrightarrow> float_sums (A + B) (float_add x y)"

lemma float_sums_exact:
  assumes "float_sums A v" "\<forall>x\<in>#A. x = Fin (of_nat k)" "size A * k < 2 ^ 24"
  shows "v = Fin (of_nat (size A * k))"
  using assms
proof (induction rule: float_sums.induct)
  case (add A x B y)
  then have lt: "size A * k + size B * k < 2 ^ 24" by (simp add: distrib_right)
  with add have "x = Fin (of_nat (size A * k))" "y = Fin (of_nat (size B * k))" by simp_all
  then show ?case using single_of_nat [OF lt] by (simp add: distrib_right)
qed simp


record float_coll =
  Allreduce_float :: "int \<Rightarrow> dbl list list \<Rightarrow> dbl list list \<Rightarrow> dbl list list"
  Reduce_float :: "int \<Rightarrow> nat \<Rightarrow> dbl list list \<Rightarrow> dbl list list \<Rightarrow> dbl list list"
  Reduce_scatter_float :: "int list \<Rightarrow> dbl list list \<Rightarrow> dbl list list \<Rightarrow> dbl list list"

text \<open>The first \<open>c\<close> elements of \<open>buf'\<close> are sums of what the members have from \<open>off\<close> on; the others are those of \<open>buf\<close>.\<close>

definition reduced_to :: "nat \<Rightarrow> nat \<Rightarrow> dbl list list \<Rightarrow> dbl list \<Rightarrow> dbl list \<Rightarrow> bool" where
  "reduced_to c off sb buf buf' \<longleftrightarrow> length buf' = length buf
     \<and> (\<forall>e<c. float_sums (mset (map (\<lambda>s. s ! (off + e)) sb)) (buf' ! e))
     \<and> (\<forall>e<length buf. c \<le> e \<longrightarrow> buf' ! e = buf ! e)"

locale mpi_reductions =
  fixes F :: float_coll
  assumes allreduce: "0 \<le> c \<Longrightarrow> length sb = length rb \<Longrightarrow> sb \<noteq> [] \<Longrightarrow> \<forall>b\<in>set sb \<union> set rb. nat c \<le> length b
      \<Longrightarrow> list_all2 (reduced_to (nat c) 0 sb) rb (Allreduce_float F c sb rb)"
    and reduce: "0 \<le> c \<Longrightarrow> length sb = length rb \<Longrightarrow> rt < length rb \<Longrightarrow> nat c \<le> length (rb ! rt)
      \<Longrightarrow> \<forall>b\<in>set sb. nat c \<le> length b
      \<Longrightarrow> \<exists>b. reduced_to (nat c) 0 sb (rb ! rt) b \<and> Reduce_float F c rt sb rb = rb[rt := b]"
    and reduce_scatter: "length cs = length rb \<Longrightarrow> length sb = length rb \<Longrightarrow> sb \<noteq> [] \<Longrightarrow> \<forall>c\<in>set cs. 0 \<le> c
      \<Longrightarrow> \<forall>b\<in>set sb. nat (sum_list cs) \<le> length b \<Longrightarrow> (\<And>r. r < length rb \<Longrightarrow> nat (cs ! r) \<le> length (rb ! r))
      \<Longrightarrow> length (Reduce_scatter_float F cs sb rb) = length rb
        \<and> (\<forall>r<length rb. reduced_to (nat (cs ! r)) (nat (sum_list (take r cs))) sb (rb ! r) (Reduce_scatter_float F cs sb rb ! r))"

text \<open>An implementation that adds in the order of the ranks.\<close>

definition add_up :: "nat \<Rightarrow> nat \<Rightarrow> dbl list list \<Rightarrow> dbl list \<Rightarrow> dbl list" where
  "add_up c off sb buf =
     map (\<lambda>e. case map (\<lambda>s. s ! (off + e)) sb of [] \<Rightarrow> NaN | x # xs \<Rightarrow> foldl float_add x xs) [0..<c] @ drop c buf"

lemma float_sums_foldl: "float_sums A x \<Longrightarrow> float_sums (A + mset xs) (foldl float_add x xs)"
proof (induction xs arbitrary: A x)
  case (Cons y ys)
  from Cons.IH [OF float_sums.add [OF Cons.prems float_sums.single [of y]]] show ?case by simp
qed simp

lemma reduced_to_add_up: "sb \<noteq> [] \<Longrightarrow> c \<le> length buf \<Longrightarrow> reduced_to c off sb buf (add_up c off sb buf)"
proof (cases sb)
  case (Cons s ss)
  have "float_sums (mset (map (\<lambda>s. s ! (off + e)) sb)) (foldl float_add (s ! (off + e)) (map (\<lambda>s. s ! (off + e)) ss))" for e
    using float_sums_foldl [OF float_sums.single, of "s ! (off + e)" "map (\<lambda>s. s ! (off + e)) ss"] Cons by simp
  moreover assume "c \<le> length buf"
  ultimately show ?thesis by (auto simp: reduced_to_def add_up_def nth_append Cons)
qed simp

definition ref_floats :: float_coll where
  "ref_floats = \<lparr>
     Allreduce_float = (\<lambda>c sb rb. map (add_up (nat c) 0 sb) rb),
     Reduce_float = (\<lambda>c rt sb rb. rb[rt := add_up (nat c) 0 sb (rb ! rt)]),
     Reduce_scatter_float = (\<lambda>cs sb rb.
       map (\<lambda>r. add_up (nat (cs ! r)) (nat (sum_list (take r cs))) sb (rb ! r)) [0..<length rb])\<rparr>"

interpretation reffloats: mpi_reductions ref_floats
proof unfold_locales
  show "\<exists>b. reduced_to (nat c) 0 sb (rb ! rt) b \<and> Reduce_float ref_floats c rt sb rb = rb[rt := b]"
    if "length sb = length rb" "rt < length rb" "nat c \<le> length (rb ! rt)" for c rt sb and rb :: "dbl list list"
    using that reduced_to_add_up [of sb "nat c" "rb ! rt" 0] by (cases sb) (auto simp: ref_floats_def)
qed (auto simp: ref_floats_def reduced_to_add_up list_all2_conv_all_nth)

end
