(* ===== verification/Osu_Validate.thy ===== *)
theory Osu_Validate
  imports Osu_Options Mpi_Floats
begin

text \<open>
  Filling and validating the buffers of the collective OSU benchmarks (\<^verbatim>\<open>set_buffer_char\<close>, \<^verbatim>\<open>set_buffer_float\<close>,
  \<^verbatim>\<open>validate_alltoall\<close> and \<^verbatim>\<open>validate_reduction\<close> of \<^verbatim>\<open>osu_util_mpi.c\<close>, for host buffers). A buffer of
  \<^verbatim>\<open>float\<close>s is a list of values, with the rounding of \<^verbatim>\<open>binary32\<close>. \<open>mem\<close> tells which sizes \<^verbatim>\<open>malloc\<close>
  grants; its result is not looked at, so a refused one is written through. The sizes passed by the benchmarks
  are \<^verbatim>\<open>int\<close>s, so the number of elements fits one; products of them may not.

  The lemmas state the verdicts in closed form, what the validation cannot see, and when it accepts.
\<close>

subsection \<open>Filling\<close>

text \<open>
  The pattern of a send buffer: the block for process \<open>i\<close> consists of the byte \<open>rank * num_procs + i\<close>.
\<close>

definition char_pattern :: "nat \<Rightarrow> nat \<Rightarrow> nat \<Rightarrow> byte" where
  "char_pattern rank n i = of_nat ((rank * n + i) mod 2 ^ 8)"

definition set_buffer_char ::
    "(nat \<Rightarrow> bool) \<Rightarrow> bool \<Rightarrow> nat \<Rightarrow> nat \<Rightarrow> nat \<Rightarrow> byte list \<Rightarrow> byte list prog" where
  "set_buffer_char mem is_send_buf siz rank n buffer =
     (let total = siz * n;
          overflow = (if is_send_buf then 0 < total \<and> (2 ^ 31 < total \<or> 2 ^ 31 < rank * n + n) else 2 ^ 31 \<le> total) in
      if overflow \<or> (0 < total \<and> \<not> mem total) \<or> length buffer < total then Undefined
      else Return ((if is_send_buf then concat (map (\<lambda>i. replicate siz (char_pattern rank n i)) [0..<n])
                    else replicate total 0) @ drop total buffer))"

text \<open>The value of element \<open>i\<close> in iteration \<open>iter\<close>: an \<^verbatim>\<open>int\<close> product made a \<^verbatim>\<open>double\<close>, then a \<^verbatim>\<open>float\<close>.\<close>

definition float_pattern :: "int \<Rightarrow> nat \<Rightarrow> dbl prog" where
  "float_pattern iter i =
     (if int_ok (iter + 1) \<and> int_ok ((int i + 1) * (iter + 1))
      then Return (to_single (double_of (of_int ((int i + 1) * (iter + 1))))) else Undefined)"

text \<open>
  The size counts bytes. Where it is no multiple of the size of a \<^verbatim>\<open>float\<close>, \<^verbatim>\<open>memcpy\<close> overwrites a part of
  one more element with bytes that were never set: \<open>junk\<close> is what that element becomes.
\<close>

definition set_buffer_float ::
    "(nat \<Rightarrow> bool) \<Rightarrow> bool \<Rightarrow> nat \<Rightarrow> int \<Rightarrow> dbl \<Rightarrow> dbl list \<Rightarrow> dbl list prog" where
  "set_buffer_float mem is_send_buf siz iter junk buffer =
     (let k = siz div 4 in
      if (0 < k \<and> \<not> mem siz) \<or> 4 * length buffer < siz then Undefined
      else bind_prog (if is_send_buf then traverse_prog (float_pattern iter) [0..<k] else Return (replicate k (Fin 0)))
        (\<lambda>temp. Return (temp @ (if siz mod 4 = 0 then drop k buffer else junk # drop (Suc k) buffer))))"

text \<open>
  \<^verbatim>\<open>set_buffer\<close> sets every byte; four bytes of a value are a \<^verbatim>\<open>float\<close>. The buffer holds exactly the bytes set.
\<close>

definition set_buffer :: "byte \<Rightarrow> byte list \<Rightarrow> byte list" where
  "set_buffer v buffer = replicate (length buffer) v"

definition set_buffer_floats :: "byte \<Rightarrow> dbl list \<Rightarrow> dbl list" where
  "set_buffer_floats v buffer =
     replicate (length buffer) (float_of_bits (let w = ucast v :: u32 in w + push_bit 8 w + push_bit 16 w + push_bit 24 w))"

subsection \<open>Validating\<close>

definition mismatch_report :: "nat \<Rightarrow> int \<Rightarrow> int \<Rightarrow> string \<Rightarrow> string \<Rightarrow> string" where
  "mismatch_report siz iter element expected actual =
     [CHR 0x0A] @ ''Msgsize : '' @ show_nat siz @ '', Iter : '' @ show_int iter @ '', Element : '' @ show_int element
     @ '', Expected : '' @ expected @ '', Actual : '' @ actual @ [CHR 0x0A]"

definition show_char :: "byte \<Rightarrow> string" where
  "show_char c = show_int (sint c)"

text \<open>
  The state of the loops: the number of errors and what was printed. An element of \<^verbatim>\<open>expected_buffer\<close> is
  \<open>None\<close> until it is set. The comparison of process \<open>i\<close>, element \<open>j\<close> reads index \<open>i\<close> of both buffers.
\<close>

definition alltoall_compare ::
    "byte list \<Rightarrow> nat \<Rightarrow> nat \<Rightarrow> nat \<Rightarrow> int \<Rightarrow> nat \<times> nat \<Rightarrow> byte option list \<times> int \<times> string
     \<Rightarrow> (byte option list \<times> int \<times> string) prog" where
  "alltoall_compare temp siz rank n iter ij st =
     (case (ij, st) of ((i, j), (expd, errors, out)) \<Rightarrow>
        let expd = expd[i * siz + j := Some (char_pattern i n rank)] in
        if length temp \<le> i then Undefined
        else case expd ! i of
          None \<Rightarrow> Undefined
        | Some e \<Rightarrow>
            if temp ! i = e then Return (expd, errors, out)
            else if \<not> int_ok (errors + 1) \<or> (errors = 0 \<and> \<not> int_ok (int (i * siz + i))) then Undefined
            else Return (expd, errors + 1, if errors + 1 = 1
              then out @ mismatch_report siz iter (int (i * siz + i)) (show_char e) (show_char (temp ! i)) else out))"

definition validate_alltoall ::
    "(nat \<Rightarrow> bool) \<Rightarrow> byte list \<Rightarrow> nat \<Rightarrow> nat \<Rightarrow> nat \<Rightarrow> int \<Rightarrow> (int \<times> string) prog" where
  "validate_alltoall mem buffer siz rank n iter =
     (let total = siz * n in
      if (0 < total \<and> \<not> mem total) \<or> length buffer < total \<or> 2 ^ 31 < total \<or> (0 < total \<and> 2 ^ 31 \<le> (n - 1) * n + rank) then Undefined
      else bind_prog (fold_prog (alltoall_compare (take total buffer) siz rank n iter)
               (concat (map (\<lambda>i. map (Pair i) [0..<siz]) [0..<n])) (replicate total None, 0, []))
             (\<lambda>(_, errors, out). Return (errors, out)))"

text \<open>
  The expected sum, and the comparison: the difference is a \<^verbatim>\<open>float\<close>, \<^verbatim>\<open>abs\<close> takes an \<^verbatim>\<open>int\<close>, and an
  \<^verbatim>\<open>int\<close> is above 0.001 if it is positive.
\<close>

definition expected_sum :: "int \<Rightarrow> nat \<Rightarrow> nat \<Rightarrow> dbl prog" where
  "expected_sum iter n i =
     (if int_ok (iter + 1) \<and> int_ok ((int i + 1) * (iter + 1))
      then Return (to_single (double_of (of_int ((int i + 1) * (iter + 1)) * of_nat n))) else Undefined)"

definition reduction_compare ::
    "(dbl \<Rightarrow> string) \<Rightarrow> dbl list \<Rightarrow> nat \<Rightarrow> int \<Rightarrow> nat \<Rightarrow> nat \<Rightarrow> int \<times> string \<Rightarrow> (int \<times> string) prog" where
  "reduction_compare fmt temp siz iter n i st =
     (case st of (errors, out) \<Rightarrow>
        bind_prog (expected_sum iter n i) (\<lambda>e.
          case int_of_float (float_sub (temp ! i) e) of
            None \<Rightarrow> Undefined
          | Some d \<Rightarrow>
              if d = - (2 ^ 31) then Undefined
              else if \<bar>d\<bar> = 0 then Return (errors, out)
              else Return (errors + 1, if errors + 1 = 1
                then out @ mismatch_report siz iter (int i) (fmt e) (fmt (temp ! i)) else out)))"

definition validate_reduction ::
    "(nat \<Rightarrow> bool) \<Rightarrow> (dbl \<Rightarrow> string) \<Rightarrow> dbl list \<Rightarrow> nat \<Rightarrow> int \<Rightarrow> nat \<Rightarrow> (int \<times> string) prog" where
  "validate_reduction mem fmt buffer siz iter n =
     (if (0 < siz \<and> \<not> mem siz) \<or> 4 * length buffer < siz then Undefined
      else fold_prog (reduction_compare fmt buffer siz iter n) [0..<siz div 4] (0, []))"

subsection \<open>The verdict on an all-to-all exchange\<close>

lemma nested_upt: "concat (map (\<lambda>i. map (Pair i) [0..<m]) [0..<n]) = map (\<lambda>p. (p div m, p mod m)) [0..<n * m]"
proof (induction n)
  case (Suc n)
  have "map (Pair n) [0..<m] = map (\<lambda>p. (p div m, p mod m)) [n * m..<n * m + m]"
    by (rule nth_equalityI) simp_all
  moreover have "[0..<Suc n * m] = [0..<n * m] @ [n * m..<n * m + m]"
    using upt_add_eq_append [of 0 "n * m" m] by (simp add: add.commute)
  ultimately show ?case using Suc by simp
qed simp

definition bad_index :: "byte list \<Rightarrow> nat \<Rightarrow> nat \<Rightarrow> nat \<Rightarrow> nat \<Rightarrow> bool" where
  "bad_index buf siz rank n i \<longleftrightarrow> buf ! i \<noteq> char_pattern (i div siz) n rank"

lemma count_blocks:
  assumes "0 < (m :: nat)" shows "(\<Sum>p<n * m. of_bool (P (p div m))) = m * card {i. i < n \<and> P i}"
proof (induction n)
  case (Suc n)
  have "(\<Sum>p = n * m..<n * m + m. of_bool (P (p div m))) = (\<Sum>p = n * m..<n * m + m. of_bool (P n) :: nat)"
    using assms by (intro sum.cong) (auto simp: div_nat_eqI mult.commute)
  moreover have "(\<Sum>p<n * m + m. of_bool (P (p div m)) :: nat)
      = (\<Sum>p<n * m. of_bool (P (p div m))) + (\<Sum>p = n * m..<n * m + m. of_bool (P (p div m)))"
    by (metis atLeast0LessThan le_add1 sum.atLeastLessThan_concat zero_le)
  moreover have "{i. i < Suc n \<and> P i} = (if P n then insert n {i. i < n \<and> P i} else {i. i < n \<and> P i})"
    by (auto simp: less_Suc_eq)
  ultimately show ?case using Suc by (simp add: add.commute algebra_simps)
qed simp

lemma validate_alltoall_verdict:
  assumes "0 < siz" "siz * n < 2 ^ 31" "rank < n" "n * n + n \<le> 2 ^ 31" "mem (siz * n)" "siz * n \<le> length buffer"
    and "n * siz + n \<le> 2 ^ 31"
  shows "\<exists>out. validate_alltoall mem buffer siz rank n iter
      = Return (int (siz * card {i. i < n \<and> bad_index buffer siz rank n i}), out)
    \<and> (out = [] \<longleftrightarrow> (\<forall>i<n. \<not> bad_index buffer siz rank n i))"
proof -
  let ?bad = "bad_index buffer siz rank n" and ?T = "take (siz * n) buffer"
  let ?step = "\<lambda>p. alltoall_compare ?T siz rank n iter (p div siz, p mod siz)"
  define cnt :: "nat \<Rightarrow> nat" where "cnt m = (\<Sum>p<m. of_bool (?bad (p div siz)))" for m
  have cnt: "cnt 0 = 0" "cnt (Suc m) = cnt m + of_bool (?bad (m div siz))" for m by (simp_all only: cnt_def lessThan_0 sum.empty sum.lessThan_Suc)
  define I where "I = (\<lambda>m (expd, errors, out). length expd = siz * n
      \<and> (\<forall>q<m. expd ! q = Some (char_pattern (q div siz) n rank))
      \<and> errors = int (cnt m) \<and> (out = ([] :: string) \<longleftrightarrow> errors = 0))"
  have step: "\<exists>s'. ?step m s = Return s' \<and> I (Suc m) s'" if "m < siz * n" "I m s" for m s
  proof -
    obtain expd errors out where s: "s = (expd, errors, out)" by (cases s) auto
    let ?i = "m div siz" and ?e = "expd[m := Some (char_pattern (m div siz) n rank)]"
    have i: "?i < n" "?i \<le> m" using that(1) by (simp_all add: less_mult_imp_div_less mult.commute)
    have set: "\<forall>q<Suc m. ?e ! q = Some (char_pattern (q div siz) n rank)"
      using that by (auto simp: I_def s nth_list_update less_Suc_eq)
    have idx: "?i < length ?T" "?T ! ?i = buffer ! ?i" using le_less_trans [OF i(2) that(1)] assms(6) by simp_all
    have "cnt m \<le> m" by (induction m) (simp_all add: cnt)
    then have le: "errors \<le> int m" "0 \<le> errors" using that(2) by (simp_all add: I_def s)
    have "?i * siz + ?i < 2 ^ 31"
    proof -
      have "Suc ?i * Suc siz \<le> n * Suc siz" using i(1) by (intro mult_le_mono1) simp
      then show ?thesis using assms(7) by (simp add: algebra_simps)
    qed
    then have ok: "int_ok (errors + 1)" "int_ok (int (?i * siz + ?i))" "int_ok (int (?i * siz + ?i))"
      using le that(1) assms(2) by (simp_all add: int_ok_def flip: of_nat_add of_nat_mult) 
    have "?step m s = (if ?bad ?i then Return (?e, errors + 1, if errors = 0 then out @ mismatch_report siz iter
        (int (?i * siz + ?i)) (show_char (char_pattern (?i div siz) n rank)) (show_char (buffer ! ?i)) else out)
      else Return (?e, errors, out))"
      using ok idx set i by (simp add: alltoall_compare_def s bad_index_def Let_def less_Suc_eq_le not_le)
    moreover have "mismatch_report a b c d e \<noteq> []" for a b c d e by (simp add: mismatch_report_def)
    ultimately show ?thesis using that(2) set le by (auto simp: I_def s cnt)
  qed
  have "\<exists>s. fold_prog ?step [0..<siz * n] (replicate (siz * n) None, 0, []) = Return s \<and> I (siz * n) s"
    by (rule fold_prog_upt [of I, OF _ step]) (simp_all add: I_def cnt)
  then obtain expd errors out where
    r: "fold_prog ?step [0..<siz * n] (replicate (siz * n) None, 0, []) = Return (expd, errors, out)"
    and I: "I (siz * n) (expd, errors, out)" by auto
  have errors: "errors = int (siz * card {i. i < n \<and> ?bad i})" using I count_blocks [OF assms(1), of ?bad n]
    by (simp only: I_def cnt_def prod.case mult.commute)
  have "(n - 1) * n + rank < 2 ^ 31" using assms(3,4) by (cases n) simp_all
  then have "validate_alltoall mem buffer siz rank n iter = Return (errors, out)"
    using assms r by (simp add: validate_alltoall_def nested_upt fold_prog_map mult.commute)
  moreover have "out = [] \<longleftrightarrow> (\<forall>i<n. \<not> ?bad i)" using I assms(1) by (auto simp: I_def errors)
  ultimately show ?thesis using errors by simp
qed

text \<open>
  C39. The validation of an all-to-all exchange compares the bytes at the indices \<open>0..<num_procs\<close> of the
  receive buffer, each once for every byte of a block, instead of the blocks themselves: as long as the
  products of sizes and ranks fit an \<^verbatim>\<open>int\<close>, it reports \<open>size\<close> errors for each of these indices \<open>i\<close> where the
  byte differs from the pattern of block \<open>i div size\<close>, and prints something exactly if there is one. The
  bytes from index \<^verbatim>\<open>num_procs\<close> on have no influence.
\<close>

theorem validate_alltoall_counts:
  assumes "0 < siz" "siz * n < 2 ^ 31" "rank < n" "n * n + n \<le> 2 ^ 31" "mem (siz * n)" "siz * n \<le> length buffer"
    and "n * siz + n \<le> 2 ^ 31"
  shows "\<exists>out. validate_alltoall mem buffer siz rank n iter
      = Return (int (siz * card {i. i < n \<and> bad_index buffer siz rank n i}), out)
    \<and> (out = [] \<longleftrightarrow> (\<forall>i<n. \<not> bad_index buffer siz rank n i))"
  by (rule validate_alltoall_verdict) (use assms in blast)+

theorem validate_alltoall_counts_witness:
  "\<exists>out. validate_alltoall (\<lambda>_. True) [1, 3, 5, 7] 2 1 2 0
      = Return (int (2 * card {i. i < 2 \<and> bad_index [1, 3, 5, 7] 2 1 2 i}), out)
    \<and> (out = [] \<longleftrightarrow> (\<forall>i<2. \<not> bad_index [1, 3, 5, 7] 2 1 2 i))"
  using validate_alltoall_counts [of 2 2 1 "\<lambda>_. True" "[1, 3, 5, 7]" 0] by simp

subsection \<open>The verdict on a reduction\<close>

definition deviates :: "dbl list \<Rightarrow> int \<Rightarrow> nat \<Rightarrow> nat \<Rightarrow> bool" where
  "deviates buf iter n i \<longleftrightarrow>
     (\<exists>e x. expected_sum iter n i = Return e \<and> float_sub (buf ! i) e = Fin x \<and> 1 \<le> \<bar>x\<bar>)"

lemma int_of_float_zero: "int_of_float (Fin x) = Some d \<Longrightarrow> d = 0 \<longleftrightarrow> \<bar>x\<bar> < 1"
proof -
  assume "int_of_float (Fin x) = Some d"
  then have d: "d = (if x < 0 then - \<lfloor>- x\<rfloor> else \<lfloor>x\<rfloor>)" by (simp add: int_of_float_def Let_def split: if_splits)
  show ?thesis
  proof (cases "x < 0")
    case True
    have "\<lfloor>- x\<rfloor> = 0 \<longleftrightarrow> - x < 1" using True by (simp add: floor_eq_iff)
    with True d show ?thesis by simp
  next
    case False
    then show ?thesis using d by (simp add: floor_eq_iff)
  qed
qed

lemma card_less_Suc: "card {i. i < Suc k \<and> P i} = card {i. i < k \<and> P i} + of_bool (P k)"
proof -
  have "{i. i < Suc k \<and> P i} = (if P k then insert k {i. i < k \<and> P i} else {i. i < k \<and> P i})"
    by (auto simp: less_Suc_eq)
  then show ?thesis by simp
qed

lemma validate_reduction_verdict:
  assumes "mem siz" "siz \<le> 4 * length buffer" "siz < 2 ^ 31"
    and "\<And>i. i < siz div 4 \<Longrightarrow> \<exists>e d. expected_sum iter n i = Return e
      \<and> int_of_float (float_sub (buffer ! i) e) = Some d \<and> d \<noteq> - (2 ^ 31)"
  shows "\<exists>out. validate_reduction mem fmt buffer siz iter n
      = Return (int (card {i. i < siz div 4 \<and> deviates buffer iter n i}), out)
    \<and> (out = [] \<longleftrightarrow> (\<forall>i < siz div 4. \<not> deviates buffer iter n i))"
proof -
  define I where "I = (\<lambda>k (errors, out). errors = int (card {i. i < k \<and> deviates buffer iter n i})
    \<and> (out = ([] :: string) \<longleftrightarrow> errors = 0))"
  have step: "\<exists>s'. reduction_compare fmt buffer siz iter n k s = Return s' \<and> I (Suc k) s'"
    if "k < siz div 4" "I k s" for k s
  proof -
    note ok = assms(4) [OF that(1)]
    obtain errors out where s: "s = (errors, out)" by (cases s)
    obtain e d where e: "expected_sum iter n k = Return e" and d: "int_of_float (float_sub (buffer ! k) e) = Some d"
      and m: "d \<noteq> - (2 ^ 31)" using ok by blast
    obtain x where x: "float_sub (buffer ! k) e = Fin x" using d by (cases "float_sub (buffer ! k) e") (simp_all add: int_of_float_def)
    have "deviates buffer iter n k \<longleftrightarrow> d \<noteq> 0" using int_of_float_zero [of x d] d x e by (auto simp: deviates_def not_le)
    moreover have "mismatch_report a b c d e \<noteq> []" for a b c d e by (simp add: mismatch_report_def)
    ultimately show ?thesis using that(2) e d m by (auto simp: reduction_compare_def s I_def card_less_Suc)
  qed
  have "\<exists>s. fold_prog (reduction_compare fmt buffer siz iter n) [0..<siz div 4] (0, []) = Return s \<and> I (siz div 4) s"
    by (rule fold_prog_upt [of I, OF _ step]) (simp_all add: I_def)
  then obtain errors out where
    r: "fold_prog (reduction_compare fmt buffer siz iter n) [0..<siz div 4] (0, []) = Return (errors, out)"
    and I: "I (siz div 4) (errors, out)" by auto
  have "finite {i. i < siz div 4 \<and> deviates buffer iter n i}" by simp
  then have "errors = 0 \<longleftrightarrow> (\<forall>i < siz div 4. \<not> deviates buffer iter n i)" using I by (auto simp: I_def)
  then show ?thesis using r I assms(1,2) by (simp add: validate_reduction_def I_def)
qed

text \<open>Where every partial sum is exact the sum is the expected one.\<close>

lemma product_of_nat: "(int i + 1) * (int it + 1) = int ((i + 1) * (it + 1))"
  by (simp add: algebra_simps)

lemma int_ok_of_nat: "int_ok (int m) \<longleftrightarrow> m < 2 ^ 31"
  by (auto simp: int_ok_def)

lemma product_ok: "(i + 1) * (it + 1) < 2 ^ 31 \<Longrightarrow> int_ok (int it + 1) \<and> int_ok (int ((i + 1) * (it + 1)))"
proof -
  assume k: "(i + 1) * (it + 1) < 2 ^ 31"
  moreover have "it + 1 \<le> (i + 1) * (it + 1)" by simp
  ultimately have "it + 1 < 2 ^ 31" by (rule le_less_trans [rotated])
  then have "int_ok (int (it + 1))" by (simp only: int_ok_of_nat)
  with k show ?thesis by (simp only: int_ok_of_nat of_nat_add of_nat_1 simp_thms)
qed

lemma float_pattern_exact:
  assumes "(i + 1) * (it + 1) < 2 ^ 24"
  shows "float_pattern (int it) i = Return (Fin (of_nat ((i + 1) * (it + 1))))"
proof -
  let ?k = "(i + 1) * (it + 1)"
  have "double_of (of_nat ?k) = Fin (of_nat ?k)" using double_of_nat_shift [of ?k 0] assms by simp
  moreover have "?k < 2 ^ 31" by (rule less_trans [OF assms]) simp
  ultimately show ?thesis using single_of_nat [OF assms] product_ok [of i it]
    by (simp only: float_pattern_def product_of_nat of_int_of_nat_eq to_single_def dbl.case if_True simp_thms)
qed

lemma expected_sum_exact:
  assumes "n * ((i + 1) * (it + 1)) < 2 ^ 24" "0 < n"
  shows "expected_sum (int it) n i = Return (Fin (of_nat (n * ((i + 1) * (it + 1)))))"
proof -
  let ?k = "(i + 1) * (it + 1)"
  have "?k * 1 \<le> ?k * n" using assms(2) by (intro mult_le_mono2) simp
  then have "?k < 2 ^ 31" using less_trans [OF assms(1), of "2 ^ 31"]
    by (simp only: mult.commute [of n] mult_1_right) (rule le_less_trans, assumption, simp)
  moreover have "double_of (of_nat ?k * of_nat n) = Fin (of_nat (n * ?k))"
    using double_of_nat_shift [of "n * ?k" 0] assms(1) by (simp only: of_nat_mult mult.commute power_0 mult_1_right) simp
  ultimately show ?thesis using single_of_nat [OF assms(1)] product_ok [of i it]
    by (simp only: expected_sum_def product_of_nat of_int_of_nat_eq to_single_def dbl.case if_True simp_thms)
qed

text \<open>
  C40. Where the buffers can be allocated, the buffer holds the size given and every difference to the
  expected sum is a number in the range of an \<^verbatim>\<open>int\<close>, the validation of a reduction looks at one element
  for every four bytes of the size, counts exactly the elements whose difference to the rounded expected
  sum is 1 or more, whatever the tolerance of 0.001 says, and prints something exactly if there is one.
\<close>

theorem validate_reduction_counts:
  assumes "mem siz" "siz \<le> 4 * length buffer" "siz < 2 ^ 31"
    and "\<And>i. i < siz div 4 \<Longrightarrow> \<exists>e d. expected_sum iter n i = Return e
      \<and> int_of_float (float_sub (buffer ! i) e) = Some d \<and> d \<noteq> - (2 ^ 31)"
  shows "\<exists>out. validate_reduction mem fmt buffer siz iter n
      = Return (int (card {i. i < siz div 4 \<and> deviates buffer iter n i}), out)
    \<and> (out = [] \<longleftrightarrow> (\<forall>i < siz div 4. \<not> deviates buffer iter n i))"
  by (rule validate_reduction_verdict) (use assms in blast)+

text \<open>Two processes in the first iteration: the second element, 5, is not the expected 4.\<close>

theorem validate_reduction_counts_witness:
  "\<exists>out. validate_reduction (\<lambda>_. True) (\<lambda>_. ''0'') [Fin 2, Fin 5] 8 0 2 = Return (1, out) \<and> out \<noteq> []"
proof -
  let ?b = "[Fin 2, Fin 5]"
  have e: "expected_sum 0 2 0 = Return (Fin 2)" "expected_sum 0 2 1 = Return (Fin 4)"
    using expected_sum_exact [of 2 0 0] expected_sum_exact [of 2 1 0] by simp_all
  have d: "float_sub (Fin 5) (Fin 4) = Fin 1" using single_of_nat [of 1] by (simp add: float_sub_def)
  have one: "int_of_float (Fin 1) = Some 1" by (simp add: int_of_float_def int_ok_def)
  have two: "i < 8 div 4 \<longleftrightarrow> i = 0 \<or> i = 1" for i :: nat by auto
  have range: "\<exists>e d. expected_sum 0 2 i = Return e \<and> int_of_float (float_sub (?b ! i) e) = Some d \<and> d \<noteq> - (2 ^ 31)"
    if "i < 8 div 4" for i using that e d one by (auto simp only: two) simp_all
  have no: "\<not> deviates ?b 0 2 0" and yes: "deviates ?b 0 2 1" using e d by (simp_all add: deviates_def)
  have "{i. i < 8 div 4 \<and> deviates ?b 0 2 i} = {1}" using no yes two by (metis (lifting) Collect_cong singleton_conv)
  moreover note yes
  moreover have "(1 :: nat) < 8 div 4" by simp
  ultimately show ?thesis
    using validate_reduction_counts [of "\<lambda>_. True" 8 ?b 0 2 "\<lambda>_. ''0''", OF _ _ _ range] by (auto simp: two)
qed

lemma validate_reduction_accepts:
  assumes "mem siz" "siz \<le> 4 * length buffer" "siz < 2 ^ 31" "0 < n" "n * ((siz div 4) * (it + 1)) < 2 ^ 24"
    and "\<And>i. i < siz div 4 \<Longrightarrow> float_sums (replicate_mset n (Fin (of_nat ((i + 1) * (it + 1))))) (buffer ! i)"
  shows "validate_reduction mem fmt buffer siz (int it) n = Return (0, [])"
proof -
  have e: "expected_sum (int it) n i = Return (buffer ! i) \<and> (\<exists>x. buffer ! i = Fin x)" if i: "i < siz div 4" for i
  proof -
    have "(i + 1) * (it + 1) \<le> siz div 4 * (it + 1)" using i by (intro mult_le_mono1) simp
    then have lt: "n * ((i + 1) * (it + 1)) < 2 ^ 24"
      using assms(5) mult_le_mono2 [of "(i + 1) * (it + 1)" _ n] by (meson le_less_trans)
    have "buffer ! i = Fin (of_nat (n * ((i + 1) * (it + 1))))"
      using float_sums_exact [OF assms(6) [OF i], of "(i + 1) * (it + 1)"] lt by (simp split: if_splits)
    then show ?thesis using expected_sum_exact [OF lt assms(4)] by simp
  qed
  have fine: "\<exists>e d. expected_sum (int it) n i = Return e \<and> int_of_float (float_sub (buffer ! i) e) = Some d \<and> d \<noteq> - (2 ^ 31)"
    if "i < siz div 4" for i using e [OF that] by auto
  have "\<not> deviates buffer (int it) n i" if "i < siz div 4" for i using e [OF that] by (auto simp: deviates_def)
  then have "{i. i < siz div 4 \<and> deviates buffer (int it) n i} = {}" by auto
  then show ?thesis using validate_reduction_verdict [of mem siz buffer "int it" n fmt, OF assms(1-3) fine] by auto
qed

text \<open>
  The tolerance is absolute: with six processes, in iteration 106, element 65520 of a reduction added up
  member by member is reported although every addition is rounded correctly.
\<close>

theorem reduction_false_alarm:
  "\<exists>x v. float_pattern 106 65520 = Return x \<and> float_sums (replicate_mset 6 x) v
     \<and> v = foldl float_add x (replicate 5 x) \<and> deviates (replicate 65521 v) 106 6 65520"
proof -
  let ?F = "\<lambda>m. Fin (of_nat m)" and ?k = "7010747 :: nat"
  have r: "single_of (of_nat n) = ?F m"
    if "2 ^ (23 + j) \<le> n" "n < 2 ^ (24 + j)" "j \<le> 100"
      "m = (if 2 * (n mod 2 ^ j) < 2 ^ j \<or> (2 * (n mod 2 ^ j) = 2 ^ j \<and> even (n div 2 ^ j)) then n div 2 ^ j
        else n div 2 ^ j + 1) * 2 ^ j" for n m j
    using single_of_round [OF that(1-3)] round_even_div [of "2 ^ j" n] that(4) by simp
  have add: "float_add (?F a) (?F b) = single_of (of_nat (a + b))" for a b by simp
  have 2: "float_add (?F ?k) (?F ?k) = ?F 14021494" unfolding add by (rule r [of 0]) simp_all
  have 3: "float_add (?F 14021494) (?F ?k) = ?F 21032240" unfolding add by (rule r [of 1]) simp_all
  have 4: "float_add (?F 21032240) (?F ?k) = ?F 28042988" unfolding add by (rule r [of 1]) simp_all
  have 5: "float_add (?F 28042988) (?F ?k) = ?F 35053736" unfolding add by (rule r [of 2]) simp_all
  have 6: "float_add (?F 35053736) (?F ?k) = ?F 42064484" unfolding add by (rule r [of 2]) simp_all
  have p: "float_pattern 106 65520 = Return (?F ?k)" using float_pattern_exact [of 65520 106] by simp
  have e: "expected_sum 106 6 65520 = Return (?F 42064480)"
  proof -
    have "double_of (of_nat 42064482) = ?F 42064482" using double_of_nat_shift [of 42064482 0] by simp
    moreover have "single_of (of_nat 42064482) = ?F 42064480" by (rule r [of 2]) simp_all
    ultimately show ?thesis by (simp add: expected_sum_def int_ok_def to_single_def)
  qed
  have six: "replicate_mset 6 z = {#z#} + {#z#} + {#z#} + {#z#} + {#z#} + {#z#}" for z :: dbl
    by (simp add: numeral_eq_Suc)
  have five: "foldl f z (replicate 5 z) = f (f (f (f (f z z) z) z) z) z" for f and z :: dbl
    by (simp add: numeral_eq_Suc)
  have "float_sums (replicate_mset 6 (?F ?k)) (foldl float_add (?F ?k) (replicate 5 (?F ?k)))"
    unfolding six five by (intro float_sums.intros)
  moreover have "foldl float_add (?F ?k) (replicate 5 (?F ?k)) = ?F 42064484" unfolding five 2 3 4 5 6 ..
  moreover have "float_sub (?F 42064484) (?F 42064480) = ?F 4"
    using single_of_nat [of 4] by (simp add: float_sub_def)
  then have "deviates (replicate 65521 (?F 42064484)) 106 6 65520" using e by (auto simp: deviates_def)
  ultimately show ?thesis using p by metis
qed

end
