(* ===== verification/Osu_Util.thy ===== *)
theory Osu_Util
  imports Osu_Validate
begin

text \<open>
  What the OSU benchmarks share (\<^verbatim>\<open>osu_util_mpi.c\<close>): the state of a process, the memory they allocate and free
  and what they print, for builds without accelerator support, where \<^verbatim>\<open>options.accel\<close> is always \<^verbatim>\<open>NONE\<close>.
  A job is modelled as a whole: all processes run the same program with the same arguments and hold the same
  options, and a collective call is one step of all of them. The MPI library, the memory that is granted and
  what it holds, the clock and the arithmetic of the times are the environment. What goes to \<^verbatim>\<open>stderr\<close> is left out.
\<close>

record 'd oenv =
  o_fp :: "'d fpu"
  o_min :: "'d list \<Rightarrow> 'd"
  o_max :: "'d list \<Rightarrow> 'd"
  o_sum :: "'d list \<Rightarrow> 'd"
  o_mpi :: mpi_coll
  o_floats :: float_coll
  o_init_err :: int
  o_wtime :: "nat \<Rightarrow> nat \<Rightarrow> 'd"
  o_memalign :: "nat \<Rightarrow> nat \<Rightarrow> u64 \<Rightarrow> bool"
  o_malloc :: "nat \<Rightarrow> nat \<Rightarrow> bool"
  o_arrays :: "nat \<Rightarrow> nat \<Rightarrow> bool"
  o_fresh :: "nat \<Rightarrow> nat \<Rightarrow> nat \<Rightarrow> u32"
  o_show :: "'d \<Rightarrow> string"
  o_show_float :: "dbl \<Rightarrow> string"
  o_version :: "string option"

text \<open>
  A process: its rank, its buffers and arrays, the errors it has counted, its timer and the number of times it
  has read the clock, the number of allocations so far, whether the pointers to the arrays of the dummy
  computation are set, and the number of sets of such arrays that nothing points to any more.
\<close>

record ('d, 'e) oproc =
  o_rank :: nat
  o_send :: "'e list"
  o_recv :: "'e list"
  o_scounts :: "int list"
  o_sdispls :: "int list"
  o_rcounts :: "int list"
  o_rdispls :: "int list"
  o_errors :: int
  o_timer :: 'd
  o_clock :: nat
  o_allocs :: nat
  o_host :: bool
  o_lost :: nat

text \<open>The job: the options, the processes in the order of their ranks, and what was printed, with the rank.\<close>

record ('d, 'e) ojob =
  j_opts :: options_t
  j_procs :: "('d, 'e) oproc list"
  j_out :: "(nat \<times> string) list"

definition each :: "(('d, 'e) oproc \<Rightarrow> ('d, 'e) oproc prog) \<Rightarrow> ('d, 'e) ojob \<Rightarrow> ('d, 'e) ojob prog" where
  "each f J = bind_prog (traverse_prog f (j_procs J)) (\<lambda>ps. Return (J\<lparr>j_procs := ps\<rparr>))"

text \<open>What the processes print goes to the output in the order of the ranks; nothing is no output.\<close>

definition spoken :: "(('d, 'e) oproc \<times> string) list \<Rightarrow> (nat \<times> string) list" where
  "spoken qs = map (\<lambda>(p, s). (o_rank p, s)) (filter (\<lambda>(p, s). s \<noteq> []) qs)"

definition each_say ::
    "(('d, 'e) oproc \<Rightarrow> (('d, 'e) oproc \<times> string) prog) \<Rightarrow> ('d, 'e) ojob \<Rightarrow> ('d, 'e) ojob prog" where
  "each_say f J = bind_prog (traverse_prog f (j_procs J)) (\<lambda>qs.
     Return (J\<lparr>j_procs := map fst qs, j_out := j_out J @ spoken qs\<rparr>))"

definition say :: "(('d, 'e) oproc \<Rightarrow> string) \<Rightarrow> ('d, 'e) ojob \<Rightarrow> ('d, 'e) ojob" where
  "say f J = J\<lparr>j_out := j_out J @ spoken (map (\<lambda>p. (p, f p)) (j_procs J))\<rparr>"

subsection \<open>Memory\<close>

text \<open>
  The arrays of the dummy computation. None of their \<^verbatim>\<open>malloc\<close>s is checked before the arrays are filled, and
  the pointers are overwritten.
\<close>

definition allocate_host_arrays :: "'d oenv \<Rightarrow> ('d, 'e) oproc \<Rightarrow> ('d, 'e) oproc prog" where
  "allocate_host_arrays E p =
     (if o_arrays E (o_rank p) (o_allocs p)
      then Return (p\<lparr>o_host := True, o_lost := o_lost p + (if o_host p then 1 else 0)\<rparr>) else Undefined)"

definition free_host_arrays :: "('d, 'e) oproc \<Rightarrow> ('d, 'e) oproc" where
  "free_host_arrays p = p\<lparr>o_host := False\<rparr>"

text \<open>
  A refused allocation is 1, otherwise 0 comes with the contents of the new memory, in units of four bytes.
\<close>

definition allocate_memory_coll ::
    "'d oenv \<Rightarrow> options_t \<Rightarrow> u64 \<Rightarrow> ('d, 'e) oproc \<Rightarrow> (int \<times> (nat \<Rightarrow> u32) \<times> ('d, 'e) oproc) prog" where
  "allocate_memory_coll E os siz p =
     bind_prog (if target os = CPU \<or> target os = BOTH then allocate_host_arrays E p else Return p) (\<lambda>p.
       Return (if o_memalign E (o_rank p) (o_allocs p) siz then 0 else 1, o_fresh E (o_rank p) (o_allocs p),
         p\<lparr>o_allocs := Suc (o_allocs p)\<rparr>))"

text \<open>The use all programs make of it: a process without memory aborts the job.\<close>

definition allocated ::
    "'d oenv \<Rightarrow> options_t \<Rightarrow> u64 \<Rightarrow> ((nat \<Rightarrow> u32) \<Rightarrow> ('d, 'e) oproc \<Rightarrow> ('d, 'e) oproc) \<Rightarrow> ('d, 'e) oproc
     \<Rightarrow> ('d, 'e) oproc prog" where
  "allocated E os siz keep p =
     bind_prog (allocate_memory_coll E os siz p) (\<lambda>(rc, w, p). if rc \<noteq> 0 then Exit 1 [] else Return (keep w p))"

definition free_buffer ::
    "options_t \<Rightarrow> (('d, 'e) oproc \<Rightarrow> ('d, 'e) oproc) \<Rightarrow> ('d, 'e) oproc \<Rightarrow> ('d, 'e) oproc" where
  "free_buffer os clear p = (if target os = CPU \<or> target os = BOTH then free_host_arrays (clear p) else clear p)"

text \<open>New buffers of bytes and of \<^verbatim>\<open>float\<close>s that have been set, and new arrays of \<^verbatim>\<open>int\<close>s.\<close>

definition char_buffer :: "byte \<Rightarrow> u64 \<Rightarrow> (nat \<Rightarrow> u32) \<Rightarrow> byte list" where
  "char_buffer v siz w = set_buffer v (map (\<lambda>i. ucast (drop_bit (8 * (i mod 4)) (w (i div 4)))) [0..<unat siz])"

definition float_buffer :: "byte \<Rightarrow> u64 \<Rightarrow> (nat \<Rightarrow> u32) \<Rightarrow> dbl list" where
  "float_buffer v siz w = set_buffer_floats v (map (\<lambda>i. float_of_bits (w i)) [0..<unat siz div 4])"

definition int_array :: "u64 \<Rightarrow> (nat \<Rightarrow> u32) \<Rightarrow> int list" where
  "int_array siz w = map (\<lambda>i. sint (w i)) [0..<unat siz div 4]"

subsection \<open>Printing\<close>

definition FIELD_WIDTH :: nat where "FIELD_WIDTH = 20"

definition pad_left :: "nat \<Rightarrow> string \<Rightarrow> string" where
  "pad_left w s = replicate (w - length s) CHR '' '' @ s"

definition pad_right :: "nat \<Rightarrow> string \<Rightarrow> string" where
  "pad_right w s = s @ replicate (w - length s) CHR '' ''"

definition bench_header :: "'d oenv \<Rightarrow> string \<Rightarrow> string" where
  "bench_header E title = ''# OSU MPI '' @ title @ (case o_version E of Some v \<Rightarrow> '' v'' @ v | None \<Rightarrow> []) @ newline"

definition print_version_message :: "'d oenv \<Rightarrow> string \<Rightarrow> nat \<Rightarrow> string" where
  "print_version_message E title rank = (if rank \<noteq> 0 then [] else bench_header E title)"

definition print_preamble :: "'d oenv \<Rightarrow> string \<Rightarrow> options_t \<Rightarrow> nat \<Rightarrow> string" where
  "print_preamble E title os rank =
     (if rank \<noteq> 0 then []
      else newline @ bench_header E title
        @ (if show_size os
           then pad_right 10 ''# Size'' @ pad_left FIELD_WIDTH ''Avg Latency(us)''
             @ (if validate os \<noteq> 0 then pad_left FIELD_WIDTH ''Errors'' else [])
           else ''# Avg Latency(us)'')
        @ (if show_full os
           then pad_left FIELD_WIDTH ''Min Latency(us)'' @ pad_left FIELD_WIDTH ''Max Latency(us)''
             @ pad_left 12 ''Iterations'' @ newline @ (if validate os \<noteq> 0 then pad_left FIELD_WIDTH ''Errors'' else [])
           else newline))"

definition stats_text :: "'d oenv \<Rightarrow> options_t \<Rightarrow> int \<Rightarrow> 'd \<Rightarrow> 'd \<Rightarrow> 'd \<Rightarrow> string" where
  "stats_text E os siz avg_time min_time max_time =
     (if show_size os then pad_right 10 (show_int siz) @ pad_left FIELD_WIDTH (o_show E avg_time)
      else pad_left 17 (o_show E avg_time))
     @ (if show_full os
        then pad_left FIELD_WIDTH (o_show E min_time) @ pad_left FIELD_WIDTH (o_show E max_time)
          @ pad_left 12 (show_nat (unat (iterations os)))
        else [])"

definition print_stats :: "'d oenv \<Rightarrow> options_t \<Rightarrow> nat \<Rightarrow> int \<Rightarrow> 'd \<Rightarrow> 'd \<Rightarrow> 'd \<Rightarrow> string" where
  "print_stats E os rank siz avg_time min_time max_time =
     (if rank \<noteq> 0 then [] else stats_text E os siz avg_time min_time max_time @ newline)"

definition print_stats_validate ::
    "'d oenv \<Rightarrow> options_t \<Rightarrow> nat \<Rightarrow> int \<Rightarrow> 'd \<Rightarrow> 'd \<Rightarrow> 'd \<Rightarrow> int \<Rightarrow> string" where
  "print_stats_validate E os rank siz avg_time min_time max_time errors =
     (if rank \<noteq> 0 then []
      else stats_text E os siz avg_time min_time max_time @ pad_left FIELD_WIDTH (show_int errors) @ newline)"

text \<open>The help, line by line.\<close>

definition help_lines :: "build \<Rightarrow> string \<Rightarrow> options_t \<Rightarrow> string list" where
  "help_lines B name os =
     (if enable_accel_support B os \<and> bench os = PT2PT
      then [''Usage: '' @ name @ '' [options] [SRC DST]'',
        [],
        ''SRC and DST are buffer types for the source and destination'',
        ''SRC and DST may be `D', `H', 'MD'or 'MH' which specifies whether'',
        ''the buffer is allocated on the accelerator device memory, host'',
        ''memory or using CUDA Unified Memory allocated on device or host respectively for each mpi rank'',
        []]
      else [''Usage: '' @ name @ '' [options]'', ''Options:''])
     @ (if (bench os = PT2PT \<or> bench os = MBW_MR) \<and> subtype os \<noteq> LAT_MT \<and> subtype os \<noteq> LAT_MP
      then [''  -b, --buffer-num            Use different buffers to perform data transfer (default single)'',
        ''                              Options: single, multiple'']
      else [])
     @ (if enable_accel_support B os \<and> subtype os \<noteq> LAT_MT \<and> subtype os \<noteq> LAT_MP
      then [''  -d, --accelerator  TYPE     use accelerator device buffers, which can be of TYPE `cuda', '',
        ''                              `managed', `openacc', or `rocm' (uses standard host buffers if not specified)'']
      else [])
     @ (if show_size os
      then [''  -m, --message-size          [MIN:]MAX  set the minimum and/or the maximum message size to MIN and/or MAX'',
        ''                              bytes respectively. Examples:'',
        ''                              -m 128      // min = default, max = 128'',
        ''                              -m 2:128    // min = 2, max = 128'',
        ''                              -m 2:       // min = 2, max = default'',
        ''  -M, --mem-limit SIZE        set per process maximum memory consumption to SIZE bytes'',
        ''                              (default '' @ show_int MAX_MEM_LIMIT @ '')'']
      else [])
     @ [''  -i, --iterations ITER       set iterations per message size to ITER (default 1000 for small'',
        ''                              messages, 100 for large messages)'',
        ''  -x, --warmup ITER           set number of warmup iterations to skip before timing (default 200)'']
     @ (if subtype os = BW
      then [''  -W, --window-size SIZE      set number of messages to send before synchronization (default 64)'']
      else [])
     @ (if bench os = COLLECTIVE
      then [''  -f, --full                  print full format listing (MIN/MAX latency and ITERATIONS'',
        ''                              displayed in addition to AVERAGE latency)'']
      else [])
     @ (if bench os = COLLECTIVE \<and> subtype os = NBC
      then [''  -t, --num_test_calls CALLS  set the number of MPI_Test() calls during the dummy computation, '',
        ''                              set CALLS to 100, 1000, or any number > 0.'']
      else [])
     @ (if bench os = COLLECTIVE \<and> CUDA_KERNEL_ENABLED B
      then [''  -r, --cuda-target TARGET    set the compute target for dummy computation'',
        ''                              set TARGET to cpu (default) to execute '',
        ''                              on CPU only, set to gpu for executing kernel '',
        ''                              on the GPU only, and set to both for compute on both.'',
        ''  -a, --array-size SIZE       set the size of arrays to be allocated on device (GPU) '',
        ''                              for dummy compute on device (GPU) (default 32) '']
      else [])
     @ (if subtype os = LAT_MT
      then [''  -t, --num_threads           SEND:[RECV]  set the sender and receiver number of threads '',
        ''                              min: '' @ show_int MIN_NUM_THREADS @ '' default: (receiver threads: '' @ show_int DEF_NUM_THREADS @ '' sender threads: 1), max: '' @ show_int MAX_NUM_THREADS @ ''.'',
        ''                              Examples: '',
        ''                              -t 4        // receiver threads = 4 and sender threads = 1'',
        ''                              -t 4:6      // sender threads = 4 and receiver threads = 6'',
        ''                              -t 2:       // not defined'']
      else [])
     @ (if subtype os = LAT_MP
      then [''  -t, --num_processes         SEND:[RECV]  set the sender and receiver number of processes '',
        ''                              min: '' @ show_int MIN_NUM_PROCESSES @ '' default: (receiver processes: '' @ show_int DEF_NUM_PROCESSES @ '' sender processes: 1), max: '' @ show_int MAX_NUM_PROCESSES @ ''.'',
        ''                              Examples: '',
        ''                              -t 4        // receiver processes = 4 and sender processes = 1'',
        ''                              -t 4:6      // sender processes = 4 and receiver processes = 6'',
        ''                              -t 2:       // not defined'']
      else [])
     @ [''  -h, --help                  print this help'',
        ''  -v, --version               print version info'',
        []]"

definition print_help_message :: "build \<Rightarrow> string \<Rightarrow> options_t \<Rightarrow> nat \<Rightarrow> string" where
  "print_help_message B name os rank =
     (if rank \<noteq> 0 then [] else concat (map (\<lambda>l. l @ newline) (help_lines B name os)))"

text \<open>The message of a bad usage goes to \<^verbatim>\<open>stderr\<close>, the help after it does not.\<close>

definition print_bad_usage_message :: "build \<Rightarrow> string \<Rightarrow> options_t \<Rightarrow> nat \<Rightarrow> string" where
  "print_bad_usage_message B name os rank =
     (if rank \<noteq> 0 \<or> bench os = ONE_SIDED then [] else print_help_message B name os rank)"

end
