(* ===== verification/Osu_Coll.thy ===== *)
theory Osu_Coll
  imports Osu_Util
begin

text \<open>
  The blocking collective OSU benchmarks (\<^verbatim>\<open>t/osu-micro-benchmarks/mpi/collective/osu_*.c\<close>): the parts their
  \<^verbatim>\<open>main\<close> functions share, and one definition per program. A program is run by all processes of a job with the
  same arguments; its result is the exit status with the final state of the job, or \<open>None\<close> if it does not end.
\<close>

subsection \<open>The parts of the programs\<close>

definition LARGE_MESSAGE_SIZE :: int where "LARGE_MESSAGE_SIZE = 8192"

text \<open>From the processing of the options to the number of processes.\<close>

definition coll_start ::
    "'d oenv \<Rightarrow> nat \<Rightarrow> string list \<Rightarrow> string \<Rightarrow> string \<Rightarrow> (options_t \<Rightarrow> (int \<times> ('d, 'e) ojob) prog option)
     \<Rightarrow> (int \<times> ('d, 'e) ojob) prog option" where
  "coll_start E n argv title name cont =
     (case process_options host_build argv (start_state COLLECTIVE LAT) of
        Exit rc out \<Rightarrow> Some (Exit rc out)
      | Undefined \<Rightarrow> Some Undefined
      | Return (po_ret, st) \<Rightarrow>
          if o_init_err E \<noteq> 0 then Some (Exit 1 [])
          else if po_ret = PO_BAD_USAGE then Some (Exit 1 (print_bad_usage_message host_build name (po_opts st) 0))
          else if po_ret = PO_HELP_MESSAGE then Some (Exit 0 (print_help_message host_build name (po_opts st) 0))
          else if po_ret = PO_VERSION_MESSAGE then Some (Exit 0 (print_version_message E title 0))
          else if n < 2 then Some (Exit 1 [])
          else cont (po_opts st))"

text \<open>The memory limit counts the buffers of all processes in some programs, one buffer in others.\<close>

definition limit_total :: "nat \<Rightarrow> options_t \<Rightarrow> options_t" where
  "limit_total n os =
     (if max_message_size os * of_nat n > max_mem_limit os
      then os\<lparr>max_message_size := max_mem_limit os div of_nat n\<rparr> else os)"

definition limit_one :: "nat \<Rightarrow> options_t \<Rightarrow> options_t" where
  "limit_one n os =
     (if max_message_size os > max_mem_limit os then os\<lparr>max_message_size := max_mem_limit os\<rparr> else os)"

definition start_job :: "'d oenv \<Rightarrow> options_t \<Rightarrow> nat \<Rightarrow> ('d, 'e) ojob" where
  "start_job E os n = \<lparr>j_opts = os,
     j_procs = map (\<lambda>r. \<lparr>o_rank = r, o_send = [], o_recv = [], o_scounts = [], o_sdispls = [], o_rcounts = [],
       o_rdispls = [], o_errors = 0, o_timer = f_int (o_fp E) 0, o_clock = 0, o_allocs = 0, o_host = False, o_lost = 0\<rparr>) [0..<n],
     j_out = []\<rparr>"

text \<open>Allocating and setting a buffer, or an array of one \<^verbatim>\<open>int\<close> per process, in the processes with certain ranks.\<close>

definition on_ranks ::
    "(nat \<Rightarrow> bool) \<Rightarrow> (('d, 'e) oproc \<Rightarrow> ('d, 'e) oproc prog) \<Rightarrow> ('d, 'e) ojob \<Rightarrow> ('d, 'e) ojob prog" where
  "on_ranks who f J = each (\<lambda>p. if who (o_rank p) then f p else Return p) J"

definition everyone :: "nat \<Rightarrow> bool" where "everyone r = True"
definition root :: "nat \<Rightarrow> bool" where "root r \<longleftrightarrow> r = 0"

definition new_send ::
    "'d oenv \<Rightarrow> (nat \<Rightarrow> bool) \<Rightarrow> (byte \<Rightarrow> u64 \<Rightarrow> (nat \<Rightarrow> u32) \<Rightarrow> 'e list) \<Rightarrow> u64 \<Rightarrow> byte
     \<Rightarrow> ('d, 'e) ojob \<Rightarrow> ('d, 'e) ojob prog" where
  "new_send E who mk siz v J = on_ranks who (allocated E (j_opts J) siz (\<lambda>w p. p\<lparr>o_send := mk v siz w\<rparr>)) J"

definition new_recv ::
    "'d oenv \<Rightarrow> (nat \<Rightarrow> bool) \<Rightarrow> (byte \<Rightarrow> u64 \<Rightarrow> (nat \<Rightarrow> u32) \<Rightarrow> 'e list) \<Rightarrow> u64 \<Rightarrow> byte
     \<Rightarrow> ('d, 'e) ojob \<Rightarrow> ('d, 'e) ojob prog" where
  "new_recv E who mk siz v J = on_ranks who (allocated E (j_opts J) siz (\<lambda>w p. p\<lparr>o_recv := mk v siz w\<rparr>)) J"

definition new_ints ::
    "'d oenv \<Rightarrow> (nat \<Rightarrow> bool) \<Rightarrow> (int list \<Rightarrow> ('d, 'e) oproc \<Rightarrow> ('d, 'e) oproc) \<Rightarrow> ('d, 'e) ojob \<Rightarrow> ('d, 'e) ojob prog" where
  "new_ints E who keep J =
     (let siz = of_nat (length (j_procs J)) * 4 in
      on_ranks who (allocated E (j_opts J) siz (\<lambda>w. keep (int_array siz w))) J)"

definition free_on ::
    "(nat \<Rightarrow> bool) \<Rightarrow> (('d, 'e) oproc \<Rightarrow> ('d, 'e) oproc) \<Rightarrow> ('d, 'e) ojob \<Rightarrow> ('d, 'e) ojob" where
  "free_on who clear J =
     J\<lparr>j_procs := map (\<lambda>p. if who (o_rank p) then free_buffer (j_opts J) clear p else p) (j_procs J)\<rparr>"

definition clear_send :: "('d, 'e) oproc \<Rightarrow> ('d, 'e) oproc" where "clear_send p = p\<lparr>o_send := []\<rparr>"
definition clear_recv :: "('d, 'e) oproc \<Rightarrow> ('d, 'e) oproc" where "clear_recv p = p\<lparr>o_recv := []\<rparr>"
definition clear_scounts :: "('d, 'e) oproc \<Rightarrow> ('d, 'e) oproc" where "clear_scounts p = p\<lparr>o_scounts := []\<rparr>"
definition clear_sdispls :: "('d, 'e) oproc \<Rightarrow> ('d, 'e) oproc" where "clear_sdispls p = p\<lparr>o_sdispls := []\<rparr>"
definition clear_rcounts :: "('d, 'e) oproc \<Rightarrow> ('d, 'e) oproc" where "clear_rcounts p = p\<lparr>o_rcounts := []\<rparr>"
definition clear_rdispls :: "('d, 'e) oproc \<Rightarrow> ('d, 'e) oproc" where "clear_rdispls p = p\<lparr>o_rdispls := []\<rparr>"

text \<open>The loop over the sizes. Doubling the largest power of two that is an \<^verbatim>\<open>int\<close> is undefined.\<close>

partial_function (option) osu_sweep ::
    "(int \<Rightarrow> bool) \<Rightarrow> (int \<Rightarrow> 's \<Rightarrow> 's prog) \<Rightarrow> int \<Rightarrow> 's \<Rightarrow> 's prog option" where
  "osu_sweep cond body siz s =
     (if cond siz then
        (case body siz s of
           Return s' \<Rightarrow> if int_ok (siz * 2) then osu_sweep cond body (siz * 2) s' else Some Undefined
         | Exit rc out \<Rightarrow> Some (Exit rc out)
         | Undefined \<Rightarrow> Some Undefined)
      else Some (Return s))"

text \<open>The conditions convert the size to a \<^verbatim>\<open>size_t\<close>.\<close>

definition within_chars :: "options_t \<Rightarrow> int \<Rightarrow> bool" where
  "within_chars os siz \<longleftrightarrow> word_of_int siz \<le> max_message_size os"

definition within_floats :: "options_t \<Rightarrow> int \<Rightarrow> bool" where
  "within_floats os siz \<longleftrightarrow> word_of_int siz * 4 \<le> max_message_size os"

definition first_size :: "options_t \<Rightarrow> int" where
  "first_size os = sint (ucast (min_message_size os) :: u32)"

definition large_options :: "options_t \<Rightarrow> options_t" where
  "large_options os = os\<lparr>skip := skip_large os, iterations := iterations_large os\<rparr>"

definition switch_large :: "int \<Rightarrow> ('d, 'e) ojob \<Rightarrow> ('d, 'e) ojob" where
  "switch_large siz J = (if siz > LARGE_MESSAGE_SIZE then J\<lparr>j_opts := large_options (j_opts J)\<rparr> else J)"

text \<open>The reading of the clock around the call of iteration \<open>i\<close>.\<close>

definition lap :: "'d oenv \<Rightarrow> options_t \<Rightarrow> nat \<Rightarrow> ('d, 'e) oproc \<Rightarrow> ('d, 'e) oproc" where
  "lap E os i p =
     (let t_start = o_wtime E (o_rank p) (o_clock p); t_stop = o_wtime E (o_rank p) (Suc (o_clock p)) in
      p\<lparr>o_clock := o_clock p + 2,
        o_timer := if of_nat i \<ge> skip os then f_add (o_fp E) (o_timer p) (f_sub (o_fp E) t_stop t_start) else o_timer p\<rparr>)"

definition iteration ::
    "'d oenv \<Rightarrow> (int \<Rightarrow> ('d, 'e) ojob \<Rightarrow> ('d, 'e) ojob prog) \<Rightarrow> (('d, 'e) ojob \<Rightarrow> ('d, 'e) ojob)
     \<Rightarrow> (int \<Rightarrow> ('d, 'e) ojob \<Rightarrow> ('d, 'e) ojob prog) \<Rightarrow> nat \<Rightarrow> ('d, 'e) ojob \<Rightarrow> ('d, 'e) ojob prog" where
  "iteration E fill call check i J =
     bind_prog (fill (int i) J) (\<lambda>J.
     bind_prog (check (int i) (call J)) (\<lambda>J.
       Return (J\<lparr>j_procs := map (lap E (j_opts J) i) (j_procs J)\<rparr>)))"

text \<open>The counter is an \<^verbatim>\<open>int\<close>, the number of iterations a \<^verbatim>\<open>size_t\<close>.\<close>

definition iterate ::
    "'d oenv \<Rightarrow> (int \<Rightarrow> ('d, 'e) ojob \<Rightarrow> ('d, 'e) ojob prog) \<Rightarrow> (('d, 'e) ojob \<Rightarrow> ('d, 'e) ojob)
     \<Rightarrow> (int \<Rightarrow> ('d, 'e) ojob \<Rightarrow> ('d, 'e) ojob prog) \<Rightarrow> ('d, 'e) ojob \<Rightarrow> ('d, 'e) ojob prog" where
  "iterate E fill call check J =
     (let n = unat (iterations (j_opts J) + skip (j_opts J)) in
      if 2 ^ 31 \<le> n then Undefined
      else fold_prog (iteration E fill call check) [0..<n]
             (J\<lparr>j_procs := map (\<lambda>p. p\<lparr>o_timer := f_int (o_fp E) 0\<rparr>) (j_procs J)\<rparr>))"

text \<open>The latencies are reduced to rank 0, which prints them.\<close>

definition report ::
    "'d oenv \<Rightarrow> (options_t \<Rightarrow> ('d, 'e) oproc \<Rightarrow> 'd \<Rightarrow> 'd \<Rightarrow> 'd \<Rightarrow> string) \<Rightarrow> ('d, 'e) ojob \<Rightarrow> ('d, 'e) ojob" where
  "report E print J =
     (let F = o_fp E; os = j_opts J;
          latencies = map (\<lambda>p. f_div F (f_mul F (o_timer p) (f_int F 1000000)) (f_int F (uint (iterations os)))) (j_procs J);
          avg_time = f_div F (o_sum E latencies) (f_int F (int (length (j_procs J)))) in
      say (\<lambda>p. print os p avg_time (o_min E latencies) (o_max E latencies)) J)"

definition coll_size ::
    "'d oenv \<Rightarrow> (int \<Rightarrow> ('d, 'e) ojob \<Rightarrow> ('d, 'e) ojob prog) \<Rightarrow> (int \<Rightarrow> int \<Rightarrow> ('d, 'e) ojob \<Rightarrow> ('d, 'e) ojob prog)
     \<Rightarrow> (int \<Rightarrow> ('d, 'e) ojob \<Rightarrow> ('d, 'e) ojob) \<Rightarrow> (int \<Rightarrow> int \<Rightarrow> ('d, 'e) ojob \<Rightarrow> ('d, 'e) ojob prog)
     \<Rightarrow> (int \<Rightarrow> options_t \<Rightarrow> ('d, 'e) oproc \<Rightarrow> 'd \<Rightarrow> 'd \<Rightarrow> 'd \<Rightarrow> string) \<Rightarrow> int \<Rightarrow> ('d, 'e) ojob \<Rightarrow> ('d, 'e) ojob prog" where
  "coll_size E prepare fill call check print siz J =
     bind_prog (prepare siz (switch_large siz J)) (\<lambda>J.
     bind_prog (iterate E (fill siz) (call siz) (check siz) J) (\<lambda>J. Return (report E (print siz) J)))"

definition coll_run ::
    "'d oenv \<Rightarrow> string \<Rightarrow> nat \<Rightarrow> options_t \<Rightarrow> (('d, 'e) ojob \<Rightarrow> ('d, 'e) ojob prog) list \<Rightarrow> (int \<Rightarrow> bool)
     \<Rightarrow> (int \<Rightarrow> ('d, 'e) ojob \<Rightarrow> ('d, 'e) ojob prog) \<Rightarrow> (('d, 'e) ojob \<Rightarrow> ('d, 'e) ojob) list
     \<Rightarrow> (int \<times> ('d, 'e) ojob) prog option" where
  "coll_run E title n os setup cond body cleanup =
     bind_run (Some (fold_prog (\<lambda>f. f) setup (start_job E os n))) (\<lambda>J.
     bind_run (osu_sweep cond body (first_size os) (say (\<lambda>p. print_preamble E title os (o_rank p)) J)) (\<lambda>J.
       Some (Return (0, fold (\<lambda>f. f) cleanup J))))"

definition no_prepare :: "int \<Rightarrow> ('d, 'e) ojob \<Rightarrow> ('d, 'e) ojob prog" where
  "no_prepare x J = Return J"

definition no_check :: "int \<Rightarrow> int \<Rightarrow> ('d, 'e) ojob \<Rightarrow> ('d, 'e) ojob prog" where
  "no_check x i J = Return J"

definition print_bytes :: "'d oenv \<Rightarrow> int \<Rightarrow> options_t \<Rightarrow> ('d, 'e) oproc \<Rightarrow> 'd \<Rightarrow> 'd \<Rightarrow> 'd \<Rightarrow> string" where
  "print_bytes E siz os p = print_stats E os (o_rank p) siz"

text \<open>The new contents of the receive buffers.\<close>

definition taken_in :: "(('d, 'e) oproc list \<Rightarrow> 'e list list) \<Rightarrow> ('d, 'e) ojob \<Rightarrow> ('d, 'e) ojob" where
  "taken_in f J = J\<lparr>j_procs := map2 (\<lambda>b p. p\<lparr>o_recv := b\<rparr>) (f (j_procs J)) (j_procs J)\<rparr>"

text \<open>The counts and displacements for blocks of equal size; the running displacement is an \<^verbatim>\<open>int\<close>.\<close>

definition equal_counts ::
    "(nat \<Rightarrow> bool) \<Rightarrow> (int list \<Rightarrow> int list \<Rightarrow> ('d, 'e) oproc \<Rightarrow> ('d, 'e) oproc) \<Rightarrow> int \<Rightarrow> ('d, 'e) ojob
     \<Rightarrow> ('d, 'e) ojob prog" where
  "equal_counts who keep siz J =
     (let n = length (j_procs J) in
      on_ranks who (\<lambda>p. if int_ok (int n * siz) then Return (keep (replicate n siz) (map (\<lambda>i. int i * siz) [0..<n]) p)
        else Undefined) J)"

subsection \<open>Programs on bytes\<close>

type_synonym 'd coll_main = "'d oenv \<Rightarrow> nat \<Rightarrow> string list \<Rightarrow> (int \<times> ('d, byte) ojob) prog option"

definition osu_allgather :: "'d coll_main" where
  "osu_allgather E n argv = coll_start E n argv ''Allgather Latency Test'' ''osu_allgather'' (\<lambda>os.
     let os = limit_total n os in
     coll_run E ''Allgather Latency Test'' n os
       [new_send E everyone char_buffer (max_message_size os) 1,
        new_recv E everyone char_buffer (max_message_size os * of_nat n) 0]
       (within_chars os)
       (coll_size E no_prepare no_check
         (\<lambda>siz. taken_in (\<lambda>ps. MPI_Allgather (o_mpi E) siz MPI_CHAR siz MPI_CHAR (map o_send ps) (map o_recv ps)))
         no_check (print_bytes E))
       [free_on everyone clear_send, free_on everyone clear_recv])"

definition osu_allgatherv :: "'d coll_main" where
  "osu_allgatherv E n argv = coll_start E n argv ''Allgatherv Latency Test'' ''osu_allgatherv'' (\<lambda>os.
     let os = limit_total n os in
     coll_run E ''Allgatherv Latency Test'' n os
       [new_ints E everyone (\<lambda>a p. p\<lparr>o_rcounts := a\<rparr>), new_ints E everyone (\<lambda>a p. p\<lparr>o_rdispls := a\<rparr>),
        new_send E everyone char_buffer (max_message_size os) 1,
        new_recv E everyone char_buffer (max_message_size os * of_nat n) 0]
       (within_chars os)
       (coll_size E (equal_counts everyone (\<lambda>c d p. p\<lparr>o_rcounts := c, o_rdispls := d\<rparr>)) no_check
         (\<lambda>siz. taken_in (\<lambda>ps. MPI_Allgatherv (o_mpi E) (map (\<lambda>_. siz) ps) MPI_CHAR (map o_rcounts ps) (map o_rdispls ps)
            MPI_CHAR (map o_send ps) (map o_recv ps)))
         no_check (print_bytes E))
       [free_on everyone clear_send, free_on everyone clear_recv, free_on everyone clear_rdispls,
        free_on everyone clear_rcounts])"

text \<open>The all-to-all exchange can be validated: every process counts the errors of all iterations and sizes.\<close>

definition fill_chars :: "'d oenv \<Rightarrow> int \<Rightarrow> int \<Rightarrow> ('d, byte) ojob \<Rightarrow> ('d, byte) ojob prog" where
  "fill_chars E siz i J =
     (if validate (j_opts J) \<noteq> 0 then
        each (\<lambda>p. let mem = o_malloc E (o_rank p); n = length (j_procs J) in
          bind_prog (set_buffer_char mem True (nat siz) (o_rank p) n (o_send p)) (\<lambda>sb.
          bind_prog (set_buffer_char mem False (nat siz) (o_rank p) n (o_recv p)) (\<lambda>rb.
            Return (p\<lparr>o_send := sb, o_recv := rb\<rparr>)))) J
      else Return J)"

definition add_errors :: "(int \<times> string) prog \<Rightarrow> ('d, 'e) oproc \<Rightarrow> (('d, 'e) oproc \<times> string) prog" where
  "add_errors r p =
     bind_prog r (\<lambda>(e, out). if int_ok (o_errors p + e) then Return (p\<lparr>o_errors := o_errors p + e\<rparr>, out) else Undefined)"

definition check_alltoall :: "'d oenv \<Rightarrow> int \<Rightarrow> int \<Rightarrow> ('d, byte) ojob \<Rightarrow> ('d, byte) ojob prog" where
  "check_alltoall E siz i J =
     (if validate (j_opts J) \<noteq> 0 then
        each_say (\<lambda>p. add_errors (validate_alltoall (o_malloc E (o_rank p)) (o_recv p) (nat siz) (o_rank p)
          (length (j_procs J)) i) p) J
      else Return J)"

definition print_validated :: "'d oenv \<Rightarrow> int \<Rightarrow> options_t \<Rightarrow> ('d, 'e) oproc \<Rightarrow> 'd \<Rightarrow> 'd \<Rightarrow> 'd \<Rightarrow> string" where
  "print_validated E siz os p avg_time min_time max_time =
     (if validate os \<noteq> 0 then print_stats_validate E os (o_rank p) siz avg_time min_time max_time (o_errors p)
      else print_stats E os (o_rank p) siz avg_time min_time max_time)"

definition osu_alltoall :: "'d coll_main" where
  "osu_alltoall E n argv =
     coll_start E n argv ''All-to-All Personalized Exchange Latency Test'' ''osu_alltoall'' (\<lambda>os.
     let os = limit_total n os in
     coll_run E ''All-to-All Personalized Exchange Latency Test'' n os
       [new_send E everyone char_buffer (max_message_size os * of_nat n) 1,
        new_recv E everyone char_buffer (max_message_size os * of_nat n) 0]
       (within_chars os)
       (coll_size E no_prepare (fill_chars E)
         (\<lambda>siz. taken_in (\<lambda>ps. MPI_Alltoall (o_mpi E) siz MPI_CHAR siz MPI_CHAR (map o_send ps) (map o_recv ps)))
         (check_alltoall E) (print_validated E))
       [free_on everyone clear_send, free_on everyone clear_recv])"

definition osu_alltoallv :: "'d coll_main" where
  "osu_alltoallv E n argv =
     coll_start E n argv ''All-to-Allv Personalized Exchange Latency Test'' ''osu_alltoallv'' (\<lambda>os.
     let os = limit_total n os in
     coll_run E ''All-to-Allv Personalized Exchange Latency Test'' n os
       [new_ints E everyone (\<lambda>a p. p\<lparr>o_rcounts := a\<rparr>), new_ints E everyone (\<lambda>a p. p\<lparr>o_scounts := a\<rparr>),
        new_ints E everyone (\<lambda>a p. p\<lparr>o_rdispls := a\<rparr>), new_ints E everyone (\<lambda>a p. p\<lparr>o_sdispls := a\<rparr>),
        new_send E everyone char_buffer (max_message_size os * of_nat n) 1,
        new_recv E everyone char_buffer (max_message_size os * of_nat n) 0]
       (within_chars os)
       (coll_size E
         (equal_counts everyone (\<lambda>c d p. p\<lparr>o_rcounts := c, o_scounts := c, o_rdispls := d, o_sdispls := d\<rparr>)) no_check
         (\<lambda>siz. taken_in (\<lambda>ps. MPI_Alltoallv (o_mpi E) (map o_scounts ps) (map o_sdispls ps) MPI_CHAR (map o_rcounts ps)
            (map o_rdispls ps) MPI_CHAR (map o_send ps) (map o_recv ps)))
         no_check (print_bytes E))
       [free_on everyone clear_send, free_on everyone clear_recv, free_on everyone clear_rdispls,
        free_on everyone clear_sdispls, free_on everyone clear_rcounts, free_on everyone clear_scounts])"

text \<open>The broadcast has one buffer.\<close>

definition osu_bcast :: "'d coll_main" where
  "osu_bcast E n argv = coll_start E n argv ''Broadcast Latency Test'' ''osu_bcast'' (\<lambda>os.
     let os = limit_one n os in
     coll_run E ''Broadcast Latency Test'' n os
       [new_send E everyone char_buffer (max_message_size os) 1]
       (within_chars os)
       (coll_size E no_prepare no_check
         (\<lambda>siz J. J\<lparr>j_procs := map2 (\<lambda>b p. p\<lparr>o_send := b\<rparr>)
            (MPI_Bcast (o_mpi E) siz MPI_CHAR 0 (map o_send (j_procs J))) (j_procs J)\<rparr>)
         no_check (print_bytes E))
       [free_on everyone clear_send])"

definition osu_gather :: "'d coll_main" where
  "osu_gather E n argv = coll_start E n argv ''Gather Latency Test'' ''osu_gather'' (\<lambda>os.
     let os = limit_total n os in
     coll_run E ''Gather Latency Test'' n os
       [new_recv E root char_buffer (max_message_size os * of_nat n) 1,
        new_send E everyone char_buffer (max_message_size os) 0]
       (within_chars os)
       (coll_size E no_prepare no_check
         (\<lambda>siz. taken_in (\<lambda>ps. MPI_Gather (o_mpi E) siz MPI_CHAR siz MPI_CHAR 0 (map o_send ps) (map o_recv ps)))
         no_check (print_bytes E))
       [free_on root clear_recv, free_on everyone clear_send])"

definition osu_gatherv :: "'d coll_main" where
  "osu_gatherv E n argv = coll_start E n argv ''Gatherv Latency Test'' ''osu_gatherv'' (\<lambda>os.
     let os = limit_total n os in
     coll_run E ''Gatherv Latency Test'' n os
       [new_ints E root (\<lambda>a p. p\<lparr>o_rcounts := a\<rparr>), new_ints E root (\<lambda>a p. p\<lparr>o_rdispls := a\<rparr>),
        new_recv E root char_buffer (max_message_size os * of_nat n) 1,
        new_send E everyone char_buffer (max_message_size os) 0]
       (within_chars os)
       (coll_size E (equal_counts root (\<lambda>c d p. p\<lparr>o_rcounts := c, o_rdispls := d\<rparr>)) no_check
         (\<lambda>siz. taken_in (\<lambda>ps. MPI_Gatherv (o_mpi E) (map (\<lambda>_. siz) ps) MPI_CHAR (map o_rcounts ps) (map o_rdispls ps)
            MPI_CHAR 0 (map o_send ps) (map o_recv ps)))
         no_check (print_bytes E))
       [free_on root clear_rdispls, free_on root clear_rcounts, free_on root clear_recv, free_on everyone clear_send])"

definition osu_scatter :: "'d coll_main" where
  "osu_scatter E n argv = coll_start E n argv ''Scatter Latency Test'' ''osu_scatter'' (\<lambda>os.
     let os = limit_total n os in
     coll_run E ''Scatter Latency Test'' n os
       [new_send E root char_buffer (max_message_size os * of_nat n) 1,
        new_recv E everyone char_buffer (max_message_size os) 0]
       (within_chars os)
       (coll_size E no_prepare no_check
         (\<lambda>siz. taken_in (\<lambda>ps. MPI_Scatter (o_mpi E) siz MPI_CHAR siz MPI_CHAR 0 (map o_send ps) (map o_recv ps)))
         no_check (print_bytes E))
       [free_on root clear_send, free_on everyone clear_recv])"

definition osu_scatterv :: "'d coll_main" where
  "osu_scatterv E n argv = coll_start E n argv ''Scatterv Latency Test'' ''osu_scatterv'' (\<lambda>os.
     let os = limit_total n os in
     coll_run E ''Scatterv Latency Test'' n os
       [new_ints E root (\<lambda>a p. p\<lparr>o_scounts := a\<rparr>), new_ints E root (\<lambda>a p. p\<lparr>o_sdispls := a\<rparr>),
        new_send E root char_buffer (max_message_size os * of_nat n) 1,
        new_recv E everyone char_buffer (max_message_size os) 0]
       (within_chars os)
       (coll_size E (equal_counts root (\<lambda>c d p. p\<lparr>o_scounts := c, o_sdispls := d\<rparr>)) no_check
         (\<lambda>siz. taken_in (\<lambda>ps. MPI_Scatterv (o_mpi E) (map o_scounts ps) (map o_sdispls ps) MPI_CHAR (map (\<lambda>_. siz) ps)
            MPI_CHAR 0 (map o_send ps) (map o_recv ps)))
         no_check (print_bytes E))
       [free_on root clear_scounts, free_on root clear_sdispls, free_on root clear_send, free_on everyone clear_recv])"

text \<open>The barrier has no sizes, no buffers and no large messages.\<close>

definition osu_barrier :: "'d coll_main" where
  "osu_barrier E n argv =
     (case process_options host_build argv (start_state COLLECTIVE LAT) of
        Exit rc out \<Rightarrow> Some (Exit rc out)
      | Undefined \<Rightarrow> Some Undefined
      | Return (po_ret, st) \<Rightarrow>
          let os = (po_opts st)\<lparr>show_size := False\<rparr>; title = ''Barrier Latency Test'' in
          if o_init_err E \<noteq> 0 then Some (Exit 1 [])
          else if po_ret = PO_BAD_USAGE then Some (Exit 1 (print_bad_usage_message host_build ''osu_barrier'' os 0))
          else if po_ret = PO_HELP_MESSAGE then Some (Exit 0 (print_help_message host_build ''osu_barrier'' os 0))
          else if po_ret = PO_VERSION_MESSAGE then Some (Exit 0 (print_version_message E title 0))
          else if n < 2 then Some (Exit 1 [])
          else Some (bind_prog
            (iterate E (no_check 0) id (no_check 0) (say (\<lambda>p. print_preamble E title os (o_rank p)) (start_job E os n)))
            (\<lambda>J. Return (0, report E (print_bytes E 0) J))))"

end
