(* ===== verification/Osu_Coll_Run.thy ===== *)
theory Osu_Coll_Run
  imports Osu_Coll
begin

text \<open>
  What a run of a blocking collective benchmark does, for any program of that shape: the sizes it visits, the
  iterations it makes, the lines it prints and the memory it loses. The lemmas are about the shared parts; a
  program contributes that its set-up gives buffers of a certain shape and that an iteration keeps them.
\<close>

subsection \<open>The sizes\<close>

function doubled_sizes :: "nat \<Rightarrow> nat \<Rightarrow> nat list" where
  "doubled_sizes m z = (if 0 < z \<and> z \<le> m then z # doubled_sizes m (2 * z) else [])"
  by pat_completeness auto
termination
  by (relation "measure (\<lambda>(m, z). m + 1 - z)") auto

declare doubled_sizes.simps [simp del]

lemma doubled_sizes_bounds: "z' \<in> set (doubled_sizes m z) \<Longrightarrow> z \<le> z' \<and> z' \<le> m \<and> 0 < z"
proof (induction m z rule: doubled_sizes.induct)
  case (1 m z)
  then show ?case by (subst (asm) doubled_sizes.simps) (fastforce split: if_splits)
qed

lemma osu_sweep_returns:
  assumes "m < 2 ^ 30" and "\<And>z. 0 < z \<Longrightarrow> z < 2 ^ 31 \<Longrightarrow> cond (int z) \<longleftrightarrow> z \<le> m"
    and step: "\<And>z rows s. 0 < z \<Longrightarrow> z \<le> m \<Longrightarrow> I z rows s \<Longrightarrow> \<exists>s'. body (int z) s = Return s' \<and> I (2 * z) (rows @ [z]) s'"
    and "I z rows s" "0 < z" "z < 2 ^ 31"
  shows "\<exists>s' z'. osu_sweep cond body (int z) s = Some (Return s') \<and> I z' (rows @ doubled_sizes m z) s'"
  using assms(4-6)
proof (induction "m + 1 - z" arbitrary: z rows s rule: less_induct)
  case less
  show ?case
  proof (cases "z \<le> m")
    case True
    obtain s' where s': "body (int z) s = Return s'" "I (2 * z) (rows @ [z]) s'" using step [OF less.prems(2) True less.prems(1)] by blast
    have z2: "2 * z < 2 ^ 31" using True assms(1) by simp
    have "osu_sweep cond body (int z) s = osu_sweep cond body (int (2 * z)) s'"
      using s'(1) True assms(2) [OF less.prems(2,3)] z2
      by (subst osu_sweep.simps) (simp add: int_ok_def mult.commute)
    moreover have "doubled_sizes m z = z # doubled_sizes m (2 * z)" using True less.prems(2) by (subst doubled_sizes.simps) simp
    moreover have "\<exists>s'' z'. osu_sweep cond body (int (2 * z)) s' = Some (Return s'') \<and> I z' ((rows @ [z]) @ doubled_sizes m (2 * z)) s''"
      using s'(2) z2 True less.prems(2) by (intro less.hyps) simp_all
    ultimately show ?thesis by simp
  next
    case False
    have "osu_sweep cond body (int z) s = Some (Return s)"
      using False assms(2) [OF less.prems(2,3)] by (subst osu_sweep.simps) simp
    moreover have "doubled_sizes m z = []" using False by (subst doubled_sizes.simps) simp
    ultimately show ?thesis using less.prems(1) by auto
  qed
qed

text \<open>A size of 0 stays 0.\<close>

lemma osu_sweep_zero:
  assumes "cond 0" and "\<And>s. I s \<Longrightarrow> \<exists>s'. body 0 s = Return s' \<and> I s'" and "I s"
  shows "osu_sweep cond body 0 s = None"
proof -
  have "c = cond \<longrightarrow> b = body \<longrightarrow> I s \<longrightarrow> siz \<noteq> 0" if "osu_sweep c b siz s = Some y" for c b siz s y
  proof (rule osu_sweep.raw_induct [OF _ that, of "\<lambda>c b siz s y. c = cond \<longrightarrow> b = body \<longrightarrow> I s \<longrightarrow> siz \<noteq> 0"], intro impI notI)
    fix sweep c b siz s y
    assume IH: "\<And>c b siz s y. sweep c b siz s = Some y \<Longrightarrow> c = cond \<longrightarrow> b = body \<longrightarrow> I s \<longrightarrow> siz \<noteq> (0 :: int)"
      and eq: "(if c siz then case b siz s of
          Return s' \<Rightarrow> if int_ok (siz * 2) then sweep c b (siz * 2) s' else Some Undefined
        | Exit rc out \<Rightarrow> Some (Exit rc out) | Undefined \<Rightarrow> Some Undefined else Some (Return s)) = Some y"
      and "c = cond" "b = body" "siz = 0" "I s"
    then obtain s' where "b siz s = Return s'" "I s'" using assms(2) [of s] by auto
    then have "sweep cond body 0 s' = Some y"
      using eq assms(1) \<open>c = cond\<close> \<open>b = body\<close> \<open>siz = 0\<close> by (simp add: int_ok_def)
    then show False using IH \<open>I s'\<close> by blast
  qed
  then show ?thesis using assms(3) by (metis option.exhaust)
qed

subsection \<open>Steps of all processes\<close>

lemma traverse_all [simp]: "traverse_prog (\<lambda>p. Return (g p)) ps = Return (map g ps)"
  by (induction ps) simp_all

definition procs_ok :: "nat \<Rightarrow> (nat \<Rightarrow> ('d, 'e) oproc \<Rightarrow> bool) \<Rightarrow> ('d, 'e) ojob \<Rightarrow> bool" where
  "procs_ok n pr J \<longleftrightarrow> length (j_procs J) = n \<and> (\<forall>r<n. o_rank (j_procs J ! r) = r \<and> pr r (j_procs J ! r))"

lemma procs_ok_map:
  assumes "procs_ok n pr J" "\<And>r p. r < n \<Longrightarrow> o_rank p = r \<Longrightarrow> pr r p \<Longrightarrow> o_rank (f p) = r \<and> pr' r (f p)" "j_procs J' = map f (j_procs J)"
  shows "procs_ok n pr' J'"
  using assms by (simp add: procs_ok_def)

lemma procs_ok_mono: "procs_ok n pr J \<Longrightarrow> (\<And>r p. r < n \<Longrightarrow> pr r p \<Longrightarrow> pr' r p) \<Longrightarrow> procs_ok n pr' J"
  by (simp add: procs_ok_def)

lemma traverse_ranks:
  assumes "procs_ok n pr J"
    and "\<And>r p. r < n \<Longrightarrow> o_rank p = r \<Longrightarrow> pr r p \<Longrightarrow> \<exists>y. f p = Return y \<and> Q r y"
  shows "\<exists>ys. traverse_prog f (j_procs J) = Return ys \<and> length ys = n \<and> (\<forall>r<n. Q r (ys ! r))"
proof -
  have "\<exists>y. f (j_procs J ! r) = Return y \<and> Q r y" if "r < n" for r using assms that by (simp add: procs_ok_def)
  then obtain y where y: "\<And>r. r < n \<Longrightarrow> f (j_procs J ! r) = Return (y r) \<and> Q r (y r)" by metis
  have "traverse_prog f (j_procs J) = Return (map y [0..<n])"
    unfolding traverse_prog_Return_iff using assms(1) y by (simp add: list_all2_conv_all_nth procs_ok_def)
  then show ?thesis using y by simp
qed

lemma each_ok:
  assumes "procs_ok n pr J"
    and "\<And>r p. r < n \<Longrightarrow> o_rank p = r \<Longrightarrow> pr r p \<Longrightarrow> \<exists>q. f p = Return q \<and> o_rank q = r \<and> pr' r q"
  shows "\<exists>J'. each f J = Return J' \<and> procs_ok n pr' J' \<and> j_opts J' = j_opts J \<and> j_out J' = j_out J"
  using traverse_ranks [OF assms(1), of f "\<lambda>r q. o_rank q = r \<and> pr' r q"] assms(2) by (auto simp: each_def procs_ok_def)

lemma each_say_ok:
  assumes "procs_ok n pr J"
    and "\<And>r p. r < n \<Longrightarrow> o_rank p = r \<Longrightarrow> pr r p \<Longrightarrow> \<exists>q. f p = Return (q, []) \<and> o_rank q = r \<and> pr' r q"
  shows "\<exists>J'. each_say f J = Return J' \<and> procs_ok n pr' J' \<and> j_opts J' = j_opts J \<and> j_out J' = j_out J"
proof -
  obtain qs where qs: "traverse_prog f (j_procs J) = Return qs" "length qs = n"
      "\<forall>r<n. snd (qs ! r) = [] \<and> o_rank (fst (qs ! r)) = r \<and> pr' r (fst (qs ! r))"
    using traverse_ranks [OF assms(1), of f "\<lambda>r q. snd q = [] \<and> o_rank (fst q) = r \<and> pr' r (fst q)"] assms(2) by fastforce
  then have "filter (\<lambda>(p, s). s \<noteq> []) qs = []" by (auto simp: filter_empty_conv in_set_conv_nth) (metis snd_conv)
  then show ?thesis using qs by (simp add: each_say_def procs_ok_def spoken_def)
qed

lemma spoken_root:
  assumes "procs_ok n pr J" "0 < n" "\<And>p. o_rank p \<noteq> 0 \<Longrightarrow> f p = []"
  shows "spoken (map (\<lambda>p. (p, f p)) (j_procs J)) = (if f (j_procs J ! 0) = [] then [] else [(0, f (j_procs J ! 0))])"
proof -
  obtain p ps where ps: "j_procs J = p # ps" using assms(1,2) by (cases "j_procs J") (auto simp: procs_ok_def)
  have "o_rank q \<noteq> 0" if "q \<in> set ps" for q
  proof -
    from that obtain k where "k < length ps" "q = ps ! k" by (auto simp: in_set_conv_nth)
    with assms(1) have "o_rank q = Suc k" unfolding procs_ok_def ps by (metis length_Cons not_less_eq nth_Cons_Suc)
    then show ?thesis by simp
  qed
  then have "filter (\<lambda>(p, s). s \<noteq> []) (map (\<lambda>p. (p, f p)) ps) = []" using assms(3) by (auto simp: filter_empty_conv)
  moreover have "o_rank p = 0" using assms(1,2) by (auto simp: procs_ok_def ps)
  ultimately show ?thesis by (simp add: spoken_def ps)
qed

subsection \<open>A run\<close>

lemma lap_fields [simp]:
  "o_rank (lap E os i p) = o_rank p" "o_send (lap E os i p) = o_send p" "o_recv (lap E os i p) = o_recv p"
  "o_scounts (lap E os i p) = o_scounts p" "o_sdispls (lap E os i p) = o_sdispls p"
  "o_rcounts (lap E os i p) = o_rcounts p" "o_rdispls (lap E os i p) = o_rdispls p"
  "o_errors (lap E os i p) = o_errors p" "o_host (lap E os i p) = o_host p" "o_lost (lap E os i p) = o_lost p"
  "o_allocs (lap E os i p) = o_allocs p"
  by (simp_all add: lap_def Let_def)

text \<open>What does not depend on the times.\<close>

definition timeless :: "(nat \<Rightarrow> ('d, 'e) oproc \<Rightarrow> bool) \<Rightarrow> bool" where
  "timeless pr \<longleftrightarrow> (\<forall>r p t c. pr r p \<longrightarrow> pr r (p\<lparr>o_timer := t, o_clock := c\<rparr>))"

lemma timeless_lap:
  assumes "timeless pr" "pr r p" shows "pr r (lap E os i p)"
proof -
  have "lap E os i p = p\<lparr>o_timer := o_timer (lap E os i p), o_clock := o_clock (lap E os i p)\<rparr>"
    by (simp add: lap_def Let_def)
  with assms show ?thesis unfolding timeless_def by metis
qed

lemma timeless_timer: "timeless pr \<Longrightarrow> pr r p \<Longrightarrow> pr r (p\<lparr>o_timer := t\<rparr>)"
  unfolding timeless_def by (metis oproc.surjective oproc.update_convs(9,10))

lemma iterate_ok:
  assumes "timeless pr" "procs_ok n pr J" "unat (iterations (j_opts J) + skip (j_opts J)) < 2 ^ 31"
    and step: "\<And>i J'. i < unat (iterations (j_opts J) + skip (j_opts J)) \<Longrightarrow> procs_ok n pr J' \<Longrightarrow> j_opts J' = j_opts J
      \<Longrightarrow> \<exists>J''. bind_prog (fill (int i) J') (\<lambda>J. check (int i) (call J)) = Return J'' \<and> procs_ok n pr J''
        \<and> j_opts J'' = j_opts J' \<and> j_out J'' = j_out J'"
  shows "\<exists>J'. iterate E fill call check J = Return J' \<and> procs_ok n pr J' \<and> j_opts J' = j_opts J \<and> j_out J' = j_out J"
proof -
  define I where "I = (\<lambda>(k :: nat) J'. procs_ok n pr J' \<and> j_opts J' = j_opts J \<and> j_out J' = j_out J)"
  let ?n = "unat (iterations (j_opts J) + skip (j_opts J))"
    and ?J = "J\<lparr>j_procs := map (\<lambda>p. p\<lparr>o_timer := f_int (o_fp E) 0\<rparr>) (j_procs J)\<rparr>"
  have "procs_ok n pr ?J"
    by (rule procs_ok_map [OF assms(2), where f = "\<lambda>p. p\<lparr>o_timer := f_int (o_fp E) 0\<rparr>"]) (simp_all add: timeless_timer [OF assms(1)])
  then have "I 0 ?J" by (simp add: I_def)
  moreover have "\<exists>s'. iteration E fill call check i J' = Return s' \<and> I (Suc i) s'" if i: "i < ?n" "I i J'" for i J'
  proof -
    obtain J'' where J'': "bind_prog (fill (int i) J') (\<lambda>J. check (int i) (call J)) = Return J''" "procs_ok n pr J''"
        "j_opts J'' = j_opts J'" "j_out J'' = j_out J'"
      using step [OF i(1), of J'] i(2) by (auto simp: I_def)
    let ?L = "J''\<lparr>j_procs := map (lap E (j_opts J'') i) (j_procs J'')\<rparr>"
    have "procs_ok n pr ?L"
      by (rule procs_ok_map [OF J''(2), where f = "lap E (j_opts J'') i"]) (simp_all add: timeless_lap [OF assms(1)])
    moreover have "iteration E fill call check i J' = Return ?L"
      using J''(1) by (cases "fill (int i) J'") (simp_all add: iteration_def)
    ultimately show ?thesis using i(2) J''(3,4) by (simp add: I_def)
  qed
  ultimately have "\<exists>s'. fold_prog (iteration E fill call check) [0..<?n] ?J = Return s' \<and> I ?n s'"
    by (rule fold_prog_upt)
  then show ?thesis using assms(3) by (auto simp: iterate_def I_def)
qed

definition opts_at :: "options_t \<Rightarrow> nat \<Rightarrow> options_t" where
  "opts_at os z = (if 8192 < z then large_options os else os)"

definition loops_ok :: "options_t \<Rightarrow> bool" where
  "loops_ok os \<longleftrightarrow> unat (iterations os + skip os) < 2 ^ 31 \<and> unat (iterations_large os + skip_large os) < 2 ^ 31"

lemma opts_at_loops: "loops_ok os \<Longrightarrow> unat (iterations (opts_at os z) + skip (opts_at os z)) < 2 ^ 31"
  by (simp add: opts_at_def loops_ok_def large_options_def)

text \<open>
  The state before a size, after those in \<open>rows\<close>: \<open>text\<close> is the line of a size with the three times.
\<close>

definition coll_state ::
    "nat \<Rightarrow> (nat \<Rightarrow> ('d, 'e) oproc \<Rightarrow> bool) \<Rightarrow> options_t \<Rightarrow> (nat \<Rightarrow> 'd \<Rightarrow> 'd \<Rightarrow> 'd \<Rightarrow> string) \<Rightarrow> (nat \<times> string) list
     \<Rightarrow> nat \<Rightarrow> nat list \<Rightarrow> ('d, 'e) ojob \<Rightarrow> bool" where
  "coll_state n pr os line pre z rows J \<longleftrightarrow>
     (j_opts J = os \<or> (8192 < z \<and> j_opts J = large_options os)) \<and> procs_ok n pr J
     \<and> (\<exists>ts. length ts = length rows \<and> j_out J = pre @ map2 (\<lambda>z (a, mi, ma). (0, line z a mi ma)) rows ts)"

lemma large_options_idem [simp]: "large_options (large_options os) = large_options os"
  by (simp add: large_options_def)

lemma coll_size_ok:
  assumes "coll_state n pr os line pre z rows J" "0 < n" "loops_ok os" "timeless prz"
    and prep: "\<And>J. procs_ok n pr J \<Longrightarrow> \<exists>J'. prepare (int z) J = Return J' \<and> procs_ok n prz J' \<and> j_opts J' = j_opts J \<and> j_out J' = j_out J"
    and step: "\<And>i J. i < unat (iterations (opts_at os z) + skip (opts_at os z)) \<Longrightarrow> procs_ok n prz J \<Longrightarrow> j_opts J = opts_at os z
      \<Longrightarrow> \<exists>J'. bind_prog (fill (int z) (int i) J) (\<lambda>J. check (int z) (int i) (call (int z) J)) = Return J' \<and> procs_ok n prz J'
        \<and> j_opts J' = j_opts J \<and> j_out J' = j_out J"
    and post: "\<And>r p. r < n \<Longrightarrow> prz r p \<Longrightarrow> pr r p"
    and quiet: "\<And>p a mi ma. o_rank p \<noteq> 0 \<Longrightarrow> print (int z) (opts_at os z) p a mi ma = []"
    and line: "\<And>p a mi ma. o_rank p = 0 \<Longrightarrow> prz 0 p \<Longrightarrow> print (int z) (opts_at os z) p a mi ma = line z a mi ma \<and> line z a mi ma \<noteq> []"
  shows "\<exists>J'. coll_size E prepare fill call check print (int z) J = Return J' \<and> coll_state n pr os line pre (2 * z) (rows @ [z]) J'"
proof -
  let ?J = "switch_large (int z) J"
  have o: "j_opts ?J = opts_at os z" "procs_ok n pr ?J" "j_out ?J = j_out J"
    using assms(1) by (auto simp: switch_large_def coll_state_def opts_at_def LARGE_MESSAGE_SIZE_def procs_ok_def)
  obtain J1 where J1: "prepare (int z) ?J = Return J1" "procs_ok n prz J1" "j_opts J1 = opts_at os z" "j_out J1 = j_out J"
    using prep [OF o(2)] o by auto
  obtain J2 where J2: "iterate E (fill (int z)) (call (int z)) (check (int z)) J1 = Return J2" "procs_ok n prz J2"
      "j_opts J2 = opts_at os z" "j_out J2 = j_out J"
    using iterate_ok [OF assms(4) J1(2), of "fill (int z)" "check (int z)" "call (int z)" E] step J1(3,4) opts_at_loops [OF assms(3)]
    by auto
  obtain a mi ma where r: "j_out (report E (print (int z)) J2) = j_out J2 @ spoken (map (\<lambda>p. (p, print (int z) (opts_at os z) p a mi ma)) (j_procs J2))"
      "j_procs (report E (print (int z)) J2) = j_procs J2" "j_opts (report E (print (int z)) J2) = opts_at os z"
    by (simp add: report_def Let_def say_def J2(3))
  have root: "o_rank (j_procs J2 ! 0) = 0" "prz 0 (j_procs J2 ! 0)" using J2(2) assms(2) by (auto simp: procs_ok_def)
  have out: "j_out (report E (print (int z)) J2) = j_out J @ [(0, line z a mi ma)]"
    using spoken_root [OF J2(2) assms(2), of "\<lambda>p. print (int z) (opts_at os z) p a mi ma"] quiet line [OF root] r(1) J2(4) by simp
  obtain ts where ts: "length ts = length rows" "j_out J = pre @ map2 (\<lambda>z (a, mi, ma). (0, line z a mi ma)) rows ts"
    using assms(1) by (auto simp: coll_state_def)
  have "length (ts @ [(a, mi, ma)]) = length (rows @ [z])"
      "j_out (report E (print (int z)) J2) = pre @ map2 (\<lambda>z (a, mi, ma). (0, line z a mi ma)) (rows @ [z]) (ts @ [(a, mi, ma)])"
    using ts out by simp_all
  moreover have "procs_ok n pr (report E (print (int z)) J2)" using J2(2) post r(2) by (simp add: procs_ok_def)
  moreover have "opts_at os z = os \<or> (8192 < 2 * z \<and> opts_at os z = large_options os)" by (auto simp: opts_at_def)
  ultimately have "coll_state n pr os line pre (2 * z) (rows @ [z]) (report E (print (int z)) J2)"
    unfolding coll_state_def r(3) by blast
  then show ?thesis using J1(1) J2(1) by (simp add: coll_size_def)
qed

text \<open>The first size is the \<^verbatim>\<open>int\<close> made of the smallest message size.\<close>

lemma first_size_range: "- (2 ^ 31) \<le> first_size os" "first_size os < 2 ^ 31"
  using sint_ge [of "ucast (min_message_size os) :: u32"] sint_lt [of "ucast (min_message_size os) :: u32"]
  by (simp_all add: first_size_def)

lemma first_size_small: "unat (min_message_size os) < 2 ^ 31 \<Longrightarrow> first_size os = int (unat (min_message_size os))"
  using sint_of_nat_small [of "unat (min_message_size os)", where 'a = 32] by (simp add: first_size_def)

definition counts_to :: "(int \<Rightarrow> bool) \<Rightarrow> nat \<Rightarrow> bool" where
  "counts_to cond m \<longleftrightarrow> m < 2 ^ 30 \<and> (\<forall>z. - (2 ^ 31) \<le> z \<longrightarrow> z < 2 ^ 31 \<longrightarrow> cond z = (0 \<le> z \<and> z \<le> int m))"

lemma counts_to_nat: "counts_to cond m \<Longrightarrow> z < 2 ^ 31 \<Longrightarrow> cond (int z) \<longleftrightarrow> z \<le> m"
  by (simp add: counts_to_def)

lemma unat_negative:
  assumes "- (2 ^ 31) \<le> z" "z < (0 :: int)"
  shows "2 ^ 33 \<le> unat (word_of_int z :: u64)" "2 ^ 33 \<le> unat (word_of_int z * 4 :: u64)"
proof -
  have w: "unat (word_of_int k :: u64) = nat (2 ^ 64 + k)" if "- (2 ^ 33) \<le> k" "k < 0" for k
  proof -
    have "k mod 2 ^ 64 = 2 ^ 64 + k" using that mod_pos_pos_trivial [of "2 ^ 64 + k" "2 ^ 64"] by simp
    then show ?thesis by (simp add: unsigned_of_int take_bit_eq_mod)
  qed
  show "2 ^ 33 \<le> unat (word_of_int z :: u64)" using w [of z] assms by simp
  have "word_of_int z * 4 = (word_of_int (z * 4) :: u64)" by simp
  then show "2 ^ 33 \<le> unat (word_of_int z * 4 :: u64)" using w [of "z * 4"] assms by simp
qed

lemma counts_to_chars:
  assumes "unat (max_message_size os) < 2 ^ 30" shows "counts_to (within_chars os) (unat (max_message_size os))"
proof -
  have "within_chars os z \<longleftrightarrow> 0 \<le> z \<and> z \<le> int (unat (max_message_size os))" if z: "- (2 ^ 31) \<le> z" "z < 2 ^ 31" for z
  proof (cases "z < 0")
    case True
    then show ?thesis using unat_negative(1) [OF z(1)] assms by (simp add: within_chars_def word_le_nat_alt)
  next
    case False
    then obtain k where k: "z = int k" by (metis nonneg_int_cases not_less)
    have "within_chars os z \<longleftrightarrow> k \<le> unat (max_message_size os)"
      using z(2) by (simp add: k within_chars_def word_le_nat_alt unat_of_nat_small)
    then show ?thesis unfolding k zle_int by simp
  qed
  then show ?thesis using assms by (simp add: counts_to_def)
qed

lemma counts_to_floats:
  assumes "unat (max_message_size os) < 2 ^ 30" shows "counts_to (within_floats os) (unat (max_message_size os) div 4)"
proof -
  have "within_floats os z \<longleftrightarrow> 0 \<le> z \<and> z \<le> int (unat (max_message_size os) div 4)" if z: "- (2 ^ 31) \<le> z" "z < 2 ^ 31" for z
  proof (cases "z < 0")
    case True
    then show ?thesis using unat_negative(2) [OF z(1)] assms by (simp add: within_floats_def word_le_nat_alt)
  next
    case False
    then obtain k where k: "z = int k" by (metis nonneg_int_cases not_less)
    have "unat (of_nat k * 4 :: u64) = k * 4" using z(2) unat_of_nat_small [of "k * 4", where 'a = 64] by (simp add: k)
    then have "within_floats os z \<longleftrightarrow> k * 4 \<le> unat (max_message_size os)"
      by (simp add: k within_floats_def word_le_nat_alt)
    also have "\<dots> \<longleftrightarrow> k \<le> unat (max_message_size os) div 4" by (simp add: less_eq_div_iff_mult_less_eq)
    finally show ?thesis unfolding k zle_int by simp
  qed
  then show ?thesis using assms by (simp add: counts_to_def)
qed

definition memory_granted :: "'d oenv \<Rightarrow> bool" where
  "memory_granted E \<longleftrightarrow> (\<forall>r k s. o_memalign E r k s) \<and> (\<forall>r k. o_arrays E r k) \<and> (\<forall>r k. o_malloc E r k)"

definition advance :: "options_t \<Rightarrow> ('d, 'e) oproc \<Rightarrow> ('d, 'e) oproc" where
  "advance os p =
     (let p = (if target os = CPU \<or> target os = BOTH
               then p\<lparr>o_host := True, o_lost := o_lost p + (if o_host p then 1 else 0)\<rparr> else p) in
      p\<lparr>o_allocs := Suc (o_allocs p)\<rparr>)"

lemma allocated_Return:
  assumes "memory_granted E"
  shows "allocated E os siz keep p = Return (keep (o_fresh E (o_rank p) (o_allocs p)) (advance os p))"
  using assms
  by (simp add: allocated_def allocate_memory_coll_def allocate_host_arrays_def advance_def memory_granted_def)

lemma on_ranks_Return:
  "(\<And>p. f p = Return (g p)) \<Longrightarrow> on_ranks who f J = Return (J\<lparr>j_procs := map (\<lambda>p. if who (o_rank p) then g p else p) (j_procs J)\<rparr>)"
proof -
  assume "\<And>p. f p = Return (g p)"
  then have "(\<lambda>p. if who (o_rank p) then f p else Return p) = (\<lambda>p. Return (if who (o_rank p) then g p else p))" by auto
  then show ?thesis by (simp add: on_ranks_def each_def)
qed

lemma advance_fields [simp]:
  "o_rank (advance os p) = o_rank p" "o_send (advance os p) = o_send p" "o_recv (advance os p) = o_recv p"
  "o_scounts (advance os p) = o_scounts p" "o_sdispls (advance os p) = o_sdispls p"
  "o_rcounts (advance os p) = o_rcounts p" "o_rdispls (advance os p) = o_rdispls p" "o_errors (advance os p) = o_errors p"
  by (simp_all add: advance_def Let_def)

text \<open>The sets of arrays a process has lost: with the default target, one fewer than it has made allocations.\<close>

definition lost_ok :: "options_t \<Rightarrow> ('d, 'e) oproc \<Rightarrow> bool" where
  "lost_ok os p \<longleftrightarrow> (target os = CPU \<longrightarrow>
     (if o_allocs p = 0 then \<not> o_host p \<and> o_lost p = 0 else o_host p \<and> Suc (o_lost p) = o_allocs p))"

lemma lost_ok_advance: "lost_ok os p \<Longrightarrow> lost_ok os (advance os p)"
  by (auto simp: lost_ok_def advance_def Let_def split: if_splits)

text \<open>
  A step of the set-up that allocates: what it establishes in the processes concerned, and that it adds one
  allocation.
\<close>

lemma alloc_step:
  assumes "memory_granted E" "procs_ok n P J"
    and "\<And>r p w. r < n \<Longrightarrow> who r \<Longrightarrow> P r p \<Longrightarrow> o_rank p = r \<Longrightarrow> o_rank (keep w (advance (j_opts J) p)) = r \<and> Q r (keep w (advance (j_opts J) p))"
    and "\<And>r p. r < n \<Longrightarrow> \<not> who r \<Longrightarrow> P r p \<Longrightarrow> Q r p"
  shows "\<exists>J'. on_ranks who (allocated E (j_opts J) siz keep) J = Return J' \<and> procs_ok n Q J' \<and> j_opts J' = j_opts J \<and> j_out J' = j_out J"
  using on_ranks_Return [of "allocated E (j_opts J) siz keep", OF allocated_Return [OF assms(1)], of who J] assms(2-4)
  by (simp add: procs_ok_def)

text \<open>The state in front of the loop.\<close>

lemma coll_start_state:
  assumes "procs_ok n pr J" "j_opts J = os" "j_out J = []" "0 < n"
  shows "coll_state n pr os line [(0, print_preamble E title os 0)] z [] (say (\<lambda>p. print_preamble E title os (o_rank p)) J)"
proof -
  have "print_preamble E title os 0 \<noteq> []" by (simp add: print_preamble_def)
  moreover have "o_rank (j_procs J ! 0) = 0" using assms(1,4) by (simp add: procs_ok_def)
  ultimately show ?thesis
    using assms spoken_root [OF assms(1,4), of "\<lambda>p. print_preamble E title os (o_rank p)"]
    by (simp add: say_def print_preamble_def coll_state_def procs_ok_def)
qed

lemma coll_run_ok:
  assumes "fold_prog (\<lambda>f. f) setup (start_job E os n) = Return J0" "procs_ok n pr J0" "j_opts J0 = os" "j_out J0 = []"
    and "0 < n" "first_size os \<noteq> 0" "counts_to cond m"
    and step: "\<And>z rows J. 0 < z \<Longrightarrow> z \<le> m \<Longrightarrow> coll_state n pr os line [(0, print_preamble E title os 0)] z rows J
      \<Longrightarrow> \<exists>J'. body (int z) J = Return J' \<and> coll_state n pr os line [(0, print_preamble E title os 0)] (2 * z) (rows @ [z]) J'"
  shows "\<exists>J ts. coll_run E title n os setup cond body cleanup = Some (Return (0, fold (\<lambda>f. f) cleanup J))
    \<and> procs_ok n pr J \<and> (j_opts J = os \<or> j_opts J = large_options os)
    \<and> length ts = length (doubled_sizes m (nat (first_size os)))
    \<and> j_out J = (0, print_preamble E title os 0)
        # map2 (\<lambda>z (a, mi, ma). (0, line z a mi ma)) (doubled_sizes m (nat (first_size os))) ts"
proof -
  let ?z = "nat (first_size os)" and ?pre = "[(0, print_preamble E title os 0)]"
    and ?J = "say (\<lambda>p. print_preamble E title os (o_rank p)) J0"
  note st = coll_start_state [OF assms(2-5), where line = line and E = E and title = title and z = ?z]
  have "\<exists>J z'. osu_sweep cond body (first_size os) ?J = Some (Return J) \<and> coll_state n pr os line ?pre z' ([] @ doubled_sizes m ?z) J"
  proof (cases "first_size os < 0")
    case True
    then have "\<not> cond (first_size os)" using assms(7) first_size_range [of os] by (auto simp: counts_to_def)
    moreover have "doubled_sizes m ?z = []" using True by (subst doubled_sizes.simps) simp
    ultimately show ?thesis using st by (subst osu_sweep.simps) auto
  next
    case False
    then have z: "0 < ?z" "?z < 2 ^ 31" "int ?z = first_size os" using assms(6) first_size_range(2) [of os] by simp_all
    have m: "m < 2 ^ 30" using assms(7) by (simp add: counts_to_def)
    have "\<exists>J z'. osu_sweep cond body (int ?z) ?J = Some (Return J) \<and> coll_state n pr os line ?pre z' ([] @ doubled_sizes m ?z) J"
      using st by (intro osu_sweep_returns [OF m counts_to_nat [OF assms(7)] _ _ z(1,2)] step) simp_all
    then show ?thesis unfolding z(3) .
  qed
  then obtain J z' where J: "osu_sweep cond body (first_size os) ?J = Some (Return J)" "coll_state n pr os line ?pre z' (doubled_sizes m ?z) J"
    by auto
  then obtain ts where "length ts = length (doubled_sizes m ?z)"
      "j_out J = ?pre @ map2 (\<lambda>z (a, mi, ma). (0, line z a mi ma)) (doubled_sizes m ?z) ts"
    by (auto simp: coll_state_def)
  moreover have "coll_run E title n os setup cond body cleanup = Some (Return (0, fold (\<lambda>f. f) cleanup J))"
    using J(1) assms(1) by (simp add: coll_run_def)
  ultimately show ?thesis using J(2) by (auto simp: coll_state_def)
qed

text \<open>With a first size of 0 the loop does not end.\<close>

lemma coll_run_endless:
  assumes "fold_prog (\<lambda>f. f) setup (start_job E os n) = Return J0" "procs_ok n pr J0" "j_opts J0 = os" "j_out J0 = []"
    and "0 < n" "first_size os = 0" "counts_to cond m"
    and step: "\<And>z rows J. z \<le> m \<Longrightarrow> coll_state n pr os line [(0, print_preamble E title os 0)] z rows J
      \<Longrightarrow> \<exists>J'. body (int z) J = Return J' \<and> coll_state n pr os line [(0, print_preamble E title os 0)] (2 * z) (rows @ [z]) J'"
  shows "coll_run E title n os setup cond body cleanup = None"
proof -
  let ?I = "\<lambda>J. \<exists>rows. coll_state n pr os line [(0, print_preamble E title os 0)] 0 rows J"
    and ?J = "say (\<lambda>p. print_preamble E title os (o_rank p)) J0"
  have "osu_sweep cond body 0 ?J = None"
  proof (rule osu_sweep_zero [of cond ?I])
    show "cond 0" using assms(7) by (simp add: counts_to_def)
    show "\<exists>J'. body 0 J = Return J' \<and> ?I J'" if "?I J" for J using that step [of 0] by fastforce
    show "?I ?J" using coll_start_state [OF assms(2-5), where line = line and E = E and title = title and z = 0] by blast
  qed
  then show ?thesis using assms(1,6) by (simp add: coll_run_def bind_run_def)
qed

end
