(* ===== verification/Osu_Coll_Correct.thy ===== *)
theory Osu_Coll_Correct
  imports Osu_Coll_Run
begin

text \<open>
  The blocking collective benchmarks on bytes are correct: with an MPI that keeps its promises and enough memory
  every one of them runs to its end, prints a line for every size, overruns no buffer and finds no error.
\<close>

subsection \<open>Shapes\<close>

text \<open>
  The buffers of the process with rank \<open>r\<close> have the lengths \<open>L r\<close> and \<open>R r\<close>; it has arrays for sending if
  \<open>S r\<close> and for receiving if \<open>V r\<close>.
\<close>

definition shape ::
    "options_t \<Rightarrow> (nat \<Rightarrow> nat) \<Rightarrow> (nat \<Rightarrow> nat) \<Rightarrow> (nat \<Rightarrow> bool) \<Rightarrow> (nat \<Rightarrow> bool) \<Rightarrow> nat \<Rightarrow> ('d, 'e) oproc \<Rightarrow> bool" where
  "shape os L R S V r p \<longleftrightarrow> length (o_send p) = L r \<and> length (o_recv p) = R r \<and> o_errors p = 0 \<and> lost_ok os p \<and> 0 < o_allocs p
     \<and> (\<not> S r \<longrightarrow> o_scounts p = [] \<and> o_sdispls p = []) \<and> (\<not> V r \<longrightarrow> o_rcounts p = [] \<and> o_rdispls p = [])"

definition equal_displs :: "nat \<Rightarrow> nat \<Rightarrow> int list" where
  "equal_displs n z = map (\<lambda>i. int i * int z) [0..<n]"

definition sized :: "nat \<Rightarrow> nat \<Rightarrow> (nat \<Rightarrow> bool) \<Rightarrow> (nat \<Rightarrow> bool) \<Rightarrow> nat \<Rightarrow> ('d, 'e) oproc \<Rightarrow> bool" where
  "sized n z S V r p \<longleftrightarrow> (S r \<longrightarrow> o_scounts p = replicate n (int z) \<and> o_sdispls p = equal_displs n z)
     \<and> (V r \<longrightarrow> o_rcounts p = replicate n (int z) \<and> o_rdispls p = equal_displs n z)"

definition no_rank :: "nat \<Rightarrow> bool" where "no_rank r = False"

definition freed :: "options_t \<Rightarrow> ('d, 'e) oproc \<Rightarrow> bool" where
  "freed os p \<longleftrightarrow> o_errors p = 0 \<and> o_send p = [] \<and> o_recv p = [] \<and> o_scounts p = [] \<and> o_sdispls p = [] \<and> o_rcounts p = []
     \<and> o_rdispls p = [] \<and> (target os = CPU \<longrightarrow> \<not> o_host p \<and> Suc (o_lost p) = o_allocs p)"

text \<open>
  A run that is complete: exit status 0, a line for every size below the preamble, with the options for the
  size, all buffers freed and no errors; all sets of arrays of the dummy computation but one are lost.
\<close>

definition completed ::
    "'d oenv \<Rightarrow> string \<Rightarrow> nat \<Rightarrow> options_t \<Rightarrow> nat list \<Rightarrow> (nat \<Rightarrow> 'd \<Rightarrow> 'd \<Rightarrow> 'd \<Rightarrow> string)
     \<Rightarrow> (int \<times> ('d, 'e) ojob) prog option \<Rightarrow> bool" where
  "completed E title n os zs line result \<longleftrightarrow> (\<exists>J ts. result = Some (Return (0, J))
     \<and> length (j_procs J) = n \<and> (\<forall>p\<in>set (j_procs J). freed os p) \<and> length ts = length zs
     \<and> j_out J = (0, print_preamble E title os 0) # map2 (\<lambda>z (a, mi, ma). (0, line z a mi ma)) zs ts)"

definition plain_line :: "'d oenv \<Rightarrow> options_t \<Rightarrow> nat \<Rightarrow> 'd \<Rightarrow> 'd \<Rightarrow> 'd \<Rightarrow> string" where
  "plain_line E os z = print_stats E (opts_at os z) 0 (int z)"

lemma timeless_shape [simp]: "timeless (\<lambda>r p. shape os L R S V r p \<and> sized n z S V r p)"
  by (simp add: timeless_def shape_def sized_def lost_ok_def)

lemma length_buffers [simp]:
  "length (char_buffer v siz w) = unat siz" "length (float_buffer v siz w) = unat siz div 4"
  by (simp_all add: char_buffer_def set_buffer_def float_buffer_def set_buffer_floats_def)

lemma new_buffers_Return:
  assumes "memory_granted E"
  shows "new_send E who mk siz v J = Return (J\<lparr>j_procs := map (\<lambda>p. if who (o_rank p)
      then (advance (j_opts J) p)\<lparr>o_send := mk v siz (o_fresh E (o_rank p) (o_allocs p))\<rparr> else p) (j_procs J)\<rparr>)"
    and "new_recv E who mk siz v J = Return (J\<lparr>j_procs := map (\<lambda>p. if who (o_rank p)
      then (advance (j_opts J) p)\<lparr>o_recv := mk v siz (o_fresh E (o_rank p) (o_allocs p))\<rparr> else p) (j_procs J)\<rparr>)"
    and "new_ints E who keep J = Return (J\<lparr>j_procs := map (\<lambda>p. if who (o_rank p)
      then keep (int_array (of_nat (length (j_procs J)) * 4) (o_fresh E (o_rank p) (o_allocs p))) (advance (j_opts J) p)
      else p) (j_procs J)\<rparr>)"
  unfolding new_send_def new_recv_def new_ints_def Let_def
  by (rule on_ranks_Return, rule allocated_Return [OF assms])+

lemma lost_ok_update [simp]:
  "lost_ok os (p\<lparr>o_send := sb\<rparr>) = lost_ok os p" "lost_ok os (p\<lparr>o_recv := rb\<rparr>) = lost_ok os p"
  "lost_ok os (p\<lparr>o_scounts := a\<rparr>) = lost_ok os p" "lost_ok os (p\<lparr>o_sdispls := a\<rparr>) = lost_ok os p"
  "lost_ok os (p\<lparr>o_rcounts := a\<rparr>) = lost_ok os p" "lost_ok os (p\<lparr>o_rdispls := a\<rparr>) = lost_ok os p"
  "lost_ok os (p\<lparr>o_errors := e\<rparr>) = lost_ok os p"
  by (simp_all add: lost_ok_def)

lemma allocs_advance [simp]: "o_allocs (advance os p) = Suc (o_allocs p)"
  by (simp add: advance_def Let_def)

text \<open>The processes at the start.\<close>

lemma start_job_fields [simp]:
  "length (j_procs (start_job E os n)) = n" "j_opts (start_job E os n) = os" "j_out (start_job E os n) = []"
  by (simp_all add: start_job_def)

lemma start_procs [simp]:
  assumes "r < n"
  shows "o_rank (j_procs (start_job E os n) ! r) = r" "o_send (j_procs (start_job E os n) ! r) = []"
    "o_recv (j_procs (start_job E os n) ! r) = []" "o_scounts (j_procs (start_job E os n) ! r) = []"
    "o_sdispls (j_procs (start_job E os n) ! r) = []" "o_rcounts (j_procs (start_job E os n) ! r) = []"
    "o_rdispls (j_procs (start_job E os n) ! r) = []" "o_errors (j_procs (start_job E os n) ! r) = 0"
    "o_allocs (j_procs (start_job E os n) ! r) = 0" "lost_ok os (j_procs (start_job E os n) ! r)"
  using assms by (simp_all add: start_job_def lost_ok_def)

lemmas setup_simps = new_buffers_Return procs_ok_def shape_def everyone_def root_def no_rank_def lost_ok_advance

lemma coll_start_ok:
  assumes "process_options host_build argv (start_state COLLECTIVE LAT) = Return (PO_OKAY, st)" "o_init_err E = 0" "2 \<le> n"
  shows "coll_start E n argv title name cont = cont (po_opts st)"
  using assms by (simp add: coll_start_def)

lemma no_prepare_ok:
  "procs_ok n (shape os L R no_rank no_rank) J \<Longrightarrow>
   \<exists>J'. no_prepare z' J = Return J' \<and> procs_ok n (\<lambda>r p. shape os L R no_rank no_rank r p \<and> sized n z no_rank no_rank r p) J'
     \<and> j_opts J' = j_opts J \<and> j_out J' = j_out J"
  by (simp add: no_prepare_def procs_ok_def sized_def no_rank_def)

lemma equal_counts_ok:
  assumes "n * z < 2 ^ 31" "procs_ok n (shape os L R S V) J"
    and "\<And>r p. r < n \<Longrightarrow> o_rank p = r \<Longrightarrow> who r \<Longrightarrow> shape os L R S V r p
      \<Longrightarrow> o_rank (keep (replicate n (int z)) (equal_displs n z) p) = r
        \<and> shape os L R S V r (keep (replicate n (int z)) (equal_displs n z) p)
        \<and> sized n z S V r (keep (replicate n (int z)) (equal_displs n z) p)"
    and "\<And>r. \<not> who r \<Longrightarrow> \<not> S r \<and> \<not> V r"
  shows "\<exists>J'. equal_counts who keep (int z) J = Return J' \<and> procs_ok n (\<lambda>r p. shape os L R S V r p \<and> sized n z S V r p) J'
     \<and> j_opts J' = j_opts J \<and> j_out J' = j_out J"
proof -
  have "int_ok (int n * int z)" using assms(1) by (simp add: int_ok_of_nat flip: of_nat_mult)
  then show ?thesis using assms(2-4) unfolding equal_counts_def on_ranks_def Let_def
    by (intro each_ok [OF assms(2)]) (auto simp: procs_ok_def sized_def simp flip: equal_displs_def)
qed

text \<open>The receive buffers after a call have the lengths they had before.\<close>

lemma taken_in_ok:
  assumes "procs_ok n pr J" "map length (f (j_procs J)) = map length (map o_recv (j_procs J))"
    and "\<And>r p b. r < n \<Longrightarrow> pr r p \<Longrightarrow> length b = length (o_recv p) \<Longrightarrow> pr r (p\<lparr>o_recv := b\<rparr>)"
  shows "procs_ok n pr (taken_in f J) \<and> j_opts (taken_in f J) = j_opts J \<and> j_out (taken_in f J) = j_out J"
proof -
  have l: "length (f (j_procs J)) = n" using map_length_eqD(1) [OF assms(2)] assms(1) by (simp add: procs_ok_def)
  then have "length (f (j_procs J) ! r) = length (o_recv (j_procs J ! r))" if "r < n" for r
    using that map_length_eqD(2) [OF assms(2), of r] assms(1) by (simp add: procs_ok_def)
  then show ?thesis using assms(1,3) l by (simp add: procs_ok_def taken_in_def)
qed

lemma shape_recv:
  "shape os L R S V r p \<and> sized n z S V r p \<Longrightarrow> length b = length (o_recv p)
   \<Longrightarrow> shape os L R S V r (p\<lparr>o_recv := b\<rparr>) \<and> sized n z S V r (p\<lparr>o_recv := b\<rparr>)"
  by (simp add: shape_def sized_def)

definition sizes_ok :: "nat \<Rightarrow> options_t \<Rightarrow> bool" where
  "sizes_ok n os \<longleftrightarrow> loops_ok os \<and> unat (max_message_size os) < 2 ^ 30 \<and> 0 < n"

lemma large_options_target [simp]: "target (large_options os) = target os"
  by (simp add: large_options_def)

text \<open>A program whose loop keeps the shape of its buffers runs to its end.\<close>

lemma coll_completes:
  assumes "\<exists>J. fold_prog (\<lambda>f. f) alloc (start_job E os n) = Return J \<and> procs_ok n pr J \<and> j_opts J = os \<and> j_out J = []"
    and n: "0 < n" "first_size os \<noteq> 0" "counts_to cond m"
    and step: "\<And>z rows J. 0 < z \<Longrightarrow> z \<le> m \<Longrightarrow> coll_state n pr os line [(0, print_preamble E title os 0)] z rows J
      \<Longrightarrow> \<exists>J'. body (int z) J = Return J' \<and> coll_state n pr os line [(0, print_preamble E title os 0)] (2 * z) (rows @ [z]) J'"
    and cleanup: "\<And>J. procs_ok n pr J \<Longrightarrow> target (j_opts J) = target os
      \<Longrightarrow> length (j_procs (fold (\<lambda>f. f) cleanup J)) = n \<and> (\<forall>p\<in>set (j_procs (fold (\<lambda>f. f) cleanup J)). freed os p)
        \<and> j_out (fold (\<lambda>f. f) cleanup J) = j_out J"
  shows "completed E title n os (doubled_sizes m (nat (first_size os))) line (coll_run E title n os alloc cond body cleanup)"
proof -
  obtain J0 where J0: "fold_prog (\<lambda>f. f) alloc (start_job E os n) = Return J0" "procs_ok n pr J0" "j_opts J0 = os"
    "j_out J0 = []" using assms(1) by blast
  have "\<exists>J ts. coll_run E title n os alloc cond body cleanup = Some (Return (0, fold (\<lambda>f. f) cleanup J))
    \<and> procs_ok n pr J \<and> (j_opts J = os \<or> j_opts J = large_options os)
    \<and> length ts = length (doubled_sizes m (nat (first_size os)))
    \<and> j_out J = (0, print_preamble E title os 0)
      # map2 (\<lambda>z (a, mi, ma). (0, line z a mi ma)) (doubled_sizes m (nat (first_size os))) ts"
    by (rule coll_run_ok [OF J0 n]) (rule step)
  then obtain J ts where J: "coll_run E title n os alloc cond body cleanup = Some (Return (0, fold (\<lambda>f. f) cleanup J))"
    "procs_ok n pr J" "j_opts J = os \<or> j_opts J = large_options os"
    "length ts = length (doubled_sizes m (nat (first_size os)))"
    "j_out J = (0, print_preamble E title os 0)
      # map2 (\<lambda>z (a, mi, ma). (0, line z a mi ma)) (doubled_sizes m (nat (first_size os))) ts" by auto
  have "target (j_opts J) = target os" using J(3) by auto
  from cleanup [OF J(2) this] show ?thesis unfolding completed_def J(1) using J(4,5) by auto
qed

text \<open>A program that does not validate: what it allocates has a shape that its calls and its freeing fit.\<close>

definition plain_program :: "'d oenv \<Rightarrow> string \<Rightarrow> nat \<Rightarrow> options_t \<Rightarrow> (int \<times> ('d, 'e) ojob) prog option \<Rightarrow> bool" where
  "plain_program E title n os result \<longleftrightarrow> (\<exists>setup prepare call cleanup L R S V.
     result = coll_run E title n os setup (within_chars os) (coll_size E prepare no_check call no_check (print_bytes E)) cleanup
     \<and> (\<exists>J. fold_prog (\<lambda>f. f) setup (start_job E os n) = Return J \<and> procs_ok n (shape os L R S V) J \<and> j_opts J = os \<and> j_out J = [])
     \<and> (\<forall>z J. z \<le> unat (max_message_size os) \<longrightarrow> procs_ok n (shape os L R S V) J
        \<longrightarrow> (\<exists>J'. prepare (int z) J = Return J' \<and> procs_ok n (\<lambda>r p. shape os L R S V r p \<and> sized n z S V r p) J'
          \<and> j_opts J' = j_opts J \<and> j_out J' = j_out J))
     \<and> (\<forall>z J. z \<le> unat (max_message_size os) \<longrightarrow> procs_ok n (\<lambda>r p. shape os L R S V r p \<and> sized n z S V r p) J
        \<longrightarrow> procs_ok n (\<lambda>r p. shape os L R S V r p \<and> sized n z S V r p) (call (int z) J)
          \<and> j_opts (call (int z) J) = j_opts J \<and> j_out (call (int z) J) = j_out J)
     \<and> (\<forall>J. procs_ok n (shape os L R S V) J \<longrightarrow> target (j_opts J) = target os
        \<longrightarrow> length (j_procs (fold (\<lambda>f. f) cleanup J)) = n \<and> (\<forall>p\<in>set (j_procs (fold (\<lambda>f. f) cleanup J)). freed os p)
          \<and> j_out (fold (\<lambda>f. f) cleanup J) = j_out J))"

lemma plain_programI:
  assumes "\<exists>J. fold_prog (\<lambda>f. f) alloc (start_job E os n) = Return J \<and> procs_ok n (shape os L R S V) J
      \<and> j_opts J = os \<and> j_out J = []"
    and prep: "\<And>z J. z \<le> unat (max_message_size os) \<Longrightarrow> procs_ok n (shape os L R S V) J
      \<Longrightarrow> \<exists>J'. prepare (int z) J = Return J' \<and> procs_ok n (\<lambda>r p. shape os L R S V r p \<and> sized n z S V r p) J'
        \<and> j_opts J' = j_opts J \<and> j_out J' = j_out J"
    and call: "\<And>z J. z \<le> unat (max_message_size os) \<Longrightarrow> procs_ok n (\<lambda>r p. shape os L R S V r p \<and> sized n z S V r p) J
      \<Longrightarrow> procs_ok n (\<lambda>r p. shape os L R S V r p \<and> sized n z S V r p) (call (int z) J)
        \<and> j_opts (call (int z) J) = j_opts J \<and> j_out (call (int z) J) = j_out J"
    and cleanup: "\<And>J. procs_ok n (shape os L R S V) J \<Longrightarrow> target (j_opts J) = target os
      \<Longrightarrow> length (j_procs (fold (\<lambda>f. f) cleanup J)) = n \<and> (\<forall>p\<in>set (j_procs (fold (\<lambda>f. f) cleanup J)). freed os p)
        \<and> j_out (fold (\<lambda>f. f) cleanup J) = j_out J"
  shows "plain_program E title n os
    (coll_run E title n os alloc (within_chars os) (coll_size E prepare no_check call no_check (print_bytes E)) cleanup)"
  unfolding plain_program_def 
  by (rule exI [of _ alloc], rule exI [of _ prepare], rule exI [of _ call], rule exI [of _ cleanup], rule exI [of _ L],
      rule exI [of _ R], rule exI [of _ S], rule exI [of _ V]) (use assms in blast)

definition plain_completed :: "'d oenv \<Rightarrow> string \<Rightarrow> nat \<Rightarrow> options_t \<Rightarrow> (int \<times> ('d, 'e) ojob) prog option \<Rightarrow> bool" where
  "plain_completed E title n os = completed E title n os
     (doubled_sizes (unat (max_message_size os)) (nat (first_size os))) (plain_line E os)"

text \<open>It handles every size, so it comes to its end, or goes on for ever, as the first size has it.\<close>

lemma plain_program_runs:
  assumes "plain_program E title n os result" and ok: "sizes_ok n os"
  shows "(first_size os \<noteq> 0 \<longrightarrow> plain_completed E title n os result) \<and> (first_size os = 0 \<longrightarrow> result = None)"
proof -
  let ?m = "unat (max_message_size os)"
  from assms(1) obtain alloc prepare call cleanup L R S V where
    result: "result = coll_run E title n os alloc (within_chars os) (coll_size E prepare no_check call no_check (print_bytes E)) cleanup"
    and alloc: "\<exists>J. fold_prog (\<lambda>f. f) alloc (start_job E os n) = Return J \<and> procs_ok n (shape os L R S V) J \<and> j_opts J = os \<and> j_out J = []"
    and prep: "\<And>z J. z \<le> ?m \<Longrightarrow> procs_ok n (shape os L R S V) J
      \<Longrightarrow> \<exists>J'. prepare (int z) J = Return J' \<and> procs_ok n (\<lambda>r p. shape os L R S V r p \<and> sized n z S V r p) J'
        \<and> j_opts J' = j_opts J \<and> j_out J' = j_out J"
    and call: "\<And>z J. z \<le> ?m \<Longrightarrow> procs_ok n (\<lambda>r p. shape os L R S V r p \<and> sized n z S V r p) J
      \<Longrightarrow> procs_ok n (\<lambda>r p. shape os L R S V r p \<and> sized n z S V r p) (call (int z) J)
        \<and> j_opts (call (int z) J) = j_opts J \<and> j_out (call (int z) J) = j_out J"
    and cleanup: "\<And>J. procs_ok n (shape os L R S V) J \<Longrightarrow> target (j_opts J) = target os
      \<Longrightarrow> length (j_procs (fold (\<lambda>f. f) cleanup J)) = n \<and> (\<forall>p\<in>set (j_procs (fold (\<lambda>f. f) cleanup J)). freed os p)
        \<and> j_out (fold (\<lambda>f. f) cleanup J) = j_out J"
    unfolding plain_program_def by blast
  let ?pr = "shape os L R S V"
  obtain J0 where J0: "fold_prog (\<lambda>f. f) alloc (start_job E os n) = Return J0" "procs_ok n ?pr J0" "j_opts J0 = os" "j_out J0 = []"
    using alloc by blast
  have n: "0 < n" "loops_ok os" and cond: "counts_to (within_chars os) ?m"
    using ok counts_to_chars by (simp_all add: sizes_ok_def)
  have step: "\<exists>J'. coll_size E prepare no_check call no_check (print_bytes E) (int z) J = Return J'
      \<and> coll_state n ?pr os (plain_line E os) [(0, print_preamble E title os 0)] (2 * z) (rows @ [z]) J'"
    if z: "z \<le> ?m" and st: "coll_state n ?pr os (plain_line E os) [(0, print_preamble E title os 0)] z rows J" for z rows J
  proof (rule coll_size_ok [where prz = "\<lambda>r p. shape os L R S V r p \<and> sized n z S V r p", OF st n(1,2) timeless_shape])
    show "\<exists>J'. prepare (int z) J = Return J' \<and> procs_ok n (\<lambda>r p. shape os L R S V r p \<and> sized n z S V r p) J'
        \<and> j_opts J' = j_opts J \<and> j_out J' = j_out J" if "procs_ok n ?pr J" for J
      by (rule prep [OF z that])
    show "\<exists>J'. bind_prog (no_check (int z) (int i) J) (\<lambda>J. no_check (int z) (int i) (call (int z) J)) = Return J'
        \<and> procs_ok n (\<lambda>r p. shape os L R S V r p \<and> sized n z S V r p) J' \<and> j_opts J' = j_opts J \<and> j_out J' = j_out J"
      if "procs_ok n (\<lambda>r p. shape os L R S V r p \<and> sized n z S V r p) J" for i J
      using call [OF z that] by (simp add: no_check_def)
  qed (auto simp: print_bytes_def print_stats_def plain_line_def)
  show ?thesis
  proof (intro conjI impI)
    assume "first_size os = 0"
    then show "result = None" unfolding result by (intro coll_run_endless [OF J0 n(1) _ cond step])
  next
    assume f: "first_size os \<noteq> 0"
    show "plain_completed E title n os result"
      unfolding plain_completed_def result
      by (rule coll_completes [where pr = "shape os L R S V", OF alloc n(1) f cond]) (use step cleanup in blast)+
  qed
qed

subsection \<open>The limits\<close>

text \<open>The options with which the sizes are right: no product wraps around and the sizes stay below 2^30.\<close>

definition options_fit :: "nat \<Rightarrow> options_t \<Rightarrow> bool" where
  "options_fit n os \<longleftrightarrow> loops_ok os
     \<and> unat (max_mem_limit os) < 2 ^ 30 \<and> unat (max_message_size os) * n < 2 ^ 64 \<and> 2 \<le> n \<and> n < 2 ^ 31"

lemma limit_total_fits:
  assumes "options_fit n os"
  shows "sizes_ok n (limit_total n os)" "unat (max_message_size (limit_total n os)) * n < 2 ^ 30"
    "unat (max_message_size (limit_total n os) * of_nat n) = unat (max_message_size (limit_total n os)) * n"
proof -
  have n: "unat (of_nat n :: u64) = n" using assms by (intro unat_of_nat_small) (simp add: options_fit_def)
  have p: "unat (max_message_size os * of_nat n) = unat (max_message_size os) * n"
    using assms by (simp add: unat_word_ariths n options_fit_def)
  have "unat (max_mem_limit os) div n * n < 2 ^ 30"
    by (rule le_less_trans [OF div_times_less_eq_dividend]) (use assms in \<open>simp add: options_fit_def\<close>)
  then show total: "unat (max_message_size (limit_total n os)) * n < 2 ^ 30"
    using assms p by (auto simp: options_fit_def limit_total_def unat_div_distrib n word_less_nat_alt)
  then show "unat (max_message_size (limit_total n os) * of_nat n) = unat (max_message_size (limit_total n os)) * n"
    by (simp add: unat_word_ariths n)
  have "unat (max_message_size (limit_total n os)) * 1 \<le> unat (max_message_size (limit_total n os)) * n"
    using assms by (intro mult_le_mono2) (simp add: options_fit_def)
  then have "unat (max_message_size (limit_total n os)) < 2 ^ 30" using total by linarith
  then show "sizes_ok n (limit_total n os)" using assms
    by (auto simp: sizes_ok_def options_fit_def limit_total_def loops_ok_def)
qed

lemma limit_one_fits: "options_fit n os \<Longrightarrow> sizes_ok n (limit_one n os)"
  by (auto simp: sizes_ok_def options_fit_def limit_one_def loops_ok_def word_less_nat_alt)

subsection \<open>The calls\<close>

lemma delivered_lengths: "delivered T sb rb rb' \<Longrightarrow> map length rb' = map length rb"
  by (simp add: delivered_def)

lemma block_in: "j < n \<Longrightarrow> z \<le> m \<Longrightarrow> j * z + z \<le> m * (n :: nat)"
  using mult_le_mono [of "Suc j" n z m] by (simp add: algebra_simps)

lemma shape_lengths:
  assumes "procs_ok n (\<lambda>r p. shape os L R S V r p \<and> sized n z S V r p) J"
  shows "length (j_procs J) = n" "r < n \<Longrightarrow> length (map o_send (j_procs J) ! r) = L r"
    "r < n \<Longrightarrow> length (map o_recv (j_procs J) ! r) = R r"
  using assms by (simp_all add: procs_ok_def shape_def)

lemma equal_displs_nth: "i < n \<Longrightarrow> equal_displs n z ! i = int i * int z"
  by (simp add: equal_displs_def)

context mpi_collectives
begin

lemma allgather_lengths:
  assumes "length sb = n" "length rb = n" "\<And>j. j < n \<Longrightarrow> z \<le> length (sb ! j) \<and> m * n \<le> length (rb ! j)" "z \<le> m"
  shows "map length (MPI_Allgather M (int z) MPI_CHAR (int z) MPI_CHAR sb rb) = map length rb"
proof (rule delivered_lengths, rule allgather)
  have b: "j * z + z \<le> length (rb ! i)" if "i < n" "j < n" for i j
    using order_trans [OF block_in [OF that(2) assms(4)]] assms(3) [OF that(1)] by blast
  show "fits (alltoall_transfers (length rb) (\<lambda>j i. 0) (\<lambda>i j. j * bytes (int z) MPI_CHAR) (\<lambda>i j. bytes (int z) MPI_CHAR)) sb rb"
    using assms b block_order by (intro fits_alltoall) auto
qed (use assms in simp_all)

lemma alltoall_lengths:
  assumes "length sb = n" "length rb = n" "\<And>j. j < n \<Longrightarrow> m * n \<le> length (sb ! j) \<and> m * n \<le> length (rb ! j)" "z \<le> m"
  shows "delivered (alltoall_transfers n (\<lambda>j i. i * z) (\<lambda>i j. j * z) (\<lambda>i j. z)) sb rb
    (MPI_Alltoall M (int z) MPI_CHAR (int z) MPI_CHAR sb rb)"
proof (rule alltoall)
  have b: "j * z + z \<le> length (sb ! i)" "j * z + z \<le> length (rb ! i)" if "i < n" "j < n" for i j
    using order_trans [OF block_in [OF that(2) assms(4)]] assms(3) [OF that(1)] by blast+
  show "fits (alltoall_transfers n (\<lambda>j i. i * z) (\<lambda>i j. j * z) (\<lambda>i j. z)) sb rb"
    using assms b block_order by (intro fits_alltoall) auto
qed (use assms in simp_all)

lemma alltoallv_lengths:
  assumes "length sb = n" "length rb = n" "\<And>j. j < n \<Longrightarrow> m * n \<le> length (sb ! j) \<and> m * n \<le> length (rb ! j)" "z \<le> m"
    and "\<And>j. j < n \<Longrightarrow> sc ! j = replicate n (int z) \<and> sd ! j = equal_displs n z \<and> rc ! j = replicate n (int z) \<and> rd ! j = equal_displs n z"
  shows "map length (MPI_Alltoallv M sc sd MPI_CHAR rc rd MPI_CHAR sb rb) = map length rb"
proof (rule delivered_lengths, rule alltoallv)
  have b: "j * z + z \<le> length (sb ! i)" "j * z + z \<le> length (rb ! i)" if "i < n" "j < n" for i j
    using order_trans [OF block_in [OF that(2) assms(4)]] assms(3) [OF that(1)] by blast+
  show "fits (alltoall_transfers (length rb) (\<lambda>j i. bytes (sd ! j ! i) MPI_CHAR) (\<lambda>i j. bytes (rd ! i ! j) MPI_CHAR)
      (\<lambda>i j. bytes (rc ! i ! j) MPI_CHAR)) sb rb"
    using assms b block_order by (intro fits_alltoall) (auto simp: equal_displs_nth nat_mult_distrib)
qed (use assms in \<open>simp_all add: equal_displs_nth\<close>)

lemma allgatherv_lengths:
  assumes "length sb = n" "length rb = n" "\<And>j. j < n \<Longrightarrow> z \<le> length (sb ! j) \<and> m * n \<le> length (rb ! j)" "z \<le> m"
    and "\<And>j. j < n \<Longrightarrow> cs ! j = int z \<and> rc ! j = replicate n (int z) \<and> rd ! j = equal_displs n z"
  shows "map length (MPI_Allgatherv M cs MPI_CHAR rc rd MPI_CHAR sb rb) = map length rb"
proof (rule delivered_lengths, rule allgatherv)
  have b: "j * z + z \<le> length (rb ! i)" if "i < n" "j < n" for i j
    using order_trans [OF block_in [OF that(2) assms(4)]] assms(3) [OF that(1)] by blast
  show "fits (alltoall_transfers (length rb) (\<lambda>j i. 0) (\<lambda>i j. bytes (rd ! i ! j) MPI_CHAR) (\<lambda>i j. bytes (rc ! i ! j) MPI_CHAR)) sb rb"
    using assms b block_order by (intro fits_alltoall) (auto simp: equal_displs_nth nat_mult_distrib)
qed (use assms in \<open>simp_all add: equal_displs_nth\<close>)

lemma gather_lengths:
  assumes "length sb = n" "length rb = n" "\<And>j. j < n \<Longrightarrow> z \<le> length (sb ! j)" "m * n \<le> length (rb ! 0)" "z \<le> m" "0 < n"
  shows "map length (MPI_Gather M (int z) MPI_CHAR (int z) MPI_CHAR 0 sb rb) = map length rb"
proof (rule delivered_lengths, rule gather)
  have b: "j * z + z \<le> length (rb ! 0)" if "j < n" for j
    using order_trans [OF block_in [OF that assms(5)] assms(4)] .
  show "fits (gather_transfers (length rb) 0 (\<lambda>j. j * bytes (int z) MPI_CHAR) (\<lambda>j. bytes (int z) MPI_CHAR)) sb rb"
    using assms b block_order by (intro fits_gather) auto
qed (use assms in simp_all)

lemma gatherv_lengths:
  assumes "length sb = n" "length rb = n" "\<And>j. j < n \<Longrightarrow> z \<le> length (sb ! j)" "m * n \<le> length (rb ! 0)" "z \<le> m" "0 < n"
    and "\<And>j. j < n \<Longrightarrow> cs ! j = int z" "rc ! 0 = replicate n (int z)" "rd ! 0 = equal_displs n z"
  shows "map length (MPI_Gatherv M cs MPI_CHAR rc rd MPI_CHAR 0 sb rb) = map length rb"
proof (rule delivered_lengths, rule gatherv)
  have b: "j * z + z \<le> length (rb ! 0)" if "j < n" for j
    using order_trans [OF block_in [OF that assms(5)] assms(4)] .
  show "fits (gather_transfers (length rb) 0 (\<lambda>j. bytes (rd ! 0 ! j) MPI_CHAR) (\<lambda>j. bytes (rc ! 0 ! j) MPI_CHAR)) sb rb"
    using assms b block_order by (intro fits_gather) (auto simp: equal_displs_nth nat_mult_distrib)
qed (use assms in \<open>simp_all add: equal_displs_nth\<close>)

lemma scatter_lengths:
  assumes "length sb = n" "length rb = n" "\<And>j. j < n \<Longrightarrow> z \<le> length (rb ! j)" "m * n \<le> length (sb ! 0)" "z \<le> m" "0 < n"
  shows "map length (MPI_Scatter M (int z) MPI_CHAR (int z) MPI_CHAR 0 sb rb) = map length rb"
proof (rule delivered_lengths, rule scatter)
  have b: "j * z + z \<le> length (sb ! 0)" if "j < n" for j
    using order_trans [OF block_in [OF that assms(5)] assms(4)] .
  have "n * z \<le> length (sb ! 0)" using b [of "n - 1"] assms(6) by (cases n) simp_all
  then show "fits (scatter_transfers (length rb) 0 (bytes (int z) MPI_CHAR)) sb rb"
    using assms by (intro fits_scatter) (auto simp: in_set_conv_nth)
qed (use assms in simp_all)

lemma scatterv_lengths:
  assumes "length sb = n" "length rb = n" "\<And>j. j < n \<Longrightarrow> z \<le> length (rb ! j)" "m * n \<le> length (sb ! 0)" "z \<le> m" "0 < n"
    and "\<And>j. j < n \<Longrightarrow> cs ! j = int z" "sc ! 0 = replicate n (int z)" "sd ! 0 = equal_displs n z"
  shows "map length (MPI_Scatterv M sc sd MPI_CHAR cs MPI_CHAR 0 sb rb) = map length rb"
proof (rule delivered_lengths, rule scatterv)
  have b: "j * z + z \<le> length (sb ! 0)" if "j < n" for j
    using order_trans [OF block_in [OF that assms(5)] assms(4)] .
  show "fits (scatterv_transfers (length rb) 0 (\<lambda>i. bytes (sd ! 0 ! i) MPI_CHAR) (\<lambda>i. bytes (sc ! 0 ! i) MPI_CHAR)) sb rb"
    using assms b by (intro fits_scatterv) (auto simp: equal_displs_nth nat_mult_distrib)
qed (use assms in \<open>simp_all add: equal_displs_nth\<close>)

lemma bcast_lengths:
  assumes "length bs = n" "\<And>j. j < n \<Longrightarrow> z \<le> length (bs ! j)" "0 < n"
  shows "map length (MPI_Bcast M (int z) MPI_CHAR 0 bs) = map length bs"
proof (rule delivered_lengths, rule bcast)
  show "fits (bcast_transfers (length bs) 0 (bytes (int z) MPI_CHAR)) bs bs"
    using assms by (intro fits_bcast) (auto simp: in_set_conv_nth)
qed simp

end

subsection \<open>The programs\<close>

lemma recv_call_ok:
  assumes "procs_ok n (\<lambda>r p. shape os L R S V r p \<and> sized n z S V r p) J"
    and "map length (f (j_procs J)) = map length (map o_recv (j_procs J))"
  shows "procs_ok n (\<lambda>r p. shape os L R S V r p \<and> sized n z S V r p) (taken_in f J)
    \<and> j_opts (taken_in f J) = j_opts J \<and> j_out (taken_in f J) = j_out J"
  by (rule taken_in_ok [where n = n and pr = "\<lambda>r p. shape os L R S V r p \<and> sized n z S V r p"])
    (use assms shape_recv in \<open>simp_all\<close>)

lemma free_on_fields:
  "j_opts (free_on w c J) = j_opts J" "(free_on w c J)\<lparr>j_procs := ps\<rparr> = J\<lparr>j_procs := ps\<rparr>"
  "j_procs (free_on w c J) = map (\<lambda>p. if w (o_rank p) then free_buffer (j_opts J) c p else p) (j_procs J)"
  by (simp_all add: free_on_def)

definition free_proc :: "options_t \<Rightarrow> (nat \<Rightarrow> bool) \<times> (('d, 'e) oproc \<Rightarrow> ('d, 'e) oproc) \<Rightarrow> ('d, 'e) oproc \<Rightarrow> ('d, 'e) oproc" where
  "free_proc os f p = (if fst f (o_rank p) then free_buffer os (snd f) p else p)"

lemma fold_free:
  "fold (\<lambda>f. f) (map (\<lambda>f. free_on (fst f) (snd f)) fs) J = J\<lparr>j_procs := map (fold (free_proc (j_opts J)) fs) (j_procs J)\<rparr>"
  by (induction fs arbitrary: J) (simp_all add: free_on_fields comp_def free_proc_def)

lemma cleanup_ok:
  assumes "procs_ok n pr J" "target (j_opts J) = target os" "cleanup = map (\<lambda>f. free_on (fst f) (snd f)) fs"
    and "\<And>r p os'. pr r p \<Longrightarrow> o_rank p = r \<Longrightarrow> target os' = target os \<Longrightarrow> freed os (fold (free_proc os') fs p)"
  shows "length (j_procs (fold (\<lambda>f. f) cleanup J)) = n \<and> (\<forall>p\<in>set (j_procs (fold (\<lambda>f. f) cleanup J)). freed os p)
    \<and> j_out (fold (\<lambda>f. f) cleanup J) = j_out J"
proof -
  have "freed os (fold (free_proc (j_opts J)) fs (j_procs J ! i))" if "i < n" for i
    using assms(1) that by (intro assms(4) [OF _ refl assms(2)]) (auto simp: procs_ok_def)
  then show ?thesis using assms(1) unfolding assms(3) fold_free by (auto simp: procs_ok_def in_set_conv_nth)
qed

lemmas cleanup_defs = free_proc_def clear_send_def clear_recv_def clear_scounts_def clear_sdispls_def clear_rcounts_def
  clear_rdispls_def free_buffer_def free_host_arrays_def shape_def freed_def lost_ok_def everyone_def root_def
  no_rank_def

lemma first_size_limit [simp]:
  "first_size (limit_total n os) = first_size os" "first_size (limit_one n os) = first_size os"
  by (simp_all add: limit_total_def limit_one_def first_size_def)

definition good_job :: "'d oenv \<Rightarrow> nat \<Rightarrow> string list \<Rightarrow> options_t \<Rightarrow> bool" where
  "good_job E n argv os \<longleftrightarrow> mpi_collectives (o_mpi E) \<and> memory_granted E \<and> o_init_err E = 0 \<and> options_fit n os
     \<and> (\<exists>bad. process_options host_build argv (start_state COLLECTIVE LAT) = Return (PO_OKAY, \<lparr>po_opts = os, po_bad = bad\<rparr>))"

lemma good_jobD:
  assumes "good_job E n argv os"
  shows "mpi_collectives (o_mpi E)" "memory_granted E" "2 \<le> n" "0 < n"
    "coll_start E n argv title name cont = cont os"
    "sizes_ok n (limit_total n os)" "sizes_ok n (limit_one n os)"
    "unat (max_message_size (limit_total n os) * of_nat n) = unat (max_message_size (limit_total n os)) * n"
    "z \<le> unat (max_message_size (limit_total n os)) \<Longrightarrow> n * z < 2 ^ 31"
proof -
  obtain bad where g: "mpi_collectives (o_mpi E)" "memory_granted E" "o_init_err E = 0" "options_fit n os"
      "process_options host_build argv (start_state COLLECTIVE LAT) = Return (PO_OKAY, \<lparr>po_opts = os, po_bad = bad\<rparr>)"
    using assms by (auto simp: good_job_def)
  then show n: "mpi_collectives (o_mpi E)" "memory_granted E" "2 \<le> n" "0 < n" by (simp_all add: options_fit_def)
  show "coll_start E n argv title name cont = cont os" using coll_start_ok [OF g(5,3) n(3)] by simp
  show "sizes_ok n (limit_total n os)" "sizes_ok n (limit_one n os)"
    "unat (max_message_size (limit_total n os) * of_nat n) = unat (max_message_size (limit_total n os)) * n"
    using limit_total_fits [OF g(4)] limit_one_fits [OF g(4)] by blast+
  show "n * z < 2 ^ 31" if "z \<le> unat (max_message_size (limit_total n os))"
    using le_less_trans [OF mult_le_mono1 [OF that, of n] limit_total_fits(2) [OF g(4)]] by (simp only: mult.commute) simp
qed

lemma osu_allgather_plain:
  assumes "good_job E n argv os"
  shows "plain_program E ''Allgather Latency Test'' n (limit_total n os) (osu_allgather E n argv)"
proof -
  note g = good_jobD [OF assms]
  let ?m = "unat (max_message_size (limit_total n os))"
  show ?thesis unfolding osu_allgather_def g(5) Let_def
    apply (rule plain_programI [where L = "\<lambda>_. ?m" and R = "\<lambda>_. ?m * n" and S = no_rank and V = no_rank])
    subgoal using g(2,8) by (simp add: setup_simps)
    subgoal by (rule no_prepare_ok)
    subgoal premises p for z J
      by (rule recv_call_ok [OF p(2)], rule mpi_collectives.allgather_lengths [OF g(1), where m = ?m and n = n])
        (use shape_lengths [OF p(2)] p(1) in auto)
    subgoal premises p for J
      by (rule cleanup_ok [OF p, where fs = "[(everyone, clear_send), (everyone, clear_recv)]"])
        (auto simp: cleanup_defs split: if_splits)
    done
qed

lemma sized_counts:
  assumes "procs_ok n (\<lambda>r p. shape os L R S V r p \<and> sized n z S V r p) J" "r < n"
  shows "S r \<Longrightarrow> o_scounts (j_procs J ! r) = replicate n (int z) \<and> o_sdispls (j_procs J ! r) = equal_displs n z"
    "V r \<Longrightarrow> o_rcounts (j_procs J ! r) = replicate n (int z) \<and> o_rdispls (j_procs J ! r) = equal_displs n z"
  using assms by (simp_all add: procs_ok_def sized_def)

lemma osu_allgatherv_plain:
  assumes "good_job E n argv os"
  shows "plain_program E ''Allgatherv Latency Test'' n (limit_total n os) (osu_allgatherv E n argv)"
proof -
  note g = good_jobD [OF assms]
  let ?m = "unat (max_message_size (limit_total n os))"
  show ?thesis unfolding osu_allgatherv_def g(5) Let_def
    apply (rule plain_programI [where L = "\<lambda>_. ?m" and R = "\<lambda>_. ?m * n" and S = no_rank and V = everyone])
    subgoal using g(2,8) by (simp add: setup_simps)
    subgoal premises p for z J
      by (rule equal_counts_ok [OF g(9) [OF p(1)] p(2)]) (auto simp: shape_def sized_def everyone_def root_def no_rank_def)
    subgoal premises p for z J
      by (rule recv_call_ok [OF p(2)], rule mpi_collectives.allgatherv_lengths [OF g(1), where m = ?m and n = n])
        (use shape_lengths [OF p(2)] sized_counts [OF p(2)] p(1) g(4) in \<open>auto simp: everyone_def root_def\<close>)
    subgoal premises p for J
      by (rule cleanup_ok [OF p, where fs = "[(everyone, clear_send), (everyone, clear_recv), (everyone, clear_rdispls), (everyone, clear_rcounts)]"])
        (auto simp: cleanup_defs split: if_splits)
    done
qed

lemma osu_alltoallv_plain:
  assumes "good_job E n argv os"
  shows "plain_program E ''All-to-Allv Personalized Exchange Latency Test'' n (limit_total n os) (osu_alltoallv E n argv)"
proof -
  note g = good_jobD [OF assms]
  let ?m = "unat (max_message_size (limit_total n os))"
  show ?thesis unfolding osu_alltoallv_def g(5) Let_def
    apply (rule plain_programI [where L = "\<lambda>_. ?m * n" and R = "\<lambda>_. ?m * n" and S = everyone and V = everyone])
    subgoal using g(2,8) by (simp add: setup_simps)
    subgoal premises p for z J
      by (rule equal_counts_ok [OF g(9) [OF p(1)] p(2)]) (auto simp: shape_def sized_def everyone_def root_def no_rank_def)
    subgoal premises p for z J
      by (rule recv_call_ok [OF p(2)], rule mpi_collectives.alltoallv_lengths [OF g(1), where m = ?m and n = n])
        (use shape_lengths [OF p(2)] sized_counts [OF p(2)] p(1) g(4) in \<open>auto simp: everyone_def root_def\<close>)
    subgoal premises p for J
      by (rule cleanup_ok [OF p, where fs = "[(everyone, clear_send), (everyone, clear_recv), (everyone, clear_rdispls), (everyone, clear_sdispls), (everyone, clear_rcounts), (everyone, clear_scounts)]"])
        (auto simp: cleanup_defs split: if_splits)
    done
qed

lemma osu_gather_plain:
  assumes "good_job E n argv os"
  shows "plain_program E ''Gather Latency Test'' n (limit_total n os) (osu_gather E n argv)"
proof -
  note g = good_jobD [OF assms]
  let ?m = "unat (max_message_size (limit_total n os))"
  show ?thesis unfolding osu_gather_def g(5) Let_def
    apply (rule plain_programI [where L = "\<lambda>_. ?m" and R = "\<lambda>r. if r = 0 then ?m * n else 0" and S = no_rank and V = no_rank])
    subgoal using g(2,8) by (simp add: setup_simps)
    subgoal by (rule no_prepare_ok)
    subgoal premises p for z J
      by (rule recv_call_ok [OF p(2)], rule mpi_collectives.gather_lengths [OF g(1), where m = ?m and n = n])
        (use shape_lengths [OF p(2)] sized_counts [OF p(2)] p(1) g(4) in \<open>auto simp: everyone_def root_def\<close>)
    subgoal premises p for J
      by (rule cleanup_ok [OF p, where fs = "[(root, clear_recv), (everyone, clear_send)]"])
        (auto simp: cleanup_defs split: if_splits)
    done
qed

lemma osu_gatherv_plain:
  assumes "good_job E n argv os"
  shows "plain_program E ''Gatherv Latency Test'' n (limit_total n os) (osu_gatherv E n argv)"
proof -
  note g = good_jobD [OF assms]
  let ?m = "unat (max_message_size (limit_total n os))"
  show ?thesis unfolding osu_gatherv_def g(5) Let_def
    apply (rule plain_programI [where L = "\<lambda>_. ?m" and R = "\<lambda>r. if r = 0 then ?m * n else 0" and S = no_rank and V = root])
    subgoal using g(2,8) by (simp add: setup_simps)
    subgoal premises p for z J
      by (rule equal_counts_ok [OF g(9) [OF p(1)] p(2)]) (auto simp: shape_def sized_def everyone_def root_def no_rank_def)
    subgoal premises p for z J
      by (rule recv_call_ok [OF p(2)], rule mpi_collectives.gatherv_lengths [OF g(1), where m = ?m and n = n])
        (use shape_lengths [OF p(2)] sized_counts [OF p(2)] p(1) g(4) in \<open>auto simp: everyone_def root_def\<close>)
    subgoal premises p for J
      by (rule cleanup_ok [OF p, where fs = "[(root, clear_rdispls), (root, clear_rcounts), (root, clear_recv), (everyone, clear_send)]"])
        (auto simp: cleanup_defs split: if_splits)
    done
qed

lemma osu_scatter_plain:
  assumes "good_job E n argv os"
  shows "plain_program E ''Scatter Latency Test'' n (limit_total n os) (osu_scatter E n argv)"
proof -
  note g = good_jobD [OF assms]
  let ?m = "unat (max_message_size (limit_total n os))"
  show ?thesis unfolding osu_scatter_def g(5) Let_def
    apply (rule plain_programI [where L = "\<lambda>r. if r = 0 then ?m * n else 0" and R = "\<lambda>_. ?m" and S = no_rank and V = no_rank])
    subgoal using g(2,8) by (simp add: setup_simps)
    subgoal by (rule no_prepare_ok)
    subgoal premises p for z J
      by (rule recv_call_ok [OF p(2)], rule mpi_collectives.scatter_lengths [OF g(1), where m = ?m and n = n])
        (use shape_lengths [OF p(2)] sized_counts [OF p(2)] p(1) g(4) in \<open>auto simp: everyone_def root_def\<close>)
    subgoal premises p for J
      by (rule cleanup_ok [OF p, where fs = "[(root, clear_send), (everyone, clear_recv)]"])
        (auto simp: cleanup_defs split: if_splits)
    done
qed

lemma osu_scatterv_plain:
  assumes "good_job E n argv os"
  shows "plain_program E ''Scatterv Latency Test'' n (limit_total n os) (osu_scatterv E n argv)"
proof -
  note g = good_jobD [OF assms]
  let ?m = "unat (max_message_size (limit_total n os))"
  show ?thesis unfolding osu_scatterv_def g(5) Let_def
    apply (rule plain_programI [where L = "\<lambda>r. if r = 0 then ?m * n else 0" and R = "\<lambda>_. ?m" and S = root and V = no_rank])
    subgoal using g(2,8) by (simp add: setup_simps)
    subgoal premises p for z J
      by (rule equal_counts_ok [OF g(9) [OF p(1)] p(2)]) (auto simp: shape_def sized_def everyone_def root_def no_rank_def)
    subgoal premises p for z J
      by (rule recv_call_ok [OF p(2)], rule mpi_collectives.scatterv_lengths [OF g(1), where m = ?m and n = n])
        (use shape_lengths [OF p(2)] sized_counts [OF p(2)] p(1) g(4) in \<open>auto simp: everyone_def root_def\<close>)
    subgoal premises p for J
      by (rule cleanup_ok [OF p, where fs = "[(root, clear_scounts), (root, clear_sdispls), (root, clear_send), (everyone, clear_recv)]"])
        (auto simp: cleanup_defs split: if_splits)
    done
qed

lemma osu_bcast_plain:
  assumes "good_job E n argv os"
  shows "plain_program E ''Broadcast Latency Test'' n (limit_one n os) (osu_bcast E n argv)"
proof -
  note g = good_jobD [OF assms]
  let ?m = "unat (max_message_size (limit_one n os))"
  show ?thesis unfolding osu_bcast_def g(5) Let_def
    apply (rule plain_programI [where L = "\<lambda>_. ?m" and R = "\<lambda>_. 0" and S = no_rank and V = no_rank])
    subgoal using g(2) by (simp add: setup_simps)
    subgoal by (rule no_prepare_ok)
    subgoal premises p for z J
    proof -
      note l = shape_lengths [OF p(2)]
      let ?bs = "MPI_Bcast (o_mpi E) (int z) MPI_CHAR 0 (map o_send (j_procs J))"
      have "map length ?bs = map length (map o_send (j_procs J))"
        by (rule mpi_collectives.bcast_lengths [OF g(1), where n = n]) (use l p(1) g(4) in auto)
      note b = map_length_eqD [OF this]
      show ?thesis using p(2) b by (simp add: procs_ok_def shape_def sized_def no_rank_def)
    qed
    subgoal premises p for J
      by (rule cleanup_ok [OF p, where fs = "[(everyone, clear_send)]"]) (auto simp: cleanup_defs split: if_splits)
    done
qed

lemma print_preamble_rank: "r \<noteq> 0 \<Longrightarrow> print_preamble E title os r = []" "print_preamble E title os 0 \<noteq> []"
  by (simp_all add: print_preamble_def)

text \<open>The barrier prints one line.\<close>

lemma osu_barrier_completes:
  assumes "good_job E n argv os"
  shows "\<exists>J a mi ma. osu_barrier E n argv = Some (Return (0, J))
    \<and> j_out J = [(0, print_preamble E ''Barrier Latency Test'' (os\<lparr>show_size := False\<rparr>) 0),
        (0, print_stats E (os\<lparr>show_size := False\<rparr>) 0 0 a mi ma)]"
proof -
  note g = good_jobD [OF assms]
  let ?os = "os\<lparr>show_size := False\<rparr>" and ?t = "''Barrier Latency Test''"
  let ?J = "say (\<lambda>p. print_preamble E ?t ?os (o_rank p)) (start_job E ?os n :: ('a, byte) ojob)"
  obtain bad where o: "process_options host_build argv (start_state COLLECTIVE LAT) = Return (PO_OKAY, \<lparr>po_opts = os, po_bad = bad\<rparr>)"
    "o_init_err E = 0" "options_fit n os" using assms by (auto simp: good_job_def)
  have ok: "procs_ok n (\<lambda>_ _. True) (start_job E ?os n :: ('a, byte) ojob)" by (simp add: procs_ok_def)
  have out: "j_out ?J = [(0, print_preamble E ?t ?os 0)]"
    using spoken_root [OF ok g(4), of "\<lambda>p. print_preamble E ?t ?os (o_rank p)", OF print_preamble_rank(1)] print_preamble_rank(2) g(4)
    by (simp add: say_def)
  have "\<exists>J'. iterate E (no_check 0) id (no_check 0) ?J = Return J' \<and> procs_ok n (\<lambda>_ _. True) J' \<and> j_opts J' = j_opts ?J \<and> j_out J' = j_out ?J"
    using ok o(3) by (intro iterate_ok) (simp_all add: timeless_def procs_ok_def say_def no_check_def options_fit_def loops_ok_def)
  then obtain J' where J': "iterate E (no_check 0) id (no_check 0) ?J = Return J'" "procs_ok n (\<lambda>_ _. True) J'" "j_opts J' = ?os"
    "j_out J' = [(0, print_preamble E ?t ?os 0)]" using out by (auto simp: say_def)
  obtain a mi ma where r: "j_out (report E (print_bytes E 0) J') = j_out J' @ spoken (map (\<lambda>p. (p, print_bytes E 0 ?os p a mi ma)) (j_procs J'))"
    by (simp add: report_def Let_def say_def J'(3))
  have "o_rank (j_procs J' ! 0) = 0" using J'(2) g(4) by (auto simp: procs_ok_def)
  then have "spoken (map (\<lambda>p. (p, print_bytes E 0 ?os p a mi ma)) (j_procs J')) = [(0, print_stats E ?os 0 0 a mi ma)]"
    using spoken_root [OF J'(2) g(4), of "\<lambda>p. print_bytes E 0 ?os p a mi ma"] by (simp add: print_bytes_def print_stats_def)
  moreover have "osu_barrier E n argv = Some (Return (0, report E (print_bytes E 0) J'))"
    using o(1,2) g(3) J'(1) by (simp add: osu_barrier_def Let_def)
  ultimately show ?thesis using r J'(4) by auto
qed

subsection \<open>The validated exchange\<close>

lemma concat_replicate: "concat (map (\<lambda>i. replicate m (f i)) [0..<n]) = map (\<lambda>p. f (p div m)) [0..<n * m]"
proof (cases "m = 0")
  case False
  have "map f (map (\<lambda>p. p div m) [0..<n * m]) = map f (map fst (concat (map (\<lambda>i. map (Pair i) [0..<m]) [0..<n])))"
    by (simp add: nested_upt comp_def)
  also have "\<dots> = concat (map (\<lambda>i. replicate m (f i)) [0..<n])"
    by (simp add: map_concat comp_def map_replicate_const)
  finally show ?thesis by (simp add: comp_def)
qed simp

lemma block_index: "(b :: nat) < m \<Longrightarrow> i < n \<Longrightarrow> i * m + b < n * m \<and> (i * m + b) div m = i"
  using mult_le_mono1 [of "Suc i" n m] by simp

text \<open>What the members of an all-to-all exchange send and receive.\<close>

definition sends_pattern :: "nat \<Rightarrow> nat \<Rightarrow> nat \<Rightarrow> ('d, byte) oproc \<Rightarrow> bool" where
  "sends_pattern n z r p \<longleftrightarrow> (\<forall>i<n. \<forall>b<z. o_send p ! (i * z + b) = char_pattern r n i)"

definition got_pattern :: "nat \<Rightarrow> nat \<Rightarrow> nat \<Rightarrow> ('d, byte) oproc \<Rightarrow> bool" where
  "got_pattern n z r p \<longleftrightarrow> (\<forall>i<n. \<forall>b<z. o_recv p ! (i * z + b) = char_pattern i n r)"

lemma set_buffer_char_Return:
  assumes "mem (z * n)" "z * n \<le> length buf" "z * n < 2 ^ 31" "n * n \<le> 2 ^ 31" "r < n"
  shows "set_buffer_char mem s z r n buf = Return
    ((if s then map (\<lambda>p. char_pattern r n (p div z)) [0..<n * z] else replicate (z * n) 0) @ drop (z * n) buf)"
proof -
  have "Suc r * n \<le> n * n" using assms(5) by (intro mult_le_mono1) simp
  then have "r * n + n \<le> 2 ^ 31" using assms(4) by simp
  then show ?thesis using assms(1-3) by (auto simp: set_buffer_char_def Let_def concat_replicate)
qed

context mpi_collectives
begin

lemma alltoall_pattern:
  assumes "length sb = n" "length rb = n" "\<And>j. j < n \<Longrightarrow> m * n \<le> length (sb ! j) \<and> m * n \<le> length (rb ! j)" "z \<le> m"
    and "\<And>r i b. r < n \<Longrightarrow> i < n \<Longrightarrow> b < z \<Longrightarrow> sb ! r ! (i * z + b) = char_pattern r n i" and "r < n" "i < n" "b < z"
  shows "MPI_Alltoall M (int z) MPI_CHAR (int z) MPI_CHAR sb rb ! r ! (i * z + b) = char_pattern i n r"
proof -
  have "\<lparr>dst = r, dst_off = i * z, src = i, src_off = r * z, len = z\<rparr> \<in> set (alltoall_transfers n (\<lambda>j i. i * z) (\<lambda>i j. j * z) (\<lambda>i j. z))"
    using assms(6,7) by (auto simp: set_alltoall_transfers)
  with alltoall_lengths [OF assms(1-4)] assms(8)
  have "MPI_Alltoall M (int z) MPI_CHAR (int z) MPI_CHAR sb rb ! r ! (i * z + b) = sb ! i ! (r * z + b)"
    by (auto simp: delivered_def)
  then show ?thesis using assms(5) [OF assms(7,6,8)] by simp
qed

end

text \<open>One process fills its buffers.\<close>

lemma fill_one_ok:
  assumes "shape os L R S V r p" "\<And>x. mem x" "r < n" "n * n \<le> 2 ^ 31" "n * z < 2 ^ 31" "n * z \<le> L r" "n * z \<le> R r"
  shows "\<exists>sb rb. set_buffer_char mem True z r n (o_send p) = Return sb \<and> set_buffer_char mem False z r n (o_recv p) = Return rb
    \<and> shape os L R S V r (p\<lparr>o_send := sb, o_recv := rb\<rparr>) \<and> sends_pattern n z r (p\<lparr>o_send := sb, o_recv := rb\<rparr>)"
proof -
  let ?sb = "map (\<lambda>q. char_pattern r n (q div z)) [0..<n * z] @ drop (z * n) (o_send p)"
    and ?rb = "replicate (z * n) 0 @ drop (z * n) (o_recv p)"
  have l: "z * n \<le> length (o_send p)" "z * n \<le> length (o_recv p)" "z * n < 2 ^ 31"
    using assms by (simp_all add: shape_def mult.commute)
  have "set_buffer_char mem True z r n (o_send p) = Return ?sb" "set_buffer_char mem False z r n (o_recv p) = Return ?rb"
    using set_buffer_char_Return [of mem z n _ r, OF assms(2)] l assms(3,4) by simp_all
  moreover have "?sb ! (i * z + b) = char_pattern r n i" if "i < n" "b < z" for i b
    using block_index [OF that(2,1)] by (simp add: nth_append)
  moreover have "length ?sb = length (o_send p)" "length ?rb = length (o_recv p)" using l by (simp_all add: mult.commute)
  ultimately show ?thesis using assms(1) by (simp add: shape_def sends_pattern_def)
qed

lemma fill_chars_ok:
  assumes "procs_ok n (shape os L R S V) J" "memory_granted E" "validate (j_opts J) \<noteq> 0" "n * n \<le> 2 ^ 31" "n * z < 2 ^ 31"
    and "\<And>r. r < n \<Longrightarrow> n * z \<le> L r \<and> n * z \<le> R r"
  shows "\<exists>J'. fill_chars E (int z) i J = Return J' \<and> procs_ok n (\<lambda>r p. shape os L R S V r p \<and> sends_pattern n z r p) J'
    \<and> j_opts J' = j_opts J \<and> j_out J' = j_out J"
proof -
  have l: "length (j_procs J) = n" using assms(1) by (simp add: procs_ok_def)
  show ?thesis unfolding fill_chars_def if_P [OF assms(3)] Let_def l nat_int
  proof (rule each_ok [OF assms(1)])
    fix r and p :: "('a, byte) oproc"
    assume "r < n" "o_rank p = r" "shape os L R S V r p"
    then show "\<exists>q. bind_prog (set_buffer_char (o_malloc E (o_rank p)) True z (o_rank p) n (o_send p)) (\<lambda>sb.
        bind_prog (set_buffer_char (o_malloc E (o_rank p)) False z (o_rank p) n (o_recv p)) (\<lambda>rb.
          Return (p\<lparr>o_send := sb, o_recv := rb\<rparr>))) = Return q \<and> o_rank q = r \<and> shape os L R S V r q \<and> sends_pattern n z r q"
      using fill_one_ok [of os L R S V r p "o_malloc E r" n z] assms(2,4,5) assms(6) [of r] by (fastforce simp: memory_granted_def)
  qed
qed

lemma add_no_errors: "o_errors p = 0 \<Longrightarrow> add_errors (Return (0, out)) p = Return (p, out)"
  by (cases p) (simp add: add_errors_def int_ok_def)

text \<open>One process finds no error.\<close>

lemma check_one_ok:
  assumes "shape os L R S V r p" "got_pattern n z r p" "mem (z * n)" "r < n" "0 < z" "n * n + n \<le> 2 ^ 31" "n * z + n \<le> 2 ^ 31" "n * z \<le> R r"
  shows "add_errors (validate_alltoall mem (o_recv p) z r n i) p = Return (p, [])"
proof -
  have bad: "\<not> bad_index (o_recv p) z r n k" if "k < n" for k
  proof -
    have "k div z < n" "k mod z < z" using that assms(5) by (auto intro: le_less_trans [OF div_le_dividend])
    then have "o_recv p ! (k div z * z + k mod z) = char_pattern (k div z) n r"
      using assms(2) unfolding got_pattern_def by blast
    then show ?thesis by (simp add: bad_index_def)
  qed
  have none: "{k. k < n \<and> bad_index (o_recv p) z r n k} = {}" using bad by blast
  have "z * n < 2 ^ 31" "z * n \<le> length (o_recv p)" using assms by (simp_all add: shape_def mult.commute)
  then obtain out where "validate_alltoall mem (o_recv p) z r n i
      = Return (int (z * card {k. k < n \<and> bad_index (o_recv p) z r n k}), out)"
    "out = [] \<longleftrightarrow> (\<forall>k<n. \<not> bad_index (o_recv p) z r n k)"
    using validate_alltoall_verdict [of z n r mem "o_recv p" i, OF assms(5) _ assms(4,6,3) _ assms(7)] by blast
  moreover have "o_errors p = 0" using assms(1) by (simp add: shape_def)
  ultimately show ?thesis using bad by (simp add: none add_no_errors)
qed

lemma check_alltoall_ok:
  assumes "procs_ok n (\<lambda>r p. shape os L R S V r p \<and> got_pattern n z r p) J" "memory_granted E" "n * n + n \<le> 2 ^ 31" "n * z + n \<le> 2 ^ 31"
    and "\<And>r. r < n \<Longrightarrow> n * z \<le> R r" "0 < z" "validate (j_opts J) \<noteq> 0"
  shows "\<exists>J'. check_alltoall E (int z) i J = Return J' \<and> procs_ok n (shape os L R S V) J'
    \<and> j_opts J' = j_opts J \<and> j_out J' = j_out J"
proof -
  have l: "length (j_procs J) = n" using assms(1) by (simp add: procs_ok_def)
  show ?thesis unfolding check_alltoall_def if_P [OF assms(7)] l nat_int
  proof (rule each_say_ok [OF assms(1)])
    fix r and p :: "('a, byte) oproc"
    assume "r < n" "o_rank p = r" "shape os L R S V r p \<and> got_pattern n z r p"
    then show "\<exists>q. add_errors (validate_alltoall (o_malloc E (o_rank p)) (o_recv p) z (o_rank p) n i) p = Return (q, [])
        \<and> o_rank q = r \<and> shape os L R S V r q"
      using check_one_ok [of os L R S V r p n z "o_malloc E r" i] assms(2-6) by (simp add: memory_granted_def)
  qed
qed

text \<open>The line of a size, with no errors in the validated runs.\<close>

definition validated_line :: "'d oenv \<Rightarrow> options_t \<Rightarrow> nat \<Rightarrow> 'd \<Rightarrow> 'd \<Rightarrow> 'd \<Rightarrow> string" where
  "validated_line E os z avg mi ma =
     (if validate os \<noteq> 0 then print_stats_validate E (opts_at os z) 0 (int z) avg mi ma 0 else plain_line E os z avg mi ma)"

lemma validate_opts_at [simp]: "validate (opts_at os z) = validate os"
  by (simp add: opts_at_def large_options_def)

lemma validate_limit [simp]: "validate (limit_total n os) = validate os"
  by (simp add: limit_total_def)

lemma timeless_shape' [simp]: "timeless (shape os L R S V)"
  by (simp add: timeless_def shape_def lost_ok_def)

text \<open>One iteration of the validated exchange.\<close>

lemma alltoall_iteration_ok:
  assumes M: "mpi_collectives (o_mpi E)" and "memory_granted E" and J: "procs_ok n (shape os (\<lambda>_. m * n) (\<lambda>_. m * n) S V) J"
    and z: "0 < z" "z \<le> m" "m * n < 2 ^ 30" and n: "0 < n" "validate (j_opts J) \<noteq> 0 \<Longrightarrow> n \<le> 2 ^ 15"
  shows "\<exists>J'. bind_prog (fill_chars E (int z) i J) (\<lambda>J. check_alltoall E (int z) i (taken_in (\<lambda>ps.
        MPI_Alltoall (o_mpi E) (int z) MPI_CHAR (int z) MPI_CHAR (map o_send ps) (map o_recv ps)) J)) = Return J'
      \<and> procs_ok n (shape os (\<lambda>_. m * n) (\<lambda>_. m * n) S V) J' \<and> j_opts J' = j_opts J \<and> j_out J' = j_out J"
proof -
  let ?sh = "shape os (\<lambda>_. m * n) (\<lambda>_. m * n) S V"
    and ?call = "\<lambda>ps. MPI_Alltoall (o_mpi E) (int z) MPI_CHAR (int z) MPI_CHAR (map o_send ps) (map o_recv ps)"
  have nz: "n * z \<le> m * n" using z(2) by (simp add: mult.commute)
  then have nz': "n * z < 2 ^ 30" using z(3) by (rule le_less_trans)
  have sb: "length (map o_send (j_procs K)) = n" "length (map o_recv (j_procs K)) = n"
      "r < n \<Longrightarrow> m * n \<le> length (map o_send (j_procs K) ! r) \<and> m * n \<le> length (map o_recv (j_procs K) ! r)"
    if "procs_ok n ?sh K" for K :: "('a, byte) ojob" and r using that by (simp_all add: procs_ok_def shape_def)
  have call: "map length (?call (j_procs K)) = map length (map o_recv (j_procs K))"
      "procs_ok n ?sh (taken_in ?call K)" "j_opts (taken_in ?call K) = j_opts K" "j_out (taken_in ?call K) = j_out K"
    if K: "procs_ok n ?sh K" for K :: "('a, byte) ojob"
  proof -
    show l: "map length (?call (j_procs K)) = map length (map o_recv (j_procs K))"
      by (rule delivered_lengths [OF mpi_collectives.alltoall_lengths [OF M sb [OF K] z(2)]])
    have "procs_ok n ?sh (taken_in ?call K) \<and> j_opts (taken_in ?call K) = j_opts K \<and> j_out (taken_in ?call K) = j_out K"
      by (rule taken_in_ok [OF K, of ?call, OF l]) (simp add: shape_def)
    then show "procs_ok n ?sh (taken_in ?call K)" "j_opts (taken_in ?call K) = j_opts K" "j_out (taken_in ?call K) = j_out K" by blast+
  qed
  show ?thesis
  proof (cases "validate (j_opts J) = 0")
    case True
    then show ?thesis using call [OF J] by (simp add: fill_chars_def check_alltoall_def)
  next
    case False
    have n2: "n * n \<le> 2 ^ 15 * 2 ^ 15" using n(2) [OF False] by (intro mult_le_mono) simp_all
    obtain J1 where J1: "fill_chars E (int z) i J = Return J1" "procs_ok n (\<lambda>r p. ?sh r p \<and> sends_pattern n z r p) J1"
        "j_opts J1 = j_opts J" "j_out J1 = j_out J"
      using fill_chars_ok [OF J assms(2) False, of z i] n2 nz nz' by auto
    have sh: "procs_ok n ?sh J1" by (rule procs_ok_mono [OF J1(2)]) simp
    note c = call [OF sh]
    have "procs_ok n (\<lambda>r p. ?sh r p \<and> got_pattern n z r p) (taken_in ?call J1)"
    proof -
      have snd: "map o_send (j_procs J1) ! r ! (i * z + b) = char_pattern r n i" if "r < n" "i < n" "b < z" for r i b
        using J1(2) that by (simp add: procs_ok_def sends_pattern_def)
      have pat: "?call (j_procs J1) ! r ! (i * z + b) = char_pattern i n r" if "r < n" "i < n" "b < z" for r i b
        by (rule mpi_collectives.alltoall_pattern [OF M sb [OF sh] z(2) snd that])
      have "length (?call (j_procs J1)) = n" using map_length_eqD(1) [OF c(1)] sb(2) [OF sh] by simp
      then show ?thesis using c(2) pat J1(2) by (simp add: procs_ok_def got_pattern_def taken_in_def)
    qed
    then have "\<exists>J'. check_alltoall E (int z) i (taken_in ?call J1) = Return J' \<and> procs_ok n ?sh J'
        \<and> j_opts J' = j_opts (taken_in ?call J1) \<and> j_out J' = j_out (taken_in ?call J1)"
      using False c(3) J1(3) n2 nz nz' z(1) n(2) [OF False] by (intro check_alltoall_ok [OF _ assms(2)]) simp_all
    then show ?thesis using J1 c(3,4) by auto
  qed
qed

lemma osu_alltoall_completes:
  assumes "good_job E n argv os" "first_size os \<noteq> 0" "validate os \<noteq> 0 \<Longrightarrow> n \<le> 2 ^ 15"
  shows "completed E ''All-to-All Personalized Exchange Latency Test'' n (limit_total n os)
    (doubled_sizes (unat (max_message_size (limit_total n os))) (nat (first_size os)))
    (validated_line E (limit_total n os)) (osu_alltoall E n argv)"
proof -
  note g = good_jobD [OF assms(1)]
  let ?t = "''All-to-All Personalized Exchange Latency Test''" and ?os = "limit_total n os"
  let ?m = "unat (max_message_size ?os)"
  let ?pr = "shape ?os (\<lambda>_. ?m * n) (\<lambda>_. ?m * n) no_rank no_rank"
    and ?call = "\<lambda>z. taken_in (\<lambda>ps. MPI_Alltoall (o_mpi E) z MPI_CHAR z MPI_CHAR (map o_send ps) (map o_recv ps))"
  have fit: "sizes_ok n ?os" "?m * n < 2 ^ 30" using assms(1) limit_total_fits by (auto simp: good_job_def)
  have n: "0 < n" "loops_ok ?os" "first_size ?os \<noteq> 0" and cond: "counts_to (within_chars ?os) ?m"
    using fit(1) assms(2) counts_to_chars by (simp_all add: sizes_ok_def)
  let ?alloc = "[new_send E everyone char_buffer (max_message_size ?os * of_nat n) 1,
    new_recv E everyone char_buffer (max_message_size ?os * of_nat n) 0]"
  let ?body = "coll_size E no_prepare (fill_chars E) ?call (check_alltoall E) (print_validated E)"
  let ?pre = "[(0, print_preamble E ?t ?os 0)]"
  have step: "\<exists>J'. ?body (int z) J = Return J' \<and> coll_state n ?pr ?os (validated_line E ?os) ?pre (2 * z) (rows @ [z]) J'"
    if z: "0 < z" "z \<le> ?m" and st: "coll_state n ?pr ?os (validated_line E ?os) ?pre z rows J" for z rows J
  proof (rule coll_size_ok [where prz = ?pr, OF st n(1,2) timeless_shape'])
    fix i and J :: "('a, byte) ojob" assume "procs_ok n ?pr J" "j_opts J = opts_at ?os z"
    then show "\<exists>J'. bind_prog (fill_chars E (int z) (int i) J) (\<lambda>J. check_alltoall E (int z) (int i) (?call (int z) J)) = Return J'
        \<and> procs_ok n ?pr J' \<and> j_opts J' = j_opts J \<and> j_out J' = j_out J"
      using assms(3) by (intro alltoall_iteration_ok [OF g(1,2) _ z fit(2) n(1)]) simp_all
  qed (auto simp: no_prepare_def print_validated_def validated_line_def plain_line_def print_stats_def print_stats_validate_def shape_def)
  show ?thesis unfolding osu_alltoall_def g(5) Let_def
  proof (rule coll_completes [where pr = ?pr, OF _ n(1,3) cond step, unfolded first_size_limit])
    show "\<exists>J. fold_prog (\<lambda>f. f) ?alloc (start_job E ?os n) = Return J \<and> procs_ok n ?pr J \<and> j_opts J = ?os \<and> j_out J = []"
      using g(2,8) by (simp add: setup_simps)
    fix J :: "('a, byte) ojob" assume "procs_ok n ?pr J" "target (j_opts J) = target ?os"
    then show "length (j_procs (fold (\<lambda>f. f) [free_on everyone clear_send, free_on everyone clear_recv] J)) = n
        \<and> (\<forall>p\<in>set (j_procs (fold (\<lambda>f. f) [free_on everyone clear_send, free_on everyone clear_recv] J)). freed ?os p)
        \<and> j_out (fold (\<lambda>f. f) [free_on everyone clear_send, free_on everyone clear_recv] J) = j_out J"
      by (rule cleanup_ok [where fs = "[(everyone, clear_send), (everyone, clear_recv)]"]) (auto simp: cleanup_defs split: if_splits)
  qed
qed

end
