(* ===== verification/Osu_Reduce.thy ===== *)
theory Osu_Reduce
  imports Osu_Coll "HOL-Library.Signed_Division"
begin

text \<open>
  The blocking OSU benchmarks of the reductions, whose buffers hold \<^verbatim>\<open>float\<close>s: \<^verbatim>\<open>osu_allreduce.c\<close>,
  \<^verbatim>\<open>osu_reduce.c\<close> and \<^verbatim>\<open>osu_reduce_scatter.c\<close>. The size counts elements; the validation is given it as a number
  of bytes.
\<close>

type_synonym 'd reduce_main = "'d oenv \<Rightarrow> nat \<Rightarrow> string list \<Rightarrow> (int \<times> ('d, dbl) ojob) prog option"

definition float_sizes :: "options_t \<Rightarrow> options_t" where
  "float_sizes os =
     (let m = min_message_size os div 4 in os\<lparr>min_message_size := if m < MIN_MESSAGE_SIZE then MIN_MESSAGE_SIZE else m\<rparr>)"

definition whole_floats :: "u64 \<Rightarrow> u64" where
  "whole_floats siz = 4 * (siz div 4)"

definition fill_floats ::
    "'d oenv \<Rightarrow> (nat \<Rightarrow> bool) \<Rightarrow> int \<Rightarrow> int \<Rightarrow> ('d, dbl) ojob \<Rightarrow> ('d, dbl) ojob prog" where
  "fill_floats E receives siz i J =
     (if validate (j_opts J) \<noteq> 0 then
        each (\<lambda>p. let mem = o_malloc E (o_rank p); w = o_fresh E (o_rank p) (o_allocs p); k = nat siz div 4 in
          bind_prog (set_buffer_float mem True (nat siz) i (float_of_bits (w k)) (o_send p)) (\<lambda>sb.
          bind_prog (if receives (o_rank p) then set_buffer_float mem False (nat siz) i (float_of_bits (w (Suc k))) (o_recv p)
                     else Return (o_recv p)) (\<lambda>rb.
            Return (p\<lparr>o_send := sb, o_recv := rb\<rparr>)))) J
      else Return J)"

definition check_reduction ::
    "'d oenv \<Rightarrow> (nat \<Rightarrow> bool) \<Rightarrow> int \<Rightarrow> int \<Rightarrow> ('d, dbl) ojob \<Rightarrow> ('d, dbl) ojob prog" where
  "check_reduction E receives siz i J =
     (if validate (j_opts J) \<noteq> 0 then
        each_say (\<lambda>p. if receives (o_rank p)
          then add_errors (validate_reduction (o_malloc E (o_rank p)) (o_show_float E) (o_recv p) (nat siz) i
            (length (j_procs J))) p
          else Return (p, [])) J
      else Return J)"

definition byte_size :: "int \<Rightarrow> int" where
  "byte_size siz = sint (word_of_int (siz * 4) :: u32)"

definition print_floats :: "'d oenv \<Rightarrow> int \<Rightarrow> options_t \<Rightarrow> ('d, 'e) oproc \<Rightarrow> 'd \<Rightarrow> 'd \<Rightarrow> 'd \<Rightarrow> string" where
  "print_floats E siz = print_bytes E (byte_size siz)"

definition print_floats_validated :: "'d oenv \<Rightarrow> int \<Rightarrow> options_t \<Rightarrow> ('d, 'e) oproc \<Rightarrow> 'd \<Rightarrow> 'd \<Rightarrow> 'd \<Rightarrow> string" where
  "print_floats_validated E siz = print_validated E (byte_size siz)"

definition osu_allreduce :: "'d reduce_main" where
  "osu_allreduce E n argv = coll_start E n argv ''Allreduce Latency Test'' ''osu_allreduce'' (\<lambda>os.
     let os = float_sizes (limit_one n os); bufsize = whole_floats (max_message_size os) in
     coll_run E ''Allreduce Latency Test'' n os
       [new_send E everyone float_buffer bufsize 1, new_recv E everyone float_buffer bufsize 0]
       (within_floats os)
       (coll_size E no_prepare (fill_floats E everyone)
         (\<lambda>siz. taken_in (\<lambda>ps. Allreduce_float (o_floats E) siz (map o_send ps) (map o_recv ps)))
         (check_reduction E everyone) (print_floats_validated E))
       [free_on everyone clear_send, free_on everyone clear_recv])"

definition osu_reduce :: "'d reduce_main" where
  "osu_reduce E n argv = coll_start E n argv ''Reduce Latency Test'' ''osu_reduce'' (\<lambda>os.
     let os = float_sizes (limit_one n os); bufsize = whole_floats (max_message_size os) in
     coll_run E ''Reduce Latency Test'' n os
       [new_recv E everyone float_buffer bufsize 1, new_send E everyone float_buffer bufsize 0]
       (within_floats os)
       (coll_size E no_prepare (fill_floats E root)
         (\<lambda>siz. taken_in (\<lambda>ps. Reduce_float (o_floats E) siz 0 (map o_send ps) (map o_recv ps)))
         (check_reduction E root) (print_floats_validated E))
       [free_on everyone clear_recv, free_on everyone clear_send])"

text \<open>The elements are dealt out evenly, the first processes have one more of a remainder.\<close>

definition portions :: "int \<Rightarrow> nat \<Rightarrow> int list" where
  "portions siz n =
     (let portion = siz sdiv int n; remainder = siz smod int n in
      map (\<lambda>i. if siz < int n then (if int i < siz then 1 else 0)
               else (if remainder \<noteq> 0 \<and> int i < remainder then 1 else 0) + portion) [0..<n])"

definition osu_reduce_scatter :: "'d reduce_main" where
  "osu_reduce_scatter E n argv = coll_start E n argv ''Reduce_scatter Latency Test'' ''osu_reduce_scatter'' (\<lambda>os.
     let os = float_sizes (limit_one n os) in
     coll_run E ''Reduce_scatter Latency Test'' n os
       [new_ints E everyone (\<lambda>a p. p\<lparr>o_rcounts := a\<rparr>),
        new_send E everyone float_buffer (whole_floats (max_message_size os)) 1,
        new_recv E everyone float_buffer (4 * (max_message_size os div of_nat n div 4 + 1)) 0]
       (within_floats os)
       (coll_size E (\<lambda>siz. each (\<lambda>p. Return (p\<lparr>o_rcounts := portions siz n\<rparr>))) no_check
         (\<lambda>siz. taken_in (\<lambda>ps. Reduce_scatter_float (o_floats E) (o_rcounts (hd ps)) (map o_send ps) (map o_recv ps)))
         no_check (print_floats E))
       [free_on everyone clear_rcounts, free_on everyone clear_send, free_on everyone clear_recv])"

end
