(* ===== verification/Osu_Reduce_Correct.thy ===== *)
theory Osu_Reduce_Correct
  imports Osu_Coll_Correct Osu_Reduce
begin

text \<open>
  The benchmarks of the reductions are correct: they run to their end, stay within their buffers, and the
  validation finds no errors as long as all sums are exact, which is a bound on the number of processes, the
  largest size and the number of iterations.
\<close>

subsection \<open>Filling and checking\<close>

definition share :: "nat \<Rightarrow> nat \<Rightarrow> dbl" where
  "share it i = Fin (of_nat ((i + 1) * (it + 1)))"

definition sends_floats :: "nat \<Rightarrow> nat \<Rightarrow> ('d, dbl) oproc \<Rightarrow> bool" where
  "sends_floats z it p \<longleftrightarrow> (\<forall>i < z div 4. o_send p ! i = share it i)"

definition got_sums :: "nat \<Rightarrow> nat \<Rightarrow> nat \<Rightarrow> ('d, dbl) oproc \<Rightarrow> bool" where
  "got_sums n z it p \<longleftrightarrow> (\<forall>i < z div 4. float_sums (replicate_mset n (share it i)) (o_recv p ! i))"

lemma set_buffer_float_Return:
  assumes "mem z" "z \<le> length buf" "(z div 4) * (it + 1) < 2 ^ 24"
  shows "\<exists>buf'. set_buffer_float mem s z (int it) junk buf = Return buf' \<and> length buf' = length buf
    \<and> (s \<longrightarrow> (\<forall>i < z div 4. buf' ! i = share it i))"
proof -
  have "float_pattern (int it) i = Return (share it i)" if "i < z div 4" for i
  proof -
    have "(i + 1) * (it + 1) \<le> z div 4 * (it + 1)" using that by (intro mult_le_mono1) simp
    then show ?thesis using float_pattern_exact assms(3) unfolding share_def by (meson le_less_trans)
  qed
  then have t: "traverse_prog (float_pattern (int it)) [0..<z div 4] = Return (map (share it) [0..<z div 4])"
    unfolding traverse_prog_Return_iff by (simp add: list_all2_conv_all_nth)
  have "z div 4 < length buf" if "z mod 4 \<noteq> 0"
    
  proof -
    have "z div 4 < z" using that by (cases z) simp_all
    then show ?thesis using assms(2) by (rule less_le_trans)
  qed
  then show ?thesis using assms(1,2) by (auto simp: set_buffer_float_def Let_def t nth_append le_diff_conv)
qed

lemma fill_floats_ok:
  assumes "procs_ok n (shape os L R S V) J" "memory_granted E" "validate (j_opts J) \<noteq> 0" "(z div 4) * (it + 1) < 2 ^ 24"
    and "\<And>r. r < n \<Longrightarrow> z \<le> L r \<and> z \<le> R r"
  shows "\<exists>J'. fill_floats E receives (int z) (int it) J = Return J'
    \<and> procs_ok n (\<lambda>r p. shape os L R S V r p \<and> sends_floats z it p) J' \<and> j_opts J' = j_opts J \<and> j_out J' = j_out J"
  unfolding fill_floats_def if_P [OF assms(3)] Let_def nat_int
proof (rule each_ok [OF assms(1)])
  fix r and p :: "('a, dbl) oproc"
  assume p: "r < n" "o_rank p = r" "shape os L R S V r p"
  let ?mem = "o_malloc E (o_rank p)" and ?w = "o_fresh E (o_rank p) (o_allocs p)"
  have l: "z \<le> length (o_send p)" "z \<le> length (o_recv p)" "?mem z" using p assms(2) assms(5) [OF p(1)] by (simp_all add: shape_def memory_granted_def)
  obtain sb where sb: "set_buffer_float ?mem True z (int it) (float_of_bits (?w (z div 4))) (o_send p) = Return sb"
      "length sb = length (o_send p)" "\<forall>i < z div 4. sb ! i = share it i"
    using set_buffer_float_Return [where mem = ?mem and s = True, OF l(3,1) assms(4)] by blast
  obtain rb where rb: "set_buffer_float ?mem False z (int it) (float_of_bits (?w (Suc (z div 4)))) (o_recv p) = Return rb"
      "length rb = length (o_recv p)"
    using set_buffer_float_Return [where mem = ?mem and s = False, OF l(3,2) assms(4)] by blast
  show "\<exists>q. bind_prog (set_buffer_float ?mem True z (int it) (float_of_bits (?w (z div 4))) (o_send p)) (\<lambda>sb.
      bind_prog (if receives (o_rank p) then set_buffer_float ?mem False z (int it) (float_of_bits (?w (Suc (z div 4)))) (o_recv p)
                 else Return (o_recv p)) (\<lambda>rb. Return (p\<lparr>o_send := sb, o_recv := rb\<rparr>))) = Return q
    \<and> o_rank q = r \<and> shape os L R S V r q \<and> sends_floats z it q"
    using sb rb p by (cases "receives (o_rank p)") (simp_all add: shape_def sends_floats_def)
qed

lemma check_reduction_ok:
  assumes "procs_ok n (\<lambda>r p. shape os L R S V r p \<and> (receives r \<longrightarrow> got_sums n z it p)) J" "memory_granted E"
    and "validate (j_opts J) \<noteq> 0" "n * ((z div 4) * (it + 1)) < 2 ^ 24" "z < 2 ^ 31" "0 < n" "\<And>r. r < n \<Longrightarrow> z \<le> R r"
  shows "\<exists>J'. check_reduction E receives (int z) (int it) J = Return J' \<and> procs_ok n (shape os L R S V) J'
    \<and> j_opts J' = j_opts J \<and> j_out J' = j_out J"
proof -
  have l: "length (j_procs J) = n" using assms(1) by (simp add: procs_ok_def)
  show ?thesis unfolding check_reduction_def if_P [OF assms(3)] l nat_int
  proof (rule each_say_ok [OF assms(1)])
    fix r and p :: "('a, dbl) oproc"
    assume p: "r < n" "o_rank p = r" "shape os L R S V r p \<and> (receives r \<longrightarrow> got_sums n z it p)"
    have e: "o_errors p = 0" "z \<le> length (o_recv p)" "o_malloc E r z" using p assms(2) assms(7) [OF p(1)] by (simp_all add: shape_def memory_granted_def)
    have "validate_reduction (o_malloc E r) (o_show_float E) (o_recv p) z (int it) n = Return (0, [])" if "receives r"
      using p(3) that e by (intro validate_reduction_accepts assms(4,5,6)) (simp_all add: got_sums_def share_def)
    then show "\<exists>q. (if receives (o_rank p) then add_errors (validate_reduction (o_malloc E (o_rank p)) (o_show_float E) (o_recv p) z (int it) n) p
        else Return (p, [])) = Return (q, []) \<and> o_rank q = r \<and> shape os L R S V r q"
      using p e(1) by (cases "receives r") (simp_all add: add_no_errors)
  qed
qed

subsection \<open>An iteration\<close>

text \<open>The calls of a reduction that leave the sums in the processes that check them.\<close>

definition sums_up :: "nat \<Rightarrow> (nat \<Rightarrow> bool) \<Rightarrow> nat \<Rightarrow> (('d, dbl) oproc list \<Rightarrow> dbl list list) \<Rightarrow> bool" where
  "sums_up n receives z f \<longleftrightarrow> (\<forall>ps. length ps = n \<longrightarrow> (\<forall>p\<in>set ps. z \<le> length (o_send p) \<and> z \<le> length (o_recv p))
     \<longrightarrow> map length (f ps) = map length (map o_recv ps)
       \<and> (\<forall>r<n. receives r \<longrightarrow> (\<forall>i<z. float_sums (mset (map (\<lambda>p. o_send p ! i) ps)) (f ps ! r ! i))))"

lemma allreduce_sums:
  assumes "mpi_reductions F" "0 < n"
  shows "sums_up n everyone z (\<lambda>ps. Allreduce_float F (int z) (map o_send ps) (map o_recv ps))"
  unfolding sums_up_def
proof (intro allI impI)
  fix ps :: "('a, dbl) oproc list" assume ps: "length ps = n" "\<forall>p\<in>set ps. z \<le> length (o_send p) \<and> z \<le> length (o_recv p)"
  have "list_all2 (reduced_to (nat (int z)) 0 (map o_send ps)) (map o_recv ps) (Allreduce_float F (int z) (map o_send ps) (map o_recv ps))"
    using ps assms(2) by (intro mpi_reductions.allreduce [OF assms(1)]) auto
  then show "map length (Allreduce_float F (int z) (map o_send ps) (map o_recv ps)) = map length (map o_recv ps)
      \<and> (\<forall>r<n. everyone r \<longrightarrow> (\<forall>i<z. float_sums (mset (map (\<lambda>p. o_send p ! i) ps))
          (Allreduce_float F (int z) (map o_send ps) (map o_recv ps) ! r ! i)))"
    using ps(1) by (auto simp: list_all2_conv_all_nth reduced_to_def comp_def intro: nth_equalityI)
qed

lemma reduce_sums:
  assumes "mpi_reductions F" "0 < n"
  shows "sums_up n root z (\<lambda>ps. Reduce_float F (int z) 0 (map o_send ps) (map o_recv ps))"
  unfolding sums_up_def
proof (intro allI impI)
  fix ps :: "('a, dbl) oproc list" assume ps: "length ps = n" "\<forall>p\<in>set ps. z \<le> length (o_send p) \<and> z \<le> length (o_recv p)"
  let ?rb = "map o_recv ps"
  obtain b where b: "reduced_to (nat (int z)) 0 (map o_send ps) (?rb ! 0) b"
      "Reduce_float F (int z) 0 (map o_send ps) ?rb = ?rb[0 := b]"
    using mpi_reductions.reduce [OF assms(1), of "int z" "map o_send ps" ?rb 0] ps assms(2) by auto
  moreover have "map length (?rb[0 := b]) = map length ?rb"
  proof (rule nth_equalityI)
    fix i assume "i < length (map length (?rb[0 := b]))"
    then show "map length (?rb[0 := b]) ! i = map length ?rb ! i" using b(1) by (cases i) (simp_all add: reduced_to_def)
  qed simp
  ultimately show "map length (Reduce_float F (int z) 0 (map o_send ps) ?rb) = map length ?rb
      \<and> (\<forall>r<n. root r \<longrightarrow> (\<forall>i<z. float_sums (mset (map (\<lambda>p. o_send p ! i) ps)) (Reduce_float F (int z) 0 (map o_send ps) ?rb ! r ! i)))"
    using ps(1) assms(2) by (simp add: reduced_to_def root_def comp_def)
qed

lemma reduction_iteration_ok:
  assumes f: "sums_up n receives z f" and "memory_granted E" and J: "procs_ok n (shape os (\<lambda>_. k) (\<lambda>_. k) S V) J"
    and z: "z \<le> k" "z < 2 ^ 31" and n: "0 < n" "validate (j_opts J) \<noteq> 0 \<Longrightarrow> n * ((z div 4) * (it + 1)) < 2 ^ 24"
  shows "\<exists>J'. bind_prog (fill_floats E receives (int z) (int it) J) (\<lambda>J. check_reduction E receives (int z) (int it) (taken_in f J)) = Return J'
      \<and> procs_ok n (shape os (\<lambda>_. k) (\<lambda>_. k) S V) J' \<and> j_opts J' = j_opts J \<and> j_out J' = j_out J"
proof -
  let ?sh = "shape os (\<lambda>_. k) (\<lambda>_. k) S V"
  have lens: "length (j_procs K) = n" "\<forall>p\<in>set (j_procs K). z \<le> length (o_send p) \<and> z \<le> length (o_recv p)"
    if "procs_ok n ?sh K" for K :: "('a, dbl) ojob" using that z(1) by (auto simp: procs_ok_def shape_def in_set_conv_nth)
  have call: "procs_ok n ?sh (taken_in f K) \<and> j_opts (taken_in f K) = j_opts K \<and> j_out (taken_in f K) = j_out K"
    if K: "procs_ok n ?sh K" for K :: "('a, dbl) ojob"
    using f lens [OF K] by (intro taken_in_ok [OF K]) (simp_all add: sums_up_def shape_def)
  show ?thesis
  proof (cases "validate (j_opts J) = 0")
    case True
    then show ?thesis using call [OF J] by (simp add: fill_floats_def check_reduction_def)
  next
    case False
    note exact = n(2) [OF False]
    have "1 * ((z div 4) * (it + 1)) \<le> n * ((z div 4) * (it + 1))" using n(1) by (intro mult_le_mono1) simp
    from le_less_trans [OF this exact] have "(z div 4) * (it + 1) < 2 ^ 24" by (simp only: mult_1)
    then obtain J1 where J1: "fill_floats E receives (int z) (int it) J = Return J1" "procs_ok n (\<lambda>r p. ?sh r p \<and> sends_floats z it p) J1"
        "j_opts J1 = j_opts J" "j_out J1 = j_out J"
      using fill_floats_ok [OF J assms(2) False, of z it receives] z(1) by auto
    have sh: "procs_ok n ?sh J1" by (rule procs_ok_mono [OF J1(2)]) simp
    note c = call [OF sh]
    have "procs_ok n (\<lambda>r p. ?sh r p \<and> (receives r \<longrightarrow> got_sums n z it p)) (taken_in f J1)"
    proof -
      have sent: "mset (map (\<lambda>p. o_send p ! i) (j_procs J1)) = replicate_mset n (share it i)" if "i < z div 4" for i
      proof -
        have "map (\<lambda>p. o_send p ! i) (j_procs J1) = replicate n (share it i)"
          using J1(2) that by (intro nth_equalityI) (simp_all add: procs_ok_def sends_floats_def)
        then show ?thesis by simp
      qed
      have "map length (f (j_procs J1)) = map length (map o_recv (j_procs J1))"
        and sums: "\<And>r i. r < n \<Longrightarrow> receives r \<Longrightarrow> i < z \<Longrightarrow> float_sums (mset (map (\<lambda>p. o_send p ! i) (j_procs J1))) (f (j_procs J1) ! r ! i)"
        using f lens [OF sh] by (auto simp: sums_up_def)
      then have "length (f (j_procs J1)) = n" using lens(1) [OF sh] map_length_eqD(1) by fastforce
      moreover have "float_sums (replicate_mset n (share it i)) (f (j_procs J1) ! r ! i)" if "r < n" "receives r" "i < z div 4" for r i
        using sums [OF that(1,2), of i] sent [OF that(3)] that(3) by (metis div_le_dividend less_le_trans)
      ultimately show ?thesis using c lens(1) [OF sh] by (simp add: procs_ok_def got_sums_def taken_in_def)
    qed
    then have "\<exists>J'. check_reduction E receives (int z) (int it) (taken_in f J1) = Return J' \<and> procs_ok n ?sh J'
        \<and> j_opts J' = j_opts (taken_in f J1) \<and> j_out J' = j_out (taken_in f J1)"
      using False c J1(3) exact z n(1) by (intro check_reduction_ok [OF _ assms(2)]) simp_all
    then show ?thesis using J1 c by auto
  qed
qed

subsection \<open>The programs\<close>

lemma float_sizes_fields [simp]:
  "target (float_sizes os) = target os" "validate (float_sizes os) = validate os"
  "max_message_size (float_sizes os) = max_message_size os" "loops_ok (float_sizes os) = loops_ok os"
  by (simp_all add: float_sizes_def Let_def loops_ok_def)

lemma validate_limit_one [simp]: "validate (limit_one n os) = validate os"
  by (simp add: limit_one_def)

lemma first_size_floats: "unat (min_message_size os) < 2 ^ 31 \<Longrightarrow> 0 < first_size (float_sizes os)"
proof -
  assume "unat (min_message_size os) < 2 ^ 31"
  then have "unat (min_message_size (float_sizes os)) < 2 ^ 31 \<and> 0 < unat (min_message_size (float_sizes os))"
    by (auto simp: float_sizes_def Let_def MIN_MESSAGE_SIZE_def unat_div word_less_nat_alt)
  then show ?thesis by (metis first_size_small of_nat_0_less_iff)
qed

lemma whole_floats_length:
  assumes "unat m < 2 ^ 30" shows "unat (whole_floats m) div 4 = unat m div 4"
proof -
  have "unat (4 * (m div 4)) = 4 * (unat m div 4)"
    using assms div_times_less_eq_dividend [of "unat m" 4] by (simp add: unat_word_ariths unat_div)
  then show ?thesis by (simp add: whole_floats_def)
qed

lemma byte_size_small: "z < 2 ^ 28 \<Longrightarrow> byte_size (int z) = int (4 * z)"
  using sint_of_nat_small [of "4 * z", where 'a = 32] by (simp add: byte_size_def mult.commute)

text \<open>The sums of all iterations of all sizes are exact.\<close>

definition sums_exact :: "nat \<Rightarrow> options_t \<Rightarrow> bool" where
  "sums_exact n os \<longleftrightarrow> (\<forall>z \<le> unat (max_message_size os) div 4.
     n * ((z div 4) * unat (iterations (opts_at os z) + skip (opts_at os z))) < 2 ^ 24)"

definition floats_line :: "'d oenv \<Rightarrow> options_t \<Rightarrow> nat \<Rightarrow> 'd \<Rightarrow> 'd \<Rightarrow> 'd \<Rightarrow> string" where
  "floats_line E os z avg mi ma =
     (if validate os \<noteq> 0 then print_stats_validate E (opts_at os z) 0 (int (4 * z)) avg mi ma 0
      else print_stats E (opts_at os z) 0 (int (4 * z)) avg mi ma)"

definition floats_completed :: "'d oenv \<Rightarrow> string \<Rightarrow> nat \<Rightarrow> options_t \<Rightarrow> (int \<times> ('d, dbl) ojob) prog option \<Rightarrow> bool" where
  "floats_completed E title n os = completed E title n os
     (doubled_sizes (unat (max_message_size os) div 4) (nat (first_size os))) (floats_line E os)"

lemma reduction_completes:
  assumes ok: "sizes_ok n os" "first_size os \<noteq> 0" "validate os \<noteq> 0 \<Longrightarrow> sums_exact n os" "memory_granted E"
    and m: "m = unat (max_message_size os) div 4"
    and start: "\<exists>J. fold_prog (\<lambda>f. f) alloc (start_job E os n) = Return J
      \<and> procs_ok n (shape os (\<lambda>_. m) (\<lambda>_. m) no_rank no_rank) J \<and> j_opts J = os \<and> j_out J = []"
    and sums: "\<And>z. sums_up n receives z (f (int z))"
    and clear: "cleanup = map (\<lambda>f. free_on (fst f) (snd f)) fs" "fs = [(everyone, clear_send), (everyone, clear_recv)] \<or> fs = [(everyone, clear_recv), (everyone, clear_send)]"
  shows "floats_completed E title n os (coll_run E title n os alloc (within_floats os)
    (coll_size E no_prepare (fill_floats E receives) (\<lambda>siz. taken_in (f siz)) (check_reduction E receives) (print_floats_validated E)) cleanup)"
proof -
  let ?pr = "shape os (\<lambda>_. m) (\<lambda>_. m) no_rank no_rank"
    and ?body = "coll_size E no_prepare (fill_floats E receives) (\<lambda>siz. taken_in (f siz)) (check_reduction E receives) (print_floats_validated E)"
  have n: "0 < n" "loops_ok os" and cond: "counts_to (within_floats os) m"
    using ok(1) counts_to_floats [of os] by (simp_all add: sizes_ok_def m)
  have small: "m < 2 ^ 28" unfolding m by (rule less_mult_imp_div_less) (use ok(1) in \<open>simp add: sizes_ok_def\<close>)
  have step: "\<exists>J'. ?body (int z) J = Return J' \<and> coll_state n ?pr os (floats_line E os) [(0, print_preamble E title os 0)] (2 * z) (rows @ [z]) J'"
    if z: "0 < z" "z \<le> m" and st: "coll_state n ?pr os (floats_line E os) [(0, print_preamble E title os 0)] z rows J" for z rows J
  proof (rule coll_size_ok [where prz = ?pr, OF st n timeless_shape'])
    fix i and J :: "('a, dbl) ojob"
    assume i: "i < unat (iterations (opts_at os z) + skip (opts_at os z))" and J: "procs_ok n ?pr J" "j_opts J = opts_at os z"
    have "n * ((z div 4) * (i + 1)) < 2 ^ 24" if "validate (j_opts J) \<noteq> 0"
    proof -
      have "n * ((z div 4) * (i + 1)) \<le> n * ((z div 4) * unat (iterations (opts_at os z) + skip (opts_at os z)))"
        using i by (intro mult_le_mono2) simp
      moreover have "sums_exact n os" using ok(3) that J(2) by simp
      ultimately show ?thesis using z(2) unfolding sums_exact_def m by (meson le_less_trans)
    qed
    then show "\<exists>J'. bind_prog (fill_floats E receives (int z) (int i) J) (\<lambda>J. check_reduction E receives (int z) (int i) (taken_in (f (int z)) J)) = Return J'
        \<and> procs_ok n ?pr J' \<and> j_opts J' = j_opts J \<and> j_out J' = j_out J"
      using z small by (intro reduction_iteration_ok [OF sums ok(4) J(1) z(2) _ n(1)]) simp_all
  next
    have "byte_size (int z) = int (4 * z)" using z small by (intro byte_size_small) simp
    then show "print_floats_validated E (int z) (opts_at os z) p a mi ma = floats_line E os z a mi ma \<and> floats_line E os z a mi ma \<noteq> []"
      if "o_rank p = 0" "?pr 0 p" for p a mi ma
      using that by (simp add: print_floats_validated_def print_validated_def floats_line_def shape_def print_stats_def print_stats_validate_def)
  qed (auto simp: no_prepare_def print_floats_validated_def print_validated_def print_stats_def print_stats_validate_def)
  show ?thesis unfolding floats_completed_def m [symmetric]
  proof (rule coll_completes [OF start n(1) ok(2) cond step])
    fix J :: "('a, dbl) ojob" assume J: "procs_ok n ?pr J" "target (j_opts J) = target os"
    show "length (j_procs (fold (\<lambda>f. f) cleanup J)) = n \<and> (\<forall>p\<in>set (j_procs (fold (\<lambda>f. f) cleanup J)). freed os p)
        \<and> j_out (fold (\<lambda>f. f) cleanup J) = j_out J"
      by (rule cleanup_ok [OF J clear(1)]) (use clear(2) in \<open>auto simp: cleanup_defs split: if_splits\<close>)
  qed
qed

text \<open>A job for the reductions; the size in bytes is not below that of an element.\<close>

definition good_floats_job :: "'d oenv \<Rightarrow> nat \<Rightarrow> string list \<Rightarrow> options_t \<Rightarrow> bool" where
  "good_floats_job E n argv os \<longleftrightarrow> good_job E n argv os \<and> mpi_reductions (o_floats E) \<and> unat (min_message_size os) < 2 ^ 31
     \<and> (validate os \<noteq> 0 \<longrightarrow> sums_exact n (float_sizes (limit_one n os)))"

lemma good_floats_jobD:
  assumes "good_floats_job E n argv os"
  shows "good_job E n argv os" "mpi_reductions (o_floats E)" "sizes_ok n (float_sizes (limit_one n os))"
    "first_size (float_sizes (limit_one n os)) \<noteq> 0"
    "validate (float_sizes (limit_one n os)) \<noteq> 0 \<Longrightarrow> sums_exact n (float_sizes (limit_one n os))"
    "unat (max_message_size (limit_one n os)) < 2 ^ 30"
proof -
  have g: "good_job E n argv os" "unat (min_message_size (limit_one n os)) < 2 ^ 31" using assms by (simp_all add: good_floats_job_def limit_one_def)
  then show "good_job E n argv os" "mpi_reductions (o_floats E)" using assms by (simp_all add: good_floats_job_def)
  show "sizes_ok n (float_sizes (limit_one n os))" "unat (max_message_size (limit_one n os)) < 2 ^ 30"
    using good_jobD(7) [OF g(1)] by (simp_all add: sizes_ok_def)
  show "first_size (float_sizes (limit_one n os)) \<noteq> 0" using first_size_floats [OF g(2)] by simp
  show "validate (float_sizes (limit_one n os)) \<noteq> 0 \<Longrightarrow> sums_exact n (float_sizes (limit_one n os))"
    using assms by (simp add: good_floats_job_def)
qed

lemma osu_allreduce_completes:
  assumes "good_floats_job E n argv os"
  shows "floats_completed E ''Allreduce Latency Test'' n (float_sizes (limit_one n os)) (osu_allreduce E n argv)"
proof -
  note f = good_floats_jobD [OF assms]
  note g = good_jobD [OF f(1)]
  show ?thesis unfolding osu_allreduce_def g(5) Let_def
  proof (rule reduction_completes [OF f(3,4,5) g(2) refl _ _ _ _, where fs = "[(everyone, clear_send), (everyone, clear_recv)]"])
    show "sums_up n everyone z (\<lambda>ps. Allreduce_float (o_floats E) (int z) (map o_send ps) (map o_recv ps))" for z
      by (rule allreduce_sums [OF f(2) g(4)])
  qed (use g(2) f(6) in \<open>auto simp: setup_simps whole_floats_length\<close>)
qed

lemma osu_reduce_completes:
  assumes "good_floats_job E n argv os"
  shows "floats_completed E ''Reduce Latency Test'' n (float_sizes (limit_one n os)) (osu_reduce E n argv)"
proof -
  note f = good_floats_jobD [OF assms]
  note g = good_jobD [OF f(1)]
  show ?thesis unfolding osu_reduce_def g(5) Let_def
  proof (rule reduction_completes [OF f(3,4,5) g(2) refl _ _ _ _, where fs = "[(everyone, clear_recv), (everyone, clear_send)]"])
    show "sums_up n root z (\<lambda>ps. Reduce_float (o_floats E) (int z) 0 (map o_send ps) (map o_recv ps))" for z
      by (rule reduce_sums [OF f(2) g(4)])
  qed (use g(2) f(6) in \<open>auto simp: setup_simps whole_floats_length\<close>)
qed

subsection \<open>The portions of a scattered reduction\<close>

definition portion :: "nat \<Rightarrow> nat \<Rightarrow> nat \<Rightarrow> nat" where
  "portion z n i = z div n + (if i < z mod n then 1 else 0)"

lemma portions_nat:
  assumes "0 < n" shows "portions (int z) n = map (\<lambda>i. int (portion z n i)) [0..<n]"
proof -
  have "int z sdiv int n = int (z div n)" using assms by (cases "0 < z") (simp_all add: signed_divide_int_def zdiv_int)
  moreover have "int z smod int n = int (z mod n)" using assms by (cases "0 < z") (simp_all add: signed_modulo_int_def zmod_int)
  ultimately show ?thesis using assms by (auto simp: portions_def Let_def portion_def)
qed

lemma portion_total: "k \<le> n \<Longrightarrow> (\<Sum>i<k. portion z n i) = k * (z div n) + min k (z mod n)"
  by (induction k) (auto simp: portion_def)

text \<open>The portions are dealt out completely, and no two differ by more than one.\<close>

lemma portions_sum:
  assumes "0 < n" shows "sum_list (portions (int z) n) = int z"
proof -
  have "sum_list (portions (int z) n) = int (\<Sum>i<n. portion z n i)"
    unfolding portions_nat [OF assms] by (simp add: interv_sum_list_conv_sum_set_nat atLeast0LessThan)
  also have "(\<Sum>i<n. portion z n i) = z" using portion_total [of n n z] mod_less_divisor [OF assms, of z] by simp
  finally show ?thesis .
qed

lemma portion_le: "z \<le> m \<Longrightarrow> portion z n i \<le> m div n + 1"
  using div_le_mono [of z m n] by (simp add: portion_def)

lemma osu_reduce_scatter_completes:
  assumes "good_floats_job E n argv os"
  shows "completed E ''Reduce_scatter Latency Test'' n (float_sizes (limit_one n os))
    (doubled_sizes (unat (max_message_size (limit_one n os)) div 4) (nat (first_size (float_sizes (limit_one n os)))))
    (\<lambda>z. print_stats E (opts_at (float_sizes (limit_one n os)) z) 0 (int (4 * z))) (osu_reduce_scatter E n argv)"
proof -
  note f = good_floats_jobD [OF assms]
  note g = good_jobD [OF f(1)]
  let ?os = "float_sizes (limit_one n os)" and ?t = "''Reduce_scatter Latency Test''"
  let ?M = "unat (max_message_size (limit_one n os))"
  let ?m = "?M div 4" and ?k = "?M div n div 4 + 1"
  let ?pr = "\<lambda>r p. shape ?os (\<lambda>_. ?m) (\<lambda>_. ?k) no_rank everyone r p \<and> o_rdispls p = []"
    and ?call = "\<lambda>ps. Reduce_scatter_float (o_floats E) (o_rcounts (hd ps)) (map o_send ps) (map o_recv ps)"
    and ?line = "\<lambda>z. print_stats E (opts_at ?os z) 0 (int (4 * z))"
  have cond: "counts_to (within_floats ?os) ?m" and loops: "loops_ok ?os"
    using counts_to_floats [of ?os] f(3,6) by (simp_all add: sizes_ok_def)
  have nw: "unat (of_nat n :: u64) = n" using f(1) by (intro unat_of_nat_small) (simp add: good_job_def options_fit_def)
  have recv: "unat (4 * (max_message_size (limit_one n os) div of_nat n div 4) + 4) div 4 = ?k"
  proof -
    let ?d = "max_message_size (limit_one n os) div of_nat n div 4"
    have d: "unat ?d = ?M div n div 4" by (simp add: unat_div nw)
    have "?M div n div 4 \<le> ?M" by (meson div_le_dividend le_trans)
    then have "unat ?d + 1 < 2 ^ 31" using d f(6) by simp
    then have "unat (4 * ?d + 4) = 4 * (unat ?d + 1)" by (simp add: unat_word_ariths)
    then show ?thesis using d by simp
  qed
  have step: "\<exists>J'. coll_size E (\<lambda>siz. each (\<lambda>p. Return (p\<lparr>o_rcounts := portions siz n\<rparr>))) no_check
        (\<lambda>siz. taken_in ?call) no_check (print_floats E) (int z) J = Return J'
      \<and> coll_state n ?pr ?os ?line [(0, print_preamble E ?t ?os 0)] (2 * z) (rows @ [z]) J'"
    if z: "0 < z" "z \<le> ?m" and st: "coll_state n ?pr ?os ?line [(0, print_preamble E ?t ?os 0)] z rows J"
    for z rows and J :: "('a, dbl) ojob"
  proof (rule coll_size_ok [where prz = "\<lambda>r p. ?pr r p \<and> o_rcounts p = portions (int z) n", OF st g(4) loops])
    show "timeless (\<lambda>r p. ?pr r p \<and> o_rcounts p = portions (int z) n)" by (simp add: timeless_def shape_def lost_ok_def everyone_def)
    show "\<exists>J'. each (\<lambda>p. Return (p\<lparr>o_rcounts := portions (int z) n\<rparr>)) J = Return J'
        \<and> procs_ok n (\<lambda>r p. ?pr r p \<and> o_rcounts p = portions (int z) n) J' \<and> j_opts J' = j_opts J \<and> j_out J' = j_out J"
      if "procs_ok n ?pr J" for J :: "('a, dbl) ojob"
      by (rule each_ok [OF that]) (simp add: shape_def everyone_def)
    show "\<exists>J'. bind_prog (no_check (int z) (int i) J) (\<lambda>J. no_check (int z) (int i) (taken_in ?call J)) = Return J'
        \<and> procs_ok n (\<lambda>r p. ?pr r p \<and> o_rcounts p = portions (int z) n) J' \<and> j_opts J' = j_opts J \<and> j_out J' = j_out J"
      if J: "procs_ok n (\<lambda>r p. ?pr r p \<and> o_rcounts p = portions (int z) n) J" for i and J :: "('a, dbl) ojob"
    proof -
      let ?ps = "j_procs J"
      have l: "length ?ps = n" and lens: "\<And>r. r < n \<Longrightarrow> length (o_send (?ps ! r)) = ?m \<and> length (o_recv (?ps ! r)) = ?k"
        and cs: "o_rcounts (hd ?ps) = portions (int z) n"
        using J g(4) by (simp_all add: procs_ok_def shape_def hd_conv_nth flip: length_greater_0_conv)
      have le: "portion z n r \<le> ?k" for r
        using portion_le [OF z(2), of n r] by (simp add: div_mult2_eq [symmetric] mult.commute)
      have "length (?call ?ps) = length (map o_recv ?ps) \<and> (\<forall>r<length (map o_recv ?ps). reduced_to (nat (portions (int z) n ! r))
          (nat (sum_list (take r (portions (int z) n)))) (map o_send ?ps) (map o_recv ?ps ! r) (?call ?ps ! r))"
        unfolding cs using l lens le g(4) z(2) portions_sum [OF g(4), of z]
        by (intro mpi_reductions.reduce_scatter [OF f(2)]) (auto simp: portions_nat [OF g(4)] in_set_conv_nth)
      then have "map length (?call ?ps) = map length (map o_recv ?ps)"
        by (intro nth_equalityI) (auto simp: reduced_to_def)
      then have "procs_ok n (\<lambda>r p. ?pr r p \<and> o_rcounts p = portions (int z) n) (taken_in ?call J)
          \<and> j_opts (taken_in ?call J) = j_opts J \<and> j_out (taken_in ?call J) = j_out J"
        by (intro taken_in_ok [OF J]) (simp_all add: shape_def everyone_def)
      then show ?thesis by (simp add: no_check_def)
    qed
  next
    have "z < 2 ^ 28" by (rule le_less_trans [OF z(2)], rule less_mult_imp_div_less) (use f(6) in simp)
    then have "byte_size (int z) = int (4 * z)" by (rule byte_size_small)
    then show "print_floats E (int z) (opts_at ?os z) p a mi ma = ?line z a mi ma \<and> ?line z a mi ma \<noteq> []"
      if "o_rank p = 0" for p a mi ma using that by (simp add: print_floats_def print_bytes_def print_stats_def)
  qed (auto simp: print_floats_def print_bytes_def print_stats_def)
  show ?thesis unfolding osu_reduce_scatter_def g(5) Let_def
  proof (rule coll_completes [OF _ g(4) f(4) cond step])
    show "\<exists>J. fold_prog (\<lambda>f. f) [new_ints E everyone (\<lambda>a p. p\<lparr>o_rcounts := a\<rparr>),
        new_send E everyone float_buffer (whole_floats (max_message_size ?os)) 1,
        new_recv E everyone float_buffer (4 * (max_message_size ?os div of_nat n div 4 + 1)) 0] (start_job E ?os n) = Return J
      \<and> procs_ok n ?pr J \<and> j_opts J = ?os \<and> j_out J = []"
      using g(2) f(6) by (auto simp: setup_simps whole_floats_length recv)
    show "length (j_procs (fold (\<lambda>f. f) [free_on everyone clear_rcounts, free_on everyone clear_send, free_on everyone clear_recv] J)) = n
        \<and> (\<forall>p\<in>set (j_procs (fold (\<lambda>f. f) [free_on everyone clear_rcounts, free_on everyone clear_send, free_on everyone clear_recv] J)). freed ?os p)
        \<and> j_out (fold (\<lambda>f. f) [free_on everyone clear_rcounts, free_on everyone clear_send, free_on everyone clear_recv] J) = j_out J"
      if "procs_ok n ?pr J" "target (j_opts J) = target ?os" for J :: "('a, dbl) ojob"
      by (rule cleanup_ok [OF that, where fs = "[(everyone, clear_rcounts), (everyone, clear_send), (everyone, clear_recv)]"])
        (auto simp: cleanup_defs split: if_splits)
  qed
qed

end
