(* ===== verification/Osu_Benchmarks.thy ===== *)
theory Osu_Benchmarks
  imports Osu_Reduce_Correct "HOL-Library.Code_Target_Nat"
begin

text \<open>
  What the blocking collective benchmarks guarantee, program by program: that they complete, that they do not
  end when the first message size is 0, and that their validations find no errors in an MPI that keeps its
  promises. The concrete jobs are evaluated with the binary representation of the natural numbers.
\<close>

subsection \<open>The programs together\<close>

text \<open>The programs that do not validate, with their titles and the limits on their messages.\<close>

definition char_benchmarks :: "(string \<times> (nat \<Rightarrow> options_t \<Rightarrow> options_t) \<times> 'd coll_main) list" where
  "char_benchmarks =
     [(''Allgather Latency Test'', limit_total, osu_allgather),
      (''Allgatherv Latency Test'', limit_total, osu_allgatherv),
      (''All-to-Allv Personalized Exchange Latency Test'', limit_total, osu_alltoallv),
      (''Broadcast Latency Test'', limit_one, osu_bcast),
      (''Gather Latency Test'', limit_total, osu_gather),
      (''Gatherv Latency Test'', limit_total, osu_gatherv),
      (''Scatter Latency Test'', limit_total, osu_scatter),
      (''Scatterv Latency Test'', limit_total, osu_scatterv)]"

lemma char_benchmark_runs:
  assumes "good_job E n argv os" "(title, limit, main) \<in> set char_benchmarks"
  shows "(first_size os \<noteq> 0 \<longrightarrow> plain_completed E title n (limit n os) (main E n argv))
    \<and> (first_size os = 0 \<longrightarrow> main E n argv = None)"
proof -
  have "plain_program E title n (limit n os) (main E n argv) \<and> sizes_ok n (limit n os) \<and> first_size (limit n os) = first_size os"
    using assms(2) osu_allgather_plain [OF assms(1)] osu_allgatherv_plain [OF assms(1)] osu_alltoallv_plain [OF assms(1)]
      osu_bcast_plain [OF assms(1)] osu_gather_plain [OF assms(1)] osu_gatherv_plain [OF assms(1)]
      osu_scatter_plain [OF assms(1)] osu_scatterv_plain [OF assms(1)] good_jobD(6,7) [OF assms(1)]
    by (auto simp: char_benchmarks_def)
  then show ?thesis using plain_program_runs by metis
qed

text \<open>A concrete job: two processes, an MPI that copies the blocks in order, and all memory granted.\<close>

definition unit_env :: "unit oenv" where
  "unit_env = \<lparr>o_fp = \<lparr>f_int = \<lambda>_. (), f_add = \<lambda>_ _. (), f_sub = \<lambda>_ _. (), f_mul = \<lambda>_ _. (), f_div = \<lambda>_ _. (),
       f_less = \<lambda>_ _. False, f_trunc = \<lambda>_. None\<rparr>,
     o_min = \<lambda>_. (), o_max = \<lambda>_. (), o_sum = \<lambda>_. (), o_mpi = ref_mpi (\<lambda>_. 0), o_floats = ref_floats, o_init_err = 0,
     o_wtime = \<lambda>_ _. (), o_memalign = \<lambda>_ _ _. True, o_malloc = \<lambda>_ _. True, o_arrays = \<lambda>_ _. True, o_fresh = \<lambda>_ _ _. 0,
     o_show = \<lambda>_. ''0'', o_show_float = \<lambda>_. ''0'', o_version = None\<rparr>"

definition fit_ints :: "int \<Rightarrow> options_t \<Rightarrow> bool" where
  "fit_ints n os \<longleftrightarrow> uint (iterations os + skip os) < 2147483648 \<and> uint (iterations_large os + skip_large os) < 2147483648
     \<and> uint (max_mem_limit os) < 1073741824 \<and> uint (max_message_size os) * n < 18446744073709551616 \<and> 2 \<le> n \<and> n < 2147483648"

lemma options_fit_ints: "fit_ints (int n) os \<Longrightarrow> options_fit n os"
proof -
  have "unat (max_message_size os) * n < 2 ^ 64 \<longleftrightarrow> int (unat (max_message_size os) * n) < 2 ^ 64"
    by (metis of_nat_less_iff of_nat_numeral of_nat_power)
  moreover have "unat w < k \<longleftrightarrow> uint w < int k" for w :: u64 and k by (simp only: uint_nat of_nat_less_iff)
  ultimately show "fit_ints (int n) os \<Longrightarrow> options_fit n os"
    by (simp add: fit_ints_def options_fit_def loops_ok_def)
qed

definition fits_job :: "int \<Rightarrow> string list \<Rightarrow> (options_t \<Rightarrow> bool) \<Rightarrow> bool" where
  "fits_job n argv P \<longleftrightarrow> (case process_options host_build argv (start_state COLLECTIVE LAT) of
     Return (ret, st) \<Rightarrow> ret = PO_OKAY \<and> fit_ints n (po_opts st) \<and> P (po_opts st) | _ \<Rightarrow> False)"

lemma unit_job:
  assumes "fits_job (int n) argv P" shows "\<exists>os. good_job unit_env n argv os \<and> P os"
proof -
  obtain st where st: "process_options host_build argv (start_state COLLECTIVE LAT) = Return (PO_OKAY, st)"
      "options_fit n (po_opts st)" "P (po_opts st)"
    using assms options_fit_ints by (auto simp: fits_job_def split: prog.splits prod.splits)
  have "mpi_collectives (o_mpi unit_env)" by (simp add: unit_env_def refmpi.mpi_collectives_axioms)
  moreover have "memory_granted unit_env" "o_init_err unit_env = 0" by (simp_all add: unit_env_def memory_granted_def)
  ultimately have "good_job unit_env n argv (po_opts st)" using st by (cases st) (auto simp: good_job_def)
  then show ?thesis using st(3) by blast
qed


lemma sample_gather: "fits_job 2 [''osu_gather'', ''-i'', ''5''] (\<lambda>os. first_size os = 1)"
  by code_simp

lemma sample_bcast: "fits_job 2 [''osu_bcast'', ''-m'', ''4294967296:8589934592''] (\<lambda>os. first_size os = 0)"
  by code_simp

lemma sample_alltoall: "fits_job 2 [''osu_alltoall'', ''-c'', ''1''] (\<lambda>os. validate os \<noteq> 0 \<and> first_size os = 1)"
  by code_simp

lemma sample_allreduce:
  "fits_job 2 [''osu_allreduce'', ''-c'', ''1''] (\<lambda>os. validate os \<noteq> 0 \<and> uint (min_message_size os) = 1
     \<and> uint (max_message_size os) = 1048576 \<and> uint (iterations os + skip os) = 1100
     \<and> uint (iterations_large os + skip_large os) = 110)"
  by code_simp

subsection \<open>What is guaranteed\<close>

text \<open>
  C35. The eight blocking collective benchmarks on bytes that do not validate (\<open>char_benchmarks\<close>; the all-to-all
  and the barrier are separate), run by 2 to 2^31 - 1 processes with accepted options under which no product wraps
  around and the memory limit is below 2^30 (\<open>options_fit\<close>), with a smallest message size that is not 0 as an
  \<^verbatim>\<open>int\<close>, by an MPI that keeps its promises and with all memory granted, exit with status 0: each prints its
  preamble and one line for every size from the first by doubling up to the limit, all transfers stay within the
  buffers, all buffers are freed, and every set of arrays for the dummy computation but the last is lost.
\<close>

theorem coll_benchmarks_complete:
  assumes "good_job E n argv os" "first_size os \<noteq> 0" "(title, limit, main) \<in> set char_benchmarks"
  shows "plain_completed E title n (limit n os) (main E n argv)"
  using char_benchmark_runs [OF assms(1,3)] assms(2) by blast

theorem coll_benchmarks_complete_witness:
  "\<exists>os. plain_completed unit_env ''Gather Latency Test'' 2 (limit_total 2 os) (osu_gather unit_env 2 [''osu_gather'', ''-i'', ''5''])"
proof -
  obtain os where os: "good_job unit_env 2 [''osu_gather'', ''-i'', ''5''] os" "first_size os = 1"
    using unit_job [of 2, unfolded of_nat_numeral, OF sample_gather] by blast
  have "plain_completed unit_env ''Gather Latency Test'' 2 (limit_total 2 os) (osu_gather unit_env 2 [''osu_gather'', ''-i'', ''5''])"
    by (rule coll_benchmarks_complete [OF os(1)]) (simp_all add: os(2) char_benchmarks_def)
  then show ?thesis by blast
qed

text \<open>
  C38. The smallest message size is made an \<^verbatim>\<open>int\<close>. Where this gives 0, as for 2^32, which the options accept,
  none of these programs ends: doubling leaves the size at 0.
\<close>

theorem coll_benchmarks_endless:
  assumes "good_job E n argv os" "first_size os = 0" "(title, limit, main) \<in> set char_benchmarks"
  shows "main E n argv = None"
  using char_benchmark_runs [OF assms(1,3)] assms(2) by blast

theorem coll_benchmarks_endless_witness:
  "osu_bcast unit_env 2 [''osu_bcast'', ''-m'', ''4294967296:8589934592''] = None"
proof -
  obtain os where os: "good_job unit_env 2 [''osu_bcast'', ''-m'', ''4294967296:8589934592''] os" "first_size os = 0"
    using unit_job [of 2, unfolded of_nat_numeral, OF sample_bcast] by blast
  show ?thesis by (rule coll_benchmarks_endless [where title = "''Broadcast Latency Test''" and limit = limit_one, OF os]) (simp add: char_benchmarks_def)
qed

text \<open>
  C37. Under the conditions of the byte collectives (\<open>good_job\<close>: accepted options without wrap-around, a faithful
  MPI, memory granted; a first size that is not 0 as an \<^verbatim>\<open>int\<close>) and, when it validates, on at most 2^15 processes,
  the all-to-all benchmark completes too, and with validation every line reports 0 errors: what every process sends
  in each of the iterations is what the others expect.
\<close>

theorem alltoall_benchmark_validates:
  assumes "good_job E n argv os" "first_size os \<noteq> 0" "validate os \<noteq> 0 \<Longrightarrow> n \<le> 2 ^ 15"
  shows "completed E ''All-to-All Personalized Exchange Latency Test'' n (limit_total n os)
    (doubled_sizes (unat (max_message_size (limit_total n os))) (nat (first_size os)))
    (validated_line E (limit_total n os)) (osu_alltoall E n argv)"
  using osu_alltoall_completes [OF assms] .

theorem alltoall_benchmark_validates_witness:
  "\<exists>os. validate os \<noteq> 0 \<and> completed unit_env ''All-to-All Personalized Exchange Latency Test'' 2 (limit_total 2 os)
    (doubled_sizes (unat (max_message_size (limit_total 2 os))) 1)
    (validated_line unit_env (limit_total 2 os)) (osu_alltoall unit_env 2 [''osu_alltoall'', ''-c'', ''1''])"
proof -
  obtain os where os: "good_job unit_env 2 [''osu_alltoall'', ''-c'', ''1''] os" "validate os \<noteq> 0" "first_size os = 1"
    using unit_job [of 2, unfolded of_nat_numeral, OF sample_alltoall] by blast
  have "(2 :: nat) \<le> 2 ^ 15" by simp
  with alltoall_benchmark_validates [OF os(1)] os(2,3) show ?thesis by auto
qed

lemma sums_exactI:
  assumes "n * (2048 * unat (iterations os + skip os)) < 2 ^ 24"
    and "n * (unat (max_message_size os) div 16 * unat (iterations_large os + skip_large os)) < 2 ^ 24"
  shows "sums_exact n os"
  unfolding sums_exact_def
proof (intro allI impI)
  fix z assume z: "z \<le> unat (max_message_size os) div 4"
  show "n * ((z div 4) * unat (iterations (opts_at os z) + skip (opts_at os z))) < 2 ^ 24"
  proof (cases "8192 < z")
    case True
    have "z div 4 \<le> unat (max_message_size os) div 16" using div_le_mono [OF z, of 4] by (simp add: div_mult2_eq [symmetric])
    then have "n * ((z div 4) * unat (iterations_large os + skip_large os))
        \<le> n * (unat (max_message_size os) div 16 * unat (iterations_large os + skip_large os))" by (intro mult_le_mono2 mult_le_mono1)
    from le_less_trans [OF this assms(2)] show ?thesis using True by (simp add: opts_at_def large_options_def)
  next
    case False
    then have "n * ((z div 4) * unat (iterations os + skip os)) \<le> n * (2048 * unat (iterations os + skip os))"
      by (intro mult_le_mono2 mult_le_mono1) simp
    from le_less_trans [OF this assms(1)] show ?thesis using False by (simp add: opts_at_def)
  qed
qed

text \<open>
  C36. The benchmarks of the reductions complete, whatever order MPI adds in, and a validating run of
  the all-reduce or the reduce benchmark reports 0 errors on every line; the reduce-scatter benchmark has no validation. The conditions (\<open>good_floats_job\<close>) are those of the byte collectives, a smallest message size below
  2^31, which makes the first size different from 0, and for a validating run sums that stay below 2^24 in all
  iterations, where single precision is exact.
\<close>

theorem reduction_benchmarks_complete:
  assumes "good_floats_job E n argv os"
  shows "floats_completed E ''Allreduce Latency Test'' n (float_sizes (limit_one n os)) (osu_allreduce E n argv)
    \<and> floats_completed E ''Reduce Latency Test'' n (float_sizes (limit_one n os)) (osu_reduce E n argv)
    \<and> completed E ''Reduce_scatter Latency Test'' n (float_sizes (limit_one n os))
       (doubled_sizes (unat (max_message_size (limit_one n os)) div 4) (nat (first_size (float_sizes (limit_one n os)))))
       (\<lambda>z. print_stats E (opts_at (float_sizes (limit_one n os)) z) 0 (int (4 * z))) (osu_reduce_scatter E n argv)"
  using osu_allreduce_completes [OF assms] osu_reduce_completes [OF assms] osu_reduce_scatter_completes [OF assms] by blast

theorem reduction_benchmarks_complete_witness:
  "\<exists>os. validate os \<noteq> 0
    \<and> floats_completed unit_env ''Allreduce Latency Test'' 2 os (osu_allreduce unit_env 2 [''osu_allreduce'', ''-c'', ''1''])"
proof -
  obtain os where os: "good_job unit_env 2 [''osu_allreduce'', ''-c'', ''1''] os" "validate os \<noteq> 0" "uint (min_message_size os) = 1"
      "uint (max_message_size os) = 1048576" "uint (iterations os + skip os) = 1100" "uint (iterations_large os + skip_large os) = 110"
    using unit_job [of 2, unfolded of_nat_numeral, OF sample_allreduce] by blast
  have u: "unat (min_message_size os) = 1" "unat (max_message_size os) = 1048576" "unat (iterations os + skip os) = 1100"
      "unat (iterations_large os + skip_large os) = 110"
    using os(3-6) by (simp_all add: unat_eq_nat_uint)
  let ?os = "float_sizes (limit_one 2 os)"
  have m: "unat (max_message_size ?os) \<le> 1048576" using u(2) by (auto simp: limit_one_def word_less_nat_alt)
  have "sums_exact 2 ?os"
  proof (rule sums_exactI)
    show "2 * (2048 * unat (iterations ?os + skip ?os)) < 2 ^ 24" using u(3) by (simp add: float_sizes_def limit_one_def Let_def)
    have l: "unat (iterations_large ?os + skip_large ?os) = 110" using u(4) by (simp add: float_sizes_def limit_one_def Let_def)
    have "unat (max_message_size ?os) div 16 * 110 \<le> 65536 * 110" using div_le_mono [OF m, of 16] by simp
    then show "2 * (unat (max_message_size ?os) div 16 * unat (iterations_large ?os + skip_large ?os)) < 2 ^ 24" unfolding l by simp
  qed
  moreover have "mpi_reductions (o_floats unit_env)" by (simp add: unit_env_def reffloats.mpi_reductions_axioms)
  ultimately have "good_floats_job unit_env 2 [''osu_allreduce'', ''-c'', ''1''] os" using os(1) u(1) by (simp add: good_floats_job_def)
  from reduction_benchmarks_complete [OF this] os(2)
  have "validate ?os \<noteq> 0 \<and> floats_completed unit_env ''Allreduce Latency Test'' 2 ?os (osu_allreduce unit_env 2 [''osu_allreduce'', ''-c'', ''1''])"
    by simp
  then show ?thesis by blast
qed

text \<open>The barrier benchmark prints one line; its statistics have no message size.\<close>

theorem barrier_benchmark_completes:
  assumes "good_job E n argv os"
  shows "\<exists>J a mi ma. osu_barrier E n argv = Some (Return (0, J))
    \<and> j_out J = [(0, print_preamble E ''Barrier Latency Test'' (os\<lparr>show_size := False\<rparr>) 0),
        (0, print_stats E (os\<lparr>show_size := False\<rparr>) 0 0 a mi ma)]"
  using osu_barrier_completes [OF assms] .

theorem barrier_benchmark_completes_witness:
  "\<exists>os J a mi ma. osu_barrier unit_env 2 [''osu_gather'', ''-i'', ''5''] = Some (Return (0, J))
    \<and> j_out J = [(0, print_preamble unit_env ''Barrier Latency Test'' (os\<lparr>show_size := False\<rparr>) 0),
        (0, print_stats unit_env (os\<lparr>show_size := False\<rparr>) 0 0 a mi ma)]"
  using unit_job [of 2, unfolded of_nat_numeral, OF sample_gather] barrier_benchmark_completes by blast

end
