(* ===== verification/Mpibench_Args.thy ===== *)
theory Mpibench_Args
  imports Cstdlib
begin

text \<open>
  The command line of \<^verbatim>\<open>mpiBench\<close>, the collective benchmark of the test suite (\<^verbatim>\<open>t/mpibench/mpiBench.c\<close>):
  \<^verbatim>\<open>atobytes\<close>, \<^verbatim>\<open>processArgs\<close> and \<^verbatim>\<open>usage\<close>. A \<^verbatim>\<open>size_t\<close> is a \<open>u64\<close>. The time limit is kept as the integer it
  is read from: a \<^verbatim>\<open>long\<close> that a \<^verbatim>\<open>double\<close> does not hold exactly is far outside the range of \<^verbatim>\<open>int\<close>, to
  which it is converted where it is used.
\<close>

subsection \<open>Byte strings\<close>

definition KILO :: int where "KILO = 1024"
definition MEGA :: int where "MEGA = KILO * KILO"
definition GIGA :: int where "GIGA = KILO * MEGA"

definition byte_units :: "char \<Rightarrow> int option" where
  "byte_units c =
     (if c = CHR ''k'' \<or> c = CHR ''K'' then Some KILO
      else if c = CHR ''m'' \<or> c = CHR ''M'' then Some MEGA
      else if c = CHR ''g'' \<or> c = CHR ''G'' then Some GIGA
      else None)"

definition mul_double :: "dbl \<Rightarrow> int \<Rightarrow> dbl" where
  "mul_double d units = (case d of Fin x \<Rightarrow> double_of (x * of_int units) | Inf neg \<Rightarrow> Inf neg | NaN \<Rightarrow> NaN)"

definition negative :: "dbl \<Rightarrow> bool" where
  "negative d = (case d of Fin x \<Rightarrow> x < 0 | Inf neg \<Rightarrow> neg | NaN \<Rightarrow> False)"

definition to_size :: "string \<Rightarrow> dbl \<Rightarrow> int \<Rightarrow> u64 prog" where
  "to_size str num units =
     (if negative num then Exit 1 (''ERROR:  byte string must be positive: '' @ str @ newline)
      else case size_of_double (mul_double num units) of None \<Rightarrow> Undefined | Some n \<Rightarrow> Return n)"

definition atobytes :: "string \<Rightarrow> u64 prog" where
  "atobytes str =
     (case strtod str of
        (num, rest) \<Rightarrow>
          if num = Fin 0 \<and> rest = str then Return 0
          else
            (case rest of
               [] \<Rightarrow> to_size str num 1
             | c # rest \<Rightarrow>
                 (case byte_units c of
                    None \<Rightarrow> Exit 1 (''ERROR:  unexpected byte string '' @ str @ newline)
                  | Some units \<Rightarrow>
                      let rest = (if rest \<noteq> [] \<and> (hd rest = CHR ''b'' \<or> hd rest = CHR ''B'') then tl rest else rest) in
                      if rest \<noteq> [] then Exit 1 (''ERROR:  unexpected byte string: '' @ str @ newline)
                      else to_size str num units)))"

lemma strtod_show_nat:
  assumes "n < 2 ^ 53" and t: "t = [] \<or> byte_units (hd t) \<noteq> None"
  shows "strtod (show_nat n @ t) = (Fin (of_nat n), t)"
proof -
  obtain c u where s: "show_nat n = c # u" by (metis show_nat_ne list.exhaust)
  have c: "is_digit c" using show_nat_digits [of c n] by (simp add: s)
  have letters: "\<not> is_digit (hd t)" "to_lower (hd t) \<noteq> CHR ''e''" "to_lower (hd t) \<noteq> CHR ''x''" "hd t \<noteq> CHR ''.''"
    if "t \<noteq> []"
    using t that by (auto simp: byte_units_def is_digit_def to_lower_def char_of_def Let_def split: if_splits)
  have lower: "to_lower d = d \<and> d \<noteq> CHR ''x''" if "is_digit d" for d
    using that by (auto simp: is_digit_def to_lower_def Let_def)
  have "\<not> prefix_ci ''infinity'' (show_nat n @ t)" "\<not> prefix_ci ''inf'' (show_nat n @ t)"
    "\<not> prefix_ci ''nan'' (show_nat n @ t)"
    using c lower [OF c] by (auto simp: s prefix_ci_def strcaseeq_def to_lower_def Let_def is_digit_def)
  moreover have "\<not> prefix_ci ''0x'' (show_nat n @ t)"
  proof (cases u)
    case Nil
    then show ?thesis using letters by (cases t) (auto simp: s prefix_ci_def strcaseeq_def to_lower_def Let_def)
  next
    case (Cons d v)
    then have "is_digit d" using show_nat_digits [of d n] by (simp add: s)
    from lower [OF this] show ?thesis by (auto simp: s Cons prefix_ci_def strcaseeq_def to_lower_def Let_def)
  qed
  moreover have tw: "takeWhile is_digit (show_nat n @ t) = show_nat n" "dropWhile is_digit (show_nat n @ t) = t"
    using letters(1) takeWhile_digits [of t n] by blast+
  moreover have "read_digits is_digit (show_nat n @ t) = (show_nat n, 0, t)"
    using letters(4) unfolding read_digits_def Let_def tw by auto
  moreover have "read_exponent CHR ''e'' t = (0, t)" using letters by (auto simp: read_exponent_def)
  ultimately show ?thesis
    by (simp add: strtod_def show_nat_start read_show_nat with_sign_def double_of_nat_shift [OF assms(1), of 0, simplified] split: prod.split)
qed

lemma unit_power:
  assumes "byte_units c = Some units" obtains k where "k \<le> 30" "units = 2 ^ k"
  using assms that [of 10] that [of 20] that [of 30]
  by (simp add: byte_units_def KILO_def MEGA_def GIGA_def split: if_splits)

text \<open>A number written with an optional unit, which may be followed by \<^verbatim>\<open>B\<close>.\<close>

definition byte_string :: "nat \<Rightarrow> (char \<times> bool) option \<Rightarrow> string" where
  "byte_string n unit = show_nat n @ (case unit of None \<Rightarrow> [] | Some (c, b) \<Rightarrow> c # (if b then ''B'' else []))"

definition unit_size :: "(char \<times> bool) option \<Rightarrow> int option" where
  "unit_size unit = (case unit of None \<Rightarrow> Some 1 | Some (c, b) \<Rightarrow> byte_units c)"

lemma to_size_nat:
  assumes "n < 2 ^ 53" "k \<le> 900"
  shows "to_size str (Fin (of_nat n)) (2 ^ k) = (if n * 2 ^ k < 2 ^ 64 then Return (of_nat (n * 2 ^ k)) else Undefined)"
proof -
  have m: "mul_double (Fin (of_nat n)) (2 ^ k) = Fin (of_nat (n * 2 ^ k))"
    using double_of_nat_shift [OF assms] by (simp add: mul_double_def)
  have z: "size_of_double (Fin (of_nat m)) = (if m < 2 ^ 64 then Some (of_nat m) else None)" for m
  proof -
    have "(of_nat m < (2::rat) ^ 64) = (m < 2 ^ 64)" by (metis of_nat_less_iff of_nat_numeral of_nat_power)
    then show ?thesis unfolding size_of_double_def by (simp add: less_le_trans [of "- 1" 0 "of_nat m :: rat"])
  qed
  show ?thesis unfolding to_size_def m z by (simp add: negative_def)
qed

text \<open>
  C28. A decimal number of at most 53 bits with an optional unit and an optional \<^verbatim>\<open>B\<close> is read as its number of
  bytes; where that does not fit a \<^verbatim>\<open>size_t\<close>, the conversion is undefined.
\<close>

theorem atobytes_reads:
  assumes "n < 2 ^ 53" and "unit_size unit = Some units"
  shows "atobytes (byte_string n unit) =
    (if int n * units < 2 ^ 64 then Return (word_of_int (int n * units)) else Undefined)"
proof -
  obtain k where k: "k \<le> 30" "units = 2 ^ k"
  proof (cases unit)
    case None
    with that [of 0] assms(2) show ?thesis by (simp add: unit_size_def)
  next
    case (Some cb)
    with assms(2) have "byte_units (fst cb) = Some units" by (simp add: unit_size_def split: prod.splits)
    then show ?thesis using that by (rule unit_power)
  qed
  let ?t = "case unit of None \<Rightarrow> [] | Some (c, b) \<Rightarrow> c # (if b then ''B'' else [])"
  have "strtod (show_nat n @ ?t) = (Fin (of_nat n), ?t)"
    using assms by (intro strtod_show_nat) (auto simp: unit_size_def split: option.splits)
  moreover have "?t \<noteq> show_nat n @ ?t" by simp
  moreover have "to_size (show_nat n @ ?t) (Fin (of_nat n)) units =
    (if int n * units < 2 ^ 64 then Return (word_of_int (int n * units)) else Undefined)"
  proof -
    have "int n * 2 ^ k = int (n * 2 ^ k)" by simp
    then have z: "(int n * 2 ^ k < 2 ^ 64) = (n * 2 ^ k < 2 ^ 64)" by (simp only: of_nat_less_numeral_power_cancel_iff)
    have w: "word_of_int (int n * 2 ^ k) = (of_nat (n * 2 ^ k) :: u64)" by simp
    show ?thesis unfolding k(2) z w by (rule to_size_nat [OF assms(1)]) (use k(1) in simp)
  qed
  ultimately show ?thesis
    using assms(2) by (cases unit) (auto simp: atobytes_def byte_string_def unit_size_def)
qed

subsection \<open>The tests\<close>

definition NUM_TESTS :: nat where "NUM_TESTS = 11"

definition TEST_NAMES :: "string list" where
  "TEST_NAMES = [''Barrier'', ''Bcast'', ''Alltoall'', ''Allgather'', ''Gather'', ''Scatter'', ''Allreduce'', ''Reduce'',
     ''Alltoallv'', ''Allgatherv'', ''Gatherv'']"

definition TEST_FLAGS :: "u32 list" where
  "TEST_FLAGS = [0x001, 0x002, 0x004, 0x008, 0x010, 0x020, 0x040, 0x080, 0x100, 0x200, 0x400]"

definition ALL_TESTS :: u32 where "ALL_TESTS = 0x1FFF"

text \<open>The loop that compares one argument with the names of the tests.\<close>

fun test_loop :: "(string \<times> u32) list \<Rightarrow> string \<Rightarrow> u32 \<Rightarrow> u32" where
  "test_loop [] a f = f"
| "test_loop ((name, flag) # ts) a f =
     test_loop ts a (if strcaseeq name a then (if f = ALL_TESTS then 0 else f) OR flag else f)"

subsection \<open>Options\<close>

record argList =
  iters :: int
  messStart :: u64
  messStop :: u64
  memLimit :: u64
  timeLimit :: int
  testFlags :: u32
  checkOnce :: bool
  checkEvery :: bool
  ndims :: int
  partSize :: int

definition ITRS_RUN :: int where "ITRS_RUN = 1000"
definition MSG_SIZE_START :: int where "MSG_SIZE_START = 0"
definition MSG_SIZE_STOP :: int where "MSG_SIZE_STOP = 256 * KILO"
definition MAX_PROC_MEM :: int where "MAX_PROC_MEM = 1 * GIGA"

definition default_args :: argList where
  "default_args = \<lparr>iters = ITRS_RUN, messStart = word_of_int MSG_SIZE_START, messStop = word_of_int MSG_SIZE_STOP,
     memLimit = word_of_int MAX_PROC_MEM, timeLimit = 0, testFlags = ALL_TESTS, checkOnce = False, checkEvery = False,
     ndims = 0, partSize = 0\<rparr>"

record argState =
  args :: argList
  iters_set :: bool
  time_set :: bool

text \<open>
  The switch over the options with an argument; a missing argument is a null pointer. \<open>None\<close> is the
  return of 0.
\<close>

definition set_option :: "char \<Rightarrow> string option \<Rightarrow> argState \<Rightarrow> argState option prog" where
  "set_option flag argptr st =
     (let ar = args st in
      if flag = CHR ''h'' then Return None
      else case argptr of
        None \<Rightarrow> Undefined
      | Some s \<Rightarrow>
          if flag = CHR ''b'' then bind_prog (atobytes s) (\<lambda>n. Return (Some (st\<lparr>args := ar\<lparr>messStart := n\<rparr>\<rparr>)))
          else if flag = CHR ''e'' then bind_prog (atobytes s) (\<lambda>n. Return (Some (st\<lparr>args := ar\<lparr>messStop := n\<rparr>\<rparr>)))
          else if flag = CHR ''i'' then Return (Some (st\<lparr>args := ar\<lparr>iters := atoi s\<rparr>, iters_set := True\<rparr>))
          else if flag = CHR ''m'' then bind_prog (atobytes s) (\<lambda>n. Return (Some (st\<lparr>args := ar\<lparr>memLimit := n\<rparr>\<rparr>)))
          else if flag = CHR ''t'' then Return (Some (st\<lparr>args := ar\<lparr>timeLimit := atol s\<rparr>, time_set := True\<rparr>))
          else if flag = CHR ''d'' then Return (Some (st\<lparr>args := ar\<lparr>ndims := atoi s\<rparr>\<rparr>))
          else Return (Some (st\<lparr>args := ar\<lparr>partSize := atoi s\<rparr>\<rparr>)))"

text \<open>What follows the switch in the body of the loop, for the argument the index is at.\<close>

definition after_option :: "string \<Rightarrow> argState \<Rightarrow> argState" where
  "after_option a st =
     (let ar = args st; ar = (if \<not> iters_set st \<and> \<not> time_set st then ar\<lparr>timeLimit := 50000\<rparr> else ar) in
      st\<lparr>args := ar\<lparr>testFlags := test_loop (zip TEST_NAMES TEST_FLAGS) a (testFlags ar)\<rparr>\<rparr>)"

definition set_check :: "char \<Rightarrow> argState \<Rightarrow> argState" where
  "set_check flag st =
     (if flag = CHR ''c'' then st\<lparr>args := (args st)\<lparr>checkOnce := True\<rparr>\<rparr>
      else if flag = CHR ''C'' then st\<lparr>args := (args st)\<lparr>checkEvery := True\<rparr>\<rparr> else st)"

text \<open>
  The loop over the arguments, \<open>None\<close> when the function returns 0, with what it printed. A lone dash is
  found by \<^verbatim>\<open>strchr\<close> at the terminator.
\<close>

fun args_loop :: "string list \<Rightarrow> argState \<Rightarrow> (argState option \<times> string) prog" where
  "args_loop [] st = Return (Some st, [])"
| "args_loop (a # as) st =
     (let flag = char_at a 1 in
      if char_at a 0 \<noteq> CHR ''-'' then args_loop as (after_option a st)
      else if flag \<in> set ''cC'' \<or> flag = NUL then args_loop as (set_check flag st)
      else if flag \<notin> set ''beithmdp'' then Return (None, newline @ ''Invalid flag -'' @ [flag] @ newline)
      else if char_at a 2 \<noteq> NUL then
        bind_prog (set_option flag (Some (drop 2 a)) st) (\<lambda>r.
          case r of None \<Rightarrow> Return (None, []) | Some st \<Rightarrow> args_loop as (after_option a st))
      else (case as of
          [] \<Rightarrow> bind_prog (set_option flag None st) (\<lambda>r. case r of None \<Rightarrow> Return (None, []) | Some st \<Rightarrow> Undefined)
        | b # bs \<Rightarrow>
            bind_prog (set_option flag (Some b) st) (\<lambda>r.
              case r of None \<Rightarrow> Return (None, []) | Some st \<Rightarrow> args_loop bs (after_option b st))))"

text \<open>The arguments when it returns 1, \<open>None\<close> when it returns 0; with what it printed.\<close>

definition processArgs :: "string list \<Rightarrow> (argList option \<times> string) prog" where
  "processArgs argv =
     bind_prog (args_loop argv \<lparr>args = default_args, iters_set = False, time_set = False\<rparr>) (\<lambda>(r, out).
       case r of
         None \<Rightarrow> Return (None, out)
       | Some st \<Rightarrow>
           if iters (args st) = 0
           then Return (None, newline @ ''  Must define number of operations per measurement!'' @ newline @ newline)
           else Return (Some (args st), out))"

definition usage_text :: "string list" where
  "usage_text =
    [[],
     ''  Usage:  mpiBench [options] [operations]'',
     [],
     ''  Options:'',
     ''    -b <byte>  Beginning message size in bytes (default 0)'',
     ''    -e <byte>  Ending message size in bytes (default 1K)'',
     ''    -m <byte>  Process memory buffer limit (send+recv) in bytes (default 1G)'',
     ''    -i <itrs>  Maximum number of iterations for a single test (default 1000)'',
     ''    -t <usec>  Time limit for any single test in microseconds (default 0 = infinity)'',
     ''    -d <ndim>  Number of Cartesian dimensions to split processes in (default 0 = MPI_COMM_WORLD only)'',
     ''    -p <size>  Minimum partition size (number of ranks) to divide MPI_COMM_WORLD by'',
     ''    -c         Check receive buffer for expected data in last interation (default disabled)'',
     ''    -C         Check receive buffer for expected data every iteration (default disabled)'',
     ''    -h         Print this help screen and exit'',
     ''    where <byte> = [0-9]+[KMG], e.g., 32K or 64M'',
     [],
     ''  Operations:'',
     ''    Barrier'',
     ''    Bcast'',
     ''    Alltoall, Alltoallv'',
     ''    Allgather, Allgatherv'',
     ''    Gather, Gatherv'',
     ''    Scatter'',
     ''    Allreduce'',
     ''    Reduce'',
     []]"

definition usage :: "nat \<Rightarrow> 'a prog" where
  "usage rank_local = Exit 1 (if rank_local = 0 then concat (map (\<lambda>l. l @ newline) usage_text) else [])"

subsection \<open>Which tests are run\<close>

text \<open>
  The mask of all tests has two bits more than there are tests, so that no selection of tests is mistaken for it.
\<close>

definition named :: "string \<Rightarrow> string list \<Rightarrow> bool" where
  "named name argv \<longleftrightarrow> (\<exists>a\<in>set argv. strcaseeq name a)"

definition flag_ok :: "u32 \<Rightarrow> bool" where
  "flag_ok f \<longleftrightarrow> (bit f 12 \<longrightarrow> f = ALL_TESTS)"

lemma bit_ALL_TESTS: "bit ALL_TESTS j \<longleftrightarrow> j < 13"
proof -
  have "ALL_TESTS = mask 13" by (simp add: ALL_TESTS_def mask_eq_decr_exp)
  then have "bit ALL_TESTS j = bit (mask 13 :: u32) j" by (rule arg_cong)
  then show ?thesis by (auto simp: bit_mask_iff)
qed

text \<open>What one argument does to a mask of tests, bit by bit.\<close>

definition selects :: "(string \<times> u32) list \<Rightarrow> string \<Rightarrow> nat \<Rightarrow> bool" where
  "selects ts a j \<longleftrightarrow> (\<exists>(name, flag)\<in>set ts. strcaseeq name a \<and> bit flag j)"

lemma test_loop_bits:
  assumes "flag_ok f" and "\<forall>(name, flag)\<in>set ts. \<not> bit flag 12"
  shows "flag_ok (test_loop ts a f)
    \<and> (if \<forall>(name, flag)\<in>set ts. \<not> strcaseeq name a then test_loop ts a f = f
       else \<not> bit (test_loop ts a f) 12
         \<and> (\<forall>j. bit (test_loop ts a f) j \<longleftrightarrow> selects ts a j \<or> (\<not> bit f 12 \<and> bit f j)))"
  using assms
proof (induction ts arbitrary: f)
  case (Cons t ts)
  obtain name flag where t: "t = (name, flag)" by fastforce
  let ?f = "(if f = ALL_TESTS then 0 else f) OR flag"
  have f12: "bit f 12 \<longleftrightarrow> f = ALL_TESTS" using Cons.prems(1) bit_ALL_TESTS [of 12] by (auto simp: flag_ok_def)
  show ?case
  proof (cases "strcaseeq name a")
    case True
    have "\<not> bit ?f 12" using Cons.prems f12 by (simp add: t bit_or_iff)
    moreover from this have "flag_ok ?f" by (simp add: flag_ok_def)
    moreover have "bit ?f j \<longleftrightarrow> bit flag j \<or> (\<not> bit f 12 \<and> bit f j)" for j by (auto simp: f12 bit_or_iff)
    moreover note Cons.IH [of ?f]
    ultimately show ?thesis using Cons.prems(2) True by (auto simp: t selects_def split: if_splits)
  next
    case False
    then show ?thesis using Cons.IH [of f] Cons.prems by (auto simp: t selects_def split: if_splits)
  qed
qed simp

abbreviation tests :: "(string \<times> u32) list" where
  "tests \<equiv> zip TEST_NAMES TEST_FLAGS"

definition mentions :: "string \<Rightarrow> bool" where
  "mentions a \<longleftrightarrow> (\<exists>(name, flag)\<in>set tests. strcaseeq name a)"

definition selection :: "u32 \<Rightarrow> string set \<Rightarrow> bool" where
  "selection f as \<longleftrightarrow> flag_ok f
     \<and> (if \<exists>a\<in>as. mentions a then \<not> bit f 12 \<and> (\<forall>j. bit f j \<longleftrightarrow> (\<exists>a\<in>as. selects tests a j)) else f = ALL_TESTS)"

lemma tests_eq:
  "tests = [(''Barrier'', push_bit 0 1), (''Bcast'', push_bit 1 1), (''Alltoall'', push_bit 2 1), (''Allgather'', push_bit 3 1),
     (''Gather'', push_bit 4 1), (''Scatter'', push_bit 5 1), (''Allreduce'', push_bit 6 1), (''Reduce'', push_bit 7 1),
     (''Alltoallv'', push_bit 8 1), (''Allgatherv'', push_bit 9 1), (''Gatherv'', push_bit 10 1)]"
  by (simp add: TEST_NAMES_def TEST_FLAGS_def push_bit_eq_mult)

lemma no_flag_12: "\<forall>(name, flag)\<in>set tests. \<not> bit flag 12"
  by (simp add: tests_eq bit_simps)

lemma mentions_selects: "\<not> mentions a \<Longrightarrow> \<not> selects tests a j"
  by (auto simp: mentions_def selects_def)

lemma selection_skip: "\<not> mentions a \<Longrightarrow> selection f (insert a as) = selection f as"
  by (simp add: selection_def mentions_selects)

lemma selection_step:
  assumes "selection f as" shows "selection (test_loop tests a f) (insert a as)"
proof (cases "mentions a")
  case False
  moreover have "test_loop tests a f = f"
    using test_loop_bits [OF _ no_flag_12, of f a] assms False by (auto simp: selection_def mentions_def split: if_splits)
  ultimately show ?thesis using assms by (simp add: selection_skip)
next
  case True
  then have t: "flag_ok (test_loop tests a f)" "\<not> bit (test_loop tests a f) 12"
    "bit (test_loop tests a f) j \<longleftrightarrow> selects tests a j \<or> (\<not> bit f 12 \<and> bit f j)" for j
    using test_loop_bits [OF _ no_flag_12, of f a] assms by (auto simp: selection_def mentions_def split: if_splits)
  have "(\<not> bit f 12 \<and> bit f j) \<longleftrightarrow> (\<exists>a\<in>as. selects tests a j)" for j
    using assms bit_ALL_TESTS [of 12] by (auto simp: selection_def mentions_def selects_def split: if_splits)
  with t True show ?thesis by (auto simp: selection_def)
qed

lemma dash_not_mentioned: "char_at a 0 = CHR ''-'' \<Longrightarrow> \<not> mentions a"
  by (cases a) (auto simp: mentions_def tests_eq strcaseeq_def char_at_def to_lower_def char_of_def Let_def)

lemma set_option_time:
  "set_option flag arg st = Return (Some st') \<Longrightarrow> flag \<noteq> CHR ''t'' \<Longrightarrow> timeLimit (args st') = timeLimit (args st)"
  by (auto simp: set_option_def Let_def bind_prog_Return_iff split: if_splits option.splits)

lemma set_option_flags:
  "set_option flag arg st = Return (Some st') \<Longrightarrow> testFlags (args st') = testFlags (args st)"
  by (auto simp: set_option_def Let_def bind_prog_Return_iff split: if_splits option.splits)

text \<open>What the loop keeps if its steps do, with the arguments it has passed.\<close>

lemma args_loop_invariant:
  assumes "args_loop as st = Return (Some st', out)" and "I st seen" and "set as \<subseteq> U"
    and after: "\<And>s b S. I s S \<Longrightarrow> I (after_option b s) (insert b S)"
    and check: "\<And>s a S. I s S \<Longrightarrow> char_at a 0 = CHR ''-'' \<Longrightarrow> I (set_check (char_at a 1) s) (insert a S)"
    and opt: "\<And>s s' a arg S. I s S \<Longrightarrow> a \<in> U \<Longrightarrow> char_at a 0 = CHR ''-''
      \<Longrightarrow> set_option (char_at a 1) arg s = Return (Some s') \<Longrightarrow> I s' (insert a S)"
  shows "I st' (set as \<union> seen)"
  using assms(1-3)
proof (induction as st arbitrary: seen rule: args_loop.induct)
  case (2 a as st)
  let ?f = "char_at a 1"
  consider (plain) "char_at a 0 \<noteq> CHR ''-''" "args_loop as (after_option a st) = Return (Some st', out)"
    | (check) "\<not> char_at a 0 \<noteq> CHR ''-''" "?f \<in> set ''cC'' \<or> ?f = NUL"
        "args_loop as (set_check ?f st) = Return (Some st', out)"
    | (joined) s where "\<not> char_at a 0 \<noteq> CHR ''-''" "\<not> (?f \<in> set ''cC'' \<or> ?f = NUL)" "\<not> ?f \<notin> set ''beithmdp''"
        "char_at a 2 \<noteq> NUL" "set_option ?f (Some (drop 2 a)) st = Return (Some s)"
        "args_loop as (after_option a s) = Return (Some st', out)"
    | (separate) b bs s where "\<not> char_at a 0 \<noteq> CHR ''-''" "\<not> (?f \<in> set ''cC'' \<or> ?f = NUL)" "\<not> ?f \<notin> set ''beithmdp''"
        "\<not> char_at a 2 \<noteq> NUL" "as = b # bs" "set_option ?f (Some b) st = Return (Some s)"
        "args_loop bs (after_option b s) = Return (Some st', out)"
    using "2.prems"(1)
    by (simp add: Let_def bind_prog_Return_iff split: if_splits option.splits list.splits; blast)
  then show ?case
  proof cases
    case plain
    from "2.IH"(1) [OF refl plain after] "2.prems" show ?thesis by simp
  next
    case check
    then have "I (set_check ?f st) (insert a seen)" using "2.prems" assms(5) by simp
    from "2.IH"(2) [OF refl check(1,2,3) this] "2.prems" show ?thesis by simp
  next
    case joined
    then have "I s (insert a seen)" using "2.prems" opt by auto
    from "2.IH"(3) [OF refl joined(1-4,6) after [OF this]] "2.prems" show ?thesis by simp
  next
    case separate
    then have "I s (insert a seen)" using "2.prems" opt by auto
    from "2.IH"(4) [OF refl separate(1-5,7) after [OF this]] "2.prems" separate(5) show ?thesis
      by (simp add: insert_commute)
  qed
qed simp

lemma args_loop_selection:
  assumes "args_loop as st = Return (Some st', out)" and "selection (testFlags (args st)) {}"
  shows "selection (testFlags (args st')) (set as)"
  using args_loop_invariant [where I = "\<lambda>s. selection (testFlags (args s))" and seen = "{}", OF assms subset_refl]
  by (simp add: after_option_def Let_def selection_step set_check_def set_option_flags selection_skip dash_not_mentioned)

lemma TEST_FLAGS_nth: "k < 11 \<Longrightarrow> TEST_FLAGS ! k = push_bit k 1"
proof -
  assume k: "k < 11"
  have "TEST_FLAGS = map (\<lambda>k. push_bit k 1) [0..<11]" by (simp add: TEST_FLAGS_def upt_rec push_bit_eq_mult)
  then have "TEST_FLAGS ! k = map (\<lambda>k. push_bit k 1) [0..<11] ! k" by (rule arg_cong)
  then show ?thesis using k by simp
qed

text \<open>
  A test is selected exactly when it is named on the command line, without regard to case, or no test is.
\<close>

theorem processArgs_selects_tests:
  assumes "processArgs argv = Return (Some ar, out)" and "j < NUM_TESTS"
  shows "testFlags ar AND TEST_FLAGS ! j \<noteq> 0 \<longleftrightarrow>
    named (TEST_NAMES ! j) argv \<or> (\<forall>k<NUM_TESTS. \<not> named (TEST_NAMES ! k) argv)"
proof -
  obtain st where st: "args_loop argv \<lparr>args = default_args, iters_set = False, time_set = False\<rparr> = Return (Some st, out)"
    "ar = args st"
    using assms(1) by (auto simp: processArgs_def bind_prog_Return_iff split: option.splits if_splits)
  have "selection (testFlags default_args) {}"
    by (simp add: selection_def flag_ok_def default_args_def)
  with st have sel: "selection (testFlags ar) (set argv)" using args_loop_selection [OF st(1)] by simp
  have len: "length TEST_NAMES = 11" "length TEST_FLAGS = 11" by (simp_all add: TEST_NAMES_def TEST_FLAGS_def)
  have in_tests: "(name, flag) \<in> set tests \<longleftrightarrow> (\<exists>k<11. name = TEST_NAMES ! k \<and> flag = TEST_FLAGS ! k)" for name flag
    by (auto simp: set_zip len)
  have "mentions a \<longleftrightarrow> (\<exists>name flag. (name, flag) \<in> set tests \<and> strcaseeq name a)" for a
    by (auto simp: mentions_def)
  then have m: "mentions a \<longleftrightarrow> (\<exists>k<11. strcaseeq (TEST_NAMES ! k) a)" for a unfolding in_tests by blast
  have "selects tests a j \<longleftrightarrow> (\<exists>name flag. (name, flag) \<in> set tests \<and> strcaseeq name a \<and> bit flag j)" for a
    by (auto simp: selects_def)
  then have s: "selects tests a j \<longleftrightarrow> strcaseeq (TEST_NAMES ! j) a" for a
    using assms(2) unfolding in_tests by (fastforce simp: TEST_FLAGS_nth NUM_TESTS_def bit_simps)
  have "testFlags ar AND TEST_FLAGS ! j \<noteq> 0 \<longleftrightarrow> bit (testFlags ar) j"
    using assms(2) by (simp add: TEST_FLAGS_nth NUM_TESTS_def and_exp_eq_0_iff_not_bit)
  also have "\<dots> \<longleftrightarrow> named (TEST_NAMES ! j) argv \<or> (\<forall>k<NUM_TESTS. \<not> named (TEST_NAMES ! k) argv)"
    using sel assms(2) by (auto simp: selection_def m s named_def NUM_TESTS_def bit_ALL_TESTS split: if_splits)
  finally show ?thesis .
qed

theorem processArgs_selects_tests_witness:
  "\<exists>ar. processArgs [''mpiBench'', ''-c'', ''gather''] = Return (Some ar, [])
     \<and> testFlags ar AND TEST_FLAGS ! 4 \<noteq> 0 \<and> testFlags ar AND TEST_FLAGS ! 1 = 0"
proof -
  let ?argv = "[''mpiBench'', ''-c'', ''gather'']"
  let ?ar = "default_args\<lparr>timeLimit := 50000, testFlags := 0x10, checkOnce := True\<rparr>"
  have ar: "processArgs ?argv = Return (Some ?ar, [])" by code_simp
  have n: "named (TEST_NAMES ! 4) ?argv" "\<not> named (TEST_NAMES ! 1) ?argv" by code_simp+
  have "(4::nat) < NUM_TESTS" "(1::nat) < NUM_TESTS" by (simp_all add: NUM_TESTS_def)
  then show ?thesis
    using ar n processArgs_selects_tests [OF ar, of 4] processArgs_selects_tests [OF ar, of 1] by blast
qed

theorem atobytes_reads_witness: "atobytes (byte_string 32 (Some (CHR ''K'', True))) = Return 32768"
proof -
  have "unit_size (Some (CHR ''K'', True)) = Some 1024" by (simp add: unit_size_def byte_units_def KILO_def)
  from atobytes_reads [OF _ this, of 32] show ?thesis by simp
qed

subsection \<open>The time limit\<close>

text \<open>
  The time limit for a run in which neither limit is given is set when the name of the program is looked
  at, before any option is: an iteration limit does not turn it off.
\<close>

theorem processArgs_time_limit:
  assumes "processArgs (prog # argv) = Return (Some ar, out)"
    and "char_at prog 0 \<noteq> CHR ''-''" and "\<forall>a\<in>set argv. take 2 a \<noteq> ''-t''"
  shows "timeLimit ar = 50000"
proof -
  let ?st = "after_option prog \<lparr>args = default_args, iters_set = False, time_set = False\<rparr>"
  obtain st where st: "args_loop argv ?st = Return (Some st, out)" "ar = args st"
    using assms(1,2) by (auto simp: processArgs_def bind_prog_Return_iff split: option.splits if_splits)
  have t: "char_at a 1 \<noteq> CHR ''t''" if "a \<in> set argv" "char_at a 0 = CHR ''-''" for a
    using assms(3) that by (cases a; cases "tl a") (auto simp: char_at_def)
  have start: "timeLimit (args ?st) = 50000" by (simp add: after_option_def)
  have "timeLimit (args st) = 50000"
  proof (rule args_loop_invariant [where I = "\<lambda>s _. timeLimit (args s) = 50000" and seen = "{}", OF st(1) start subset_refl])
    show "timeLimit (args (after_option b s)) = 50000" if "timeLimit (args s) = 50000" for s b
      using that by (simp add: after_option_def Let_def)
    show "timeLimit (args (set_check (char_at a 1) s)) = 50000" if "timeLimit (args s) = 50000" for s a
      using that by (simp add: set_check_def)
    show "timeLimit (args s') = 50000"
      if "timeLimit (args s) = 50000" "a \<in> set argv" "char_at a 0 = CHR ''-''"
        "set_option (char_at a 1) arg s = Return (Some s')" for s s' a arg
      using set_option_time [OF that(4) t] that(1-3) by simp
  qed
  with st(2) show ?thesis by simp
qed

theorem processArgs_time_limit_witness:
  "\<exists>ar out. processArgs [''mpiBench'', ''-i'', ''7''] = Return (Some ar, out) \<and> iters ar = 7 \<and> timeLimit ar = 50000"
proof -
  have ar: "processArgs [''mpiBench'', ''-i'', ''7''] = Return (Some (default_args\<lparr>timeLimit := 50000, iters := 7\<rparr>), [])"
    by code_simp
  with processArgs_time_limit [OF ar] show ?thesis by (simp add: char_at_def)
qed

end
