(* ===== verification/Mpibench.thy ===== *)
theory Mpibench
  imports Mpibench_Args Mpi_Collectives "HOL-Library.Signed_Division"
begin

text \<open>
  \<^verbatim>\<open>mpiBench\<close>: the buffers, their check patterns and the timed collectives. The job is modelled as a whole.
  A process has its world rank, its buffers, its arrays of counts and displacements and the number of times
  it has read its clock; a communicator is the list of its members in rank order, and a call on it is one
  step of all its members, which is what the collectives and the barriers between them make of it. The
  arithmetic of the timing \<^verbatim>\<open>double\<close>s and the clock are parameters; nothing but the number of iterations and
  the printed figures depends on them. Signed overflow is undefined.

  The lemmas show that the checks find every byte that differs and every block from a wrong member, and that
  each timed collective, called on buffers of the size the main program allocates, runs its iterations within
  the buffers and accepts what MPI delivers.
\<close>

record bproc =
  rank_local :: nat
  sbuffer :: "byte list"
  rbuffer :: "byte list"
  sendcounts :: "int list"
  sdispls :: "int list"
  recvcounts :: "int list"
  rdispls :: "int list"
  clock :: nat

record bcfg =
  buffer_size :: u64
  check_once :: bool
  check_every :: bool

subsection \<open>Patterns\<close>

definition pattern :: "nat \<Rightarrow> u64 \<Rightarrow> byte" where
  "pattern rank i = ucast ((i + 1) * (of_nat rank + 1) + i)"

definition init_sbuffer :: "bcfg \<Rightarrow> nat \<Rightarrow> bproc \<Rightarrow> bproc prog" where
  "init_sbuffer G rank p =
     (let n = unat (buffer_size G) in
      if length (sbuffer p) < n then Undefined
      else Return (p\<lparr>sbuffer := map (\<lambda>i. pattern rank (of_nat i)) [0..<n] @ drop n (sbuffer p)\<rparr>))"

definition init_rbuffer :: "bcfg \<Rightarrow> nat \<Rightarrow> bproc \<Rightarrow> bproc prog" where
  "init_rbuffer G rank p =
     (let n = unat (buffer_size G) in
      if length (rbuffer p) < n then Undefined
      else Return (p\<lparr>rbuffer := replicate n 0 @ drop n (rbuffer p)\<rparr>))"

text \<open>
  The comparison loop shared by the checks: bytes of \<open>buf\<close> from \<open>off\<close> on with the pattern from \<open>j0\<close> on.
  A mismatch is reported and aborts the job.
\<close>

fun check_loop :: "(nat \<Rightarrow> string) \<Rightarrow> byte list \<Rightarrow> nat \<Rightarrow> nat \<Rightarrow> u64 \<Rightarrow> nat list \<Rightarrow> unit prog" where
  "check_loop report buf off rank j0 [] = Return ()"
| "check_loop report buf off rank j0 (i # is) =
     (if length buf \<le> off + i then Undefined
      else if buf ! (off + i) \<noteq> pattern rank (j0 + of_nat i) then Exit 1 (report i)
      else check_loop report buf off rank j0 is)"

definition show_size :: "nat \<Rightarrow> string" where
  "show_size n = show_int (int_of_size n)"

definition check_sbuffer :: "bcfg \<Rightarrow> nat \<Rightarrow> bproc \<Rightarrow> unit prog" where
  "check_sbuffer G rank p =
     check_loop (\<lambda>i. ''Send buffer corruption detected on rank '' @ show_nat rank @ '' at sbuffer['' @ show_size i @ '']'' @ newline)
       (sbuffer p) 0 rank 0 [0..<unat (buffer_size G)]"

definition check_rbuffer :: "bproc \<Rightarrow> byte list \<Rightarrow> u64 \<Rightarrow> nat \<Rightarrow> u64 \<Rightarrow> u64 \<Rightarrow> unit prog" where
  "check_rbuffer p buffer byte_offset rank src_byte_offset element_count =
     check_loop (\<lambda>i. ''Receive buffer corruption detected on rank '' @ show_nat (rank_local p) @ '' at rbuffer[''
         @ show_size (unat byte_offset + i) @ ''] from rank '' @ show_nat rank @ newline)
       buffer (unat byte_offset) rank src_byte_offset [0..<unat element_count]"

subsection \<open>Timed collectives\<close>

record collParams =
  psize :: u64
  piter :: int
  proot :: nat
  pcount :: int
  ptype :: mpi_type

definition WTIME_FACTOR :: int where "WTIME_FACTOR = 1000000"

record 'd benv =
  FP :: "'d fpu"
  MPI :: mpi_coll
  MPI_Wtime :: "nat \<Rightarrow> nat \<Rightarrow> 'd"

text \<open>The loop between the two clock readings of every member, and the time of an iteration each computes.\<close>

definition timed ::
    "'d benv \<Rightarrow> collParams \<Rightarrow> (int \<Rightarrow> bproc list \<Rightarrow> bproc list prog) \<Rightarrow> bproc list
     \<Rightarrow> (bproc list \<times> 'd list) prog" where
  "timed E p body ps =
     bind_prog (fold_prog body (map int [0..<nat (piter p)]) (map (\<lambda>q. q\<lparr>clock := clock q + 1\<rparr>) ps)) (\<lambda>qs.
       let rs = map (\<lambda>q. q\<lparr>clock := clock q + 1\<rparr>) qs;
           F = FP E;
           usecs = (\<lambda>r. f_mul F (f_sub F (MPI_Wtime E (rank_local r) (clock r - 1)) (MPI_Wtime E (rank_local r) (clock r - 2)))
                          (f_int F WTIME_FACTOR))
       in Return (rs, map (\<lambda>r. f_div F (usecs r) (f_int F (piter p))) rs))"

text \<open>Every member, with its rank in the communicator.\<close>

definition each_rank :: "(nat \<Rightarrow> bproc \<Rightarrow> 'a prog) \<Rightarrow> bproc list \<Rightarrow> 'a list prog" where
  "each_rank f ps = traverse_prog (\<lambda>(r, p). f r p) (enumerate 0 ps)"

text \<open>
  The body of the loops: on a checked iteration the buffers are initialised before the call and compared
  after it.
\<close>

definition checked ::
    "bcfg \<Rightarrow> collParams \<Rightarrow> (bproc list \<Rightarrow> bproc list) \<Rightarrow> (bproc list \<Rightarrow> nat \<Rightarrow> bproc \<Rightarrow> unit prog)
     \<Rightarrow> int \<Rightarrow> bproc list \<Rightarrow> bproc list prog" where
  "checked G p call check i ps =
     (if check_every G \<or> (check_once G \<and> i = piter p - 1) then
        bind_prog (each_rank (\<lambda>r q. bind_prog (init_sbuffer G r q) (init_rbuffer G r)) ps) (\<lambda>ps.
          let qs = call ps in
          bind_prog (each_rank (\<lambda>r q. bind_prog (check_sbuffer G r q) (\<lambda>_. check qs r q)) qs) (\<lambda>_. Return qs))
      else Return (call ps))"

definition with_rbuffers :: "bufs \<Rightarrow> bproc list \<Rightarrow> bproc list" where
  "with_rbuffers rb ps = map2 (\<lambda>b p. p\<lparr>rbuffer := b\<rparr>) rb ps"

text \<open>The comparison of the blocks that come from every member.\<close>

definition check_blocks :: "nat \<Rightarrow> (nat \<Rightarrow> unit prog) \<Rightarrow> unit prog" where
  "check_blocks n f = bind_prog (traverse_prog f [0..<n]) (\<lambda>_. Return ())"

definition time_barrier :: "'d benv \<Rightarrow> bcfg \<Rightarrow> collParams \<Rightarrow> bproc list \<Rightarrow> (bproc list \<times> 'd list) prog" where
  "time_barrier E G p ps = timed E p (\<lambda>i ps. Return ps) ps"

text \<open>The root broadcasts its send buffer, the others receive into their receive buffers.\<close>

definition bcast_buffer :: "collParams \<Rightarrow> nat \<Rightarrow> bproc \<Rightarrow> byte list" where
  "bcast_buffer p r q = (if r = proot p then sbuffer q else rbuffer q)"

definition call_bcast :: "'d benv \<Rightarrow> collParams \<Rightarrow> bproc list \<Rightarrow> bproc list" where
  "call_bcast E p ps =
     map2 (\<lambda>b (r, q). if r = proot p then q\<lparr>sbuffer := b\<rparr> else q\<lparr>rbuffer := b\<rparr>)
       (MPI_Bcast (MPI E) (pcount p) (ptype p) (proot p) (map (\<lambda>(r, q). bcast_buffer p r q) (enumerate 0 ps)))
       (enumerate 0 ps)"

definition time_bcast :: "'d benv \<Rightarrow> bcfg \<Rightarrow> collParams \<Rightarrow> bproc list \<Rightarrow> (bproc list \<times> 'd list) prog" where
  "time_bcast E G p ps =
     timed E p (checked G p (call_bcast E p)
       (\<lambda>qs r q. check_rbuffer q (bcast_buffer p r q) 0 (proot p) 0 (psize p))) ps"

definition time_alltoall :: "'d benv \<Rightarrow> bcfg \<Rightarrow> collParams \<Rightarrow> bproc list \<Rightarrow> (bproc list \<times> 'd list) prog" where
  "time_alltoall E G p ps =
     timed E p (checked G p
       (\<lambda>ps. with_rbuffers (MPI_Alltoall (MPI E) (pcount p) (ptype p) (int_of_size (unat (psize p))) (ptype p)
                              (map sbuffer ps) (map rbuffer ps)) ps)
       (\<lambda>qs r q. check_blocks (length qs) (\<lambda>j.
          check_rbuffer q (rbuffer q) (of_nat j * psize p) j (of_nat r * psize p) (psize p)))) ps"

definition time_allgather :: "'d benv \<Rightarrow> bcfg \<Rightarrow> collParams \<Rightarrow> bproc list \<Rightarrow> (bproc list \<times> 'd list) prog" where
  "time_allgather E G p ps =
     timed E p (checked G p
       (\<lambda>ps. with_rbuffers (MPI_Allgather (MPI E) (pcount p) (ptype p) (pcount p) (ptype p)
                              (map sbuffer ps) (map rbuffer ps)) ps)
       (\<lambda>qs r q. check_blocks (length qs) (\<lambda>j.
          check_rbuffer q (rbuffer q) (of_nat j * psize p) j 0 (psize p)))) ps"

definition time_gather :: "'d benv \<Rightarrow> bcfg \<Rightarrow> collParams \<Rightarrow> bproc list \<Rightarrow> (bproc list \<times> 'd list) prog" where
  "time_gather E G p ps =
     timed E p (checked G p
       (\<lambda>ps. with_rbuffers (MPI_Gather (MPI E) (pcount p) (ptype p) (pcount p) (ptype p) (proot p)
                              (map sbuffer ps) (map rbuffer ps)) ps)
       (\<lambda>qs r q. if r = proot p
          then check_blocks (length qs) (\<lambda>j. check_rbuffer q (rbuffer q) (of_nat j * psize p) j 0 (psize p))
          else Return ())) ps"

definition time_scatter :: "'d benv \<Rightarrow> bcfg \<Rightarrow> collParams \<Rightarrow> bproc list \<Rightarrow> (bproc list \<times> 'd list) prog" where
  "time_scatter E G p ps =
     timed E p (checked G p
       (\<lambda>ps. with_rbuffers (MPI_Scatter (MPI E) (pcount p) (ptype p) (pcount p) (ptype p) (proot p)
                              (map sbuffer ps) (map rbuffer ps)) ps)
       (\<lambda>qs r q. check_rbuffer q (rbuffer q) 0 (proot p) (of_nat r * psize p) (psize p))) ps"

definition time_allreduce :: "'d benv \<Rightarrow> bcfg \<Rightarrow> collParams \<Rightarrow> bproc list \<Rightarrow> (bproc list \<times> 'd list) prog" where
  "time_allreduce E G p ps =
     timed E p (\<lambda>i ps. Return (with_rbuffers
       (MPI_Allreduce (MPI E) (pcount p) (ptype p) (map sbuffer ps) (map rbuffer ps)) ps)) ps"

definition time_reduce :: "'d benv \<Rightarrow> bcfg \<Rightarrow> collParams \<Rightarrow> bproc list \<Rightarrow> (bproc list \<times> 'd list) prog" where
  "time_reduce E G p ps =
     timed E p (\<lambda>i ps. Return (with_rbuffers
       (MPI_Reduce (MPI E) (pcount p) (ptype p) (proot p) (map sbuffer ps) (map rbuffer ps)) ps)) ps"

subsection \<open>Collectives with counts\<close>

text \<open>Division and remainder of \<^verbatim>\<open>int\<close>s round towards zero.\<close>

definition chunksize :: "collParams \<Rightarrow> nat \<Rightarrow> int" where
  "chunksize p nranks = (let c = pcount p sdiv int nranks in if c = 0 then 1 else c)"

text \<open>
  The loop that fills a count and a displacement for every index from 0 on: \<open>f i\<close> is the product before
  the remainder is taken. Both the product and the running displacement are \<^verbatim>\<open>int\<close>s.
\<close>

fun fill_counts :: "(nat \<Rightarrow> int) \<Rightarrow> int \<Rightarrow> nat \<Rightarrow> nat \<Rightarrow> int \<Rightarrow> (int list \<times> int list) prog" where
  "fill_counts f m i 0 disp = Return ([], [])"
| "fill_counts f m i (Suc n) disp =
     (if m = 0 \<or> \<not> int_ok (f i) \<or> \<not> int_ok (disp + f i smod m) then Undefined
      else bind_prog (fill_counts f m (Suc i) n (disp + f i smod m)) (\<lambda>(cs, ds).
             Return (f i smod m # cs, disp # ds)))"

definition store :: "'a list \<Rightarrow> 'a list \<Rightarrow> 'a list prog" where
  "store xs old = (if length old < length xs then Undefined else Return (xs @ drop (length xs) old))"

definition fill_send_recv :: "collParams \<Rightarrow> nat \<Rightarrow> nat \<Rightarrow> bproc \<Rightarrow> bproc prog" where
  "fill_send_recv p nranks r q =
     bind_prog (fill_counts (\<lambda>i. (int i + int r) * chunksize p nranks) (pcount p + 1) 0 nranks 0) (\<lambda>(cs, ds).
     bind_prog (store cs (sendcounts q)) (\<lambda>sc. bind_prog (store cs (recvcounts q)) (\<lambda>rc.
     bind_prog (store ds (sdispls q)) (\<lambda>sd. bind_prog (store ds (rdispls q)) (\<lambda>rd.
       Return (q\<lparr>sendcounts := sc, recvcounts := rc, sdispls := sd, rdispls := rd\<rparr>))))))"

definition fill_recv :: "collParams \<Rightarrow> nat \<Rightarrow> nat \<Rightarrow> bproc \<Rightarrow> bproc prog" where
  "fill_recv p nranks r q =
     bind_prog (fill_counts (\<lambda>i. int i * chunksize p nranks) (pcount p + 1) 0 nranks 0) (\<lambda>(cs, ds).
     bind_prog (store cs (recvcounts q)) (\<lambda>rc. bind_prog (store ds (rdispls q)) (\<lambda>rd.
       Return (q\<lparr>recvcounts := rc, rdispls := rd\<rparr>))))"

definition scale :: "collParams \<Rightarrow> u64" where
  "scale p = (if 0 < pcount p then psize p div word_of_int (pcount p) else 0)"

text \<open>The displacement at the sender, which the receiver computes again, now with a \<^verbatim>\<open>size_t\<close> modulus.\<close>

definition sender_disp :: "collParams \<Rightarrow> nat \<Rightarrow> nat \<Rightarrow> nat \<Rightarrow> int" where
  "sender_disp p nranks r k =
     fold (\<lambda>j disp. sint (ucast ((word_of_int disp :: u64)
         + word_of_int ((int j + int k) * chunksize p nranks) mod (psize p + 1)) :: u32)) [0..<r] 0"

definition time_alltoallv :: "'d benv \<Rightarrow> bcfg \<Rightarrow> collParams \<Rightarrow> bproc list \<Rightarrow> (bproc list \<times> 'd list) prog" where
  "time_alltoallv E G p ps =
     bind_prog (each_rank (fill_send_recv p (length ps)) ps) (\<lambda>ps.
       timed E p (checked G p
         (\<lambda>ps. with_rbuffers (MPI_Alltoallv (MPI E) (map sendcounts ps) (map sdispls ps) (ptype p)
                                (map recvcounts ps) (map rdispls ps) (ptype p) (map sbuffer ps) (map rbuffer ps)) ps)
         (\<lambda>qs r q. check_blocks (length qs) (\<lambda>k.
            check_rbuffer q (rbuffer q) (word_of_int (rdispls q ! k) * scale p) k (word_of_int (sender_disp p (length qs) r k))
              (word_of_int (recvcounts q ! k) * scale p)))) ps)"

definition own_count :: "collParams \<Rightarrow> nat \<Rightarrow> nat \<Rightarrow> int" where
  "own_count p nranks r = (int r * chunksize p nranks) smod (pcount p + 1)"

definition check_gathered :: "collParams \<Rightarrow> bproc list \<Rightarrow> bproc \<Rightarrow> unit prog" where
  "check_gathered p qs q = check_blocks (length qs) (\<lambda>j.
     check_rbuffer q (rbuffer q) (word_of_int (rdispls q ! j) * scale p) j 0 (word_of_int (recvcounts q ! j) * scale p))"

definition time_allgatherv :: "'d benv \<Rightarrow> bcfg \<Rightarrow> collParams \<Rightarrow> bproc list \<Rightarrow> (bproc list \<times> 'd list) prog" where
  "time_allgatherv E G p ps =
     bind_prog (each_rank (fill_recv p (length ps)) ps) (\<lambda>ps.
       timed E p (checked G p
         (\<lambda>ps. with_rbuffers (MPI_Allgatherv (MPI E) (map (own_count p (length ps)) [0..<length ps]) (ptype p)
                                (map recvcounts ps) (map rdispls ps) (ptype p) (map sbuffer ps) (map rbuffer ps)) ps)
         (\<lambda>qs r q. check_gathered p qs q)) ps)"

definition time_gatherv :: "'d benv \<Rightarrow> bcfg \<Rightarrow> collParams \<Rightarrow> bproc list \<Rightarrow> (bproc list \<times> 'd list) prog" where
  "time_gatherv E G p ps =
     bind_prog (each_rank (fill_recv p (length ps)) ps) (\<lambda>ps.
       timed E p (checked G p
         (\<lambda>ps. with_rbuffers (MPI_Gatherv (MPI E) (map (own_count p (length ps)) [0..<length ps]) (ptype p)
                                (map recvcounts ps) (map rdispls ps) (ptype p) (proot p) (map sbuffer ps) (map rbuffer ps)) ps)
         (\<lambda>qs r q. if r = proot p then check_gathered p qs q else Return ())) ps)"


subsection \<open>The checks accept what MPI delivers\<close>

text \<open>What a collective leaves as it is: everything but the contents of the buffers and the clocks.\<close>

definition frame :: "bproc list \<Rightarrow> bproc list \<Rightarrow> bool" where
  "frame ps qs \<longleftrightarrow> length qs = length ps \<and> (\<forall>r<length ps.
     rank_local (qs ! r) = rank_local (ps ! r)
     \<and> sendcounts (qs ! r) = sendcounts (ps ! r) \<and> sdispls (qs ! r) = sdispls (ps ! r)
     \<and> recvcounts (qs ! r) = recvcounts (ps ! r) \<and> rdispls (qs ! r) = rdispls (ps ! r)
     \<and> length (sbuffer (qs ! r)) = length (sbuffer (ps ! r)) \<and> length (rbuffer (qs ! r)) = length (rbuffer (ps ! r)))"

definition bufs_ok :: "bcfg \<Rightarrow> bproc list \<Rightarrow> bool" where
  "bufs_ok G ps \<longleftrightarrow>
     (\<forall>q\<in>set ps. length (sbuffer q) = unat (buffer_size G) \<and> length (rbuffer q) = unat (buffer_size G))"

definition filled :: "bcfg \<Rightarrow> bproc list \<Rightarrow> bool" where
  "filled G ps \<longleftrightarrow> (\<forall>r<length ps. \<forall>i<unat (buffer_size G). sbuffer (ps ! r) ! i = pattern r (of_nat i))"

lemma frame_refl [simp]: "frame ps ps"
  by (simp add: frame_def)

lemma frame_trans: "frame ps qs \<Longrightarrow> frame qs rs \<Longrightarrow> frame ps rs"
  by (simp add: frame_def)

lemma frame_length: "frame ps qs \<Longrightarrow> length qs = length ps"
  by (simp add: frame_def)

lemma frame_bufs_ok: "frame ps qs \<Longrightarrow> bufs_ok G ps \<Longrightarrow> bufs_ok G qs"
  by (simp add: frame_def bufs_ok_def all_set_conv_all_nth)

lemma bufs_ok_nth:
  assumes "bufs_ok G ps" "r < length ps"
  shows "length (sbuffer (ps ! r)) = unat (buffer_size G)" "length (rbuffer (ps ! r)) = unat (buffer_size G)"
  using assms by (simp_all add: bufs_ok_def)

lemma check_loop_Return:
  "check_loop report buf off rank j0 is = Return ()
   \<longleftrightarrow> (\<forall>i\<in>set is. off + i < length buf \<and> buf ! (off + i) = pattern rank (j0 + of_nat i))"
  by (induction "is") auto

lemma check_sbuffer_filled:
  "filled G ps \<Longrightarrow> bufs_ok G ps \<Longrightarrow> r < length ps \<Longrightarrow> check_sbuffer G r (ps ! r) = Return ()"
  by (simp add: check_sbuffer_def check_loop_Return filled_def bufs_ok_nth)

lemma each_rank_Return:
  assumes "\<And>r. r < length ps \<Longrightarrow> f r (ps ! r) = Return (g r)"
  shows "each_rank f ps = Return (map g [0..<length ps])"
proof -
  have e: "enumerate 0 ps = map (\<lambda>r. (r, ps ! r)) [0..<length ps]" by (rule nth_equalityI) (simp_all add: nth_enumerate_eq)
  have "each_rank f ps = Return (map (\<lambda>(r, p). g r) (enumerate 0 ps))"
    unfolding each_rank_def by (rule traverse_prog_Return) (auto simp: e assms)
  then show ?thesis by (simp add: e o_def)
qed

lemma init_filled:
  assumes "bufs_ok G ps"
  obtains qs where "each_rank (\<lambda>r q. bind_prog (init_sbuffer G r q) (init_rbuffer G r)) ps = Return qs"
    "frame ps qs" "filled G qs"
proof -
  let ?n = "unat (buffer_size G)"
  let ?g = "\<lambda>r. (ps ! r)\<lparr>sbuffer := map (\<lambda>i. pattern r (of_nat i)) [0..<?n], rbuffer := replicate ?n 0\<rparr>"
  have "bind_prog (init_sbuffer G r (ps ! r)) (init_rbuffer G r) = Return (?g r)" if "r < length ps" for r
    using bufs_ok_nth [OF assms that] by (simp add: init_sbuffer_def init_rbuffer_def Let_def)
  then have "each_rank (\<lambda>r q. bind_prog (init_sbuffer G r q) (init_rbuffer G r)) ps = Return (map ?g [0..<length ps])"
    by (rule each_rank_Return)
  moreover have "frame ps (map ?g [0..<length ps])" using bufs_ok_nth [OF assms] by (simp add: frame_def)
  moreover have "filled G (map ?g [0..<length ps])" by (simp add: filled_def)
  ultimately show ?thesis by (rule that)
qed

text \<open>One iteration ends without a complaint if the call keeps the frame and the comparison accepts its result.\<close>

lemma checked_Return:
  assumes "frame ps qs" and "bufs_ok G ps"
    and call: "\<And>qs. frame ps qs \<Longrightarrow> frame ps (call qs)"
    and check: "\<And>qs. frame ps qs \<Longrightarrow> filled G qs \<Longrightarrow>
      filled G (call qs) \<and> (\<forall>r<length ps. check (call qs) r (call qs ! r) = Return ())"
  shows "\<exists>rs. checked G p call check i qs = Return rs \<and> frame ps rs"
proof -
  have "bufs_ok G qs" using frame_bufs_ok [OF assms(1,2)] .
  then obtain qs' where init: "each_rank (\<lambda>r q. bind_prog (init_sbuffer G r q) (init_rbuffer G r)) qs = Return qs'"
    "frame qs qs'" "filled G qs'" by (rule init_filled)
  have f: "frame ps qs'" using frame_trans [OF assms(1) init(2)] .
  let ?rs = "call qs'"
  have rs: "frame ps ?rs" "length ?rs = length ps" "bufs_ok G ?rs" "filled G ?rs"
    using call [OF f] check [OF f init(3)] frame_bufs_ok [OF _ assms(2)] frame_length by blast+
  have "each_rank (\<lambda>r q. bind_prog (check_sbuffer G r q) (\<lambda>_. check ?rs r q)) ?rs = Return (map (\<lambda>_. ()) [0..<length ?rs])"
    using check [OF f init(3)] rs by (intro each_rank_Return) (simp add: check_sbuffer_filled)
  with init(1) rs(1) call [OF assms(1)] show ?thesis by (auto simp: checked_def Let_def)
qed

lemma frame_clock: "frame ps qs \<Longrightarrow> frame ps (map (\<lambda>q. q\<lparr>clock := clock q + 1\<rparr>) qs)"
  by (simp add: frame_def)

lemma timed_Return:
  assumes "\<And>i qs. frame ps qs \<Longrightarrow> \<exists>rs. body i qs = Return rs \<and> frame ps rs"
  shows "\<exists>rs ts. timed E p body ps = Return (rs, ts) \<and> frame ps rs \<and> length ts = length ps"
proof -
  have "\<exists>s'. fold_prog body (map int [0..<nat (piter p)]) (map (\<lambda>q. q\<lparr>clock := clock q + 1\<rparr>) ps) = Return s' \<and> frame ps s'"
    using assms by (intro fold_prog_invariant frame_clock) auto
  then show ?thesis using frame_clock frame_length by (fastforce simp: timed_def Let_def)
qed

lemma frame_rbuffers:
  assumes "map length rb = map length (map rbuffer qs)" and "frame ps qs"
  shows "frame ps (with_rbuffers rb qs)"
  using assms by (simp add: frame_def with_rbuffers_def list_eq_iff_nth_eq)

lemma filled_rbuffers: "length rb = length qs \<Longrightarrow> filled G qs \<Longrightarrow> filled G (with_rbuffers rb qs)"
  by (simp add: filled_def with_rbuffers_def)

lemma check_blocks_Return: "(\<And>j. j < n \<Longrightarrow> f j = Return ()) \<Longrightarrow> check_blocks n f = Return ()"
  using traverse_prog_Return [of "[0..<n]" f "\<lambda>_. ()"] by (simp add: check_blocks_def)

text \<open>The iterations of a collective that receives into the receive buffers.\<close>

lemma checked_delivery:
  assumes "bufs_ok G ps"
    and fits: "\<And>qs. frame ps qs \<Longrightarrow> fits T (map sbuffer qs) (map rbuffer qs)"
    and op: "\<And>qs. frame ps qs \<Longrightarrow> fits T (map sbuffer qs) (map rbuffer qs)
      \<Longrightarrow> delivered T (map sbuffer qs) (map rbuffer qs) (op qs)"
    and check: "\<And>qs rb r. frame ps qs \<Longrightarrow> filled G qs \<Longrightarrow> map length rb = map length (map rbuffer qs)
      \<Longrightarrow> (\<And>t b. t \<in> set T \<Longrightarrow> b < len t \<Longrightarrow> rb ! dst t ! (dst_off t + b) = pattern (src t) (of_nat (src_off t + b)))
      \<Longrightarrow> r < length ps \<Longrightarrow> check (with_rbuffers rb qs) r (with_rbuffers rb qs ! r) = Return ()"
  shows "\<exists>rs ts. timed E p (checked G p (\<lambda>qs. with_rbuffers (op qs) qs) check) ps = Return (rs, ts)
    \<and> frame ps rs \<and> length ts = length ps"
proof (rule timed_Return, rule checked_Return [OF _ assms(1)])
  fix qs assume f: "frame ps qs"
  from op [OF f fits [OF f]] have d: "delivered T (map sbuffer qs) (map rbuffer qs) (op qs)" .
  then have len: "map length (op qs) = map length (map rbuffer qs)" by (simp add: delivered_def)
  show "frame ps (with_rbuffers (op qs) qs)" using len f by (rule frame_rbuffers)
  show "filled G (with_rbuffers (op qs) qs)
      \<and> (\<forall>r<length ps. check (with_rbuffers (op qs) qs) r (with_rbuffers (op qs) qs ! r) = Return ())"
    if fl: "filled G qs"
  proof (intro conjI allI impI)
    from len have "length (op qs) = length qs" by (metis length_map)
    with fl show "filled G (with_rbuffers (op qs) qs)" by (intro filled_rbuffers)
    fix r assume "r < length ps"
    show "check (with_rbuffers (op qs) qs) r (with_rbuffers (op qs) qs ! r) = Return ()"
    proof (rule check [OF f fl len _ \<open>r < length ps\<close>])
      fix t b assume t: "t \<in> set T" "b < len t"
      with fits [OF f] have "in_range (map sbuffer qs) (map rbuffer qs) t" by (simp add: fits_def)
      then have s: "src t < length qs" "src_off t + b < unat (buffer_size G)"
        using t(2) bufs_ok_nth(1) [OF frame_bufs_ok [OF f assms(1)], of "src t"] by (auto simp: in_range_def)
      have "op qs ! dst t ! (dst_off t + b) = map sbuffer qs ! src t ! (src_off t + b)"
        using d t by (simp add: delivered_def)
      with s fl show "op qs ! dst t ! (dst_off t + b) = pattern (src t) (of_nat (src_off t + b))"
        by (simp add: filled_def)
    qed
  qed
qed


text \<open>A message size the buffers hold for every member, and the parameters of the tests on bytes.\<close>

definition params_ok :: "bcfg \<Rightarrow> collParams \<Rightarrow> nat \<Rightarrow> bool" where
  "params_ok G p N \<longleftrightarrow> N * unat (psize p) \<le> unat (buffer_size G) \<and> unat (buffer_size G) < 2 ^ 30 \<and> N < 2 ^ 30
     \<and> ptype p = MPI_BYTE \<and> pcount p = int (unat (psize p)) \<and> proot p < N"

lemma block_le:
  assumes "params_ok G p N" "j < N"
  shows "j * unat (psize p) + unat (psize p) \<le> unat (buffer_size G)" "unat (psize p) \<le> unat (buffer_size G)"
proof -
  have "Suc j * unat (psize p) \<le> N * unat (psize p)" using assms(2) by (intro mult_le_mono1) simp
  then show "j * unat (psize p) + unat (psize p) \<le> unat (buffer_size G)" using assms(1) by (simp add: params_ok_def)
  then show "unat (psize p) \<le> unat (buffer_size G)" by simp
qed

lemma unat_block:
  assumes "params_ok G p N" "j < N"
  shows "unat (of_nat j * psize p) = j * unat (psize p)"
proof -
  have "j * unat (psize p) < 2 ^ 64" using block_le(1) [OF assms] assms(1) by (simp add: params_ok_def)
  then have "unat (of_nat (j * unat (psize p)) :: u64) = j * unat (psize p)" by (intro unat_of_nat_small) simp
  then show ?thesis by simp
qed

lemma check_block:
  assumes "params_ok G p N" "j < N" "length buf = unat (buffer_size G)"
    and "\<And>b. b < unat (psize p) \<Longrightarrow> buf ! (j * unat (psize p) + b) = pattern s (of_nat (i * unat (psize p) + b))"
  shows "check_rbuffer q buf (of_nat j * psize p) s (of_nat i * psize p) (psize p) = Return ()"
  using assms block_le(1) [OF assms(1,2)]
  by (simp add: check_rbuffer_def check_loop_Return unat_block [OF assms(1,2)])

lemma check_block0:
  assumes "params_ok G p N" "j < N" "length buf = unat (buffer_size G)"
    and "\<And>b. b < unat (psize p) \<Longrightarrow> buf ! (j * unat (psize p) + b) = pattern s (of_nat b)"
  shows "check_rbuffer q buf (of_nat j * psize p) s 0 (psize p) = Return ()"
  using check_block [OF assms(1-3), of s 0 q] assms(4) by simp

lemma int_of_psize: "params_ok G p N \<Longrightarrow> j < N \<Longrightarrow> int_of_size (unat (psize p)) = pcount p"
  using block_le(2) [of G p N j] by (simp add: params_ok_def)

lemma nth_with_rbuffers:
  "length rb = length qs \<Longrightarrow> r < length qs \<Longrightarrow> with_rbuffers rb qs ! r = (qs ! r)\<lparr>rbuffer := rb ! r\<rparr>"
  by (simp add: with_rbuffers_def)

lemma length_with_rbuffers [simp]: "length rb = length qs \<Longrightarrow> length (with_rbuffers rb qs) = length qs"
  by (simp add: with_rbuffers_def)

lemma rb_lengths:
  assumes "map length rb = map length (map rbuffer qs)" "frame ps qs" "bufs_ok G ps" "r < length ps"
  shows "length rb = length qs" "length qs = length ps" "length (rb ! r) = unat (buffer_size G)"
proof -
  show l: "length rb = length qs" "length qs = length ps" using assms(1,2) frame_length by (metis length_map)+
  have "map length rb ! r = map length (map rbuffer qs) ! r" using assms(1) by simp
  then show "length (rb ! r) = unat (buffer_size G)"
    using l assms(4) bufs_ok_nth(2) [OF frame_bufs_ok [OF assms(2,3)], of r] by simp
qed

text \<open>A test returns, and keeps the sizes of all buffers and arrays.\<close>

definition keeps :: "bproc list \<Rightarrow> bproc list \<Rightarrow> bool" where
  "keeps ps qs \<longleftrightarrow> length qs = length ps \<and> (\<forall>r<length ps.
     rank_local (qs ! r) = rank_local (ps ! r)
     \<and> length (sbuffer (qs ! r)) = length (sbuffer (ps ! r)) \<and> length (rbuffer (qs ! r)) = length (rbuffer (ps ! r))
     \<and> length (sendcounts (qs ! r)) = length (sendcounts (ps ! r)) \<and> length (sdispls (qs ! r)) = length (sdispls (ps ! r))
     \<and> length (recvcounts (qs ! r)) = length (recvcounts (ps ! r)) \<and> length (rdispls (qs ! r)) = length (rdispls (ps ! r)))"

definition runs :: "(bproc list \<times> 'd list) prog \<Rightarrow> bproc list \<Rightarrow> bool" where
  "runs m ps \<longleftrightarrow> (\<exists>rs ts. m = Return (rs, ts) \<and> keeps ps rs \<and> length ts = length ps)"

lemma frame_keeps: "frame ps qs \<Longrightarrow> keeps ps qs"
  by (simp add: frame_def keeps_def)

lemma keeps_trans: "keeps ps qs \<Longrightarrow> keeps qs rs \<Longrightarrow> keeps ps rs"
  by (simp add: keeps_def)

lemma runs_frame:
  "\<exists>rs ts. m = Return (rs, ts) \<and> frame qs rs \<and> length ts = length qs \<Longrightarrow> keeps ps qs \<Longrightarrow> runs m ps"
  by (auto simp: runs_def keeps_def dest: frame_keeps)

lemma keeps_refl [simp]: "keeps ps ps"
  by (simp add: keeps_def)

context mpi_collectives
begin

lemma time_alltoall_runs:
  assumes "MPI E = M" "bufs_ok G ps" "params_ok G p (length ps)"
  shows "runs (time_alltoall E G p ps) ps"
proof -
  let ?n = "unat (psize p)"
  let ?T = "alltoall_transfers (length ps) (\<lambda>j i. i * ?n) (\<lambda>i j. j * ?n) (\<lambda>i j. ?n)"
  have p: "pcount p = int ?n" "ptype p = MPI_BYTE" using assms(3) by (simp_all add: params_ok_def)
  have t: "\<lparr>dst = i, dst_off = j * ?n, src = j, src_off = i * ?n, len = ?n\<rparr> \<in> set ?T" if "i < length ps" "j < length ps" for i j
    using that by (auto simp: set_alltoall_transfers)
  show ?thesis unfolding time_alltoall_def
  proof (rule runs_frame [OF _ keeps_refl], rule checked_delivery [where T = ?T, OF assms(2)])
    fix qs assume f: "frame ps qs"
    note l = frame_length [OF f] bufs_ok_nth [OF frame_bufs_ok [OF f assms(2)]]
    show "fits ?T (map sbuffer qs) (map rbuffer qs)"
      using l block_le(1) [OF assms(3)] block_order [of _ _ ?n] by (intro fits_alltoall) auto
    show "delivered ?T (map sbuffer qs) (map rbuffer qs)
        (MPI_Alltoall (MPI E) (pcount p) (ptype p) (int_of_size ?n) (ptype p) (map sbuffer qs) (map rbuffer qs))"
      if "fits ?T (map sbuffer qs) (map rbuffer qs)"
    proof (cases "ps = []")
      case False
      then have "int_of_size ?n = pcount p" using int_of_psize [OF assms(3), of 0] by simp
      then show ?thesis using that l(1) by (simp add: assms(1) p) (rule alltoall, simp_all)
    qed (use that assms(3) in \<open>simp add: params_ok_def\<close>)
  next
    fix qs rb r
    assume a: "frame ps qs" "map length rb = map length (map rbuffer qs)" "r < length ps"
      and d: "\<And>t b. t \<in> set ?T \<Longrightarrow> b < len t \<Longrightarrow> rb ! dst t ! (dst_off t + b) = pattern (src t) (of_nat (src_off t + b))"
    note l = rb_lengths [OF a(2,1) assms(2) a(3)]
    show "check_blocks (length (with_rbuffers rb qs)) (\<lambda>j. check_rbuffer (with_rbuffers rb qs ! r) (rbuffer (with_rbuffers rb qs ! r))
        (of_nat j * psize p) j (of_nat r * psize p) (psize p)) = Return ()"
      using l a(3) d [OF t [OF a(3)]] by (intro check_blocks_Return check_block [OF assms(3)]) (simp_all add: nth_with_rbuffers)
  qed
qed

lemma time_allgather_runs:
  assumes "MPI E = M" "bufs_ok G ps" "params_ok G p (length ps)"
  shows "runs (time_allgather E G p ps) ps"
proof -
  let ?n = "unat (psize p)"
  let ?T = "alltoall_transfers (length ps) (\<lambda>j i. 0) (\<lambda>i j. j * ?n) (\<lambda>i j. ?n)"
  have p: "pcount p = int ?n" "ptype p = MPI_BYTE" using assms(3) by (simp_all add: params_ok_def)
  have t: "\<lparr>dst = i, dst_off = j * ?n, src = j, src_off = 0, len = ?n\<rparr> \<in> set ?T" if "i < length ps" "j < length ps" for i j
    using that by (auto simp: set_alltoall_transfers)
  show ?thesis unfolding time_allgather_def
  proof (rule runs_frame [OF _ keeps_refl], rule checked_delivery [where T = ?T, OF assms(2)])
    fix qs assume f: "frame ps qs"
    note l = frame_length [OF f] bufs_ok_nth [OF frame_bufs_ok [OF f assms(2)]]
    show "fits ?T (map sbuffer qs) (map rbuffer qs)"
      using l block_le [OF assms(3)] block_order [of _ _ ?n] by (intro fits_alltoall) auto
    show "delivered ?T (map sbuffer qs) (map rbuffer qs)
        (MPI_Allgather (MPI E) (pcount p) (ptype p) (pcount p) (ptype p) (map sbuffer qs) (map rbuffer qs))"
      if "fits ?T (map sbuffer qs) (map rbuffer qs)"
      using that l(1) by (simp add: assms(1) p) (rule allgather, simp_all)
  next
    fix qs rb r
    assume a: "frame ps qs" "map length rb = map length (map rbuffer qs)" "r < length ps"
      and d: "\<And>t b. t \<in> set ?T \<Longrightarrow> b < len t \<Longrightarrow> rb ! dst t ! (dst_off t + b) = pattern (src t) (of_nat (src_off t + b))"
    note l = rb_lengths [OF a(2,1) assms(2) a(3)]
    show "check_blocks (length (with_rbuffers rb qs)) (\<lambda>j. check_rbuffer (with_rbuffers rb qs ! r) (rbuffer (with_rbuffers rb qs ! r))
        (of_nat j * psize p) j 0 (psize p)) = Return ()"
      using l a(3) d [OF t [OF a(3)]] by (intro check_blocks_Return check_block0 [OF assms(3)]) (simp_all add: nth_with_rbuffers)
  qed
qed

lemma time_gather_runs:
  assumes "MPI E = M" "bufs_ok G ps" "params_ok G p (length ps)"
  shows "runs (time_gather E G p ps) ps"
proof -
  let ?n = "unat (psize p)"
  let ?T = "gather_transfers (length ps) (proot p) (\<lambda>j. j * ?n) (\<lambda>j. ?n)"
  have p: "pcount p = int ?n" "ptype p = MPI_BYTE" "proot p < length ps" using assms(3) by (simp_all add: params_ok_def)
  have t: "\<lparr>dst = proot p, dst_off = j * ?n, src = j, src_off = 0, len = ?n\<rparr> \<in> set ?T" if "j < length ps" for j
    using that by (auto simp: set_gather_transfers)
  show ?thesis unfolding time_gather_def
  proof (rule runs_frame [OF _ keeps_refl], rule checked_delivery [where T = ?T, OF assms(2)])
    fix qs assume f: "frame ps qs"
    note l = frame_length [OF f] bufs_ok_nth [OF frame_bufs_ok [OF f assms(2)]]
    show "fits ?T (map sbuffer qs) (map rbuffer qs)"
      using l p(3) block_le [OF assms(3)] block_order [of _ _ ?n] by (intro fits_gather) auto
    show "delivered ?T (map sbuffer qs) (map rbuffer qs)
        (MPI_Gather (MPI E) (pcount p) (ptype p) (pcount p) (ptype p) (proot p) (map sbuffer qs) (map rbuffer qs))"
      if "fits ?T (map sbuffer qs) (map rbuffer qs)"
      using that l(1) by (simp add: assms(1) p) (rule gather, simp_all)
  next
    fix qs rb r
    assume a: "frame ps qs" "map length rb = map length (map rbuffer qs)" "r < length ps"
      and d: "\<And>t b. t \<in> set ?T \<Longrightarrow> b < len t \<Longrightarrow> rb ! dst t ! (dst_off t + b) = pattern (src t) (of_nat (src_off t + b))"
    note l = rb_lengths [OF a(2,1) assms(2) a(3)]
    have "check_blocks (length (with_rbuffers rb qs)) (\<lambda>j. check_rbuffer (with_rbuffers rb qs ! r) (rbuffer (with_rbuffers rb qs ! r))
        (of_nat j * psize p) j 0 (psize p)) = Return ()" if "r = proot p"
      using that l a(3) d [OF t] by (intro check_blocks_Return check_block0 [OF assms(3)]) (simp_all add: nth_with_rbuffers)
    then show "(if r = proot p then check_blocks (length (with_rbuffers rb qs)) (\<lambda>j. check_rbuffer (with_rbuffers rb qs ! r)
        (rbuffer (with_rbuffers rb qs ! r)) (of_nat j * psize p) j 0 (psize p)) else Return ()) = Return ()" by simp
  qed
qed

lemma time_scatter_runs:
  assumes "MPI E = M" "bufs_ok G ps" "params_ok G p (length ps)"
  shows "runs (time_scatter E G p ps) ps"
proof -
  let ?n = "unat (psize p)"
  let ?T = "scatter_transfers (length ps) (proot p) ?n"
  have p: "pcount p = int ?n" "ptype p = MPI_BYTE" "proot p < length ps" "length ps * ?n \<le> unat (buffer_size G)"
    using assms(3) by (simp_all add: params_ok_def)
  have t: "\<lparr>dst = i, dst_off = 0, src = proot p, src_off = i * ?n, len = ?n\<rparr> \<in> set ?T" if "i < length ps" for i
    using that by (auto simp: scatter_transfers_def)
  show ?thesis unfolding time_scatter_def
  proof (rule runs_frame [OF _ keeps_refl], rule checked_delivery [where T = ?T, OF assms(2)])
    fix qs assume f: "frame ps qs"
    note l = frame_length [OF f] bufs_ok_nth [OF frame_bufs_ok [OF f assms(2)]]
    show "fits ?T (map sbuffer qs) (map rbuffer qs)"
      using l p block_le(2) [OF assms(3) p(3)] frame_bufs_ok [OF f assms(2)] by (intro fits_scatter) (auto simp: bufs_ok_def)
    show "delivered ?T (map sbuffer qs) (map rbuffer qs)
        (MPI_Scatter (MPI E) (pcount p) (ptype p) (pcount p) (ptype p) (proot p) (map sbuffer qs) (map rbuffer qs))"
      if "fits ?T (map sbuffer qs) (map rbuffer qs)"
      using that l(1) by (simp add: assms(1) p) (rule scatter, simp_all)
  next
    fix qs rb r
    assume a: "frame ps qs" "map length rb = map length (map rbuffer qs)" "r < length ps"
      and d: "\<And>t b. t \<in> set ?T \<Longrightarrow> b < len t \<Longrightarrow> rb ! dst t ! (dst_off t + b) = pattern (src t) (of_nat (src_off t + b))"
    note l = rb_lengths [OF a(2,1) assms(2) a(3)]
    show "check_rbuffer (with_rbuffers rb qs ! r) (rbuffer (with_rbuffers rb qs ! r)) 0 (proot p) (of_nat r * psize p) (psize p) = Return ()"
      using l a(3) p(3) d [OF t [OF a(3)]] check_block [OF assms(3) order_le_less_trans [OF le0 p(3)], of "rb ! r" "proot p" r]
      by (simp add: nth_with_rbuffers)
  qed
qed

lemma bcast_delivers:
  assumes "MPI E = M" "bufs_ok G qs" "params_ok G p (length qs)"
  defines "bs \<equiv> map (\<lambda>(r, q). bcast_buffer p r q) (enumerate 0 qs)"
  defines "rb \<equiv> MPI_Bcast M (pcount p) (ptype p) (proot p) bs"
  shows "length rb = length qs"
    and "r < length qs \<Longrightarrow> length (rb ! r) = unat (buffer_size G)"
    and "r < length qs \<Longrightarrow> b < unat (psize p) \<Longrightarrow> rb ! r ! b = sbuffer (qs ! proot p) ! b"
    and "i < unat (buffer_size G) \<Longrightarrow> rb ! proot p ! i = sbuffer (qs ! proot p) ! i"
proof -
  let ?T = "bcast_transfers (length bs) (proot p) (unat (psize p))"
  have p: "bytes (pcount p) (ptype p) = unat (psize p)" "0 \<le> pcount p" "proot p < length qs"
    using assms(3) by (simp_all add: params_ok_def)
  have l: "length bs = length qs" by (simp add: bs_def)
  have nth: "bs ! r = bcast_buffer p r (qs ! r)" if "r < length qs" for r
    using that by (simp add: bs_def nth_enumerate_eq)
  have len: "length (bs ! r) = unat (buffer_size G)" if "r < length qs" for r
    using bufs_ok_nth [OF assms(2) that] nth [OF that] by (auto simp: bcast_buffer_def)
  have "fits ?T bs bs"
    using p(3) l len block_le(2) [OF assms(3) p(3)] by (intro fits_bcast) (auto simp: in_set_conv_nth)
  then have d: "delivered ?T bs bs rb" using bcast [of "pcount p" bs "proot p" "ptype p"] p by (simp add: rb_def)
  then have m: "map length rb = map length bs" by (simp add: delivered_def)
  show lr: "length rb = length qs" using map_length_eqD(1) [OF m] l by simp
  show "length (rb ! r) = unat (buffer_size G)" if "r < length qs" using map_length_eqD(2) [OF m] len l that by simp
  have root: "bs ! proot p = sbuffer (qs ! proot p)" using nth [OF p(3)] by (simp add: bcast_buffer_def)
  have T: "\<lparr>dst = r, dst_off = 0, src = proot p, src_off = 0, len = unat (psize p)\<rparr> \<in> set ?T" if "r < length qs" for r
    using that l by (auto simp: bcast_transfers_def)
  show del: "rb ! r ! b = sbuffer (qs ! proot p) ! b" if "r < length qs" "b < unat (psize p)" for r b
    using d T [OF that(1)] that(2) root unfolding delivered_def by fastforce
  show "rb ! proot p ! i = sbuffer (qs ! proot p) ! i" if i: "i < unat (buffer_size G)"
  proof (cases "i < unat (psize p)")
    case False
    then have "\<forall>t\<in>set ?T. \<not> covers t (proot p) i" by (auto simp: bcast_transfers_def covers_def)
    then have "rb ! proot p ! i = bs ! proot p ! i" using d i len [OF p(3)] p(3) l by (simp add: delivered_def)
    then show ?thesis by (simp add: root)
  qed (use del p(3) in simp)
qed

lemma time_bcast_runs:
  assumes "MPI E = M" "bufs_ok G ps" "params_ok G p (length ps)"
  shows "runs (time_bcast E G p ps) ps"
  unfolding time_bcast_def
proof (rule runs_frame [OF _ keeps_refl], rule timed_Return, rule checked_Return [OF _ assms(2)])
  fix qs assume f: "frame ps qs"
  have l: "length qs = length ps" using f by (rule frame_length)
  have ok: "bufs_ok G qs" using f assms(2) by (rule frame_bufs_ok)
  have root: "proot p < length qs" using assms(3) l by (simp add: params_ok_def)
  define rb where "rb = MPI_Bcast M (pcount p) (ptype p) (proot p) (map (\<lambda>(r, q). bcast_buffer p r q) (enumerate 0 qs))"
  note b = bcast_delivers [OF assms(1) ok, of p, unfolded l, OF assms(3), folded rb_def]
  have nth: "call_bcast E p qs ! r = (if r = proot p then (qs ! r)\<lparr>sbuffer := rb ! r\<rparr> else (qs ! r)\<lparr>rbuffer := rb ! r\<rparr>)"
    if "r < length ps" for r
    using that b(1) l by (simp add: call_bcast_def assms(1) nth_enumerate_eq flip: rb_def)
  have len: "length (call_bcast E p qs) = length ps" using b(1) l by (simp add: call_bcast_def assms(1) flip: rb_def)
  have lr: "length (sbuffer (qs ! r)) = unat (buffer_size G)" "length (rbuffer (qs ! r)) = unat (buffer_size G)"
    if "r < length ps" for r
    using bufs_ok_nth [OF ok] that l by simp_all
  have "frame qs (call_bcast E p qs)" using nth b(2) lr l by (auto simp: frame_def len)
  then show fr: "frame ps (call_bcast E p qs)" by (rule frame_trans [OF f])
  show "filled G (call_bcast E p qs) \<and> (\<forall>r<length ps. check_rbuffer (call_bcast E p qs ! r)
      (bcast_buffer p r (call_bcast E p qs ! r)) 0 (proot p) 0 (psize p) = Return ())" if fl: "filled G qs"
  proof
    show "filled G (call_bcast E p qs)" using fl nth b(4) l by (auto simp: filled_def len)
    show "\<forall>r<length ps. check_rbuffer (call_bcast E p qs ! r)
      (bcast_buffer p r (call_bcast E p qs ! r)) 0 (proot p) 0 (psize p) = Return ()"
    proof (intro allI impI)
      fix r assume r: "r < length ps"
      have "bcast_buffer p r (call_bcast E p qs ! r) = rb ! r" using nth [OF r] by (simp add: bcast_buffer_def)
      moreover have "sbuffer (qs ! proot p) ! i = pattern (proot p) (of_nat i)" if "i < unat (psize p)" for i
        using fl root that block_le(2) [OF assms(3), of "proot p"] l by (simp add: filled_def)
      ultimately show "check_rbuffer (call_bcast E p qs ! r) (bcast_buffer p r (call_bcast E p qs ! r)) 0 (proot p) 0 (psize p) = Return ()"
        using b(2,3) [of r] r root l check_block0 [OF assms(3) order_le_less_trans [OF le0 r]] by simp
    qed
  qed
qed

end

subsection \<open>The collectives with counts\<close>

text \<open>Counts and displacements as natural numbers.\<close>

definition cnt_of :: "(nat \<Rightarrow> nat) \<Rightarrow> nat \<Rightarrow> nat \<Rightarrow> nat" where
  "cnt_of g n j = g j mod (n + 1)"

definition disp_of :: "(nat \<Rightarrow> nat) \<Rightarrow> nat \<Rightarrow> nat \<Rightarrow> nat" where
  "disp_of g n j = (\<Sum>l<j. cnt_of g n l)"

definition chunk :: "collParams \<Rightarrow> nat \<Rightarrow> nat" where
  "chunk p N = nat (chunksize p N)"

lemma smod_nat: "int a smod int b = int (a mod b)"
  by (cases "a = 0"; cases "b = 0") (simp_all add: modulo_int_eq_signed_modulo_int zmod_int)

lemma sdiv_nat: "int a sdiv int b = int (a div b)"
  by (cases "a = 0"; cases "b = 0") (simp_all add: divide_int_eq_signed_divide_int zdiv_int)

lemma fill_counts_Return:
  assumes "0 < m" and "\<forall>j<k. g (i + j) < 2 ^ 31" and "d + (\<Sum>j<k. g (i + j) mod m) < 2 ^ 31"
  shows "fill_counts (\<lambda>j. int (g j)) (int m) i k (int d) =
    Return (map (\<lambda>j. int (g (i + j) mod m)) [0..<k], map (\<lambda>j. int (d + (\<Sum>l<j. g (i + l) mod m))) [0..<k])"
  using assms
proof (induction k arbitrary: i d)
  case (Suc k)
  let ?c = "g i mod m"
  have sum: "(\<Sum>j<Suc l. g (i + j) mod m) = ?c + (\<Sum>j<l. g (Suc i + j) mod m)" for l
    by (simp only: sum.lessThan_Suc_shift) simp
  have "\<forall>j<k. g (Suc i + j) < 2 ^ 31" using Suc.prems(2) by (metis Suc_less_eq add_Suc_shift)
  moreover have "d + ?c + (\<Sum>j<k. g (Suc i + j) mod m) < 2 ^ 31" using Suc.prems(3) by (simp only: sum add.assoc)
  ultimately have ih: "fill_counts (\<lambda>j. int (g j)) (int m) (Suc i) k (int (d + ?c)) =
    Return (map (\<lambda>j. int (g (Suc i + j) mod m)) [0..<k], map (\<lambda>j. int (d + ?c + (\<Sum>l<j. g (Suc i + l) mod m))) [0..<k])"
    using Suc.IH [of "Suc i" "d + ?c"] Suc.prems(1) by blast
  have "g i < 2 ^ 31" "d + ?c < 2 ^ 31" using Suc.prems(2,3) by (auto simp only: sum add_0_right zero_less_Suc)
  then have ok: "int_ok (int (g i))" "int_ok (int d + int (g i) smod int m)"
    by (simp_all add: int_ok_def smod_nat flip: of_nat_add)
  have up: "[0..<Suc k] = 0 # map Suc [0..<k]" by (metis map_Suc_upt upt_conv_Cons zero_less_Suc)
  show ?case
    using Suc.prems(1) ok ih by (simp add: smod_nat up o_def sum flip: of_nat_add del: upt_Suc sum.lessThan_Suc)
qed simp

text \<open>The parameters in range keep every product and every displacement an \<^verbatim>\<open>int\<close>.\<close>

lemma chunk_bound:
  assumes "params_ok G p N"
  shows "chunksize p N = int (chunk p N)" "k \<le> 2 * N \<Longrightarrow> k * chunk p N < 2 ^ 31"
proof -
  let ?n = "unat (psize p)"
  have p: "pcount p = int ?n" "0 < N" "N < 2 ^ 30" "N * ?n < 2 ^ 30" using assms by (auto simp: params_ok_def)
  show c: "chunksize p N = int (chunk p N)"
    unfolding chunksize_def chunk_def p(1) sdiv_nat Let_def by simp
  have ch: "chunk p N = (if ?n div N = 0 then 1 else ?n div N)"
    unfolding chunk_def chunksize_def p(1) sdiv_nat Let_def by simp
  have "?n < 2 ^ 30" using p(2,4) by (metis le_less_trans mult_le_mono1 nat_mult_1 Suc_leI One_nat_def)
  moreover have "N * (?n div N) \<le> ?n" by (rule times_div_less_eq_dividend)
  ultimately have "N * (?n div N) < 2 ^ 30" by (rule le_less_trans [rotated])
  then have c30: "N * chunk p N < 2 ^ 30" using p(3) by (simp add: ch)
  show "k * chunk p N < 2 ^ 31" if "k \<le> 2 * N"
  proof -
    have "k * chunk p N \<le> 2 * (N * chunk p N)" using mult_le_mono1 [OF that, of "chunk p N"] by (simp add: mult.assoc)
    also have "\<dots> < 2 ^ 31" using c30 by simp
    finally show ?thesis .
  qed
qed

lemma cnt_le: "cnt_of g n j \<le> n"
  using mod_less_divisor [of "n + 1" "g j"] by (simp add: cnt_of_def)

lemma disp_step: "disp_of g n (Suc j) = disp_of g n j + cnt_of g n j"
  by (simp add: disp_of_def)

lemma disp_mono: "j < k \<Longrightarrow> disp_of g n j + cnt_of g n j \<le> disp_of g n k"
proof (induction k)
  case (Suc k)
  then show ?case by (cases "j = k") (auto simp: disp_step)
qed simp

lemma disp_le: "disp_of g n j \<le> j * n"
proof (induction j)
  case (Suc j)
  then show ?case using cnt_le [of g n j] by (simp add: disp_step)
qed (simp add: disp_of_def)

lemma disp_fits:
  assumes "params_ok G p N" "j < N"
  shows "disp_of g (unat (psize p)) j + cnt_of g (unat (psize p)) j \<le> unat (buffer_size G)"
    "disp_of g (unat (psize p)) j < 2 ^ 30"
proof -
  show *: "disp_of g (unat (psize p)) j + cnt_of g (unat (psize p)) j \<le> unat (buffer_size G)"
    using disp_le [of g "unat (psize p)" j] cnt_le [of g "unat (psize p)" j] block_le(1) [OF assms] by linarith
  then show "disp_of g (unat (psize p)) j < 2 ^ 30" using assms(1) by (simp add: params_ok_def)
qed

lemma fill_counts_params:
  assumes "params_ok G p N" and "\<forall>j<N. g j < 2 ^ 31"
  shows "fill_counts (\<lambda>j. int (g j)) (pcount p + 1) 0 N 0 =
    Return (map (\<lambda>j. int (cnt_of g (unat (psize p)) j)) [0..<N], map (\<lambda>j. int (disp_of g (unat (psize p)) j)) [0..<N])"
proof -
  let ?n = "unat (psize p)"
  have "pcount p + 1 = int (?n + 1)" using assms(1) by (simp add: params_ok_def)
  moreover have "disp_of g ?n N < 2 ^ 31" using disp_le [of g ?n N] assms(1) by (simp add: params_ok_def)
  ultimately show ?thesis
    using fill_counts_Return [of "?n + 1" N g 0 0] assms(2) by (simp add: cnt_of_def disp_of_def add.commute)
qed

definition arrays_ok :: "bproc list \<Rightarrow> bool" where
  "arrays_ok ps \<longleftrightarrow> (\<forall>q\<in>set ps. length ps \<le> length (sendcounts q) \<and> length ps \<le> length (sdispls q)
     \<and> length ps \<le> length (recvcounts q) \<and> length ps \<le> length (rdispls q))"

lemma store_Return: "length xs \<le> length old \<Longrightarrow> store xs old = Return (xs @ drop (length xs) old)"
  by (simp add: store_def)

text \<open>What the arrays hold after they have been filled.\<close>

definition send_recv_filled :: "collParams \<Rightarrow> bproc list \<Rightarrow> bool" where
  "send_recv_filled p ps \<longleftrightarrow> (\<forall>r<length ps. \<forall>j<length ps.
     let g = (\<lambda>i. (i + r) * chunk p (length ps)); n = unat (psize p) in
     sendcounts (ps ! r) ! j = int (cnt_of g n j) \<and> recvcounts (ps ! r) ! j = int (cnt_of g n j)
     \<and> sdispls (ps ! r) ! j = int (disp_of g n j) \<and> rdispls (ps ! r) ! j = int (disp_of g n j))"

definition recv_filled :: "collParams \<Rightarrow> bproc list \<Rightarrow> bool" where
  "recv_filled p ps \<longleftrightarrow> (\<forall>r<length ps. \<forall>j<length ps.
     let g = (\<lambda>i. i * chunk p (length ps)); n = unat (psize p) in
     recvcounts (ps ! r) ! j = int (cnt_of g n j) \<and> rdispls (ps ! r) ! j = int (disp_of g n j))"

lemma fill_send_recv_Return:
  assumes "params_ok G p (length ps)" "arrays_ok ps"
  obtains qs where "each_rank (fill_send_recv p (length ps)) ps = Return qs" "keeps ps qs" "send_recv_filled p qs"
    "bufs_ok G ps \<Longrightarrow> bufs_ok G qs"
proof -
  let ?N = "length ps" and ?n = "unat (psize p)"
  let ?g = "\<lambda>r i. (i + r) * chunk p ?N"
  let ?cs = "\<lambda>r. map (\<lambda>j. int (cnt_of (?g r) ?n j)) [0..<?N]" and ?ds = "\<lambda>r. map (\<lambda>j. int (disp_of (?g r) ?n j)) [0..<?N]"
  let ?q = "\<lambda>r. (ps ! r)\<lparr>sendcounts := ?cs r @ drop ?N (sendcounts (ps ! r)), recvcounts := ?cs r @ drop ?N (recvcounts (ps ! r)),
      sdispls := ?ds r @ drop ?N (sdispls (ps ! r)), rdispls := ?ds r @ drop ?N (rdispls (ps ! r))\<rparr>"
  have a: "?N \<le> length (sendcounts (ps ! r)) \<and> ?N \<le> length (sdispls (ps ! r)) \<and> ?N \<le> length (recvcounts (ps ! r))
      \<and> ?N \<le> length (rdispls (ps ! r))" if "r < ?N" for r
    using assms(2) that by (simp add: arrays_ok_def)
  have "fill_send_recv p ?N r (ps ! r) = Return (?q r)" if r: "r < ?N" for r
  proof -
    have "(\<lambda>i. (int i + int r) * chunksize p ?N) = (\<lambda>i. int (?g r i))" using chunk_bound(1) [OF assms(1)] by simp
    moreover have "\<forall>j<?N. ?g r j < 2 ^ 31" using chunk_bound(2) [OF assms(1)] r by simp
    ultimately show ?thesis
      using fill_counts_params [OF assms(1), of "?g r"] a [OF r] by (simp add: fill_send_recv_def store_Return)
  qed
  then have "each_rank (fill_send_recv p ?N) ps = Return (map ?q [0..<?N])" by (rule each_rank_Return)
  moreover have "keeps ps (map ?q [0..<?N])" using a by (simp add: keeps_def)
  moreover have "send_recv_filled p (map ?q [0..<?N])" by (simp add: send_recv_filled_def nth_append Let_def)
  moreover have "bufs_ok G ps \<Longrightarrow> bufs_ok G (map ?q [0..<?N])" by (auto simp: bufs_ok_def)
  ultimately show ?thesis by (rule that)
qed

lemma fill_recv_Return:
  assumes "params_ok G p (length ps)" "arrays_ok ps"
  obtains qs where "each_rank (fill_recv p (length ps)) ps = Return qs" "keeps ps qs" "recv_filled p qs"
    "bufs_ok G ps \<Longrightarrow> bufs_ok G qs"
proof -
  let ?N = "length ps" and ?n = "unat (psize p)"
  let ?g = "\<lambda>i. i * chunk p ?N"
  let ?cs = "map (\<lambda>j. int (cnt_of ?g ?n j)) [0..<?N]" and ?ds = "map (\<lambda>j. int (disp_of ?g ?n j)) [0..<?N]"
  let ?q = "\<lambda>r. (ps ! r)\<lparr>recvcounts := ?cs @ drop ?N (recvcounts (ps ! r)), rdispls := ?ds @ drop ?N (rdispls (ps ! r))\<rparr>"
  have a: "?N \<le> length (recvcounts (ps ! r)) \<and> ?N \<le> length (rdispls (ps ! r))" if "r < ?N" for r
    using assms(2) that by (simp add: arrays_ok_def)
  have f: "(\<lambda>i. int i * chunksize p ?N) = (\<lambda>i. int (?g i))" using chunk_bound(1) [OF assms(1)] by simp
  have "\<forall>j<?N. ?g j < 2 ^ 31" using chunk_bound(2) [OF assms(1)] by simp
  note c = fill_counts_params [OF assms(1) this]
  have "fill_recv p ?N r (ps ! r) = Return (?q r)" if r: "r < ?N" for r
    using c a [OF r] unfolding fill_recv_def f by (simp add: store_Return)
  then have "each_rank (fill_recv p ?N) ps = Return (map ?q [0..<?N])" by (rule each_rank_Return)
  moreover have "keeps ps (map ?q [0..<?N])" using a by (simp add: keeps_def)
  moreover have "recv_filled p (map ?q [0..<?N])" by (simp add: recv_filled_def nth_append Let_def)
  moreover have "bufs_ok G ps \<Longrightarrow> bufs_ok G (map ?q [0..<?N])" by (auto simp: bufs_ok_def)
  ultimately show ?thesis by (rule that)
qed


lemma of_nat_mod_word:
  fixes a b :: nat
  assumes "a < 2 ^ LENGTH('a::len)" "b < 2 ^ LENGTH('a)"
  shows "(of_nat a :: 'a word) mod of_nat b = of_nat (a mod b)"
proof -
  have "a mod b < 2 ^ LENGTH('a)" using assms(1) by (rule le_less_trans [OF mod_less_eq_dividend])
  with assms show ?thesis by (simp add: word_unat_eq_iff unat_mod_distrib unat_of_nat_small)
qed

text \<open>The \<^verbatim>\<open>size_t\<close> arithmetic of the comparison on values in range.\<close>

lemma scaled:
  assumes "params_ok G p N" "c \<le> unat (buffer_size G)" "unat (psize p) = 0 \<longrightarrow> c = 0"
  shows "unat (word_of_int (int c) * scale p) = c"
proof (cases "unat (psize p) = 0")
  case False
  then have p: "pcount p = int (unat (psize p))" "psize p \<noteq> 0" using assms(1) by (auto simp: params_ok_def)
  have "psize p div psize p = 1" using False by (simp add: word_unat_eq_iff unat_div_distrib)
  moreover have "0 < int (unat (psize p))" using False by (simp only: of_nat_0_less_iff)
  ultimately have "scale p = 1" using p by (simp add: scale_def)
  moreover have "c < 2 ^ LENGTH(64)" using assms(1,2) by (simp add: params_ok_def)
  ultimately show ?thesis by (simp add: unat_of_nat_small)
qed (use assms in simp)

lemma sender_disp_eq:
  assumes "params_ok G p N" "r < N" "k < N"
  shows "sender_disp p N r k = int (disp_of (\<lambda>j. (j + k) * chunk p N) (unat (psize p)) r)"
proof -
  let ?n = "unat (psize p)" and ?g = "\<lambda>j. (j + k) * chunk p N"
  have step: "sint (ucast ((word_of_int (int (disp_of ?g ?n l)) :: u64)
      + word_of_int ((int l + int k) * chunksize p N) mod (psize p + 1)) :: u32) = int (disp_of ?g ?n (Suc l))"
    if "l < N" for l
  proof -
    have v: "?g l < 2 ^ 31" using chunk_bound(2) [OF assms(1), of "l + k"] that assms(3) by simp
    have n: "?n < 2 ^ 30" using block_le(2) [OF assms(1,2)] assms(1) by (simp add: params_ok_def)
    have sum: "disp_of ?g ?n (Suc l) \<le> unat (buffer_size G)" using disp_fits(1) [OF assms(1) that] by (simp add: disp_step)
    have "(of_nat (?g l) :: u64) mod of_nat (?n + 1) = of_nat (cnt_of ?g ?n l)"
      unfolding cnt_of_def using v n by (intro of_nat_mod_word) simp_all
    moreover have "psize p + 1 = of_nat (?n + 1)" by simp
    ultimately have "(of_nat (?g l) :: u64) mod (psize p + 1) = of_nat (cnt_of ?g ?n l)" by (simp only:)
    then have "(word_of_int (int (disp_of ?g ?n l)) :: u64) + word_of_int ((int l + int k) * chunksize p N) mod (psize p + 1)
        = of_nat (disp_of ?g ?n (Suc l))"
      by (simp add: chunk_bound(1) [OF assms(1)] disp_step)
    moreover have m: "disp_of ?g ?n (Suc l) < 2 ^ 31" using sum assms(1) by (simp add: params_ok_def)
    then have "(ucast (of_nat (disp_of ?g ?n (Suc l)) :: u64) :: u32) = of_nat (disp_of ?g ?n (Suc l))"
      by (simp add: unsigned_of_nat take_bit_nat_eq_self)
    ultimately show ?thesis using m by (simp add: sint_of_nat_small)
  qed
  have "l \<le> r \<Longrightarrow> fold (\<lambda>j disp. sint (ucast ((word_of_int disp :: u64)
         + word_of_int ((int j + int k) * chunksize p N) mod (psize p + 1)) :: u32)) [0..<l] 0 = int (disp_of ?g ?n l)" for l
  proof (induction l)
    case 0
    then show ?case by (simp add: disp_of_def)
  next
    case (Suc l)
    then show ?case using step [of l] assms(2) by simp
  qed
  then show ?thesis by (simp add: sender_disp_def)
qed


context mpi_collectives
begin

lemma time_alltoallv_runs:
  assumes "MPI E = M" "bufs_ok G ps" "params_ok G p (length ps)" "arrays_ok ps"
  shows "runs (time_alltoallv E G p ps) ps"
proof -
  let ?N = "length ps" and ?n = "unat (psize p)"
  let ?g = "\<lambda>r i. (i + r) * chunk p ?N"
  obtain ps' where f: "each_rank (fill_send_recv p ?N) ps = Return ps'" and k: "keeps ps ps'"
    and sr: "send_recv_filled p ps'" and ok: "bufs_ok G ps'"
    using fill_send_recv_Return [OF assms(3,4)] assms(2) by blast
  have N: "length ps' = ?N" using k by (simp add: keeps_def)
  have a: "sendcounts (ps' ! r) ! j = int (cnt_of (?g r) ?n j)" "recvcounts (ps' ! r) ! j = int (cnt_of (?g r) ?n j)"
    "sdispls (ps' ! r) ! j = int (disp_of (?g r) ?n j)" "rdispls (ps' ! r) ! j = int (disp_of (?g r) ?n j)"
    if "r < ?N" "j < ?N" for r j
    using sr that by (simp_all add: send_recv_filled_def N Let_def)
  have sym: "cnt_of (?g r) ?n j = cnt_of (?g j) ?n r" for r j by (simp add: cnt_of_def add.commute)
  let ?T = "alltoall_transfers ?N (\<lambda>j i. disp_of (?g j) ?n i) (\<lambda>i j. disp_of (?g i) ?n j) (\<lambda>i j. cnt_of (?g i) ?n j)"
  have T: "?T = alltoall_transfers ?N (\<lambda>j i. bytes (map sdispls ps' ! j ! i) MPI_BYTE)
      (\<lambda>i j. bytes (map rdispls ps' ! i ! j) MPI_BYTE) (\<lambda>i j. bytes (map recvcounts ps' ! i ! j) MPI_BYTE)"
    using a N by (auto simp: alltoall_transfers_def intro!: arg_cong [of _ _ concat])
  have p: "ptype p = MPI_BYTE" using assms(3) by (simp add: params_ok_def)
  have "runs (timed E p (checked G p
       (\<lambda>ps. with_rbuffers (MPI_Alltoallv (MPI E) (map sendcounts ps) (map sdispls ps) (ptype p)
                              (map recvcounts ps) (map rdispls ps) (ptype p) (map sbuffer ps) (map rbuffer ps)) ps)
       (\<lambda>qs r q. check_blocks (length qs) (\<lambda>k.
          check_rbuffer q (rbuffer q) (word_of_int (rdispls q ! k) * scale p) k (word_of_int (sender_disp p (length qs) r k))
            (word_of_int (recvcounts q ! k) * scale p)))) ps') ps"
  proof (rule runs_frame [OF _ k], rule checked_delivery [where T = ?T, OF ok])
    fix qs assume fr: "frame ps' qs"
    note l = frame_length [OF fr] bufs_ok_nth [OF frame_bufs_ok [OF fr ok]]
    have fits: "disp_of (?g j) ?n i + cnt_of (?g i) ?n j \<le> unat (buffer_size G)" if "i < ?N" for i j
      using disp_fits(1) [OF assms(3) that, of "?g j"] by (simp add: sym)
    show "fits ?T (map sbuffer qs) (map rbuffer qs)"
      using l N fits disp_fits(1) [OF assms(3)] disp_mono by (intro fits_alltoall) auto
    have m: "map sendcounts qs = map sendcounts ps'" "map sdispls qs = map sdispls ps'"
      "map recvcounts qs = map recvcounts ps'" "map rdispls qs = map rdispls ps'"
      using fr by (auto simp: frame_def intro: nth_equalityI)
    show "delivered ?T (map sbuffer qs) (map rbuffer qs) (MPI_Alltoallv (MPI E) (map sendcounts qs) (map sdispls qs) (ptype p)
        (map recvcounts qs) (map rdispls qs) (ptype p) (map sbuffer qs) (map rbuffer qs))"
      if "fits ?T (map sbuffer qs) (map rbuffer qs)"
      unfolding m assms(1) p
    proof (rule alltoallv)
      show "?T = alltoall_transfers (length (map rbuffer qs)) (\<lambda>j i. bytes (map sdispls ps' ! j ! i) MPI_BYTE)
        (\<lambda>i j. bytes (map rdispls ps' ! i ! j) MPI_BYTE) (\<lambda>i j. bytes (map recvcounts ps' ! i ! j) MPI_BYTE)"
        unfolding T using l(1) N by simp
      show "0 \<le> map recvcounts ps' ! i ! j \<and> map sendcounts ps' ! j ! i = map recvcounts ps' ! i ! j
          \<and> 0 \<le> map rdispls ps' ! i ! j \<and> 0 \<le> map sdispls ps' ! j ! i"
        if "i < length (map rbuffer qs)" "j < length (map rbuffer qs)" for i j
        using that a [of i j] a [of j i] l(1) N sym [of i j] by simp
    qed (use that in simp_all)
  next
    fix qs rb r
    assume fr: "frame ps' qs" and rb: "map length rb = map length (map rbuffer qs)" "r < length ps'"
      and d: "\<And>t b. t \<in> set ?T \<Longrightarrow> b < len t \<Longrightarrow> rb ! dst t ! (dst_off t + b) = pattern (src t) (of_nat (src_off t + b))"
    note l = rb_lengths [OF rb(1) fr ok rb(2)]
    show "check_blocks (length (with_rbuffers rb qs)) (\<lambda>k. check_rbuffer (with_rbuffers rb qs ! r) (rbuffer (with_rbuffers rb qs ! r))
        (word_of_int (rdispls (with_rbuffers rb qs ! r) ! k) * scale p) k
        (word_of_int (sender_disp p (length (with_rbuffers rb qs)) r k))
        (word_of_int (recvcounts (with_rbuffers rb qs ! r) ! k) * scale p)) = Return ()"
    proof (rule check_blocks_Return)
      fix j assume "j < length (with_rbuffers rb qs)"
      then have j: "j < ?N" and r: "r < ?N" using l(1,2) N rb(2) by simp_all
      have q: "with_rbuffers rb qs ! r = (qs ! r)\<lparr>rbuffer := rb ! r\<rparr>" using l(1,2) rb(2) by (simp add: nth_with_rbuffers)
      have ar: "rdispls (qs ! r) ! j = int (disp_of (?g r) ?n j)" "recvcounts (qs ! r) ! j = int (cnt_of (?g r) ?n j)"
        using fr a(2,4) [OF r j] r N by (simp_all add: frame_def)
      note fit = disp_fits(1) [OF assms(3) j, of "?g r"]
      have zero: "?n = 0 \<longrightarrow> disp_of (?g r) ?n j = 0" "?n = 0 \<longrightarrow> cnt_of (?g r) ?n j = 0"
        using disp_le [of "?g r" ?n j] cnt_le [of "?g r" ?n j] by auto
      have t: "\<lparr>dst = r, dst_off = disp_of (?g r) ?n j, src = j, src_off = disp_of (?g j) ?n r, len = cnt_of (?g r) ?n j\<rparr> \<in> set ?T"
        using r j by (auto simp: set_alltoall_transfers)
      show "check_rbuffer (with_rbuffers rb qs ! r) (rbuffer (with_rbuffers rb qs ! r))
          (word_of_int (rdispls (with_rbuffers rb qs ! r) ! j) * scale p) j
          (word_of_int (sender_disp p (length (with_rbuffers rb qs)) r j))
          (word_of_int (recvcounts (with_rbuffers rb qs ! r) ! j) * scale p) = Return ()"
        using fit d [OF t] l N zero scaled [OF assms(3), of "disp_of (?g r) ?n j"] scaled [OF assms(3), of "cnt_of (?g r) ?n j"]
        by (simp add: q ar check_rbuffer_def check_loop_Return sender_disp_eq [OF assms(3) r j])
    qed
  qed
  then show ?thesis by (simp add: time_alltoallv_def f N)
qed

text \<open>The two gathering tests fill the same arrays and compare in the same way.\<close>

lemma check_gathered_Return:
  assumes "params_ok G p (length qs)" "r < length qs"
    and ar: "\<And>j. j < length qs \<Longrightarrow> rdispls (qs ! r) ! j = int (disp_of (\<lambda>i. i * chunk p (length qs)) (unat (psize p)) j)
      \<and> recvcounts (qs ! r) ! j = int (cnt_of (\<lambda>i. i * chunk p (length qs)) (unat (psize p)) j)"
    and "length rb = length qs" "length (rb ! r) = unat (buffer_size G)"
    and d: "\<And>j b. j < length qs \<Longrightarrow> b < cnt_of (\<lambda>i. i * chunk p (length qs)) (unat (psize p)) j
      \<Longrightarrow> rb ! r ! (disp_of (\<lambda>i. i * chunk p (length qs)) (unat (psize p)) j + b) = pattern j (of_nat b)"
  shows "check_gathered p (with_rbuffers rb qs) (with_rbuffers rb qs ! r) = Return ()"
  unfolding check_gathered_def
proof (rule check_blocks_Return)
  let ?n = "unat (psize p)" and ?g = "\<lambda>i. i * chunk p (length qs)"
  fix j assume "j < length (with_rbuffers rb qs)"
  then have j: "j < length qs" using assms(4) by simp
  have q: "with_rbuffers rb qs ! r = (qs ! r)\<lparr>rbuffer := rb ! r\<rparr>" using assms(2,4) by (simp add: nth_with_rbuffers)
  note fit = disp_fits(1) [OF assms(1) j, of ?g]
  have zero: "?n = 0 \<longrightarrow> disp_of ?g ?n j = 0" "?n = 0 \<longrightarrow> cnt_of ?g ?n j = 0"
    using disp_le [of ?g ?n j] cnt_le [of ?g ?n j] by auto
  show "check_rbuffer (with_rbuffers rb qs ! r) (rbuffer (with_rbuffers rb qs ! r))
      (word_of_int (rdispls (with_rbuffers rb qs ! r) ! j) * scale p) j 0
      (word_of_int (recvcounts (with_rbuffers rb qs ! r) ! j) * scale p) = Return ()"
    using fit zero ar [OF j] d [OF j] assms(5) scaled [OF assms(1), of "disp_of ?g ?n j"]
      scaled [OF assms(1), of "cnt_of ?g ?n j"]
    by (simp add: q check_rbuffer_def check_loop_Return)
qed

lemma own_count_eq:
  assumes "params_ok G p N"
  shows "own_count p N r = int (cnt_of (\<lambda>i. i * chunk p N) (unat (psize p)) r)"
proof -
  have "pcount p + 1 = int (unat (psize p) + 1)" using assms by (simp add: params_ok_def)
  moreover have "int r * chunksize p N = int (r * chunk p N)" using chunk_bound(1) [OF assms] by simp
  ultimately show ?thesis unfolding own_count_def cnt_of_def by (simp only: smod_nat)
qed

lemma time_allgatherv_runs:
  assumes "MPI E = M" "bufs_ok G ps" "params_ok G p (length ps)" "arrays_ok ps"
  shows "runs (time_allgatherv E G p ps) ps"
proof -
  let ?N = "length ps" and ?n = "unat (psize p)"
  let ?g = "\<lambda>i. i * chunk p ?N"
  obtain ps' where f: "each_rank (fill_recv p ?N) ps = Return ps'" and k: "keeps ps ps'"
    and sr: "recv_filled p ps'" and ok: "bufs_ok G ps'"
    using fill_recv_Return [OF assms(3,4)] assms(2) by blast
  have N: "length ps' = ?N" using k by (simp add: keeps_def)
  have a: "recvcounts (ps' ! r) ! j = int (cnt_of ?g ?n j)" "rdispls (ps' ! r) ! j = int (disp_of ?g ?n j)"
    if "r < ?N" "j < ?N" for r j
    using sr that by (simp_all add: recv_filled_def N Let_def)
  let ?T = "alltoall_transfers ?N (\<lambda>j i. 0) (\<lambda>i j. disp_of ?g ?n j) (\<lambda>i j. cnt_of ?g ?n j)"
  have T: "?T = alltoall_transfers ?N (\<lambda>j i. 0)
      (\<lambda>i j. bytes (map rdispls ps' ! i ! j) MPI_BYTE) (\<lambda>i j. bytes (map recvcounts ps' ! i ! j) MPI_BYTE)"
    using a N by (auto simp: alltoall_transfers_def intro!: arg_cong [of _ _ concat])
  have p: "ptype p = MPI_BYTE" using assms(3) by (simp add: params_ok_def)
  have "runs (timed E p (checked G p
       (\<lambda>ps. with_rbuffers (MPI_Allgatherv (MPI E) (map (own_count p (length ps)) [0..<length ps]) (ptype p)
                              (map recvcounts ps) (map rdispls ps) (ptype p) (map sbuffer ps) (map rbuffer ps)) ps)
       (\<lambda>qs r q. check_gathered p qs q)) ps') ps"
  proof (rule runs_frame [OF _ k], rule checked_delivery [where T = ?T, OF ok])
    fix qs assume fr: "frame ps' qs"
    note l = frame_length [OF fr] bufs_ok_nth [OF frame_bufs_ok [OF fr ok]]
    have "cnt_of ?g ?n j \<le> unat (buffer_size G)" if "j < ?N" for j
      using disp_fits(1) [OF assms(3) that, of ?g] by simp
    then show "fits ?T (map sbuffer qs) (map rbuffer qs)"
      using l N disp_fits(1) [OF assms(3)] disp_mono by (intro fits_alltoall) auto
    have m: "map recvcounts qs = map recvcounts ps'" "map rdispls qs = map rdispls ps'"
      using fr by (auto simp: frame_def intro: nth_equalityI)
    show "delivered ?T (map sbuffer qs) (map rbuffer qs) (MPI_Allgatherv (MPI E) (map (own_count p (length qs)) [0..<length qs])
        (ptype p) (map recvcounts qs) (map rdispls qs) (ptype p) (map sbuffer qs) (map rbuffer qs))"
      if "fits ?T (map sbuffer qs) (map rbuffer qs)"
      unfolding m assms(1) p
    proof (rule allgatherv)
      show "?T = alltoall_transfers (length (map rbuffer qs)) (\<lambda>j i. 0)
        (\<lambda>i j. bytes (map rdispls ps' ! i ! j) MPI_BYTE) (\<lambda>i j. bytes (map recvcounts ps' ! i ! j) MPI_BYTE)"
        unfolding T using l(1) N by simp
      show "0 \<le> map recvcounts ps' ! i ! j \<and> map (own_count p (length qs)) [0..<length qs] ! j = map recvcounts ps' ! i ! j
          \<and> 0 \<le> map rdispls ps' ! i ! j"
        if "i < length (map rbuffer qs)" "j < length (map rbuffer qs)" for i j
        using that a [of i j] l(1) N own_count_eq [OF assms(3)] by simp
    qed (use that in simp_all)
  next
    fix qs rb r
    assume fr: "frame ps' qs" and rb: "map length rb = map length (map rbuffer qs)" "r < length ps'"
      and d: "\<And>t b. t \<in> set ?T \<Longrightarrow> b < len t \<Longrightarrow> rb ! dst t ! (dst_off t + b) = pattern (src t) (of_nat (src_off t + b))"
    note l = rb_lengths [OF rb(1) fr ok rb(2)]
    have t: "\<lparr>dst = r, dst_off = disp_of ?g ?n j, src = j, src_off = 0, len = cnt_of ?g ?n j\<rparr> \<in> set ?T" if "j < ?N" for j
      using that rb(2) N by (auto simp: set_alltoall_transfers)
    show "check_gathered p (with_rbuffers rb qs) (with_rbuffers rb qs ! r) = Return ()"
      using assms(3) l N rb(2) fr a d [OF t] by (intro check_gathered_Return [where G = G]) (simp_all add: frame_def)
  qed
  then show ?thesis by (simp add: time_allgatherv_def f N)
qed

lemma time_gatherv_runs:
  assumes "MPI E = M" "bufs_ok G ps" "params_ok G p (length ps)" "arrays_ok ps"
  shows "runs (time_gatherv E G p ps) ps"
proof -
  let ?N = "length ps" and ?n = "unat (psize p)"
  let ?g = "\<lambda>i. i * chunk p ?N"
  obtain ps' where f: "each_rank (fill_recv p ?N) ps = Return ps'" and k: "keeps ps ps'"
    and sr: "recv_filled p ps'" and ok: "bufs_ok G ps'"
    using fill_recv_Return [OF assms(3,4)] assms(2) by blast
  have N: "length ps' = ?N" using k by (simp add: keeps_def)
  have a: "recvcounts (ps' ! r) ! j = int (cnt_of ?g ?n j)" "rdispls (ps' ! r) ! j = int (disp_of ?g ?n j)"
    if "r < ?N" "j < ?N" for r j
    using sr that by (simp_all add: recv_filled_def N Let_def)
  have p: "ptype p = MPI_BYTE" "proot p < ?N" using assms(3) by (simp_all add: params_ok_def)
  let ?T = "gather_transfers ?N (proot p) (\<lambda>j. disp_of ?g ?n j) (\<lambda>j. cnt_of ?g ?n j)"
  have T: "?T = gather_transfers ?N (proot p) (\<lambda>j. bytes (map rdispls ps' ! proot p ! j) MPI_BYTE)
      (\<lambda>j. bytes (map recvcounts ps' ! proot p ! j) MPI_BYTE)"
    using a p(2) N by (auto simp: gather_transfers_def)
  have "runs (timed E p (checked G p
       (\<lambda>ps. with_rbuffers (MPI_Gatherv (MPI E) (map (own_count p (length ps)) [0..<length ps]) (ptype p)
                              (map recvcounts ps) (map rdispls ps) (ptype p) (proot p) (map sbuffer ps) (map rbuffer ps)) ps)
       (\<lambda>qs r q. if r = proot p then check_gathered p qs q else Return ())) ps') ps"
  proof (rule runs_frame [OF _ k], rule checked_delivery [where T = ?T, OF ok])
    fix qs assume fr: "frame ps' qs"
    note l = frame_length [OF fr] bufs_ok_nth [OF frame_bufs_ok [OF fr ok]]
    have "cnt_of ?g ?n j \<le> unat (buffer_size G)" if "j < ?N" for j
      using disp_fits(1) [OF assms(3) that, of ?g] by simp
    then show "fits ?T (map sbuffer qs) (map rbuffer qs)"
      using l N p(2) disp_fits(1) [OF assms(3)] disp_mono by (intro fits_gather) auto
    have m: "map recvcounts qs = map recvcounts ps'" "map rdispls qs = map rdispls ps'"
      using fr by (auto simp: frame_def intro: nth_equalityI)
    show "delivered ?T (map sbuffer qs) (map rbuffer qs) (MPI_Gatherv (MPI E) (map (own_count p (length qs)) [0..<length qs])
        (ptype p) (map recvcounts qs) (map rdispls qs) (ptype p) (proot p) (map sbuffer qs) (map rbuffer qs))"
      if "fits ?T (map sbuffer qs) (map rbuffer qs)"
      unfolding m assms(1) p(1)
    proof (rule gatherv)
      show "?T = gather_transfers (length (map rbuffer qs)) (proot p) (\<lambda>j. bytes (map rdispls ps' ! proot p ! j) MPI_BYTE)
        (\<lambda>j. bytes (map recvcounts ps' ! proot p ! j) MPI_BYTE)"
        unfolding T using l(1) N by simp
      show "0 \<le> map recvcounts ps' ! proot p ! j
          \<and> map (own_count p (length qs)) [0..<length qs] ! j = map recvcounts ps' ! proot p ! j
          \<and> 0 \<le> map rdispls ps' ! proot p ! j"
        if "j < length (map rbuffer qs)" for j
        using that a [OF p(2), of j] l(1) N p(2) own_count_eq [OF assms(3)] by simp
    qed (use that p(2) l(1) N in simp_all)
  next
    fix qs rb r
    assume fr: "frame ps' qs" and rb: "map length rb = map length (map rbuffer qs)" "r < length ps'"
      and d: "\<And>t b. t \<in> set ?T \<Longrightarrow> b < len t \<Longrightarrow> rb ! dst t ! (dst_off t + b) = pattern (src t) (of_nat (src_off t + b))"
    note l = rb_lengths [OF rb(1) fr ok rb(2)]
    have t: "\<lparr>dst = proot p, dst_off = disp_of ?g ?n j, src = j, src_off = 0, len = cnt_of ?g ?n j\<rparr> \<in> set ?T" if "j < ?N" for j
      using that by (auto simp: set_gather_transfers)
    have "check_gathered p (with_rbuffers rb qs) (with_rbuffers rb qs ! r) = Return ()" if "r = proot p"
      using that assms(3) l N rb(2) fr a d [OF t] by (intro check_gathered_Return [where G = G]) (simp_all add: frame_def)
    then show "(if r = proot p then check_gathered p (with_rbuffers rb qs) (with_rbuffers rb qs ! r) else Return ()) = Return ()"
      by simp
  qed
  then show ?thesis by (simp add: time_gatherv_def f N)
qed

text \<open>The tests without a comparison.\<close>

lemma time_barrier_runs: "runs (time_barrier E G p ps) ps"
  unfolding time_barrier_def by (intro runs_frame [OF timed_Return keeps_refl]) simp

lemma reduction_runs:
  assumes "\<And>qs. frame ps qs \<Longrightarrow> map length (op qs) = map length (map rbuffer qs)"
  shows "runs (timed E p (\<lambda>i qs. Return (with_rbuffers (op qs) qs)) ps) ps"
  using assms by (intro runs_frame [OF timed_Return keeps_refl]) (simp add: frame_rbuffers)

lemma time_reductions_run:
  assumes "MPI E = M" "bufs_ok G ps" "0 \<le> pcount p" "bytes (pcount p) (ptype p) \<le> unat (buffer_size G)" "proot p < length ps"
  shows "runs (time_allreduce E G p ps) ps" "runs (time_reduce E G p ps) ps"
proof -
  have b: "\<forall>b\<in>set (map sbuffer qs) \<union> set (map rbuffer qs). bytes (pcount p) (ptype p) \<le> length b" if "frame ps qs" for qs
    using frame_bufs_ok [OF that assms(2)] assms(4) by (auto simp: bufs_ok_def)
  show "runs (time_allreduce E G p ps) ps"
    unfolding time_allreduce_def assms(1) by (intro reduction_runs allreduce assms(3) b) simp_all
  show "runs (time_reduce E G p ps) ps"
    unfolding time_reduce_def assms(1)
    by (intro reduction_runs reduce assms(3) b) (use assms(5) frame_length in simp_all)
qed

end

subsection \<open>What the checks find\<close>

lemma check_loop_find:
  assumes "\<forall>i\<in>set is. off + i < length buf"
  shows "check_loop report buf off rank j0 is =
    (case List.find (\<lambda>i. buf ! (off + i) \<noteq> pattern rank (j0 + of_nat i)) is of None \<Rightarrow> Return () | Some i \<Rightarrow> Exit 1 (report i))"
  using assms by (induction "is") auto

text \<open>
  C29. The comparison of a receive buffer reports the first byte that differs from the pattern of the sender, with
  its index in the buffer, and aborts the job; without such a byte it passes.
\<close>

theorem check_rbuffer_reports:
  assumes "unat off + unat n \<le> length buffer"
  shows "check_rbuffer p buffer off rank soff n =
    (case List.find (\<lambda>i. buffer ! (unat off + i) \<noteq> pattern rank (soff + of_nat i)) [0..<unat n] of
       None \<Rightarrow> Return ()
     | Some i \<Rightarrow> Exit 1 (''Receive buffer corruption detected on rank '' @ show_nat (rank_local p) @ '' at rbuffer[''
         @ show_size (unat off + i) @ ''] from rank '' @ show_nat rank @ newline))"
  unfolding check_rbuffer_def by (rule check_loop_find) (use assms in auto)

text \<open>The patterns of two ranks differ at every even index.\<close>

lemma pattern_nat: "pattern rank i = of_nat ((unat i + 1) * (rank + 1) + unat i)"
proof -
  have "(i + 1) * (of_nat rank + 1) + i = of_nat ((unat i + 1) * (rank + 1) + unat i)" by (simp add: algebra_simps)
  then have "pattern rank i = ucast (of_nat ((unat i + 1) * (rank + 1) + unat i) :: u64)" by (simp only: pattern_def)
  also have "\<dots> = of_nat ((unat i + 1) * (rank + 1) + unat i)"
  proof -
    have "ucast (of_nat n :: u64) = (of_nat n :: byte)" for n
      by (simp add: unsigned_of_nat word_of_nat_eq_iff)
    then show ?thesis .
  qed
  finally show ?thesis .
qed

lemma pattern_even:
  assumes "even (unat i)" "r < 256" "r' < 256" "pattern r i = pattern r' i"
  shows "r = r'"
proof -
  let ?k = "int (unat i)"
  have mod: "int a mod 2 ^ 8 = int b mod 2 ^ 8" if "(of_nat a :: byte) = of_nat b" for a b
  proof -
    have "a mod 2 ^ 8 = b mod 2 ^ 8" using that by (simp add: word_of_nat_eq_iff take_bit_eq_mod)
    then show ?thesis by (metis of_nat_mod of_nat_numeral of_nat_power)
  qed
  have "int ((unat i + 1) * (r + 1) + unat i) mod 2 ^ 8 = int ((unat i + 1) * (r' + 1) + unat i) mod 2 ^ 8"
    using assms(4) unfolding pattern_nat by (rule mod)
  then have "256 dvd int ((unat i + 1) * (r + 1) + unat i) - int ((unat i + 1) * (r' + 1) + unat i)"
    by (simp add: mod_eq_dvd_iff)
  also have "int ((unat i + 1) * (r + 1) + unat i) - int ((unat i + 1) * (r' + 1) + unat i) = (?k + 1) * (int r - int r')"
    by (simp add: algebra_simps)
  finally have "256 dvd (?k + 1) * (int r - int r')" .
  moreover have "coprime (2 ^ 8) (?k + 1)" using assms(1) by (subst coprime_power_left_iff) (simp del: of_nat_unat int_nat_eq add: even_of_nat_iff)
  ultimately have "256 dvd int r - int r'" by (simp add: coprime_dvd_mult_right_iff)
  then have "\<bar>256\<bar> \<le> \<bar>int r - int r'\<bar>" if "r \<noteq> r'" using that by (intro dvd_imp_le_int) simp_all
  with assms(2,3) show ?thesis by linarith
qed

text \<open>
  C30. A block that comes from the wrong member is found. Of two bytes in sequence one has an even index, at which
  the patterns of any two of 256 ranks differ.
\<close>

theorem misrouted_block_reported:
  assumes "r < 256" "r' < 256" "r \<noteq> r'" "2 \<le> unat n" "unat off + unat n \<le> length buffer"
    and "\<forall>i<unat n. buffer ! (unat off + i) = pattern r' (soff + of_nat i)"
  shows "\<exists>out. check_rbuffer p buffer off r soff n = Exit 1 out"
proof -
  have "even (unat (soff + of_nat i)) \<longleftrightarrow> even (unat soff + i)" if "i < 2" for i
  proof -
    have "unat (of_nat i :: u64) = i" using that by (simp add: unat_of_nat)
    then show ?thesis by (simp add: unat_word_ariths(1) dvd_mod_iff)
  qed
  then obtain i where i: "i < 2" "even (unat (soff + of_nat i))"
    by (metis even_Suc less_2_cases_iff add.right_neutral add_Suc_right One_nat_def)
  then have n: "i < unat n" using assms(4) by simp
  have "buffer ! (unat off + i) \<noteq> pattern r (soff + of_nat i)"
    using pattern_even [OF i(2) assms(1,2)] assms(3,6) n by auto
  then have "List.find (\<lambda>i. buffer ! (unat off + i) \<noteq> pattern r (soff + of_nat i)) [0..<unat n] \<noteq> None"
    using n by (auto simp: find_None_iff)
  moreover have "\<forall>i\<in>set [0..<unat n]. unat off + i < length buffer" using assms(5) by simp
  ultimately show ?thesis by (simp add: check_rbuffer_def check_loop_find split: option.split)
qed

text \<open>Instances.\<close>

definition proc0 :: bproc where
  "proc0 = \<lparr>rank_local = 0, sbuffer = [], rbuffer = [], sendcounts = [], sdispls = [], recvcounts = [], rdispls = [], clock = 0\<rparr>"

theorem check_rbuffer_reports_witness:
  "check_rbuffer proc0 [2, 5, 9] 0 1 0 3
   = Exit 1 (''Receive buffer corruption detected on rank 0 at rbuffer[2] from rank 1'' @ newline)"
  by (subst check_rbuffer_reports) (simp_all add: pattern_def proc0_def upt_rec show_size_def show_int_def show_nat.simps digit_def char_of_def bit_iff_odd)

theorem misrouted_block_reported_witness: "\<exists>out. check_rbuffer proc0 [0, 0, 2, 5] 2 0 0 2 = Exit 1 out"
proof (rule misrouted_block_reported [of 0 1])
  have "[0, 0, 2, 5] ! (2 + i) = pattern 1 (of_nat i)" if "i < 2" for i
    using less_2_cases [OF that] by (auto simp: pattern_def)
  then show "\<forall>i<unat (2 :: u64). [0, 0, 2, 5] ! (unat (2 :: u64) + i) = pattern 1 (0 + of_nat i)" by simp
qed simp_all

end
