(* ===== verification/Mpibench_Main.thy ===== *)
theory Mpibench_Main
  imports Mpibench
begin

text \<open>
  \<^verbatim>\<open>mpiBench\<close>: the estimate of the number of iterations, the statistics and the main program, which sizes the
  buffers, makes the communicators and runs the requested tests over the message sizes. What the program gets
  from its surroundings is a record: the clock and MPI, the number of processes, the results of \<^verbatim>\<open>malloc\<close> and
  the groups of the communicators MPI splits. The loop over the sizes may not end and is a partial function.

  The lemmas follow a run upwards: the sizes a loop visits, one measurement, the tests in one communicator, all
  communicators, the program.
\<close>

subsection \<open>Measuring\<close>

record 'd timing =
  title :: string
  tbytes :: u64
  titers :: int
  avg :: 'd
  tmin :: 'd
  tmax :: 'd
  tcomm :: string
  nranks :: nat

datatype 'd line =
    Start string
  | Host nat string
  | Timing "'d timing"
  | Memory u64
  | End

text \<open>The value of a process of the job, found by its world rank.\<close>

definition at_rank :: "nat \<Rightarrow> (bproc \<times> 'a) list \<Rightarrow> 'a option" where
  "at_rank w vs = map_option snd (List.find (\<lambda>(q, v). rank_local q = w) vs)"

text \<open>
  Rank 0 gathers the times in the order of the world ranks. It is in the first position of its group of
  the communicator, whose size it prints.
\<close>

definition Print_Timings ::
    "'d fpu \<Rightarrow> 'd list \<Rightarrow> string \<Rightarrow> u64 \<Rightarrow> int \<Rightarrow> string \<Rightarrow> nat \<Rightarrow> 'd line" where
  "Print_Timings F ts ttl siz its desc nr =
     (let lo = fold (\<lambda>t m. if f_less F t m then t else m) ts (f_int F 100000000);
          hi = fold (\<lambda>t m. if f_less F m t then t else m) ts (f_int F (- 1));
          sum = fold (\<lambda>t s. f_add F s t) ts (f_int F 0)
      in Timing \<lparr>title = ttl, tbytes = siz, titers = its, avg = f_div F sum (f_int F (int (length ts))),
           tmin = lo, tmax = hi, tcomm = desc, nranks = nr\<rparr>)"

definition ITRS_EST :: int where "ITRS_EST = 5"

definition iter_limit :: "'d fpu \<Rightarrow> int \<Rightarrow> int \<Rightarrow> 'd \<Rightarrow> int prog" where
  "iter_limit F iter time_limit time =
     bind_prog (if 0 < time_limit
                then (case f_trunc F (f_div F (f_int F time_limit) time) of None \<Rightarrow> Undefined | Some i \<Rightarrow> Return i)
                else Return iter)
       (\<lambda>i. Return (if i < iter then i else iter))"

type_synonym 'd test = "'d benv \<Rightarrow> bcfg \<Rightarrow> collParams \<Rightarrow> bproc list \<Rightarrow> (bproc list \<times> 'd list) prog"

text \<open>One run of a test in all groups of a communicator, with the processes and their times.\<close>

definition run_groups ::
    "'d test \<Rightarrow> 'd benv \<Rightarrow> bcfg \<Rightarrow> collParams \<Rightarrow> bproc list list \<Rightarrow> (bproc list \<times> 'd list) list prog" where
  "run_groups fn E G p groups = traverse_prog (fn E G p) groups"

definition all_times :: "(bproc list \<times> 'd list) list \<Rightarrow> (bproc \<times> 'd) list" where
  "all_times rs = concat (map (\<lambda>(ps, ts). zip ps ts) rs)"

text \<open>
  Prime, estimate and time. Every process computes a limit; that of world rank 0 is used by all, and
  it prints the times.
\<close>

definition get_time ::
    "'d test \<Rightarrow> 'd benv \<Rightarrow> bcfg \<Rightarrow> nat \<Rightarrow> string \<Rightarrow> collParams \<Rightarrow> int \<Rightarrow> int \<Rightarrow> string \<Rightarrow> bproc list list
     \<Rightarrow> (bproc list list \<times> 'd line) prog" where
  "get_time fn E G n ttl p iter time_limit desc groups =
     bind_prog (traverse_prog (each_rank (\<lambda>r q. bind_prog (init_sbuffer G r q) (init_rbuffer G r))) groups) (\<lambda>groups.
     bind_prog (run_groups fn E G (p\<lparr>piter := 1\<rparr>) groups) (\<lambda>rs.
     bind_prog (run_groups fn E G (p\<lparr>piter := ITRS_EST\<rparr>) (map fst rs)) (\<lambda>rs.
     bind_prog (traverse_prog (\<lambda>(q, t). bind_prog (iter_limit (FP E) iter time_limit t) (\<lambda>l. Return (q, l))) (all_times rs)) (\<lambda>ls.
       case at_rank 0 ls of
         None \<Rightarrow> Undefined
       | Some limit \<Rightarrow>
           bind_prog (if ITRS_EST < limit
                      then bind_prog (run_groups fn E G (p\<lparr>piter := limit\<rparr>) (map fst rs)) (\<lambda>rs. Return (rs, limit))
                      else Return (rs, ITRS_EST)) (\<lambda>(rs, its).
             Return (map fst rs,
               Print_Timings (FP E) (List.map_filter (\<lambda>w. at_rank w (all_times rs)) [0..<n]) ttl (psize p) its desc
                 (case List.find (\<lambda>g. \<exists>q\<in>set g. rank_local q = 0) (map fst rs) of None \<Rightarrow> 0 | Some g \<Rightarrow> length g)))))))"

subsection \<open>The main program\<close>

record 'd job =
  jenv :: "'d benv"
  jsize :: nat
  MPI_Init_err :: int
  hostname :: "nat \<Rightarrow> string"
  alloc_ok :: "nat \<Rightarrow> string \<Rightarrow> u64 \<Rightarrow> bool"
  cart_sub :: "nat \<Rightarrow> nat \<Rightarrow> nat list list"
  comm_split :: "int list \<Rightarrow> nat list list"

text \<open>Every process allocates; the memory counted so far is the state.\<close>

definition ALLOC_MAIN :: "'d job \<Rightarrow> u64 \<Rightarrow> string \<Rightarrow> u64 \<Rightarrow> u64 prog" where
  "ALLOC_MAIN J siz debug allocated =
     (if \<forall>r<jsize J. alloc_ok J r debug siz then Return (allocated + siz)
      else Exit 1 (''ERROR:  Allocating memory '' @ debug @ '':  requesting '' @ show_int (sint siz) @ '' bytes'' @ newline))"

text \<open>The loop that halves the largest message until two buffers for all ranks are within the limit.\<close>

function limit_size :: "u64 \<Rightarrow> u64 \<Rightarrow> u64 \<Rightarrow> u64" where
  "limit_size n mem_limit stop =
     (if mem_limit < stop * n * 2 \<and> 0 < stop then limit_size n mem_limit (stop div 2) else stop)"
  by pat_completeness auto
termination
  by (relation "measure (\<lambda>(n, m, s). unat s)") (simp_all add: unat_div_distrib unat_gt_0 word_gt_0)

declare limit_size.simps [simp del]

text \<open>The number of times the job can be halved before its parts are smaller than the partition size.\<close>

function count_partitions :: "int \<Rightarrow> int \<Rightarrow> nat" where
  "count_partitions partsize currentsize =
     (if 0 < partsize \<and> partsize \<le> currentsize then Suc (count_partitions partsize (currentsize div 2)) else 0)"
  by pat_completeness auto
termination
  by (relation "measure (\<lambda>(p, c). nat c)") auto

declare count_partitions.simps [simp del]

text \<open>The communicators: the world, one per Cartesian dimension and one per halving.\<close>

definition comms :: "'d job \<Rightarrow> argList \<Rightarrow> (string \<times> nat list list) list" where
  "comms J ar =
     [(''MPI_COMM_WORLD'', [[0..<jsize J]])]
     @ map (\<lambda>d. (''CartDim-'' @ show_nat (d + 1) @ ''of'' @ show_int (ndims ar), cart_sub J (nat (ndims ar)) d)) [0..<nat (ndims ar)]
     @ map (\<lambda>k. let currentsize = int (jsize J) div 2 ^ k in
               (''PartSize-'' @ show_int currentsize, comm_split J (map (\<lambda>r. int r div currentsize) [0..<jsize J])))
         [0..<count_partitions (partSize ar) (int (jsize J))]"

text \<open>The loop over the message sizes; it does not end if the size wraps around before it exceeds the limit.\<close>

partial_function (option) sweep :: "u64 \<Rightarrow> (u64 \<Rightarrow> 's \<Rightarrow> 's prog) \<Rightarrow> u64 \<Rightarrow> 's \<Rightarrow> 's prog option" where
  "sweep stop body siz s =
     (if siz \<le> stop then
        (case body siz s of
           Return s' \<Rightarrow> sweep stop body (if 0 < siz then push_bit 1 siz else 1) s'
         | Exit rc out \<Rightarrow> Some (Exit rc out)
         | Undefined \<Rightarrow> Some Undefined)
      else Some (Return s))"

type_synonym 'd bstate = "bproc list list \<times> 'd line list"

definition time_size ::
    "'d job \<Rightarrow> bcfg \<Rightarrow> argList \<Rightarrow> string \<Rightarrow> string \<Rightarrow> 'd test \<Rightarrow> mpi_type \<Rightarrow> u64 \<Rightarrow> int \<Rightarrow> 'd bstate \<Rightarrow> 'd bstate prog" where
  "time_size J G ar desc ttl fn ty siz cnt st =
     (case st of (groups, out) \<Rightarrow>
        if \<not> int_ok (timeLimit ar) then Undefined
        else bind_prog (get_time fn (jenv J) G (jsize J) ttl
            \<lparr>psize = siz, piter = 0, proot = 0, pcount = cnt, ptype = ty\<rparr> (iters ar) (timeLimit ar) desc groups)
          (\<lambda>(groups, l). Return (groups, out @ [l])))"

text \<open>The tests on bytes in the order of the program, then those on doubles.\<close>

definition byte_tests :: "(u32 \<times> string \<times> 'd test) list" where
  "byte_tests = [(0x002, ''Bcast'', time_bcast), (0x004, ''Alltoall'', time_alltoall), (0x100, ''Alltoallv'', time_alltoallv),
     (0x008, ''Allgather'', time_allgather), (0x200, ''Allgatherv'', time_allgatherv), (0x010, ''Gather'', time_gather),
     (0x400, ''Gatherv'', time_gatherv), (0x020, ''Scatter'', time_scatter)]"

definition double_tests :: "(u32 \<times> string \<times> 'd test) list" where
  "double_tests = [(0x040, ''Allreduce'', time_allreduce), (0x080, ''Reduce'', time_reduce)]"

definition test_bytes ::
    "'d job \<Rightarrow> bcfg \<Rightarrow> argList \<Rightarrow> u64 \<Rightarrow> string \<Rightarrow> u32 \<times> string \<times> 'd test \<Rightarrow> 'd bstate \<Rightarrow> 'd bstate prog option" where
  "test_bytes J G ar stop desc t st =
     (case t of (flag, ttl, fn) \<Rightarrow>
        if testFlags ar AND flag \<noteq> 0
        then sweep stop (\<lambda>siz. time_size J G ar desc ttl fn MPI_BYTE siz (int_of_size (unat siz))) (messStart ar) st
        else Some (Return st))"

definition test_doubles ::
    "'d job \<Rightarrow> bcfg \<Rightarrow> argList \<Rightarrow> u64 \<Rightarrow> string \<Rightarrow> u32 \<times> string \<times> 'd test \<Rightarrow> 'd bstate \<Rightarrow> 'd bstate prog option" where
  "test_doubles J G ar stop desc t st =
     (case t of (flag, ttl, fn) \<Rightarrow>
        if testFlags ar AND flag \<noteq> 0
        then sweep stop (\<lambda>siz st. if siz < 8 then Return st
               else time_size J G ar desc ttl fn MPI_DOUBLE siz (int_of_size (unat (siz div 8))) st) (messStart ar) st
        else Some (Return st))"

definition test_comm ::
    "'d job \<Rightarrow> bcfg \<Rightarrow> argList \<Rightarrow> u64 \<Rightarrow> string \<times> nat list list \<Rightarrow> bproc list \<times> 'd line list
     \<Rightarrow> (bproc list \<times> 'd line list) prog option" where
  "test_comm J G ar stop c wo =
     (case (c, wo) of ((desc, gs), (world, out)) \<Rightarrow>
        bind_run (if testFlags ar AND 0x001 \<noteq> 0
                  then Some (time_size J G ar desc ''Barrier'' time_barrier MPI_BYTE 0 0 (map (map (\<lambda>w. world ! w)) gs, out))
                  else Some (Return (map (map (\<lambda>w. world ! w)) gs, out))) (\<lambda>st.
        bind_run (fold_run (test_bytes J G ar stop desc) byte_tests st) (\<lambda>st.
        bind_run (fold_run (test_doubles J G ar stop desc) double_tests st) (\<lambda>(groups, out).
          Some (Return (List.map_filter (\<lambda>w. List.find (\<lambda>q. rank_local q = w) (concat groups)) [0..<jsize J], out))))))"

definition start_proc :: "u64 \<Rightarrow> nat \<Rightarrow> nat \<Rightarrow> bproc" where
  "start_proc bs n r = \<lparr>rank_local = r, sbuffer = replicate (unat bs) 0, rbuffer = replicate (unat bs) 0,
     sendcounts = replicate n 0, sdispls = replicate n 0, recvcounts = replicate n 0, rdispls = replicate n 0, clock = 0\<rparr>"

text \<open>The exit status of the job and what rank 0 prints. A negative number of dimensions makes the array of
  communicators too short for those stored in it.\<close>

definition mpibench_main :: "'d job \<Rightarrow> string list \<Rightarrow> (int \<times> 'd line list) prog option" where
  "mpibench_main J argv =
     (case processArgs argv of
        Exit rc out \<Rightarrow> Some (Exit rc out)
      | Undefined \<Rightarrow> Some Undefined
      | Return (None, out) \<Rightarrow> Some (case usage 0 of Exit rc u \<Rightarrow> Exit rc (out @ u) | r \<Rightarrow> r)
      | Return (Some ar, _) \<Rightarrow>
          if MPI_Init_err J \<noteq> 0 then Some (Exit 1 (''Error in MPI_Init'' @ newline))
          else
            let n = of_nat (jsize J) :: u64;
                stop = limit_size n (memLimit ar) (messStop ar);
                bs = stop * n;
                ncomms = word_of_int (1 + ndims ar + int (count_partitions (partSize ar) (int (jsize J)))) :: u64 in
            bind_run (Some (fold_prog (\<lambda>(siz, debug). ALLOC_MAIN J siz debug)
                [(256 * n, ''Hostname array''), (bs, ''Send Buffer''), (bs, ''Receive Buffer''), (4 * n, ''Send Counts''),
                 (4 * n, ''Send Displacements''), (4 * n, ''Recv Counts''), (4 * n, ''Recv Displacements''),
                 (8 * ncomms, ''Communicator array''), (256 * ncomms, ''Communicator description array'')] 0)) (\<lambda>allocated.
            bind_run (Some (if 0 < ndims ar
                then fold_prog (\<lambda>(siz, debug). ALLOC_MAIN J siz debug)
                  [(4 * word_of_int (ndims ar), ''Dimension array''), (4 * word_of_int (ndims ar), ''Period array'')] allocated
                else Return allocated)) (\<lambda>allocated.
            if ndims ar < 0 then Some Undefined
            else bind_run (fold_run
                (test_comm J \<lparr>buffer_size = bs, check_once = checkOnce ar, check_every = checkEvery ar\<rparr> ar stop)
                (comms J ar)
                (map (start_proc bs (jsize J)) [0..<jsize J],
                 Start ''1.5'' # map (\<lambda>k. Host k (hostname J k)) [0..<jsize J])) (\<lambda>(_, out).
              Some (Return (0, out @ [Memory (allocated div 1024), End]))))))"


subsection \<open>The loops of the main program\<close>

text \<open>
  Where the first product does not wrap around, the message size the loop ends with is within the limit, or 0.
\<close>

lemma limit_size_le: "limit_size n m s \<le> s"
proof (induction n m s rule: limit_size.induct)
  case (1 n m s)
  have "s div 2 \<le> s" by (simp add: word_le_nat_alt unat_div_distrib)
  with 1 show ?case by (subst limit_size.simps) (auto intro: order_trans)
qed

lemma limit_product:
  fixes s n :: u64
  assumes "unat s * unat n * 2 < 2 ^ 64" shows "unat (s * n * 2) = unat s * unat n * 2"
proof -
  have "s * n * 2 = of_nat (unat s * unat n * 2)" by simp
  then show ?thesis using assms by (simp only:) (simp add: unat_of_nat_small del: of_nat_mult)
qed

lemma limit_size_within:
  assumes "unat s * unat n * 2 < 2 ^ 64"
  shows "limit_size n m s = 0 \<or> unat (limit_size n m s) * unat n * 2 \<le> unat m"
  using assms
proof (induction n m s rule: limit_size.induct)
  case (1 n m s)
  note prod = limit_product [OF "1.prems"]
  show ?case
  proof (cases "m < s * n * 2 \<and> 0 < s")
    case True
    have "unat (s div 2) * unat n * 2 \<le> unat s * unat n * 2" by (simp add: unat_div_distrib)
    with "1.prems" have "unat (s div 2) * unat n * 2 < 2 ^ 64" by linarith
    with "1.IH" [OF True] True show ?thesis by (subst (1 2) limit_size.simps) simp
  next
    case False
    then have "limit_size n m s = s" by (subst limit_size.simps) auto
    then show ?thesis using False prod by (auto simp: not_less word_le_nat_alt word_gt_0)
  qed
qed

text \<open>The number of halvings is a logarithm.\<close>

lemma count_partitions_floorlog: "count_partitions (int p) (int n) = (if p = 0 then 0 else floorlog 2 (n div p))"
proof (induction n rule: less_induct)
  case (less n)
  show ?case
  proof (cases "0 < p \<and> p \<le> n")
    case True
    then have "count_partitions (int p) (int n) = Suc (count_partitions (int p) (int (n div 2)))"
      by (subst count_partitions.simps) (simp add: zdiv_int)
    also have "\<dots> = Suc (floorlog 2 (n div 2 div p))" using less.IH [of "n div 2"] True by simp
    also have "n div 2 div p = n div p div 2" by (simp add: div_mult2_eq [symmetric] mult.commute)
    also have "Suc (floorlog 2 (n div p div 2)) = floorlog 2 (n div p)"
      using True by (subst (2) compute_floorlog) (simp add: div_greater_zero_iff)
    finally show ?thesis using True by simp
  next
    case False
    then show ?thesis by (subst count_partitions.simps) (auto simp: floorlog_def)
  qed
qed

text \<open>The loop over the sizes ends if the largest size is below 2^63 and its body always returns.\<close>

text \<open>The sizes the loop visits, counted without wrap-around.\<close>

function size_steps :: "nat \<Rightarrow> nat \<Rightarrow> nat list" where
  "size_steps m siz = (if siz \<le> m then siz # size_steps m (if siz = 0 then 1 else 2 * siz) else [])"
  by pat_completeness auto
termination
  by (relation "measure (\<lambda>(m, siz). if siz = 0 then m + 2 else m + 1 - siz)") auto

declare size_steps.simps [simp del]

definition sizes :: "u64 \<Rightarrow> u64 \<Rightarrow> u64 list" where
  "sizes stop siz = map of_nat (size_steps (unat stop) (unat siz))"

lemma sizes_step:
  assumes "unat stop < 2 ^ 63"
  shows "sizes stop siz = (if siz \<le> stop then siz # sizes stop (if 0 < siz then push_bit 1 siz else 1) else [])"
proof -
  have "unat (push_bit 1 siz) = 2 * unat siz" if "siz \<le> stop"
  proof -
    have "unat siz < 2 ^ 63" using that assms by (simp add: word_le_nat_alt)
    then show ?thesis by (simp add: push_bit_eq_mult unat_word_ariths)
  qed
  then show ?thesis
    unfolding sizes_def by (subst size_steps.simps) (auto simp: word_le_nat_alt word_gt_0 unat_eq_0)
qed

lemma sweep_returns:
  assumes "unat stop < 2 ^ 63" and "I rows s"
    and "\<And>siz rows s. siz \<le> stop \<Longrightarrow> I rows s \<Longrightarrow> \<exists>s'. body siz s = Return s' \<and> I (rows @ g siz) s'"
  shows "\<exists>s'. sweep stop body siz s = Some (Return s') \<and> I (rows @ concat (map g (sizes stop siz))) s'"
  using assms(2)
proof (induction "sizes stop siz" arbitrary: siz rows s)
  case Nil
  then have "\<not> siz \<le> stop" using sizes_step [OF assms(1), of siz] by (auto split: if_splits)
  with Nil show ?case by (simp add: sweep.simps)
next
  case (Cons z zs)
  then have z: "z = siz" "siz \<le> stop" "zs = sizes stop (if 0 < siz then push_bit 1 siz else 1)"
    using sizes_step [OF assms(1), of siz] by (auto split: if_splits)
  obtain s' where s': "body siz s = Return s'" "I (rows @ g siz) s'" using assms(3) [OF z(2) Cons.prems] by blast
  have "\<exists>s''. sweep stop body (if 0 < siz then push_bit 1 siz else 1) s' = Some (Return s'')
      \<and> I ((rows @ g siz) @ concat (map g (sizes stop (if 0 < siz then push_bit 1 siz else 1)))) s''"
    by (rule Cons.hyps(1) [OF z(3) s'(2)])
  moreover have "sweep stop body siz s = sweep stop body (if 0 < siz then push_bit 1 siz else 1) s'"
    using z(2) s'(1) by (subst sweep.simps) simp
  moreover have "sizes stop siz = siz # sizes stop (if 0 < siz then push_bit 1 siz else 1)"
    using sizes_step [OF assms(1), of siz] z(2) by simp
  ultimately show ?case by (simp only: list.map concat.simps append_assoc)
qed

lemma fold_run_returns:
  assumes "I rows s" and "\<And>x rows s. x \<in> set xs \<Longrightarrow> I rows s \<Longrightarrow> \<exists>s'. f x s = Some (Return s') \<and> I (rows @ g x) s'"
  shows "\<exists>s'. fold_run f xs s = Some (Return s') \<and> I (rows @ concat (map g xs)) s'"
  using assms
proof (induction xs arbitrary: rows s)
  case (Cons x xs)
  from Cons.prems obtain s' where s': "f x s = Some (Return s')" "I (rows @ g x) s'" by fastforce
  have "\<exists>s''. fold_run f xs s' = Some (Return s'') \<and> I ((rows @ g x) @ concat (map g xs)) s''"
    by (rule Cons.IH [OF s'(2)]) (use Cons.prems(2) in simp)
  with s'(1) show ?case by simp
qed simp


text \<open>
  C31. As long as two buffers of the requested size for all ranks do not exceed the 64 bits of a
  \<^verbatim>\<open>size_t\<close>, the message size that is used is the largest of the halvings of the requested one that keeps
  the memory limit. (Beyond that the product of the loop's condition wraps around.)
\<close>

theorem limit_size_largest:
  assumes "unat s * unat n * 2 < 2 ^ 64"
  shows "\<exists>k. limit_size n m s = drop_bit k s
    \<and> (drop_bit k s = 0 \<or> unat (drop_bit k s) * unat n * 2 \<le> unat m)
    \<and> (\<forall>j<k. unat m < unat (drop_bit j s) * unat n * 2)"
  using assms
proof (induction n m s rule: limit_size.induct)
  case (1 n m s)
  show ?case
  proof (cases "m < s * n * 2 \<and> 0 < s")
    case True
    have "unat (s div 2) * unat n * 2 \<le> unat s * unat n * 2" by (simp add: unat_div_distrib)
    with "1.prems" have "unat (s div 2) * unat n * 2 < 2 ^ 64" by linarith
    with "1.IH" [OF True] obtain k where k: "limit_size n m (s div 2) = drop_bit (Suc k) s"
        "drop_bit (Suc k) s = 0 \<or> unat (drop_bit (Suc k) s) * unat n * 2 \<le> unat m"
        "\<forall>j<k. unat m < unat (drop_bit (Suc j) s) * unat n * 2"
      by (auto simp: drop_bit_Suc)
    moreover have "unat m < unat s * unat n * 2" using True "1.prems" by (simp add: word_less_nat_alt limit_product)
    then have "\<forall>j<Suc k. unat m < unat (drop_bit j s) * unat n * 2" using k(3) by (simp add: All_less_Suc2)
    moreover have "limit_size n m s = limit_size n m (s div 2)" using True by (subst limit_size.simps) simp
    ultimately show ?thesis by metis
  next
    case False
    then have "limit_size n m s = s" by (subst limit_size.simps) auto
    then show ?thesis
      using False "1.prems" by (intro exI [of _ 0]) (auto simp: not_less word_le_nat_alt word_gt_0 limit_product)
  qed
qed

theorem limit_size_largest_witness:
  "\<exists>k. limit_size 3 100 64 = drop_bit k 64 \<and> (drop_bit k (64 :: u64) = 0 \<or> unat (drop_bit k (64 :: u64)) * 3 * 2 \<le> 100)
    \<and> (\<forall>j<k. 100 < unat (drop_bit j (64 :: u64)) * 3 * 2)"
  using limit_size_largest [of 64 3 100] by simp


subsection \<open>A measurement\<close>

text \<open>A group of processes with the buffers and arrays the main program allocates.\<close>

definition group_ok :: "bcfg \<Rightarrow> nat \<Rightarrow> bproc list \<Rightarrow> nat list \<Rightarrow> bool" where
  "group_ok G n ps rs \<longleftrightarrow> map rank_local ps = rs \<and> bufs_ok G ps
     \<and> (\<forall>q\<in>set ps. length (sendcounts q) = n \<and> length (sdispls q) = n \<and> length (recvcounts q) = n \<and> length (rdispls q) = n)"

lemma keeps_group_ok:
  assumes "keeps ps qs" "group_ok G n ps rs" shows "group_ok G n qs rs"
proof -
  have l: "length qs = length ps" using assms(1) by (simp add: keeps_def)
  have ranks: "map rank_local qs = map rank_local ps" using assms(1) by (auto simp: keeps_def intro: nth_equalityI)
  have "\<forall>r<length ps. length (sbuffer (ps ! r)) = unat (buffer_size G) \<and> length (rbuffer (ps ! r)) = unat (buffer_size G)
      \<and> length (sendcounts (ps ! r)) = n \<and> length (sdispls (ps ! r)) = n
      \<and> length (recvcounts (ps ! r)) = n \<and> length (rdispls (ps ! r)) = n"
    using assms(2) by (simp add: group_ok_def bufs_ok_def)
  then have "\<forall>q\<in>set qs. length (sbuffer q) = unat (buffer_size G) \<and> length (rbuffer q) = unat (buffer_size G)
      \<and> length (sendcounts q) = n \<and> length (sdispls q) = n \<and> length (recvcounts q) = n \<and> length (rdispls q) = n"
    using assms(1) by (simp add: keeps_def all_set_conv_all_nth)
  then show ?thesis using assms(2) ranks unfolding group_ok_def bufs_ok_def by simp
qed

lemma group_ok_init:
  assumes "group_ok G n ps rs"
  shows "\<exists>qs. each_rank (\<lambda>r q. bind_prog (init_sbuffer G r q) (init_rbuffer G r)) ps = Return qs \<and> group_ok G n qs rs"
proof -
  have "bufs_ok G ps" using assms by (simp add: group_ok_def)
  then obtain qs where "each_rank (\<lambda>r q. bind_prog (init_sbuffer G r q) (init_rbuffer G r)) ps = Return qs" "frame ps qs"
    by (rule init_filled)
  then show ?thesis using keeps_group_ok [OF frame_keeps assms] by blast
qed

lemma traverse_groups:
  assumes "list_all2 P gs rss" and "\<And>g rs. P g rs \<Longrightarrow> rs \<in> set rss \<Longrightarrow> \<exists>y. f g = Return y \<and> Q y rs"
  shows "\<exists>ys. traverse_prog f gs = Return ys \<and> list_all2 Q ys rss"
  using assms
proof (induction rule: list_all2_induct)
  case (Cons g gs rs rss)
  then obtain ys y where "traverse_prog f gs = Return ys" "list_all2 Q ys rss" "f g = Return y" "Q y rs" by fastforce
  then show ?case by simp
qed simp

text \<open>A test that runs in every group of at most \<open>n\<close> processes, whatever the number of iterations.\<close>

definition test_ok :: "'d test \<Rightarrow> 'd benv \<Rightarrow> bcfg \<Rightarrow> nat \<Rightarrow> collParams \<Rightarrow> bool" where
  "test_ok fn E G n p \<longleftrightarrow> (\<forall>i ps rs. ps \<noteq> [] \<longrightarrow> length ps \<le> n \<longrightarrow> group_ok G n ps rs \<longrightarrow> runs (fn E G (p\<lparr>piter := i\<rparr>) ps) ps)"

definition groups_ok :: "nat \<Rightarrow> nat list list \<Rightarrow> bool" where
  "groups_ok n gs \<longleftrightarrow> distinct (concat gs) \<and> set (concat gs) = {..<n} \<and> [] \<notin> set gs"

lemma groups_ok_length:
  assumes "groups_ok n gs" "g \<in> set gs" shows "g \<noteq> []" "length g \<le> n"
proof -
  show "g \<noteq> []" using assms by (auto simp: groups_ok_def)
  have "distinct g" using assms by (auto simp: groups_ok_def distinct_concat_iff)
  moreover have "set g \<subseteq> {..<n}" using assms by (auto simp: groups_ok_def)
  ultimately show "length g \<le> n" by (metis card_lessThan card_mono distinct_card finite_lessThan)
qed

definition timed_groups :: "bcfg \<Rightarrow> nat \<Rightarrow> bproc list \<times> 'd list \<Rightarrow> nat list \<Rightarrow> bool" where
  "timed_groups G n r rs \<longleftrightarrow> group_ok G n (fst r) rs \<and> length (snd r) = length (fst r)"

lemma run_groups_Return:
  assumes "test_ok fn E G n p" "groups_ok n gs" "list_all2 (group_ok G n) groups gs"
  shows "\<exists>rs. run_groups fn E G (p\<lparr>piter := i\<rparr>) groups = Return rs \<and> list_all2 (timed_groups G n) rs gs"
  unfolding run_groups_def
proof (rule traverse_groups [OF assms(3)])
  fix ps rs assume g: "group_ok G n ps rs" "rs \<in> set gs"
  then have "length ps = length rs" by (auto simp: group_ok_def)
  with groups_ok_length [OF assms(2) g(2)] assms(1) g(1) have "runs (fn E G (p\<lparr>piter := i\<rparr>) ps) ps"
    unfolding test_ok_def by (metis length_0_conv)
  then show "\<exists>y. fn E G (p\<lparr>piter := i\<rparr>) ps = Return y \<and> timed_groups G n y rs"
    using keeps_group_ok [OF _ g(1)] by (auto simp: runs_def timed_groups_def keeps_def)
qed

lemma timed_fst: "list_all2 (timed_groups G n) rs gs \<Longrightarrow> list_all2 (group_ok G n) (map fst rs) gs"
  by (auto simp: timed_groups_def list_all2_map1 elim: list_all2_mono)

lemma group_ranks: "list_all2 (group_ok G n) groups gs \<Longrightarrow> map rank_local (concat groups) = concat gs"
  by (induction rule: list_all2_induct) (auto simp: group_ok_def)

lemma all_times_procs:
  "list_all2 (timed_groups G n) rs gs \<Longrightarrow> map fst (all_times rs) = concat (map fst rs)"
  by (induction rule: list_all2_induct) (auto simp: timed_groups_def all_times_def)

text \<open>
  The time of one iteration that a process computes from its clock readings \<open>k\<close> and \<open>k + 1\<close>, and the
  condition on them: for every two successive readings of a clock of the job, the quotient of the time limit
  and the estimate is a number that fits an \<^verbatim>\<open>int\<close>. It fails for a clock that stands still, where the
  conversion is undefined.
\<close>

definition measured :: "'d benv \<Rightarrow> int \<Rightarrow> nat \<Rightarrow> nat \<Rightarrow> 'd" where
  "measured E its r k =
     f_div (FP E) (f_mul (FP E) (f_sub (FP E) (MPI_Wtime E r (k + 1)) (MPI_Wtime E r k)) (f_int (FP E) WTIME_FACTOR))
       (f_int (FP E) its)"

definition limit_ok :: "'d benv \<Rightarrow> nat \<Rightarrow> int \<Rightarrow> bool" where
  "limit_ok E n time_limit \<longleftrightarrow> time_limit \<le> 0
     \<or> (\<forall>r<n. \<forall>k. f_trunc (FP E) (f_div (FP E) (f_int (FP E) time_limit) (measured E ITRS_EST r k)) \<noteq> None)"

lemma iter_limit_Return:
  assumes "limit_ok E n tlim" "r < n" shows "\<exists>l\<le>iter. iter_limit (FP E) iter tlim (measured E ITRS_EST r k) = Return l"
proof (cases "0 < tlim")
  case True
  with assms obtain i where "f_trunc (FP E) (f_div (FP E) (f_int (FP E) tlim) (measured E ITRS_EST r k)) = Some i"
    by (fastforce simp: limit_ok_def)
  with True show ?thesis by (simp add: iter_limit_def)
qed (simp add: iter_limit_def)

text \<open>Every test measures between two successive readings of the clock of the process.\<close>

definition ticking :: "bproc list \<Rightarrow> bool" where
  "ticking ps \<longleftrightarrow> (\<forall>q\<in>set ps. 0 < clock q)"

definition clocked :: "'d test \<Rightarrow> bool" where
  "clocked fn \<longleftrightarrow> (\<forall>E G p ps rs ts q t. fn E G p ps = Return (rs, ts) \<longrightarrow> (q, t) \<in> set (zip rs ts) \<longrightarrow>
     (\<exists>k. t = measured E (piter p) (rank_local q) k))"

lemma fold_prog_keeps:
  "fold_prog f xs s = Return s' \<Longrightarrow> I s \<Longrightarrow> (\<And>x s s'. f x s = Return s' \<Longrightarrow> I s \<Longrightarrow> I s') \<Longrightarrow> I s'"
  by (induction xs arbitrary: s) (auto simp: bind_prog_Return_iff)

lemma timed_measured:
  assumes "timed E p body ps = Return (rs, ts)" and "(q, t) \<in> set (zip rs ts)"
    and keep: "\<And>i ps qs. body i ps = Return qs \<Longrightarrow> ticking ps \<Longrightarrow> ticking qs"
  shows "\<exists>k. t = measured E (piter p) (rank_local q) k"
proof -
  from assms(1) obtain qs where f: "fold_prog body (map int [0..<nat (piter p)]) (map (\<lambda>q. q\<lparr>clock := clock q + 1\<rparr>) ps) = Return qs"
    and rs: "rs = map (\<lambda>q. q\<lparr>clock := clock q + 1\<rparr>) qs"
    and ts: "ts = map (\<lambda>r. f_div (FP E) (f_mul (FP E) (f_sub (FP E) (MPI_Wtime E (rank_local r) (clock r - 1))
      (MPI_Wtime E (rank_local r) (clock r - 2))) (f_int (FP E) WTIME_FACTOR)) (f_int (FP E) (piter p))) rs"
    by (auto simp: timed_def Let_def bind_prog_Return_iff)
  have "ticking qs" by (rule fold_prog_keeps [OF f _ keep]) (auto simp: ticking_def)
  moreover from assms(2) obtain i where "i < length rs" "q = rs ! i" "t = ts ! i" by (auto simp: in_set_zip)
  ultimately obtain q' where q': "q = q'\<lparr>clock := clock q' + 1\<rparr>" "0 < clock q'"
    and t: "t = f_div (FP E) (f_mul (FP E) (f_sub (FP E) (MPI_Wtime E (rank_local q) (clock q - 1))
      (MPI_Wtime E (rank_local q) (clock q - 2))) (f_int (FP E) WTIME_FACTOR)) (f_int (FP E) (piter p))"
    by (auto simp: rs ts ticking_def)
  have "clock q - 1 = (clock q' - 1) + 1" "clock q - 2 = clock q' - 1" using q' by simp_all
  then have "t = measured E (piter p) (rank_local q) (clock q' - 1)" unfolding t measured_def by simp
  then show ?thesis ..
qed

lemma ticking_each_rank:
  assumes "each_rank f ps = Return qs" "ticking ps" "\<And>r q q'. f r q = Return q' \<Longrightarrow> clock q' = clock q"
  shows "ticking qs"
proof -
  from assms(1) have *: "list_all2 (\<lambda>(r, q) q'. f r q = Return q') (enumerate 0 ps) qs"
    by (simp add: each_rank_def traverse_prog_Return_iff split_def)
  have "0 < clock (qs ! i)" if "i < length qs" for i
  proof -
    have l: "length qs = length ps" using list_all2_lengthD [OF *] by simp
    then have "f i (ps ! i) = Return (qs ! i)"
      using list_all2_nthD2 [OF * that] that by (simp add: nth_enumerate_eq)
    then have "clock (qs ! i) = clock (ps ! i)" by (rule assms(3))
    with assms(2) that l show ?thesis by (simp add: ticking_def)
  qed
  then show ?thesis by (auto simp: ticking_def in_set_conv_nth)
qed

lemma ticking_map2: "(\<And>x q. clock (f x q) = clock (g q)) \<Longrightarrow> ticking (map g ps) \<Longrightarrow> ticking (map2 f xs ps)"
  by (fastforce simp: ticking_def dest: set_zip_rightD)

lemma ticking_with_rbuffers: "ticking ps \<Longrightarrow> ticking (with_rbuffers rb ps)"
  unfolding with_rbuffers_def by (rule ticking_map2 [where g = id]) simp_all

lemma ticking_call_bcast: "ticking ps \<Longrightarrow> ticking (call_bcast E p ps)"
  unfolding call_bcast_def by (rule ticking_map2 [where g = snd]) (auto simp: split_def)

lemma ticking_checked:
  assumes "checked G p call check i ps = Return qs" "ticking ps" "\<And>ps. ticking ps \<Longrightarrow> ticking (call ps)"
  shows "ticking qs"
proof (cases "check_every G \<or> (check_once G \<and> i = piter p - 1)")
  case True
  with assms(1) obtain ps' where i: "each_rank (\<lambda>r q. bind_prog (init_sbuffer G r q) (init_rbuffer G r)) ps = Return ps'"
    and qs: "qs = call ps'"
    by (auto simp: checked_def Let_def bind_prog_Return_iff)
  have "ticking ps'"
    by (rule ticking_each_rank [OF i assms(2)])
       (auto simp: bind_prog_Return_iff init_sbuffer_def init_rbuffer_def Let_def split: if_splits)
  then show ?thesis unfolding qs by (rule assms(3))
next
  case False
  with assms show ?thesis by (auto simp: checked_def)
qed

lemma timed_checked_measured:
  assumes "timed E p (checked G p call check) ps = Return (rs, ts)" "(q, t) \<in> set (zip rs ts)"
    and "\<And>ps. ticking ps \<Longrightarrow> ticking (call ps)"
  shows "\<exists>k. t = measured E (piter p) (rank_local q) k"
  by (rule timed_measured [OF assms(1,2)]) (rule ticking_checked [OF _ _ assms(3)])

lemmas time_defs = time_bcast_def time_alltoall_def time_alltoallv_def time_allgather_def time_allgatherv_def
  time_gather_def time_gatherv_def time_scatter_def

lemma byte_tests_clocked:
  assumes "(flag, ttl, fn) \<in> set byte_tests"
  shows "clocked fn"
  unfolding clocked_def
proof (intro allI impI)
  fix E G p ps rs ts q t
  assume run: "fn E G p ps = Return (rs, ts)" and m: "(q, t) \<in> set (zip rs ts)"
  show "\<exists>k. t = measured E (piter p) (rank_local q) k"
    using assms run m
    by (auto simp: byte_tests_def time_defs bind_prog_Return_iff
        elim!: timed_checked_measured intro: ticking_with_rbuffers ticking_call_bcast)
qed

lemma double_tests_clocked: "(flag, ttl, fn) \<in> set double_tests \<Longrightarrow> clocked fn"
  unfolding clocked_def double_tests_def
  by (auto simp: time_allreduce_def time_reduce_def intro!: ticking_with_rbuffers elim!: timed_measured)

lemma barrier_clocked: "clocked time_barrier"
  unfolding clocked_def by (auto simp: time_barrier_def elim!: timed_measured)

text \<open>What a printed line says of the test, and the bounds of its number of iterations.\<close>

definition row :: "'d timing \<Rightarrow> string \<times> u64 \<times> string \<times> nat" where
  "row t = (title t, tbytes t, tcomm t, nranks t)"

definition root_size :: "nat list list \<Rightarrow> nat" where
  "root_size gs = (case List.find (\<lambda>g. 0 \<in> set g) gs of None \<Rightarrow> 0 | Some g \<Rightarrow> length g)"

definition iters_ok :: "int \<Rightarrow> 'd timing \<Rightarrow> bool" where
  "iters_ok iter t \<longleftrightarrow> ITRS_EST \<le> titers t \<and> titers t \<le> max ITRS_EST iter"

lemma root_size_groups:
  "list_all2 (group_ok G n) groups gs \<Longrightarrow>
   (case List.find (\<lambda>g. \<exists>q\<in>set g. rank_local q = 0) groups of None \<Rightarrow> 0 | Some g \<Rightarrow> length g) = root_size gs"
proof (induction rule: list_all2_induct)
  case (Cons ps groups rs gs)
  then have "map rank_local ps = rs" by (simp add: group_ok_def)
  then have "(\<exists>q\<in>set ps. rank_local q = 0) \<longleftrightarrow> 0 \<in> set rs" "length ps = length rs" by force+
  with Cons.IH show ?case by (simp add: root_size_def)
qed (simp add: root_size_def)

lemma at_rank_Some: "w \<in> rank_local ` fst ` set vs \<Longrightarrow> \<exists>v. at_rank w vs = Some v"
  by (cases "List.find (\<lambda>(q, v). rank_local q = w) vs") (auto simp: at_rank_def find_None_iff)

lemma get_time_Return:
  assumes "test_ok fn E G n p" "groups_ok n gs" "0 < n" "list_all2 (group_ok G n) groups gs" "limit_ok E n tlim" "clocked fn"
  shows "\<exists>groups' t. get_time fn E G n ttl p iter tlim desc groups = Return (groups', Timing t)
    \<and> list_all2 (group_ok G n) groups' gs \<and> row t = (ttl, psize p, desc, root_size gs) \<and> iters_ok iter t"
proof -
  obtain g0 where g0: "traverse_prog (each_rank (\<lambda>r q. bind_prog (init_sbuffer G r q) (init_rbuffer G r))) groups = Return g0"
    "list_all2 (group_ok G n) g0 gs"
    using traverse_groups [OF assms(4), where Q = "group_ok G n"] group_ok_init by meson
  obtain r1 where r1: "run_groups fn E G (p\<lparr>piter := 1\<rparr>) g0 = Return r1" "list_all2 (timed_groups G n) r1 gs"
    using run_groups_Return [OF assms(1,2) g0(2)] by blast
  obtain r2 where r2: "run_groups fn E G (p\<lparr>piter := ITRS_EST\<rparr>) (map fst r1) = Return r2" "list_all2 (timed_groups G n) r2 gs"
    using run_groups_Return [OF assms(1,2) timed_fst [OF r1(2)]] by blast
  have rk: "map rank_local (map fst (all_times r2)) = concat gs"
    by (simp only: all_times_procs [OF r2(2)] group_ranks [OF timed_fst [OF r2(2)]])
  then have all: "set (map rank_local (map fst (all_times r2))) = {..<n}" using assms(2) by (simp only: groups_ok_def)
  have "\<exists>l\<le>iter. iter_limit (FP E) iter tlim (snd x) = Return l" if x: "x \<in> set (all_times r2)" for x
  proof -
    obtain q t where qt: "x = (q, t)" by (cases x)
    have "rank_local q \<in> set (map rank_local (map fst (all_times r2)))" using x qt by force
    then have q: "rank_local q < n" unfolding all by simp
    from x qt obtain qs ts where "(qs, ts) \<in> set r2" and z: "(q, t) \<in> set (zip qs ts)"
      by (auto simp: all_times_def)
    moreover have "list_all2 (\<lambda>ps r. fn E G (p\<lparr>piter := ITRS_EST\<rparr>) ps = Return r) (map fst r1) r2"
      using r2(1) by (simp add: run_groups_def traverse_prog_Return_iff)
    ultimately obtain ps where "fn E G (p\<lparr>piter := ITRS_EST\<rparr>) ps = Return (qs, ts)"
      by (auto simp: in_set_conv_nth list_all2_conv_all_nth)
    then obtain k where "t = measured E ITRS_EST (rank_local q) k"
      using assms(6) z unfolding clocked_def by fastforce
    then show ?thesis using iter_limit_Return [OF assms(5) q] qt by simp
  qed
  then have "\<forall>x\<in>set (all_times r2). \<exists>l. l \<le> iter \<and> iter_limit (FP E) iter tlim (snd x) = Return l" by blast
  then obtain L where L: "\<forall>x\<in>set (all_times r2). L x \<le> iter \<and> iter_limit (FP E) iter tlim (snd x) = Return (L x)"
    by (rule bchoice [THEN exE])
  have ls: "traverse_prog (\<lambda>(q, t). bind_prog (iter_limit (FP E) iter tlim t) (\<lambda>l. Return (q, l))) (all_times r2)
      = Return (map (\<lambda>x. (fst x, L x)) (all_times r2))"
    by (rule traverse_prog_Return) (use L in auto)
  have "0 \<in> set (map rank_local (map fst (all_times r2)))" using all assms(3) by blast
  moreover have "map fst (map (\<lambda>x. (fst x, L x)) (all_times r2)) = map fst (all_times r2)" by (simp add: o_def)
  ultimately have "0 \<in> rank_local ` fst ` set (map (\<lambda>x. (fst x, L x)) (all_times r2))" by (metis list.set_map)
  then obtain lim where lim: "at_rank 0 (map (\<lambda>x. (fst x, L x)) (all_times r2)) = Some lim" using at_rank_Some by blast
  then have "lim \<le> iter" using L by (fastforce simp: at_rank_def find_Some_iff nth_map split_beta)
  obtain r3 where r3: "run_groups fn E G (p\<lparr>piter := lim\<rparr>) (map fst r2) = Return r3" "list_all2 (timed_groups G n) r3 gs"
    using run_groups_Return [OF assms(1,2) timed_fst [OF r2(2)]] by blast
  show ?thesis
    using timed_fst [OF r2(2)] timed_fst [OF r3(2)] \<open>lim \<le> iter\<close>
    by (cases "ITRS_EST < lim") (simp_all add: get_time_def g0(1) r1(1) r2(1) r3(1) ls lim Print_Timings_def Let_def
      row_def iters_ok_def root_size_groups [OF timed_fst [OF r2(2)]] root_size_groups [OF timed_fst [OF r3(2)]])
qed


subsection \<open>A run\<close>

context mpi_collectives
begin

lemma byte_tests_ok:
  assumes "MPI E = M" "(flag, ttl, fn) \<in> set byte_tests" and "n < 2 ^ 30" "n * unat siz \<le> unat (buffer_size G)"
    and "unat (buffer_size G) < 2 ^ 30"
  shows "test_ok fn E G n \<lparr>psize = siz, piter = 0, proot = 0, pcount = int_of_size (unat siz), ptype = MPI_BYTE\<rparr>"
  unfolding test_ok_def
proof (intro allI impI)
  fix i :: int and ps :: "bproc list" and rs
  assume a: "ps \<noteq> []" "length ps \<le> n" "group_ok G n ps rs"
  let ?p = "\<lparr>psize = siz, piter = 0, proot = 0, pcount = int_of_size (unat siz), ptype = MPI_BYTE\<rparr>\<lparr>piter := i\<rparr>"
  have b: "length ps * unat siz \<le> unat (buffer_size G)" using mult_le_mono1 [OF a(2)] assms(4) by (rule le_trans)
  have "unat siz \<le> length ps * unat siz" using a(1) by (simp add: Suc_le_eq)
  then have "unat siz \<le> unat (buffer_size G)" using b by (rule le_trans)
  then have "unat siz < 2 ^ 31" using assms(5) by simp
  then have p: "params_ok G ?p (length ps)" using a b assms(3,5) by (simp add: params_ok_def)
  moreover have "bufs_ok G ps" "arrays_ok ps" using a by (auto simp: group_ok_def arrays_ok_def)
  ultimately show "runs (fn E G ?p ps) ps"
    using assms(1,2) by (auto simp: byte_tests_def intro: time_bcast_runs time_alltoall_runs time_alltoallv_runs
      time_allgather_runs time_allgatherv_runs time_gather_runs time_gatherv_runs time_scatter_runs)
qed

lemma double_tests_ok:
  assumes "MPI E = M" "(flag, ttl, fn) \<in> set double_tests" and "unat siz \<le> unat (buffer_size G)"
    and "unat (buffer_size G) < 2 ^ 30"
  shows "test_ok fn E G n \<lparr>psize = siz, piter = 0, proot = 0, pcount = int_of_size (unat (siz div 8)), ptype = MPI_DOUBLE\<rparr>"
  unfolding test_ok_def
proof (intro allI impI)
  fix i :: int and ps :: "bproc list" and rs
  assume a: "ps \<noteq> []" "group_ok G n ps rs"
  let ?p = "\<lparr>psize = siz, piter = 0, proot = 0, pcount = int_of_size (unat (siz div 8)), ptype = MPI_DOUBLE\<rparr>\<lparr>piter := i\<rparr>"
  have "unat (siz div 8) = unat siz div 8" by (simp add: unat_div_distrib)
  moreover have "unat siz div 8 < 2 ^ 31" using assms(3,4) by simp
  ultimately have c: "pcount ?p = int (unat siz div 8)" by simp
  then have "bytes (pcount ?p) (ptype ?p) \<le> unat (buffer_size G)" using assms(3) by simp
  moreover have "bufs_ok G ps" using a by (simp add: group_ok_def)
  ultimately show "runs (fn E G ?p ps) ps"
    using assms(1,2) a(1) c by (auto simp: double_tests_def intro!: time_reductions_run)
qed

lemma barrier_ok: "test_ok time_barrier E G n p"
  by (simp add: test_ok_def time_barrier_runs)

end

text \<open>The state of the tests in a communicator: the groups, and the timings after what was printed before.\<close>

definition report_ok :: "int \<Rightarrow> (string \<times> u64 \<times> string \<times> nat) list \<Rightarrow> 'd line list \<Rightarrow> 'd line list \<Rightarrow> bool" where
  "report_ok iter rows pre out \<longleftrightarrow> (\<exists>ts. out = pre @ map Timing ts \<and> map row ts = rows \<and> list_all (iters_ok iter) ts)"

lemma report_ok_append:
  assumes "report_ok iter rows pre out" "row t = r" "iters_ok iter t" shows "report_ok iter (rows @ [r]) pre (out @ [Timing t])"
proof -
  from assms(1) obtain ts where "out = pre @ map Timing ts" "map row ts = rows" "list_all (iters_ok iter) ts"
    by (auto simp: report_ok_def)
  with assms(2,3) show ?thesis unfolding report_ok_def by (intro exI [of _ "ts @ [t]"]) simp
qed

definition state_ok ::
    "bcfg \<Rightarrow> nat \<Rightarrow> int \<Rightarrow> nat list list \<Rightarrow> 'd line list \<Rightarrow> (string \<times> u64 \<times> string \<times> nat) list \<Rightarrow> 'd bstate \<Rightarrow> bool" where
  "state_ok G n iter gs pre rows st \<longleftrightarrow> list_all2 (group_ok G n) (fst st) gs \<and> report_ok iter rows pre (snd st)"

lemma time_size_Return:
  assumes "test_ok fn (jenv J) G (jsize J) \<lparr>psize = siz, piter = 0, proot = 0, pcount = cnt, ptype = ty\<rparr>"
    and "groups_ok (jsize J) gs" "0 < jsize J" "int_ok (timeLimit ar)" "limit_ok (jenv J) (jsize J) (timeLimit ar)"
    and "state_ok G (jsize J) (iters ar) gs pre rows st"
    and "clocked fn"
  shows "\<exists>st'. time_size J G ar desc ttl fn ty siz cnt st = Return st'
    \<and> state_ok G (jsize J) (iters ar) gs pre (rows @ [(ttl, siz, desc, root_size gs)]) st'"
proof -
  obtain groups out where st: "st = (groups, out)" by fastforce
  with assms(6) have g: "list_all2 (group_ok G (jsize J)) groups gs" "report_ok (iters ar) rows pre out"
    by (simp_all add: state_ok_def)
  obtain groups' t where gt: "get_time fn (jenv J) G (jsize J) ttl \<lparr>psize = siz, piter = 0, proot = 0, pcount = cnt, ptype = ty\<rparr>
      (iters ar) (timeLimit ar) desc groups = Return (groups', Timing t)" "list_all2 (group_ok G (jsize J)) groups' gs"
      "row t = (ttl, siz, desc, root_size gs)" "iters_ok (iters ar) t"
    using get_time_Return [OF assms(1-3) g(1) assms(5,7), of ttl "iters ar" desc] by auto
  have "state_ok G (jsize J) (iters ar) gs pre (rows @ [(ttl, siz, desc, root_size gs)]) (groups', out @ [Timing t])"
    using gt(2) report_ok_append [OF g(2) gt(3,4)] by (simp add: state_ok_def)
  then show ?thesis using assms(4) gt(1) by (simp add: time_size_def st)
qed

lemma groups_of_world:
  assumes "group_ok G n world [0..<n]" "groups_ok n gs"
  shows "list_all2 (group_ok G n) (map (map (\<lambda>w. world ! w)) gs) gs"
proof -
  have l: "length world = n" using assms(1) by (auto simp: group_ok_def dest: arg_cong [of _ _ length])
  have m: "map rank_local world = [0..<n]" using assms(1) by (simp add: group_ok_def)
  have r: "rank_local (world ! w) = w" if "w < n" for w
    using nth_map [of w world rank_local] that unfolding m l by simp
  have "group_ok G n (map (\<lambda>w. world ! w) g) g" if "g \<in> set gs" for g
  proof -
    have "set g \<subseteq> {..<n}" using assms(2) that by (auto simp: groups_ok_def)
    then have "w < n" if "w \<in> set g" for w using that by auto
    then show ?thesis using assms(1) l r by (auto simp: group_ok_def bufs_ok_def intro!: map_idI)
  qed
  then show ?thesis by (simp add: list_all2_conv_all_nth)
qed

lemma world_of_groups:
  assumes "list_all2 (group_ok G n) groups gs" "groups_ok n gs"
  shows "group_ok G n (List.map_filter (\<lambda>w. List.find (\<lambda>q. rank_local q = w) (concat groups)) [0..<n]) [0..<n]"
proof -
  have ranks: "map rank_local (concat groups) = concat gs" by (rule group_ranks [OF assms(1)])
  have all: "\<forall>q\<in>set (concat groups). length (sbuffer q) = unat (buffer_size G) \<and> length (rbuffer q) = unat (buffer_size G)
      \<and> length (sendcounts q) = n \<and> length (sdispls q) = n \<and> length (recvcounts q) = n \<and> length (rdispls q) = n"
    using assms(1) by (induction rule: list_all2_induct) (auto simp: group_ok_def bufs_ok_def)
  have ex: "\<exists>q. List.find (\<lambda>q. rank_local q = w) (concat groups) = Some q \<and> q \<in> set (concat groups) \<and> rank_local q = w"
    if "w < n" for w
  proof -
    have "w \<in> set (map rank_local (concat groups))" using assms(2) that unfolding ranks by (simp only: groups_ok_def) simp
    then obtain q where "List.find (\<lambda>q. rank_local q = w) (concat groups) = Some q"
      by (cases "List.find (\<lambda>q. rank_local q = w) (concat groups)") (auto simp: find_None_iff)
    then obtain i where "List.find (\<lambda>q. rank_local q = w) (concat groups) = Some q" "i < length (concat groups)"
      "rank_local (concat groups ! i) = w" "q = concat groups ! i" unfolding find_Some_iff by blast
    then show ?thesis using nth_mem by blast
  qed
  then obtain Q where Q: "\<And>w. w < n \<Longrightarrow> List.find (\<lambda>q. rank_local q = w) (concat groups) = Some (Q w)
      \<and> Q w \<in> set (concat groups) \<and> rank_local (Q w) = w" by metis
  have "List.map_filter (\<lambda>w. List.find (\<lambda>q. rank_local q = w) (concat groups)) ws = map Q ws" if "\<forall>w\<in>set ws. w < n" for ws
    using that by (induction ws) (simp_all add: List.map_filter_simps Q)
  then have "List.map_filter (\<lambda>w. List.find (\<lambda>q. rank_local q = w) (concat groups)) [0..<n] = map Q [0..<n]" by simp
  moreover have "map (\<lambda>w. rank_local (Q w)) [0..<n] = [0..<n]" using Q by (intro map_idI) simp
  moreover have "\<forall>q\<in>set (map Q [0..<n]). length (sbuffer q) = unat (buffer_size G) \<and> length (rbuffer q) = unat (buffer_size G)
      \<and> length (sendcounts q) = n \<and> length (sdispls q) = n \<and> length (recvcounts q) = n \<and> length (rdispls q) = n"
  proof
    fix q assume "q \<in> set (map Q [0..<n])"
    then obtain w where "w < n" "q = Q w" by auto
    then show "length (sbuffer q) = unat (buffer_size G) \<and> length (rbuffer q) = unat (buffer_size G)
      \<and> length (sendcounts q) = n \<and> length (sdispls q) = n \<and> length (recvcounts q) = n \<and> length (rdispls q) = n"
      using Q all by blast
  qed
  ultimately show ?thesis by (simp add: group_ok_def bufs_ok_def o_def)
qed


text \<open>The job can run: MPI starts, memory is not short, and the communicators split the world.\<close>

definition job_ok :: "'d job \<Rightarrow> argList \<Rightarrow> bool" where
  "job_ok J ar \<longleftrightarrow> MPI_Init_err J = 0 \<and> 0 < jsize J \<and> jsize J < 2 ^ 30
     \<and> (\<forall>r debug siz. alloc_ok J r debug siz)
     \<and> (\<forall>c\<in>set (comms J ar). groups_ok (jsize J) (snd c))
     \<and> 0 \<le> ndims ar \<and> int_ok (timeLimit ar) \<and> limit_ok (jenv J) (jsize J) (timeLimit ar)
     \<and> unat (messStop ar) * jsize J * 2 < 2 ^ 64 \<and> unat (memLimit ar) < 2 ^ 31"


definition job_cfg :: "'d job \<Rightarrow> argList \<Rightarrow> bcfg" where
  "job_cfg J ar = \<lparr>buffer_size = limit_size (of_nat (jsize J)) (memLimit ar) (messStop ar) * of_nat (jsize J),
     check_once = checkOnce ar, check_every = checkEvery ar\<rparr>"

lemma job_buffer:
  assumes "job_ok J ar" and "siz \<le> limit_size (of_nat (jsize J)) (memLimit ar) (messStop ar)"
  shows "jsize J * unat siz \<le> unat (buffer_size (job_cfg J ar))" "unat (buffer_size (job_cfg J ar)) < 2 ^ 30"
    "unat (limit_size (of_nat (jsize J)) (memLimit ar) (messStop ar)) < 2 ^ 63"
proof -
  let ?s = "limit_size (of_nat (jsize J)) (memLimit ar) (messStop ar)"
  have n: "jsize J < 2 ^ 30" "0 < jsize J" "unat (memLimit ar) < 2 ^ 31" using assms(1) by (simp_all add: job_ok_def)
  have u: "unat (of_nat (jsize J) :: u64) = jsize J" by (rule unat_of_nat_small) (use n(1) in simp)
  have "?s = 0 \<or> unat ?s * unat (of_nat (jsize J) :: u64) * 2 \<le> unat (memLimit ar)"
    by (rule limit_size_within) (use assms(1) u in \<open>simp add: job_ok_def\<close>)
  then have b: "unat ?s * jsize J < 2 ^ 30" using n(3) unfolding u by auto
  have "?s * of_nat (jsize J) = of_nat (unat ?s * jsize J)" by simp
  then have bs: "unat (buffer_size (job_cfg J ar)) = unat ?s * jsize J"
    using b by (simp only: job_cfg_def bcfg.simps) (subst unat_of_nat_small; simp)
  show "unat (buffer_size (job_cfg J ar)) < 2 ^ 30" using b bs by simp
  have "unat siz \<le> unat ?s" using assms(2) by (simp add: word_le_nat_alt)
  then have "jsize J * unat siz \<le> jsize J * unat ?s" by (rule mult_le_mono2)
  then show "jsize J * unat siz \<le> unat (buffer_size (job_cfg J ar))" unfolding bs by (simp add: mult.commute)
  have "unat ?s \<le> unat ?s * jsize J" using n(2) by (simp add: Suc_le_eq)
  also note b
  finally show "unat ?s < 2 ^ 63" by (rule order_less_le_trans) simp
qed

abbreviation tests_state where
  "tests_state J ar \<equiv> state_ok (job_cfg J ar) (jsize J) (iters ar)"

abbreviation job_stop :: "'d job \<Rightarrow> argList \<Rightarrow> u64" where
  "job_stop J ar \<equiv> limit_size (of_nat (jsize J)) (memLimit ar) (messStop ar)"

text \<open>
  The lines a run reports, in order: for every communicator the barrier, then every requested operation on
  bytes and on doubles with every size.
\<close>

definition byte_rows :: "argList \<Rightarrow> u64 \<Rightarrow> string \<Rightarrow> nat \<Rightarrow> u32 \<times> string \<Rightarrow> (string \<times> u64 \<times> string \<times> nat) list" where
  "byte_rows ar stop desc k = (\<lambda>(flag, ttl).
     if testFlags ar AND flag \<noteq> 0 then map (\<lambda>siz. (ttl, siz, desc, k)) (sizes stop (messStart ar)) else [])"

definition double_rows :: "argList \<Rightarrow> u64 \<Rightarrow> string \<Rightarrow> nat \<Rightarrow> u32 \<times> string \<Rightarrow> (string \<times> u64 \<times> string \<times> nat) list" where
  "double_rows ar stop desc k = (\<lambda>(flag, ttl).
     if testFlags ar AND flag \<noteq> 0 then map (\<lambda>siz. (ttl, siz, desc, k)) (filter ((\<le>) 8) (sizes stop (messStart ar))) else [])"

definition comm_rows :: "argList \<Rightarrow> u64 \<Rightarrow> string \<times> nat list list \<Rightarrow> (string \<times> u64 \<times> string \<times> nat) list" where
  "comm_rows ar stop = (\<lambda>(desc, gs).
     (if testFlags ar AND 1 \<noteq> 0 then [(''Barrier'', 0, desc, root_size gs)] else [])
     @ concat (map (byte_rows ar stop desc (root_size gs))
         [(0x002, ''Bcast''), (0x004, ''Alltoall''), (0x100, ''Alltoallv''), (0x008, ''Allgather''), (0x200, ''Allgatherv''),
          (0x010, ''Gather''), (0x400, ''Gatherv''), (0x020, ''Scatter'')])
     @ concat (map (double_rows ar stop desc (root_size gs)) [(0x040, ''Allreduce''), (0x080, ''Reduce'')]))"

lemma job_time_size:
  assumes "job_ok J ar" "groups_ok (jsize J) gs" "tests_state J ar gs pre rows st"
    and "test_ok fn (jenv J) (job_cfg J ar) (jsize J) \<lparr>psize = siz, piter = 0, proot = 0, pcount = cnt, ptype = ty\<rparr>"
    and "clocked fn"
  shows "\<exists>st'. time_size J (job_cfg J ar) ar desc ttl fn ty siz cnt st = Return st'
    \<and> tests_state J ar gs pre (rows @ [(ttl, siz, desc, root_size gs)]) st'"
  using time_size_Return [OF assms(4,2)] assms(1,3,5) by (simp add: job_ok_def)

lemma job_test_bytes:
  assumes M: "mpi_collectives (MPI (jenv J))" and ok: "job_ok J ar" and gs: "groups_ok (jsize J) gs"
    and t: "(flag, ttl, fn) \<in> set byte_tests" and st: "tests_state J ar gs pre rows st"
  shows "\<exists>st'. test_bytes J (job_cfg J ar) ar (job_stop J ar) desc (flag, ttl, fn) st = Some (Return st')
    \<and> tests_state J ar gs pre (rows @ byte_rows ar (job_stop J ar) desc (root_size gs) (flag, ttl)) st'"
proof -
  have "\<exists>st'. time_size J (job_cfg J ar) ar desc ttl fn MPI_BYTE siz (int_of_size (unat siz)) s = Return st'
      \<and> tests_state J ar gs pre (rows @ [(ttl, siz, desc, root_size gs)]) st'"
    if "siz \<le> job_stop J ar" "tests_state J ar gs pre rows s" for siz rows s
  proof (rule job_time_size [OF ok gs that(2) _ byte_tests_clocked [OF t]])
    show "test_ok fn (jenv J) (job_cfg J ar) (jsize J)
        \<lparr>psize = siz, piter = 0, proot = 0, pcount = int_of_size (unat siz), ptype = MPI_BYTE\<rparr>"
      using mpi_collectives.byte_tests_ok [OF M refl t _ job_buffer(1,2) [OF ok that(1)]] ok by (simp add: job_ok_def)
  qed
  then have "\<exists>st'. sweep (job_stop J ar) (\<lambda>siz. time_size J (job_cfg J ar) ar desc ttl fn MPI_BYTE siz (int_of_size (unat siz)))
      (messStart ar) st = Some (Return st')
      \<and> tests_state J ar gs pre (rows @ concat (map (\<lambda>siz. [(ttl, siz, desc, root_size gs)]) (sizes (job_stop J ar) (messStart ar)))) st'"
    by (rule sweep_returns [where I = "tests_state J ar gs pre", OF job_buffer(3) [OF ok order_refl] st])
  then show ?thesis using st by (simp add: test_bytes_def byte_rows_def del: split_paired_Ex)
qed

lemma job_test_doubles:
  assumes M: "mpi_collectives (MPI (jenv J))" and ok: "job_ok J ar" and gs: "groups_ok (jsize J) gs"
    and t: "(flag, ttl, fn) \<in> set double_tests" and st: "tests_state J ar gs pre rows st"
  shows "\<exists>st'. test_doubles J (job_cfg J ar) ar (job_stop J ar) desc (flag, ttl, fn) st = Some (Return st')
    \<and> tests_state J ar gs pre (rows @ double_rows ar (job_stop J ar) desc (root_size gs) (flag, ttl)) st'"
proof -
  let ?g = "\<lambda>siz. if siz < 8 then [] else [(ttl, siz, desc, root_size gs)]"
  have "\<exists>st'. (if siz < 8 then Return s
        else time_size J (job_cfg J ar) ar desc ttl fn MPI_DOUBLE siz (int_of_size (unat (siz div 8))) s) = Return st'
      \<and> tests_state J ar gs pre (rows @ ?g siz) st'"
    if "siz \<le> job_stop J ar" "tests_state J ar gs pre rows s" for siz rows s
  proof -
    have "unat siz \<le> jsize J * unat siz" using ok by (simp add: job_ok_def Suc_le_eq)
    from le_trans [OF this job_buffer(1) [OF ok that(1)]]
    have "test_ok fn (jenv J) (job_cfg J ar) (jsize J)
        \<lparr>psize = siz, piter = 0, proot = 0, pcount = int_of_size (unat (siz div 8)), ptype = MPI_DOUBLE\<rparr>"
      by (rule mpi_collectives.double_tests_ok [OF M refl t]) (rule job_buffer(2) [OF ok that(1)])
    from job_time_size [OF ok gs that(2) this double_tests_clocked [OF t]] that(2) show ?thesis by (cases "siz < 8") (simp_all del: split_paired_Ex)
  qed
  then have "\<exists>st'. sweep (job_stop J ar) (\<lambda>siz s. if siz < 8 then Return s
        else time_size J (job_cfg J ar) ar desc ttl fn MPI_DOUBLE siz (int_of_size (unat (siz div 8))) s)
      (messStart ar) st = Some (Return st')
      \<and> tests_state J ar gs pre (rows @ concat (map ?g (sizes (job_stop J ar) (messStart ar)))) st'"
    by (rule sweep_returns [where I = "tests_state J ar gs pre", OF job_buffer(3) [OF ok order_refl] st])
  moreover have "concat (map ?g xs) = map (\<lambda>siz. (ttl, siz, desc, root_size gs)) (filter ((\<le>) 8) xs)" for xs :: "u64 list"
    by (induction xs) (auto simp: not_less)
  ultimately show ?thesis using st by (simp add: test_doubles_def double_rows_def del: split_paired_Ex)
qed

lemma test_comm_returns:
  fixes J :: "'d job"
  assumes M: "mpi_collectives (MPI (jenv J))" and ok: "job_ok J ar" and gs: "groups_ok (jsize J) gs"
    and world: "group_ok (job_cfg J ar) (jsize J) world [0..<jsize J]" and out: "report_ok (iters ar) rows pre out"
  shows "\<exists>world' out'. test_comm J (job_cfg J ar) ar (job_stop J ar) (desc, gs) (world, out) = Some (Return (world', out'))
    \<and> group_ok (job_cfg J ar) (jsize J) world' [0..<jsize J]
    \<and> report_ok (iters ar) (rows @ comm_rows ar (job_stop J ar) (desc, gs)) pre out'"
proof -
  let ?groups = "map (map (\<lambda>w. world ! w)) gs"
  let ?I = "tests_state J ar gs pre"
  let ?b = "if testFlags ar AND 1 \<noteq> 0 then [(''Barrier'', 0, desc, root_size gs)] else []"
  let ?B = "\<lambda>(flag, ttl, fn :: 'd test). byte_rows ar (job_stop J ar) desc (root_size gs) (flag, ttl)"
  let ?D = "\<lambda>(flag, ttl, fn :: 'd test). double_rows ar (job_stop J ar) desc (root_size gs) (flag, ttl)"
  have s0: "?I rows (?groups, out)" using groups_of_world [OF world gs] out by (simp add: state_ok_def)
  from job_time_size [OF ok gs s0 mpi_collectives.barrier_ok [OF M] barrier_clocked]
  obtain sb where sb: "time_size J (job_cfg J ar) ar desc ''Barrier'' time_barrier MPI_BYTE 0 0 (?groups, out) = Return sb"
      "?I (rows @ [(''Barrier'', 0, desc, root_size gs)]) sb" by blast
  obtain s1 where s1: "(if testFlags ar AND 0x001 \<noteq> 0
        then Some (time_size J (job_cfg J ar) ar desc ''Barrier'' time_barrier MPI_BYTE 0 0 (?groups, out))
        else Some (Return (?groups, out))) = Some (Return s1)" "?I (rows @ ?b) s1"
    using sb s0 by (cases "testFlags ar AND 0x001 = 0") auto
  have "\<exists>st'. test_bytes J (job_cfg J ar) ar (job_stop J ar) desc t st = Some (Return st') \<and> ?I (rws @ ?B t) st'"
    if "t \<in> set byte_tests" "?I rws st" for t rws st
    using job_test_bytes [OF M ok gs] that by (cases t) (simp del: split_paired_Ex)
  then have "\<exists>st'. fold_run (test_bytes J (job_cfg J ar) ar (job_stop J ar) desc) byte_tests s1 = Some (Return st')
      \<and> ?I ((rows @ ?b) @ concat (map ?B byte_tests)) st'"
    by (rule fold_run_returns [where I = ?I, OF s1(2)])
  then obtain s2 where s2: "fold_run (test_bytes J (job_cfg J ar) ar (job_stop J ar) desc) byte_tests s1 = Some (Return s2)"
      "?I ((rows @ ?b) @ concat (map ?B byte_tests)) s2"
    by (elim exE conjE)
  have "\<exists>st'. test_doubles J (job_cfg J ar) ar (job_stop J ar) desc t st = Some (Return st') \<and> ?I (rws @ ?D t) st'"
    if "t \<in> set double_tests" "?I rws st" for t rws st
    using job_test_doubles [OF M ok gs] that by (cases t) (simp del: split_paired_Ex)
  then have "\<exists>st'. fold_run (test_doubles J (job_cfg J ar) ar (job_stop J ar) desc) double_tests s2 = Some (Return st')
      \<and> ?I (((rows @ ?b) @ concat (map ?B byte_tests)) @ concat (map ?D double_tests)) st'"
    by (rule fold_run_returns [where I = ?I, OF s2(2)])
  then obtain s3 where s3: "fold_run (test_doubles J (job_cfg J ar) ar (job_stop J ar) desc) double_tests s2 = Some (Return s3)"
      "?I (((rows @ ?b) @ concat (map ?B byte_tests)) @ concat (map ?D double_tests)) s3"
    by (elim exE conjE)
  obtain groups out' where p: "s3 = (groups, out')" by (cases s3)
  have "((rows @ ?b) @ concat (map ?B byte_tests)) @ concat (map ?D double_tests) = rows @ comm_rows ar (job_stop J ar) (desc, gs)"
    by (simp add: comm_rows_def byte_tests_def double_tests_def)
  with s3(2) have g: "list_all2 (group_ok (job_cfg J ar) (jsize J)) groups gs"
      "report_ok (iters ar) (rows @ comm_rows ar (job_stop J ar) (desc, gs)) pre out'"
    by (simp_all only: state_ok_def p fst_conv snd_conv)
  show ?thesis
    using world_of_groups [OF g(1) gs] g(2) by (auto simp: test_comm_def s1(1) s2(1) s3(1) p)
qed

definition world_state ::
    "'d job \<Rightarrow> argList \<Rightarrow> 'd line list \<Rightarrow> (string \<times> u64 \<times> string \<times> nat) list \<Rightarrow> bproc list \<times> 'd line list \<Rightarrow> bool" where
  "world_state J ar pre rows wo \<longleftrightarrow> group_ok (job_cfg J ar) (jsize J) (fst wo) [0..<jsize J] \<and> report_ok (iters ar) rows pre (snd wo)"

lemma start_world: "world_state J ar pre [] (map (start_proc (buffer_size (job_cfg J ar)) (jsize J)) [0..<jsize J], pre)"
proof -
  have "report_ok (iters ar) [] pre pre" unfolding report_ok_def by (rule exI [of _ "[]"]) simp
  then show ?thesis by (simp add: world_state_def group_ok_def bufs_ok_def start_proc_def o_def)
qed

lemma comms_return:
  assumes M: "mpi_collectives (MPI (jenv J))" and ok: "job_ok J ar"
  shows "\<exists>wo. fold_run (test_comm J (job_cfg J ar) ar (job_stop J ar)) (comms J ar)
      (map (start_proc (buffer_size (job_cfg J ar)) (jsize J)) [0..<jsize J], pre) = Some (Return wo)
    \<and> world_state J ar pre ([] @ concat (map (comm_rows ar (job_stop J ar)) (comms J ar))) wo"
proof (rule fold_run_returns [where I = "world_state J ar pre", OF start_world])
  fix c rows wo assume c: "c \<in> set (comms J ar)" and wo: "world_state J ar pre rows wo"
  obtain desc gs where d: "c = (desc, gs)" by (cases c)
  obtain world out where w: "wo = (world, out)" "group_ok (job_cfg J ar) (jsize J) world [0..<jsize J]"
      "report_ok (iters ar) rows pre out"
    using wo by (cases wo) (auto simp: world_state_def)
  have "groups_ok (jsize J) gs" using ok c d by (auto simp: job_ok_def)
  from test_comm_returns [OF M ok this w(2,3)]
  show "\<exists>wo'. test_comm J (job_cfg J ar) ar (job_stop J ar) c wo = Some (Return wo')
      \<and> world_state J ar pre (rows @ comm_rows ar (job_stop J ar) c) wo'"
    unfolding d w(1) world_state_def by (metis fst_conv snd_conv)
qed

lemma allocations_return:
  assumes "\<forall>r debug siz. alloc_ok J r debug siz"
  shows "\<exists>a. fold_prog (\<lambda>(siz, debug). ALLOC_MAIN J siz debug) xs a0 = Return a"
  using assms by (induction xs arbitrary: a0) (auto simp: ALLOC_MAIN_def)

text \<open>
  C10. The benchmark completes. For a job whose MPI keeps the promises of the collectives, whose allocations
  succeed and whose clocks give estimates that divide the time limit to an \<^verbatim>\<open>int\<close> (\<open>limit_ok\<close>), every accepted
  command line within the bounds of \<open>job_ok\<close> leads to exit status 0 and the complete report: the hosts, one line per
  communicator, requested operation and message size, in order, with between five and the requested number
  of iterations, and the end. In particular no checked buffer differs from the pattern, no buffer is
  overrun, and every loop over the message sizes ends.
\<close>

theorem mpibench_completes:
  assumes "mpi_collectives (MPI (jenv J))" and "processArgs argv = Return (Some ar, out0)" and "job_ok J ar"
  shows "\<exists>ts mem. mpibench_main J argv =
      Some (Return (0, Start ''1.5'' # map (\<lambda>k. Host k (hostname J k)) [0..<jsize J] @ map Timing ts @ [Memory mem, End]))
    \<and> map row ts = concat (map (comm_rows ar (limit_size (of_nat (jsize J)) (memLimit ar) (messStop ar))) (comms J ar))
    \<and> list_all (\<lambda>t. 5 \<le> titers t \<and> titers t \<le> max 5 (iters ar)) ts"
proof -
  let ?pre = "Start ''1.5'' # map (\<lambda>k. Host k (hostname J k)) [0..<jsize J]"
  have ok: "MPI_Init_err J = 0" "\<not> ndims ar < 0" "\<forall>r debug siz. alloc_ok J r debug siz"
    using assms(3) by (simp_all add: job_ok_def)
  obtain world ts where w: "fold_run (test_comm J (job_cfg J ar) ar (job_stop J ar))
      (comms J ar) (map (start_proc (buffer_size (job_cfg J ar)) (jsize J)) [0..<jsize J], ?pre)
      = Some (Return (world, ?pre @ map Timing ts))"
      "map row ts = concat (map (comm_rows ar (job_stop J ar)) (comms J ar))" "list_all (iters_ok (iters ar)) ts"
    using comms_return [OF assms(1,3), of ?pre] by (auto simp: world_state_def report_ok_def)
  have A: "\<And>xs a0. \<exists>a. fold_prog (\<lambda>(siz, debug). ALLOC_MAIN J siz debug) xs a0 = Return a"
    by (rule allocations_return [OF ok(3)])
  then obtain al where al: "\<And>xs a0. fold_prog (\<lambda>(siz, debug). ALLOC_MAIN J siz debug) xs a0 = Return (al xs a0)" by metis
  have "\<exists>mem. mpibench_main J argv = Some (Return (0, ?pre @ map Timing ts @ [Memory mem, End]))"
    using w(1) by (cases "0 < ndims ar") (auto simp: mpibench_main_def assms(2) ok(1,2) al Let_def job_cfg_def simp del: fold_prog.simps)
  moreover have "list_all (\<lambda>t. 5 \<le> titers t \<and> titers t \<le> max 5 (iters ar)) ts"
    using w(3) by (simp add: list_all_iff iters_ok_def ITRS_EST_def)
  ultimately show ?thesis using w(2) by auto
qed


text \<open>
  A job of two processes with the reference collectives and a clock that advances by one between two
  readings. Its arithmetic is on whole numbers; \<open>None\<close> is what has no finite value, a quotient by zero in
  particular, and cannot be converted to an \<^verbatim>\<open>int\<close>.
\<close>

definition lift2 :: "(int \<Rightarrow> int \<Rightarrow> int) \<Rightarrow> int option \<Rightarrow> int option \<Rightarrow> int option" where
  "lift2 f a b = (case (a, b) of (Some x, Some y) \<Rightarrow> Some (f x y) | _ \<Rightarrow> None)"

definition whole_fpu :: "int option fpu" where
  "whole_fpu = \<lparr>f_int = Some, f_add = lift2 (+), f_sub = lift2 (-), f_mul = lift2 (*),
     f_div = (\<lambda>a b. if b = Some 0 then None else lift2 (div) a b),
     f_less = (\<lambda>a b. case (a, b) of (Some x, Some y) \<Rightarrow> x < y | _ \<Rightarrow> False),
     f_trunc = (\<lambda>a. case a of Some x \<Rightarrow> if int_ok x then Some x else None | None \<Rightarrow> None)\<rparr>"

definition pair_job :: "int option job" where
  "pair_job = \<lparr>jenv = \<lparr>FP = whole_fpu, MPI = ref_mpi (\<lambda>_. 0), MPI_Wtime = (\<lambda>r k. Some (int k))\<rparr>, jsize = 2, MPI_Init_err = 0,
     hostname = (\<lambda>k. ''node''), alloc_ok = (\<lambda>_ _ _. True), cart_sub = (\<lambda>_ _. []), comm_split = (\<lambda>_. [[0, 1]])\<rparr>"

lemma pair_clock: "limit_ok (jenv pair_job) 2 50000"
  by (simp add: limit_ok_def pair_job_def whole_fpu_def measured_def lift2_def WTIME_FACTOR_def ITRS_EST_def int_ok_def)

lemma pair_job_ok:
  assumes "ndims ar = 0" "partSize ar = 0" "timeLimit ar = 50000" "messStop ar = 262144" "memLimit ar = 1073741824"
  shows "job_ok pair_job ar"
proof -
  have "count_partitions 0 2 = 0" by (subst count_partitions.simps) simp
  then have "comms pair_job ar = [(''MPI_COMM_WORLD'', [[0, 1]])]"
    using assms(1,2) by (simp add: comms_def pair_job_def upt_rec)
  moreover have "groups_ok 2 [[0, 1]]" by (auto simp: groups_ok_def)
  moreover have "jsize pair_job = 2" "MPI_Init_err pair_job = 0" "\<forall>r debug siz. alloc_ok pair_job r debug siz"
    by (simp_all add: pair_job_def)
  ultimately show ?thesis
    using assms pair_clock by (simp add: job_ok_def int_ok_def)
qed

theorem mpibench_completes_witness:
  "\<exists>ts mem. mpibench_main pair_job [''mpiBench'', ''barrier'']
      = Some (Return (0, Start ''1.5'' # Host 0 ''node'' # Host 1 ''node'' # map Timing ts @ [Memory mem, End]))
    \<and> map row ts = [(''Barrier'', 0, ''MPI_COMM_WORLD'', 2)]"
proof -
  let ?ar = "default_args\<lparr>timeLimit := 50000, testFlags := 0x1\<rparr>"
  have ar: "processArgs [''mpiBench'', ''barrier''] = Return (Some ?ar, [])" by code_simp
  have M: "mpi_collectives (MPI (jenv pair_job))" using refmpi.mpi_collectives_axioms by (simp add: pair_job_def)
  have ok: "job_ok pair_job ?ar" by (rule pair_job_ok) (simp_all add: default_args_def MSG_SIZE_STOP_def MAX_PROC_MEM_def KILO_def MEGA_def GIGA_def)
  have "count_partitions 0 2 = 0" by (subst count_partitions.simps) simp
  then have c: "comms pair_job ?ar = [(''MPI_COMM_WORLD'', [[0, 1]])]"
    by (simp add: comms_def pair_job_def default_args_def upt_rec)
  have r: "root_size [[0, Suc 0]] = 2" by (simp add: root_size_def)
  have n: "jsize pair_job = 2" "\<And>k. hostname pair_job k = ''node''" by (simp_all add: pair_job_def)
  have u: "[0..<2] = [0, 1::nat]" by (simp add: upt_rec)
  show ?thesis
    using mpibench_completes [OF M ar ok] by (auto simp: c r n u comm_rows_def byte_rows_def double_rows_def)
qed

end
