(* ===== verification/Jansson.thy ===== *)
theory Jansson
  imports Prelude
begin

text \<open>
  The interface of the JSON library (jansson), which is not part of the repository. Its functions
  are the fields of the record \<open>'j lib\<close>, an argument of every definition that calls them; the JSON
  values are a type \<open>'j\<close> about which only the library's functions say anything. The record also
  holds the two platform facilities the codec uses: whether an allocation succeeds and the C
  conversions between \<^verbatim>\<open>float\<close> and \<^verbatim>\<open>double\<close> (both given by their bit patterns).

  A function that can return a null pointer or -1 returns an \<open>option\<close>. An object is packed from a
  list of keys and arguments, and unpacked by a list of keys and formats, in the order in which the
  format string names them: \<^verbatim>\<open>s\<close> is a string, \<^verbatim>\<open>i\<close> an \<^verbatim>\<open>int\<close>, \<^verbatim>\<open>I\<close> a \<^verbatim>\<open>json_int_t\<close>,
  \<^verbatim>\<open>o\<close> and \<^verbatim>\<open>O\<close> a JSON value.
  The locale \<open>jansson\<close> states what the library's manual promises of these functions, \<open>jansson_mem\<close>
  adds that no allocation fails. The last section interprets both on a model of JSON values.
\<close>

datatype 'j packarg = PkS string | PkI u32 | PkBigI u64 | PkO 'j

datatype unpackfmt = UpS | UpI | UpBigI | UpO

datatype 'j unpacked = UvS string | UvI u32 | UvBigI u64 | UvO 'j

record 'j lib =
  json_true :: 'j
  json_false :: 'j
  json_is_false :: "'j \<Rightarrow> bool"
  json_integer :: "u64 \<Rightarrow> 'j option"
  json_is_integer :: "'j \<Rightarrow> bool"
  json_integer_value :: "'j \<Rightarrow> u64"
  json_real :: "u64 \<Rightarrow> 'j option"
  json_real_value :: "'j \<Rightarrow> u64"
  json_string :: "string \<Rightarrow> 'j option"
  json_string_nocheck :: "string \<Rightarrow> 'j option"
  json_is_string :: "'j \<Rightarrow> bool"
  json_string_value :: "'j \<Rightarrow> string option"
  json_array :: "'j option"
  json_is_array :: "'j \<Rightarrow> bool"
  json_array_elems :: "'j \<Rightarrow> 'j list"
  json_array_append :: "'j \<Rightarrow> 'j \<Rightarrow> 'j option"
  json_array_extend :: "'j \<Rightarrow> 'j \<Rightarrow> 'j option"
  json_pack :: "(string \<times> 'j packarg) list \<Rightarrow> 'j option"
  json_unpack :: "'j \<Rightarrow> (string \<times> unpackfmt) list \<Rightarrow> 'j unpacked list option"
  malloc_ok :: "nat \<Rightarrow> bool"
  double_of_float :: "u32 \<Rightarrow> u64"
  float_of_double :: "u64 \<Rightarrow> u32"

text \<open>Which format reads back which kind of argument.\<close>

fun reads_as :: "unpackfmt \<Rightarrow> 'j packarg \<Rightarrow> 'j unpacked option" where
  "reads_as UpS (PkS s) = Some (UvS s)"
| "reads_as UpI (PkI i) = Some (UvI i)"
| "reads_as UpBigI (PkBigI i) = Some (UvBigI i)"
| "reads_as UpO (PkO j) = Some (UvO j)"
| "reads_as _ _ = None"

fun has_format :: "unpackfmt \<Rightarrow> 'j unpacked \<Rightarrow> bool" where
  "has_format UpS (UvS s) \<longleftrightarrow> nul_free s"
| "has_format UpI (UvI i) \<longleftrightarrow> True"
| "has_format UpBigI (UvBigI i) \<longleftrightarrow> True"
| "has_format UpO (UvO j) \<longleftrightarrow> True"
| "has_format _ _ \<longleftrightarrow> False"

subsection \<open>What the library promises\<close>

locale jansson =
  fixes L :: "'j lib"
  assumes is_false_false: "json_is_false L (json_false L)"
    and is_false_true: "\<not> json_is_false L (json_true L)"
    and integer: "json_integer L i = Some j \<Longrightarrow> json_is_integer L j \<and> json_integer_value L j = i"
    and real: "json_real L d = Some j \<Longrightarrow> json_real_value L j = d"
    and string_check: "json_string L s = Some j \<Longrightarrow> json_string_nocheck L s = Some j"
    and string: "json_string_nocheck L s = Some j \<Longrightarrow> json_string_value L j = Some s"
    and is_string: "json_is_string L j \<longleftrightarrow> json_string_value L j \<noteq> None"
    and array: "json_array L = Some a \<Longrightarrow> json_is_array L a \<and> json_array_elems L a = []"
    and append: "json_is_array L a \<Longrightarrow> json_array_append L a v = Some b \<Longrightarrow>
        json_is_array L b \<and> json_array_elems L b = json_array_elems L a @ [v]"
    and extend: "json_array_extend L a c = Some b \<Longrightarrow>
        json_is_array L a \<and> json_is_array L c \<and> json_is_array L b
        \<and> json_array_elems L b = json_array_elems L a @ json_array_elems L c"
    and non_array: "\<not> json_is_array L j \<Longrightarrow> json_array_elems L j = []"
    and unpack_format: "json_unpack L j fs = Some vs \<Longrightarrow> list_all2 (\<lambda>(k, f) v. has_format f v) fs vs"
    and unpack_pack: "json_pack L kvs = Some j \<Longrightarrow> distinct (map fst kvs) \<Longrightarrow>
        list_all2 (\<lambda>(k, f) v. \<exists>a. map_of kvs k = Some a \<and> reads_as f a = Some v) fs vs \<Longrightarrow>
        json_unpack L j fs = Some vs"
begin

lemma string_is_string: "json_string_nocheck L s = Some j \<Longrightarrow> json_is_string L j"
  using string is_string by fastforce

lemma string_value: "json_string L s = Some j \<Longrightarrow> json_string_value L j = Some s"
  by (blast intro: string string_check)

text \<open>The instances of \<open>unpack_pack\<close> and \<open>unpack_format\<close> for the formats the sources use.\<close>

lemma unpack_SI:
  "json_pack L [(k, PkS s), (l, PkI i)] = Some j \<Longrightarrow> k \<noteq> l \<Longrightarrow>
   json_unpack L j [(k, UpS), (l, UpI)] = Some [UvS s, UvI i]"
  by (rule unpack_pack) auto

lemma unpack_IO:
  "json_pack L [(k, PkI i), (l, PkO v)] = Some j \<Longrightarrow> k \<noteq> l \<Longrightarrow>
   json_unpack L j [(k, UpI), (l, UpO)] = Some [UvI i, UvO v]"
  by (rule unpack_pack) auto

lemma unpack_SIO:
  "json_pack L [(k, PkS s), (l, PkI i), (m, PkO v)] = Some j \<Longrightarrow> distinct [k, l, m] \<Longrightarrow>
   json_unpack L j [(k, UpS), (l, UpI), (m, UpO)] = Some [UvS s, UvI i, UvO v]"
  by (rule unpack_pack) auto

lemma unpack_O:
  "json_pack L [(k, PkO v)] = Some j \<Longrightarrow> json_unpack L j [(k, UpO)] = Some [UvO v]"
  by (rule unpack_pack) auto

end

text \<open>With memory available the constructors succeed on their documented domains.\<close>

locale jansson_mem = jansson +
  fixes utf8 :: "string \<Rightarrow> bool"
  assumes malloc_ok: "n < 2 ^ 40 \<Longrightarrow> malloc_ok L n"
    and integer_ok: "json_integer L i \<noteq> None"
    and string_ok: "utf8 s \<Longrightarrow> json_string L s \<noteq> None"
    and string_nocheck_ok: "json_string_nocheck L s \<noteq> None"
    and array_ok: "json_array L \<noteq> None"
    and append_ok: "json_is_array L a \<Longrightarrow> json_array_append L a v \<noteq> None"
    and extend_ok: "json_is_array L a \<Longrightarrow> json_is_array L b \<Longrightarrow> json_array_extend L a b \<noteq> None"
    and pack_ok: "distinct (map fst kvs) \<Longrightarrow> (\<forall>s. PkS s \<in> snd ` set kvs \<longrightarrow> utf8 s) \<Longrightarrow>
        json_pack L kvs \<noteq> None"

subsection \<open>A model of JSON values\<close>

text \<open>
  An instance of the interface, on which the hypotheses of the development's theorems are
  discharged: JSON values as a datatype, objects as association lists. A real is its bit pattern;
  the encoder refuses the patterns with a maximal exponent (infinities and NaNs). Text is valid
  when its bytes are ASCII.
\<close>

datatype json =
    JTrue | JFalse | JInt u64 | JReal u64 | JStr string | JArr "json list" | JObj "(string \<times> json) list"

definition ascii :: "string \<Rightarrow> bool" where
  "ascii s \<longleftrightarrow> list_all (\<lambda>c. (of_char c :: nat) < 128 \<and> c \<noteq> NUL) s"

fun j_of_arg :: "json packarg \<Rightarrow> json option" where
  "j_of_arg (PkS s) = (if ascii s then Some (JStr s) else None)"
| "j_of_arg (PkI i) = Some (JInt (signed i))"
| "j_of_arg (PkBigI i) = Some (JInt i)"
| "j_of_arg (PkO j) = Some j"

fun j_pack :: "(string \<times> json packarg) list \<Rightarrow> (string \<times> json) list option" where
  "j_pack [] = Some []"
| "j_pack ((k, a) # kvs) =
     (case (j_of_arg a, j_pack kvs) of (Some j, Some ms) \<Rightarrow> Some ((k, j) # ms) | _ \<Rightarrow> None)"

fun j_read :: "unpackfmt \<Rightarrow> json \<Rightarrow> json unpacked option" where
  "j_read UpS (JStr s) = (if nul_free s then Some (UvS s) else None)"
| "j_read UpI (JInt i) = Some (UvI (ucast i))"
| "j_read UpBigI (JInt i) = Some (UvBigI i)"
| "j_read UpO j = Some (UvO j)"
| "j_read _ _ = None"

fun j_unpack :: "(string \<times> json) list \<Rightarrow> (string \<times> unpackfmt) list \<Rightarrow> json unpacked list option" where
  "j_unpack ms [] = Some []"
| "j_unpack ms ((k, f) # fs) =
     (case map_of ms k of
        None \<Rightarrow> None
      | Some j \<Rightarrow> (case (j_read f j, j_unpack ms fs) of
                    (Some v, Some vs) \<Rightarrow> Some (v # vs) | _ \<Rightarrow> None))"

fun j_elems :: "json \<Rightarrow> json list" where
  "j_elems (JArr js) = js"
| "j_elems _ = []"

fun j_string :: "json \<Rightarrow> string option" where
  "j_string (JStr s) = Some s"
| "j_string _ = None"

definition json_lib :: "json lib" where
  "json_lib =
     \<lparr>json_true = JTrue, json_false = JFalse, json_is_false = (\<lambda>j. j = JFalse),
      json_integer = (\<lambda>i. Some (JInt i)),
      json_is_integer = (\<lambda>j. case j of JInt i \<Rightarrow> True | _ \<Rightarrow> False),
      json_integer_value = (\<lambda>j. case j of JInt i \<Rightarrow> i | _ \<Rightarrow> 0),
      json_real = (\<lambda>d. if drop_bit 52 d AND 0x7ff = 0x7ff then None else Some (JReal d)),
      json_real_value = (\<lambda>j. case j of JReal d \<Rightarrow> d | _ \<Rightarrow> 0),
      json_string = (\<lambda>s. if ascii s then Some (JStr s) else None),
      json_string_nocheck = (\<lambda>s. Some (JStr s)),
      json_is_string = (\<lambda>j. j_string j \<noteq> None),
      json_string_value = j_string,
      json_array = Some (JArr []),
      json_is_array = (\<lambda>j. case j of JArr js \<Rightarrow> True | _ \<Rightarrow> False),
      json_array_elems = j_elems,
      json_array_append = (\<lambda>a v. case a of JArr js \<Rightarrow> Some (JArr (js @ [v])) | _ \<Rightarrow> None),
      json_array_extend = (\<lambda>a b. case (a, b) of (JArr js, JArr ks) \<Rightarrow> Some (JArr (js @ ks)) | _ \<Rightarrow> None),
      json_pack = (\<lambda>kvs. map_option JObj (j_pack kvs)),
      json_unpack = (\<lambda>j fs. case j of JObj ms \<Rightarrow> j_unpack ms fs | _ \<Rightarrow> None),
      malloc_ok = (\<lambda>n. True),
      double_of_float = ucast, float_of_double = ucast\<rparr>"

lemma j_read_format: "j_read f j = Some v \<Longrightarrow> has_format f v"
  by (cases "(f, j)" rule: j_read.cases) (auto split: if_splits)

lemma j_unpack_format:
  "j_unpack ms fs = Some vs \<Longrightarrow> list_all2 (\<lambda>(k, f) v. has_format f v) fs vs"
  by (induction ms fs arbitrary: vs rule: j_unpack.induct)
     (auto simp: j_read_format split: option.splits)

lemma ascii_nul_free: "ascii s \<Longrightarrow> nul_free s"
  by (auto simp: ascii_def nul_free_def list_all_iff)

lemma j_read_of_arg: "j_of_arg a = Some j \<Longrightarrow> reads_as f a = Some v \<Longrightarrow> j_read f j = Some v"
  by (cases "(f, a)" rule: reads_as.cases) (auto simp: ascii_nul_free truncate_sign_extend split: if_splits)

lemma j_pack_map_of:
  "j_pack kvs = Some ms \<Longrightarrow> map_of kvs k = Some a \<Longrightarrow>
   \<exists>j. map_of ms k = Some j \<and> j_of_arg a = Some j"
  by (induction kvs arbitrary: ms rule: j_pack.induct) (auto split: option.splits if_splits)

lemma j_unpack_pack:
  assumes "j_pack kvs = Some ms"
    and "list_all2 (\<lambda>(k, f) v. \<exists>a. map_of kvs k = Some a \<and> reads_as f a = Some v) fs vs"
  shows "j_unpack ms fs = Some vs"
  using assms(2)
  by (induction fs vs rule: list_all2_induct)
     (auto dest!: j_pack_map_of [OF assms(1)] simp: j_read_of_arg)

interpretation jlib: jansson json_lib
  by unfold_locales
     (auto simp: json_lib_def j_unpack_format intro: j_unpack_pack
       split: if_splits json.splits dest!: map_option_eq_Some [THEN iffD1])

lemma j_pack_ok:
  "(\<forall>s. PkS s \<in> snd ` set kvs \<longrightarrow> ascii s) \<Longrightarrow> j_pack kvs \<noteq> None"
proof (induction kvs rule: j_pack.induct)
  case (2 k a kvs)
  then show ?case by (cases a) (auto split: option.splits)
qed simp

interpretation jlib: jansson_mem json_lib ascii
  by unfold_locales (auto simp: json_lib_def dest: j_pack_ok split: json.splits)

end
