(* ===== verification/Strlcpy.thy ===== *)
theory Strlcpy
  imports Prelude
begin

text \<open>
  \<^verbatim>\<open>strlcpy\<close> of \<^verbatim>\<open>src/common/libutil/strlcpy.c\<close>, with which every component copies a name into a
  fixed-size field. The source string is its characters, the terminator following them in memory;
  the result is what has been written to \<^verbatim>\<open>dst\<close> and the return value. \<open>copy_loop\<close> is the
  do-while loop (\<^verbatim>\<open>d\<close> written so far, \<^verbatim>\<open>s\<close> still to read, \<^verbatim>\<open>n\<close>), \<open>skip_to_nul\<close> the final scan.
\<close>

fun copy_loop :: "string \<Rightarrow> nat \<Rightarrow> string \<Rightarrow> string \<times> string \<times> nat" where
  "copy_loop [] n d = (d, [], n)"
| "copy_loop (c # s) n d =
     (if c = NUL then (d @ [c], s, n)
      else if n - 1 \<noteq> 0 then copy_loop s (n - 1) (d @ [c])
      else (d @ [c], s, 0))"

fun skip_to_nul :: "string \<Rightarrow> string" where
  "skip_to_nul [] = []"
| "skip_to_nul (c # s) = (if c = NUL then s else skip_to_nul s)"

definition strlcpy :: "string \<Rightarrow> nat \<Rightarrow> string \<times> nat" where
  "strlcpy src siz =
     (let mem = src @ [NUL];
          (d, s, n) = (if siz \<noteq> 0 \<and> siz - 1 \<noteq> 0 then copy_loop mem (siz - 1) [] else ([], mem, 0))
      in if n = 0
         then (if siz \<noteq> 0 then d @ [NUL] else d, length mem - length (skip_to_nul s) - 1)
         else (d, length mem - length s - 1))"

text \<open>The string the destination field holds afterwards.\<close>

definition strlcpy_field :: "string \<Rightarrow> nat \<Rightarrow> string" where
  "strlcpy_field src siz = c_string (fst (strlcpy src siz))"

lemma skip_to_nul_end: "nul_free s \<Longrightarrow> skip_to_nul (s @ [NUL]) = []"
  by (induction s) (auto simp: nul_free_def)

text \<open>Either the whole string fits below the limit, or the loop stops after \<open>n\<close> characters.\<close>

lemma copy_loop_fits:
  "nul_free s \<Longrightarrow> length s < n \<Longrightarrow> copy_loop (s @ [NUL]) n d = (d @ s @ [NUL], [], n - length s)"
  by (induction s arbitrary: n d) (auto simp: nul_free_def)

lemma copy_loop_truncates:
  "nul_free s \<Longrightarrow> 0 < n \<Longrightarrow> n \<le> length s \<Longrightarrow>
   copy_loop (s @ [NUL]) n d = (d @ take n s, drop n s @ [NUL], 0)"
proof (induction s arbitrary: n d)
  case (Cons c s)
  then obtain k where k: "n = Suc k" by (cases n) auto
  with Cons show ?case by (cases k) (auto simp: nul_free_def)
qed simp

lemma strlcpy_fits:
  assumes "nul_free src" "length src < siz"
  shows "strlcpy src siz = (src @ [NUL], length src)"
proof (cases "siz = 1")
  case False
  show ?thesis
  proof (cases "length src < siz - 1")
    case True
    with assms False copy_loop_fits [of src "siz - 1" "[]"] show ?thesis
      by (simp add: strlcpy_def Let_def)
  next
    case False
    then have "length src = siz - 1" using assms by simp
    with assms \<open>siz \<noteq> 1\<close> copy_loop_truncates [of src "siz - 1" "[]"] show ?thesis
      by (simp add: strlcpy_def skip_to_nul_end)
  qed
qed (use assms in \<open>simp add: strlcpy_def\<close>)

lemma strlcpy_truncates:
  assumes "nul_free src" "0 < siz" "siz \<le> length src"
  shows "strlcpy src siz = (take (siz - 1) src @ [NUL], length src)"
proof (cases "siz = 1")
  case False
  have "nul_free (drop (siz - 1) src)"
    using assms(1) by (auto simp: nul_free_def dest: in_set_dropD)
  with assms False copy_loop_truncates [of src "siz - 1" "[]"] show ?thesis
    by (simp add: strlcpy_def skip_to_nul_end)
qed (use assms in \<open>simp add: strlcpy_def skip_to_nul_end\<close>)

lemma strlcpy_field_eq: "nul_free src \<Longrightarrow> 0 < siz \<Longrightarrow> strlcpy_field src siz = take (siz - 1) src"
  by (cases "length src < siz")
     (auto simp: strlcpy_field_def strlcpy_fits strlcpy_truncates c_string_def nul_free_def
       takeWhile_append dest: in_set_takeD)

lemma strlcpy_field_id [simp]: "nul_free src \<Longrightarrow> length src < siz \<Longrightarrow> strlcpy_field src siz = src"
  by (simp add: strlcpy_field_eq)

text \<open>
  \<^verbatim>\<open>strlcpy\<close> writes at most \<open>siz\<close> characters, always NUL-terminated, holding the longest prefix
  of the source that fits, and returns the length of the source, so that a return value of at least
  \<open>siz\<close> means truncation.
\<close>

theorem strlcpy_correct:
  assumes "nul_free src" and "0 < siz"
  shows "strlcpy src siz = (take (siz - 1) src @ [NUL], length src)"
  using strlcpy_fits [OF assms(1), of siz] strlcpy_truncates [OF assms] by fastforce

theorem strlcpy_correct_witness:
  "nul_free ''abc'' \<and> strlcpy ''abc'' 3 = (take 2 ''abc'' @ [NUL], length ''abc'')"
  using strlcpy_correct [of "''abc''" 3] by (simp add: nul_free_def)

end
