(* ===== verification/Interthread.thy ===== *)
theory Interthread
  imports Jansson Strlcpy
begin

text \<open>
  \<^verbatim>\<open>src/shell/plugins/interthread.c\<close>: the message channel from the PMIx server thread to the shell
  thread. The channel is a flux \<^verbatim>\<open>interthread://\<close> connector, which delivers messages in the order they
  were sent; its contents are the field \<open>queue\<close>. A message has a topic and a JSON payload. A handler is
  a topic and a callback with its argument (\<open>'h\<close>); the array \<^verbatim>\<open>handlers\<close> up to \<^verbatim>\<open>handler_count\<close> is a list.
  Receiving a message reports which callback is called; the components above say what it does.
\<close>

definition MAX_HANDLERS :: nat where
  "MAX_HANDLERS = 32"

definition TOPIC_SIZE :: nat where
  "TOPIC_SIZE = 32"

record 'j msg =
  topic :: "string option"
  payload :: "'j option"

record 'h handler =
  htopic :: string
  cb :: 'h

record ('h, 'j) interthread =
  send :: bool
  recv :: bool
  w :: bool
  handlers :: "'h handler list"
  verbose :: int
  queue :: "'j msg list"

text \<open>What the flux calls of the sender return.\<close>

record send_env =
  msg_create_ok :: bool
  set_topic_ok :: bool
  send_new_ok :: bool

definition interthread_register ::
    "('h, 'j) interthread \<Rightarrow> string \<Rightarrow> 'h \<Rightarrow> errno + ('h, 'j) interthread" where
  "interthread_register it tpc h =
     (if length (handlers it) = MAX_HANDLERS then Inl ENOSPC
      else Inr (it\<lparr>handlers := handlers it @ [\<lparr>htopic = strlcpy_field tpc TOPIC_SIZE, cb = h\<rparr>]\<rparr>))"

text \<open>The arguments that follow the format are the list \<open>kvs\<close>. The first result is the return value.\<close>

definition interthread_send_pack ::
    "'j lib \<Rightarrow> send_env \<Rightarrow> ('h, 'j) interthread \<Rightarrow> string \<Rightarrow> (string \<times> 'j packarg) list
     \<Rightarrow> int \<times> ('h, 'j) interthread" where
  "interthread_send_pack L E it name kvs =
     (if \<not> msg_create_ok E \<or> \<not> set_topic_ok E then (- 1, it)
      else case json_pack L kvs of
             None \<Rightarrow> (- 1, it)
           | Some p \<Rightarrow>
               if \<not> send_new_ok E then (- 1, it)
               else (0, it\<lparr>queue := queue it @ [\<lparr>topic = Some name, payload = Some p\<rparr>]\<rparr>))"

datatype ('h, 'j) recv_event =
    RecvNone
  | RecvDropped string
  | RecvCall 'h "'j msg"
  | RecvUnhandled string

fun find_handler :: "string \<Rightarrow> 'h handler list \<Rightarrow> 'h handler option" where
  "find_handler tpc [] = None"
| "find_handler tpc (h # hs) = (if tpc = htopic h then Some h else find_handler tpc hs)"

text \<open>The last component is the payload traced when \<^verbatim>\<open>verbose\<close> is above 1.\<close>

definition interthread_recv ::
    "('h, 'j) interthread \<Rightarrow> ('h, 'j) interthread \<times> ('h, 'j) recv_event \<times> 'j option" where
  "interthread_recv it =
     (case queue it of
        [] \<Rightarrow> (it, RecvNone, None)
      | m # rest \<Rightarrow>
          let it = it\<lparr>queue := rest\<rparr> in
          (case topic m of
             None \<Rightarrow> (it, RecvDropped ''interthread receive decode error - message dropped'', None)
           | Some tpc \<Rightarrow>
               let trace = (if 1 < verbose it then payload m else None) in
               (case find_handler tpc (handlers it) of
                  Some h \<Rightarrow> (it, RecvCall (cb h) m, trace)
                | None \<Rightarrow> (it, RecvUnhandled tpc, trace))))"

text \<open>What creation acquires and destruction releases.\<close>

datatype it_resource = R_memory | R_send | R_recv | R_watcher

definition interthread_destroy :: "('h, 'j) interthread option \<Rightarrow> it_resource list" where
  "interthread_destroy itp =
     (case itp of
        None \<Rightarrow> []
      | Some it \<Rightarrow>
          (if w it then [R_watcher] else []) @ (if send it then [R_send] else [])
          @ (if recv it then [R_recv] else []) @ [R_memory])"

text \<open>
  The arguments say which calls succeed and what the \<^verbatim>\<open>verbose\<close> option of the shell is, if given. The
  second and third results are what was acquired and released.
\<close>

definition interthread_create ::
    "bool \<Rightarrow> bool \<Rightarrow> bool \<Rightarrow> bool \<Rightarrow> int option
     \<Rightarrow> ('h, 'j) interthread option \<times> it_resource list \<times> it_resource list" where
  "interthread_create calloc_ok open_send_ok open_recv_ok watcher_ok verbose_opt =
     (if \<not> calloc_ok then (None, [], [])
      else
        let it = \<lparr>send = False, recv = False, w = False, handlers = [], verbose = 0, queue = []\<rparr> in
        if \<not> open_send_ok then (None, [R_memory], interthread_destroy (Some it))
        else
          let it = it\<lparr>send := True\<rparr> in
          if \<not> open_recv_ok then (None, [R_memory, R_send], interthread_destroy (Some it))
          else
            let it = it\<lparr>recv := True\<rparr> in
            if \<not> watcher_ok then (None, [R_memory, R_send, R_recv], interthread_destroy (Some it))
            else
              (Some (it\<lparr>w := True, verbose := (case verbose_opt of None \<Rightarrow> 0 | Some v \<Rightarrow> v)\<rparr>),
               [R_memory, R_send, R_recv, R_watcher], []))"

subsection \<open>The channel\<close>

text \<open>The watcher runs the receiver until the channel is empty.\<close>

fun drain :: "nat \<Rightarrow> ('h, 'j) interthread \<Rightarrow> ('h, 'j) interthread \<times> ('h, 'j) recv_event list" where
  "drain 0 it = (it, [])"
| "drain (Suc k) it =
     (case interthread_recv it of
        (it', ev, _) \<Rightarrow> (case drain k it' of (it'', evs) \<Rightarrow> (it'', ev # evs)))"

definition dispatch :: "'h handler list \<Rightarrow> 'j msg \<Rightarrow> ('h, 'j) recv_event" where
  "dispatch hs m =
     (case topic m of
        None \<Rightarrow> RecvDropped ''interthread receive decode error - message dropped''
      | Some tpc \<Rightarrow> (case find_handler tpc hs of Some h \<Rightarrow> RecvCall (cb h) m | None \<Rightarrow> RecvUnhandled tpc))"

lemma interthread_recv_Cons:
  "queue it = m # rest \<Longrightarrow>
   \<exists>tr. interthread_recv it = (it\<lparr>queue := rest\<rparr>, dispatch (handlers it) m, tr)"
  by (simp add: interthread_recv_def dispatch_def Let_def split: option.split)

lemma drain_queue:
  "drain (length (queue it)) it = (it\<lparr>queue := []\<rparr>, map (dispatch (handlers it)) (queue it))"
proof (induction "queue it" arbitrary: it)
  case Nil
  then show ?case by (cases it) simp
next
  case (Cons m rest)
  obtain tr where "interthread_recv it = (it\<lparr>queue := rest\<rparr>, dispatch (handlers it) m, tr)"
    using interthread_recv_Cons [of it m rest] Cons.hyps(2) by auto
  moreover have "drain (length rest) (it\<lparr>queue := rest\<rparr>)
      = (it\<lparr>queue := []\<rparr>, map (dispatch (handlers it)) rest)"
    using Cons.hyps(1) [of "it\<lparr>queue := rest\<rparr>"] by simp
  ultimately show ?case using Cons.hyps(2) [symmetric] by simp
qed

text \<open>Every handle that creation and registration produce: at most 32 handlers, topics of at most
  31 characters.\<close>

definition it_inv :: "('h, 'j) interthread \<Rightarrow> bool" where
  "it_inv it \<longleftrightarrow> length (handlers it) \<le> MAX_HANDLERS
     \<and> list_all (\<lambda>h. length (htopic h) < TOPIC_SIZE \<and> nul_free (htopic h)) (handlers it)"

lemma it_inv_create:
  "interthread_create a b c d v = (Some it, acq, rel) \<Longrightarrow> it_inv it \<and> handlers it = [] \<and> queue it = []"
  by (auto simp: interthread_create_def it_inv_def Let_def split: if_splits)

lemma it_inv_register:
  assumes "it_inv it" "nul_free tpc" "interthread_register it tpc h = Inr it'"
  shows "it_inv it'"
  using assms by (auto simp: interthread_register_def it_inv_def strlcpy_field_eq TOPIC_SIZE_def nul_free_def
      split: if_splits dest: in_set_takeD)

lemma it_inv_send:
  "interthread_send_pack L E it name kvs = (rc, it') \<Longrightarrow> it_inv it' = it_inv it \<and> handlers it' = handlers it"
  by (auto simp: interthread_send_pack_def it_inv_def split: if_splits option.splits)

lemma find_handler_append:
  "find_handler tpc (hs @ gs) = (case find_handler tpc hs of Some h \<Rightarrow> Some h | None \<Rightarrow> find_handler tpc gs)"
  by (induction hs) auto

lemma find_handler_None: "find_handler tpc hs = None \<longleftrightarrow> tpc \<notin> htopic ` set hs"
  by (induction hs) auto

lemma find_handler_Some: "find_handler tpc hs = Some h \<Longrightarrow> h \<in> set hs \<and> htopic h = tpc"
  by (induction hs) (auto split: if_splits)

text \<open>
  A component that registers a topic of at most 31 characters not yet taken receives every
  message later packed for that topic, with its payload, after the messages sent before it, whatever
  else is in the channel.
\<close>

theorem interthread_delivers:
  assumes "length (handlers it) < 32" and "nul_free tpc" "length tpc < 32"
    and "tpc \<notin> htopic ` set (handlers it)" and "json_pack L kvs = Some p"
    and "msg_create_ok E" "set_topic_ok E" "send_new_ok E"
  shows "\<exists>it1 it2. interthread_register it tpc h = Inr it1
    \<and> interthread_send_pack L E it1 tpc kvs = (0, it2)
    \<and> drain (length (queue it) + 1) it2
      = (it1\<lparr>queue := []\<rparr>,
         map (dispatch (handlers it1)) (queue it) @ [RecvCall h \<lparr>topic = Some tpc, payload = Some p\<rparr>])"
proof -
  let ?it1 = "it\<lparr>handlers := handlers it @ [\<lparr>htopic = tpc, cb = h\<rparr>]\<rparr>"
  let ?m = "\<lparr>topic = Some tpc, payload = Some p\<rparr>"
  let ?it2 = "?it1\<lparr>queue := queue it @ [?m]\<rparr>"
  have reg: "interthread_register it tpc h = Inr ?it1"
    using assms by (simp add: interthread_register_def MAX_HANDLERS_def TOPIC_SIZE_def)
  have snd: "interthread_send_pack L E ?it1 tpc kvs = (0, ?it2)"
    using assms by (simp add: interthread_send_pack_def)
  have "dispatch (handlers ?it1) ?m = RecvCall h ?m"
    using assms(4) by (simp add: dispatch_def find_handler_append find_handler_None [THEN iffD2])
  then have "drain (length (queue it) + 1) ?it2
      = (?it1\<lparr>queue := []\<rparr>, map (dispatch (handlers ?it1)) (queue it) @ [RecvCall h ?m])"
    using drain_queue [of ?it2] by simp
  with reg snd show ?thesis by blast
qed

definition demo_it :: "(nat, json) interthread" where
  "demo_it = \<lparr>send = True, recv = True, w = True, handlers = [\<lparr>htopic = ''abort_upcall'', cb = 1\<rparr>],
     verbose = 0, queue = [\<lparr>topic = Some ''abort_upcall'', payload = None\<rparr>, \<lparr>topic = Some ''x'', payload = None\<rparr>]\<rparr>"

definition demo_send_env :: send_env where
  "demo_send_env = \<lparr>msg_create_ok = True, set_topic_ok = True, send_new_ok = True\<rparr>"

theorem interthread_delivers_witness:
  "\<exists>it1 it2. interthread_register demo_it ''fence_upcall'' 2 = Inr it1
    \<and> interthread_send_pack json_lib demo_send_env it1 ''fence_upcall'' [(''id'', PkI 7)] = (0, it2)
    \<and> drain 3 it2
      = (it1\<lparr>queue := []\<rparr>,
         [RecvCall 1 \<lparr>topic = Some ''abort_upcall'', payload = None\<rparr>, RecvUnhandled ''x'',
          RecvCall 2 \<lparr>topic = Some ''fence_upcall'', payload = Some (JObj [(''id'', JInt 7)])\<rparr>])"
proof -
  have reg: "interthread_register demo_it ''fence_upcall'' 2
      = Inr (demo_it\<lparr>handlers := handlers demo_it @ [\<lparr>htopic = ''fence_upcall'', cb = 2\<rparr>]\<rparr>)"
    by (simp add: interthread_register_def demo_it_def MAX_HANDLERS_def TOPIC_SIZE_def nul_free_def)
  have events: "map (dispatch (handlers demo_it @ [\<lparr>htopic = ''fence_upcall'', cb = 2\<rparr>])) (queue demo_it)
      = [RecvCall 1 \<lparr>topic = Some ''abort_upcall'', payload = None\<rparr>, RecvUnhandled ''x'']"
    by (simp add: demo_it_def dispatch_def)
  have "\<exists>it1 it2. interthread_register demo_it ''fence_upcall'' 2 = Inr it1
    \<and> interthread_send_pack json_lib demo_send_env it1 ''fence_upcall'' [(''id'', PkI 7)] = (0, it2)
    \<and> drain (length (queue demo_it) + 1) it2
      = (it1\<lparr>queue := []\<rparr>, map (dispatch (handlers it1)) (queue demo_it)
         @ [RecvCall 2 \<lparr>topic = Some ''fence_upcall'', payload = Some (JObj [(''id'', JInt 7)])\<rparr>])"
    by (rule interthread_delivers)
       (simp_all add: demo_it_def demo_send_env_def nul_free_def json_lib_def)
  then obtain it1 it2 where it: "interthread_register demo_it ''fence_upcall'' 2 = Inr it1"
    "interthread_send_pack json_lib demo_send_env it1 ''fence_upcall'' [(''id'', PkI 7)] = (0, it2)"
    "drain (length (queue demo_it) + 1) it2
      = (it1\<lparr>queue := []\<rparr>, map (dispatch (handlers it1)) (queue demo_it)
         @ [RecvCall 2 \<lparr>topic = Some ''fence_upcall'', payload = Some (JObj [(''id'', JInt 7)])\<rparr>])"
    by blast
  moreover have "length (queue demo_it) + 1 = 3" by (simp add: demo_it_def)
  moreover have "handlers it1 = handlers demo_it @ [\<lparr>htopic = ''fence_upcall'', cb = 2\<rparr>]"
    using reg it(1) by auto
  ultimately show ?thesis using events
    by (intro exI [of _ it1] exI [of _ it2]) (simp del: drain.simps)
qed

text \<open>
  Registration refuses exactly when 32 handlers are in place, and the table never grows beyond
  32 entries with NUL-terminated topics; creation that fails releases exactly what it acquired.
\<close>

theorem interthread_register_bounded:
  assumes "it_inv it" and "nul_free tpc"
  shows "(interthread_register it tpc h = Inl ENOSPC \<longleftrightarrow> length (handlers it) = 32)
    \<and> (\<forall>it'. interthread_register it tpc h = Inr it' \<longrightarrow>
         it_inv it' \<and> length (handlers it') = Suc (length (handlers it)) \<and> length (handlers it') \<le> 32)"
proof (intro conjI allI impI)
  show "interthread_register it tpc h = Inl ENOSPC \<longleftrightarrow> length (handlers it) = 32"
    by (simp add: interthread_register_def MAX_HANDLERS_def)
  fix it' assume it': "interthread_register it tpc h = Inr it'"
  show "it_inv it'" using it_inv_register [OF assms it'] .
  show "length (handlers it') = Suc (length (handlers it))"
    using it' by (auto simp: interthread_register_def split: if_splits)
  show "length (handlers it') \<le> 32" using \<open>it_inv it'\<close> by (simp add: it_inv_def MAX_HANDLERS_def)
qed

theorem interthread_register_bounded_witness:
  "interthread_register demo_it ''dmodex_upcall'' 3 \<noteq> Inl ENOSPC"
proof -
  have "it_inv demo_it"
    by (simp add: it_inv_def demo_it_def MAX_HANDLERS_def TOPIC_SIZE_def nul_free_def)
  from interthread_register_bounded [OF this, of "''dmodex_upcall''" 3] show ?thesis
    by (simp add: demo_it_def nul_free_def)
qed

text \<open>
  A topic of 32 characters or more is truncated when it is registered but not when a message is
  sent, so its messages are never delivered: they are reported as unhandled.
\<close>

theorem interthread_long_topic_unhandled:
  assumes "it_inv it" and "nul_free tpc" "32 \<le> length tpc"
    and "interthread_register it tpc h = Inr it'"
  shows "dispatch (handlers it') \<lparr>topic = Some tpc, payload = p\<rparr> = RecvUnhandled tpc"
proof -
  have inv: "it_inv it'" using it_inv_register [OF assms(1,2,4)] .
  have "find_handler tpc (handlers it') = None"
    using inv assms(3) unfolding find_handler_None
    by (auto simp: it_inv_def list_all_iff TOPIC_SIZE_def)
  then show ?thesis by (simp add: dispatch_def)
qed

theorem interthread_long_topic_unhandled_witness:
  "let tpc = replicate 32 CHR ''a'';
       it' = demo_it\<lparr>handlers := handlers demo_it @ [\<lparr>htopic = replicate 31 CHR ''a'', cb = 3\<rparr>]\<rparr>
   in interthread_register demo_it tpc 3 = Inr it'
      \<and> dispatch (handlers it') \<lparr>topic = Some tpc, payload = None\<rparr> = RecvUnhandled tpc"
proof -
  let ?tpc = "replicate 32 CHR ''a''"
  have nf: "nul_free ?tpc" by (simp add: nul_free_def)
  have reg: "interthread_register demo_it ?tpc 3
    = Inr (demo_it\<lparr>handlers := handlers demo_it @ [\<lparr>htopic = replicate 31 CHR ''a'', cb = 3\<rparr>]\<rparr>)"
    using strlcpy_field_eq [OF nf, of 32]
    by (simp add: interthread_register_def demo_it_def MAX_HANDLERS_def TOPIC_SIZE_def)
  have "it_inv demo_it"
    by (simp add: it_inv_def demo_it_def MAX_HANDLERS_def TOPIC_SIZE_def nul_free_def)
  from reg interthread_long_topic_unhandled [OF this nf _ reg] show ?thesis
    unfolding Let_def by simp
qed

subsection \<open>What the users of the channel share\<close>

text \<open>The callbacks that the plugin registers, and messages of the shell's log.\<close>

datatype upcall = H_fence | H_abort | H_dmodex | H_notify

datatype log_msg = LWarn string | LDebug string

end
