(* ===== verification/Kary.thy ===== *)
theory Kary
  imports Prelude
begin

text \<open>
  The k-ary tree of shells: \<^verbatim>\<open>kary_parentof\<close>, \<^verbatim>\<open>kary_childof\<close> and \<^verbatim>\<open>child_count\<close> of
  \<^verbatim>\<open>src/shell/plugins/exchange.c\<close>. The arithmetic is that of \<^verbatim>\<open>uint32_t\<close>, \<^verbatim>\<open>int\<close> arguments being
  converted; a signed comparison reads the word with \<^const>\<open>sint\<close>. The second part relates the code to
  the tree on natural numbers in which the parent of \<open>i\<close> is \<open>(i - 1) div k\<close>.
\<close>

definition KARY_NONE :: u32 where
  "KARY_NONE = NOT 0"

definition kary_parentof :: "u32 \<Rightarrow> u32 \<Rightarrow> u32" where
  "kary_parentof k i =
     (if i = 0 \<or> sint k \<le> 0 then KARY_NONE
      else if k = 1 then i - 1
      else (k + (i + 1) - 2) div k - 1)"

definition kary_childof :: "u32 \<Rightarrow> u32 \<Rightarrow> u32 \<Rightarrow> u32 \<Rightarrow> u32" where
  "kary_childof k sz i j =
     (if 0 < sint k \<and> 0 \<le> sint j \<and> sint j < sint k then
        let n = k * (i + 1) - (k - 2) + j - 1 in if n < sz then n else KARY_NONE
      else KARY_NONE)"

text \<open>The loop \<^verbatim>\<open>for (i = 0; i < k; i++)\<close>, counting the slots that hold a child.\<close>

definition child_count :: "u32 \<Rightarrow> u32 \<Rightarrow> u32 \<Rightarrow> nat" where
  "child_count k rank sz =
     length (filter (\<lambda>i. kary_childof k sz rank (of_nat i) \<noteq> KARY_NONE) [0..<nat (sint k)])"

subsection \<open>The tree on natural numbers\<close>

definition parent :: "nat \<Rightarrow> nat \<Rightarrow> nat" where
  "parent k i = (i - 1) div k"

definition children :: "nat \<Rightarrow> nat \<Rightarrow> nat \<Rightarrow> nat set" where
  "children k sz i = {c. 0 < c \<and> c < sz \<and> parent k c = i}"

lemma parent_less: "0 < k \<Longrightarrow> 0 < i \<Longrightarrow> parent k i < i"
  unfolding parent_def by (cases i) (auto intro: le_less_trans [OF div_le_dividend])

lemma finite_children [simp]: "finite (children k sz i)"
  by (rule finite_subset [of _ "{..<sz}"]) (auto simp: children_def)

lemma children_greater: "0 < k \<Longrightarrow> c \<in> children k sz i \<Longrightarrow> i < c"
  by (auto simp: children_def dest: parent_less)

text \<open>The children of a node fill consecutive slots \<open>k * i + 1 \<dots> k * i + k\<close>.\<close>

lemma children_slots:
  assumes "0 < k"
  shows "children k sz i = (\<lambda>j. k * i + j + 1) ` {j. j < k \<and> k * i + j + 1 < sz}"
proof (intro set_eqI iffI)
  fix c assume c: "c \<in> children k sz i"
  then have "(c - 1) div k = i" by (simp add: children_def parent_def)
  moreover have "c - 1 = k * ((c - 1) div k) + (c - 1) mod k" by simp
  ultimately have "c - 1 = k * i + (c - 1) mod k" by simp
  moreover have "(c - 1) mod k < k" using assms by simp
  ultimately show "c \<in> (\<lambda>j. k * i + j + 1) ` {j. j < k \<and> k * i + j + 1 < sz}"
    using c by (intro image_eqI [of _ _ "(c - 1) mod k"]) (auto simp: children_def)
qed (auto simp: children_def parent_def)

lemma card_children:
  "0 < k \<Longrightarrow> card (children k sz i) = card {j. j < k \<and> k * i + j + 1 < sz}"
  unfolding children_slots by (rule card_image) (auto simp: inj_on_def)

text \<open>
  Summing a quantity up the tree, every node adding its own to what its children report, gives at
  the root the sum over all nodes. The proof walks a frontier down the tree: the nodes from \<open>m\<close> on
  whose parent lies before \<open>m\<close>.
\<close>

definition frontier :: "nat \<Rightarrow> nat \<Rightarrow> nat \<Rightarrow> nat set" where
  "frontier k n m = {c. m \<le> c \<and> c < n \<and> (c = 0 \<or> parent k c < m)}"

lemma finite_frontier [simp]: "finite (frontier k n m)"
  by (rule finite_subset [of _ "{..<n}"]) (auto simp: frontier_def)

lemma frontier_Suc:
  assumes "0 < k" "m < n"
  shows "m \<in> frontier k n m" and "frontier k n (Suc m) = (frontier k n m - {m}) \<union> children k n m"
    and "(frontier k n m - {m}) \<inter> children k n m = {}"
proof -
  show "m \<in> frontier k n m"
    using assms parent_less [of k m] by (auto simp: frontier_def)
  show "(frontier k n m - {m}) \<inter> children k n m = {}"
    by (auto simp: frontier_def children_def)
  show "frontier k n (Suc m) = (frontier k n m - {m}) \<union> children k n m"
  proof (intro set_eqI iffI)
    fix c assume "c \<in> frontier k n (Suc m)"
    then show "c \<in> (frontier k n m - {m}) \<union> children k n m"
      by (cases "parent k c = m") (auto simp: frontier_def children_def)
  next
    fix c assume "c \<in> (frontier k n m - {m}) \<union> children k n m"
    then show "c \<in> frontier k n (Suc m)"
      using children_greater [OF assms(1), of c n m] by (auto simp: frontier_def children_def)
  qed
qed

lemma tree_sum:
  fixes f g :: "nat \<Rightarrow> 'a::comm_monoid_add"
  assumes "0 < k" and "\<And>r. r < n \<Longrightarrow> f r = g r + sum f (children k n r)" and "0 < n"
  shows "f 0 = sum g {..<n}"
proof -
  have "m \<le> n \<Longrightarrow> f 0 = sum g {..<m} + sum f (frontier k n m)" for m
  proof (induction m)
    case 0
    have "frontier k n 0 = {0}" using assms(3) by (auto simp: frontier_def)
    then show ?case by simp
  next
    case (Suc m)
    then have m: "m < n" by simp
    note frontier = frontier_Suc [OF assms(1) m]
    have "sum f (frontier k n m) = f m + sum f (frontier k n m - {m})"
      using frontier(1) by (rule sum.remove [OF finite_frontier])
    also have "f m = g m + sum f (children k n m)" using m by (rule assms(2))
    finally have "sum f (frontier k n m) = g m + sum f (frontier k n (Suc m))"
      using frontier(2,3) by (simp add: sum.union_disjoint ac_simps)
    with Suc show ?case by (simp add: ac_simps)
  qed
  moreover have "frontier k n n = {}" by (auto simp: frontier_def)
  ultimately show ?thesis by (metis add.right_neutral order_refl sum.empty)
qed

subsection \<open>The code computes that tree\<close>

lemma unat_less_half: "unat (k :: u32) < 2 ^ 31 \<Longrightarrow> sint k = int (unat k)"
  using sint_of_nat_small [of "unat k", where 'a = 32] by simp

lemma kary_parentof_eq:
  assumes "0 < unat k" "unat k < 2 ^ 31" "0 < unat i" "unat k + unat i < 2 ^ 32"
  shows "unat (kary_parentof k i) = parent (unat k) (unat i)"
proof -
  have ne: "i \<noteq> 0" "0 < sint k"
    using assms unat_less_half [OF assms(2)] by (auto simp del: of_nat_unat simp: unat_gt_0)
  show ?thesis
  proof (cases "k = 1")
    case True
    then show ?thesis using assms ne
      by (simp add: kary_parentof_def parent_def unat_minus_one)
  next
    case False
    have eq: "k + (i + 1) - 2 = k + (i - 1)" by simp
    have "unat (i - 1) = unat i - 1" using ne by (simp add: unat_minus_one)
    then have "unat (k + (i - 1)) = unat k + (unat i - 1)"
      using assms by (simp add: unat_word_ariths)
    moreover have "(unat k + (unat i - 1)) div unat k = (unat i - 1) div unat k + 1"
      using assms(1) by (subst div_add_self1) auto
    ultimately have div: "unat ((k + (i + 1) - 2) div k) = (unat i - 1) div unat k + 1"
      unfolding eq unat_div by (simp only:)
    then have "(k + (i + 1) - 2) div k \<noteq> 0" by auto
    with False ne div show ?thesis
      by (simp add: kary_parentof_def parent_def unat_minus_one)
  qed
qed

lemma kary_childof_eq:
  assumes "0 < unat k" "unat k < 2 ^ 31" "j < unat k" "unat k * unat i + j + 1 < 2 ^ 32"
  shows "kary_childof k sz i (of_nat j) =
    (if unat k * unat i + j + 1 < unat sz then of_nat (unat k * unat i + j + 1) else KARY_NONE)"
proof -
  have j: "unat (of_nat j :: u32) = j" using assms by (simp add: unat_of_nat)
  then have "sint (of_nat j :: u32) = int j" using assms unat_less_half [of "of_nat j"] by simp
  moreover have "sint k = int (unat k)" using assms by (simp add: unat_less_half)
  moreover have n: "k * (i + 1) - (k - 2) + of_nat j - 1 = of_nat (unat k * unat i + j + 1)"
    by (simp add: algebra_simps)
  moreover have "unat (of_nat (unat k * unat i + j + 1) :: u32) = unat k * unat i + j + 1"
    using assms(4) by (simp add: unat_of_nat del: of_nat_add of_nat_mult of_nat_Suc)
  ultimately show ?thesis
    using assms unfolding kary_childof_def Let_def n
    by (simp add: word_less_nat_alt del: of_nat_unat of_nat_add of_nat_mult of_nat_Suc)
qed

lemma of_nat_not_KARY_NONE: "n < 2 ^ 32 - 1 \<Longrightarrow> (of_nat n :: u32) \<noteq> KARY_NONE"
proof -
  have none: "KARY_NONE = 4294967295" by (simp add: KARY_NONE_def)
  have "unat KARY_NONE = 4294967295" unfolding none by simp
  moreover assume "n < 2 ^ 32 - 1"
  then have "unat (of_nat n :: u32) = n" by (simp add: unat_of_nat)
  ultimately show ?thesis using \<open>n < 2 ^ 32 - 1\<close> by auto
qed

lemma child_count_eq:
  assumes "0 < unat k" "unat k < 2 ^ 31" "unat k * unat i + unat k < 2 ^ 32 - 1"
  shows "child_count k i sz = card (children (unat k) (unat sz) (unat i))"
proof -
  have child: "kary_childof k sz i (of_nat j) \<noteq> KARY_NONE \<longleftrightarrow> unat k * unat i + j + 1 < unat sz"
    if "j < unat k" for j
    using that assms kary_childof_eq [of k j i sz] of_nat_not_KARY_NONE [of "unat k * unat i + j + 1"]
    by auto
  have "filter (\<lambda>j. kary_childof k sz i (of_nat j) \<noteq> KARY_NONE) [0..<unat k]
      = filter (\<lambda>j. unat k * unat i + j + 1 < unat sz) [0..<unat k]"
    by (rule filter_cong) (use child in auto)
  then have "child_count k i sz = length (filter (\<lambda>j. unat k * unat i + j + 1 < unat sz) [0..<unat k])"
    unfolding child_count_def unat_less_half [OF assms(2)] by (simp only: nat_int)
  also have "\<dots> = card (set (filter (\<lambda>j. unat k * unat i + j + 1 < unat sz) [0..<unat k]))"
    by (rule distinct_card [symmetric]) simp
  also have "set (filter (\<lambda>j. unat k * unat i + j + 1 < unat sz) [0..<unat k])
      = {j. j < unat k \<and> unat k * unat i + j + 1 < unat sz}"
    by auto
  finally show ?thesis using assms(1) by (simp add: card_children)
qed

text \<open>
  C16. The tree the code computes with its default fanout is consistent for every job size an
  \<^verbatim>\<open>int\<close> can hold: the number of children a shell waits for is exactly the number of shells that
  send to it, no 32-bit computation wraps around, and every shell but the root has a parent of
  smaller rank.
\<close>

theorem kary_tree_consistent:
  assumes "0 < n" and "n < 2 ^ 31" and "r < n"
  shows "child_count 2 (of_nat r) (of_nat n)
      = card {c. 0 < c \<and> c < n \<and> kary_parentof 2 (of_nat c) = of_nat r}
    \<and> (0 < r \<longrightarrow> unat (kary_parentof 2 (of_nat r)) < r)
    \<and> (kary_parentof 2 (of_nat r) = KARY_NONE \<longleftrightarrow> r = 0)"
proof (intro conjI impI)
  have unat: "unat (of_nat c :: u32) = c" if "c < n" for c
    using that assms by (simp add: unat_of_nat)
  have unat_n: "unat (of_nat n :: u32) = n" using assms by (simp add: unat_of_nat)
  have par: "unat (kary_parentof 2 (of_nat c)) = parent 2 c" if "0 < c" "c < n" for c
    using that assms kary_parentof_eq [of 2 "of_nat c"] unat [of c] by simp
  have "{c. 0 < c \<and> c < n \<and> kary_parentof 2 (of_nat c) = of_nat r} = children 2 n r"
    using par unat assms by (auto simp: children_def word_unat_eq_iff)
  then show "child_count 2 (of_nat r) (of_nat n)
      = card {c. 0 < c \<and> c < n \<and> kary_parentof 2 (of_nat c) = of_nat r}"
    using child_count_eq [of 2 "of_nat r" "of_nat n"] unat [of r] unat_n assms by simp
  show "unat (kary_parentof 2 (of_nat r)) < r" if "0 < r"
    using par [OF that assms(3)] parent_less [of 2 r] that by simp
  show "kary_parentof 2 (of_nat r) = KARY_NONE \<longleftrightarrow> r = 0"
  proof (cases "r = 0")
    case False
    then have "unat (kary_parentof 2 (of_nat r)) < 2 ^ 32 - 1"
      using par [of r] parent_less [of 2 r] assms by simp
    then show ?thesis
      using False of_nat_not_KARY_NONE [of "unat (kary_parentof 2 (of_nat r))"] by simp
  qed (simp add: kary_parentof_def)
qed

theorem kary_tree_consistent_witness:
  "child_count 2 1 6 = card {c. 0 < c \<and> c < 6 \<and> kary_parentof 2 (of_nat c) = 1}
   \<and> unat (kary_parentof 2 1) < 1 \<and> kary_parentof 2 1 \<noteq> KARY_NONE"
  using kary_tree_consistent [of 6 1] by simp

text \<open>
  With a large fanout the 32-bit product in \<^verbatim>\<open>kary_childof\<close> wraps around: in a job of 131072
  shells with fanout 65536, shell 65536, whose children would all lie beyond the end of the tree,
  is given shell 1 as its first child.
\<close>

theorem kary_childof_wraps:
  "kary_childof 65536 131072 65536 0 = 1 \<and> kary_parentof 65536 1 = 0
   \<and> children 65536 131072 65536 = {}"
proof -
  have "children 65536 131072 65536 = {}"
    by (subst children_slots) auto
  then show ?thesis
    by (simp add: kary_childof_def kary_parentof_def)
qed

end
