(* ===== verification/Pmix_Types.thy ===== *)
theory Pmix_Types
  imports Strlcpy
begin

text \<open>
  The data of the PMIx API that the plugin handles: process names, tagged values, info structures,
  with the constants the PMIx standard gives for them. A \<^verbatim>\<open>pmix_value_t\<close>, a type tag and a union, is
  a datatype with one constructor per tag the sources handle; a value of any other type carries its
  tag. Character arrays hold C strings; a pointer field that may be null is an \<open>option\<close>. A
  \<^verbatim>\<open>pmix_info_t\<close> contains a value and a value may contain an array of them, so both are defined
  together.

  \<open>block\<close> names what the sources allocate on the heap, so that a function can report what it
  allocates and what it frees.
\<close>

definition PMIX_MAX_NSLEN :: nat where "PMIX_MAX_NSLEN = 255"
definition PMIX_MAX_KEYLEN :: nat where "PMIX_MAX_KEYLEN = 511"

definition PMIX_RANK_WILDCARD :: u32 where "PMIX_RANK_WILDCARD = - 2"

definition PMIX_INFO_REQD :: u32 where "PMIX_INFO_REQD = 1"

record pmix_proc_t =
  nspace :: string
  rank :: u32

datatype pmix_value_t =
    V_BOOL bool | V_BYTE byte | V_STRING "string option" | V_SIZE u64 | V_PID u32
  | V_INT u32 | V_INT8 byte | V_INT16 u16 | V_INT32 u32 | V_INT64 u64
  | V_UINT u32 | V_UINT8 byte | V_UINT16 u16 | V_UINT32 u32 | V_UINT64 u64
  | V_FLOAT u32 | V_DOUBLE u64 | V_TIMEVAL u64 u64 | V_TIME u64 | V_STATUS u32
  | V_PROC pmix_proc_t | V_BYTE_OBJECT "byte list" | V_DATA_ARRAY "pmix_info_t list option"
  | V_PROC_RANK u32 | V_OTHER u16
and pmix_info_t = Info (ikey: string) (iflags: u32) (ivalue: pmix_value_t)

text \<open>The tags (\<^verbatim>\<open>pmix_data_type_t\<close>).\<close>

definition PMIX_BOOL :: u16 where "PMIX_BOOL = 1"
definition PMIX_BYTE :: u16 where "PMIX_BYTE = 2"
definition PMIX_STRING :: u16 where "PMIX_STRING = 3"
definition PMIX_SIZE :: u16 where "PMIX_SIZE = 4"
definition PMIX_PID :: u16 where "PMIX_PID = 5"
definition PMIX_INT :: u16 where "PMIX_INT = 6"
definition PMIX_INT8 :: u16 where "PMIX_INT8 = 7"
definition PMIX_INT16 :: u16 where "PMIX_INT16 = 8"
definition PMIX_INT32 :: u16 where "PMIX_INT32 = 9"
definition PMIX_INT64 :: u16 where "PMIX_INT64 = 10"
definition PMIX_UINT :: u16 where "PMIX_UINT = 11"
definition PMIX_UINT8 :: u16 where "PMIX_UINT8 = 12"
definition PMIX_UINT16 :: u16 where "PMIX_UINT16 = 13"
definition PMIX_UINT32 :: u16 where "PMIX_UINT32 = 14"
definition PMIX_UINT64 :: u16 where "PMIX_UINT64 = 15"
definition PMIX_FLOAT :: u16 where "PMIX_FLOAT = 16"
definition PMIX_DOUBLE :: u16 where "PMIX_DOUBLE = 17"
definition PMIX_TIMEVAL :: u16 where "PMIX_TIMEVAL = 18"
definition PMIX_TIME :: u16 where "PMIX_TIME = 19"
definition PMIX_STATUS :: u16 where "PMIX_STATUS = 20"
definition PMIX_PROC :: u16 where "PMIX_PROC = 22"
definition PMIX_BYTE_OBJECT :: u16 where "PMIX_BYTE_OBJECT = 27"
definition PMIX_DATA_ARRAY :: u16 where "PMIX_DATA_ARRAY = 39"
definition PMIX_PROC_RANK :: u16 where "PMIX_PROC_RANK = 40"

lemmas pmix_type_codes =
  PMIX_BOOL_def PMIX_BYTE_def PMIX_STRING_def PMIX_SIZE_def PMIX_PID_def PMIX_INT_def PMIX_INT8_def
  PMIX_INT16_def PMIX_INT32_def PMIX_INT64_def PMIX_UINT_def PMIX_UINT8_def PMIX_UINT16_def
  PMIX_UINT32_def PMIX_UINT64_def PMIX_FLOAT_def PMIX_DOUBLE_def PMIX_TIMEVAL_def PMIX_TIME_def
  PMIX_STATUS_def PMIX_PROC_def PMIX_BYTE_OBJECT_def PMIX_DATA_ARRAY_def PMIX_PROC_RANK_def

primrec value_type :: "pmix_value_t \<Rightarrow> u16" where
  "value_type (V_BOOL _) = PMIX_BOOL"
| "value_type (V_BYTE _) = PMIX_BYTE"
| "value_type (V_STRING _) = PMIX_STRING"
| "value_type (V_SIZE _) = PMIX_SIZE"
| "value_type (V_PID _) = PMIX_PID"
| "value_type (V_INT _) = PMIX_INT"
| "value_type (V_INT8 _) = PMIX_INT8"
| "value_type (V_INT16 _) = PMIX_INT16"
| "value_type (V_INT32 _) = PMIX_INT32"
| "value_type (V_INT64 _) = PMIX_INT64"
| "value_type (V_UINT _) = PMIX_UINT"
| "value_type (V_UINT8 _) = PMIX_UINT8"
| "value_type (V_UINT16 _) = PMIX_UINT16"
| "value_type (V_UINT32 _) = PMIX_UINT32"
| "value_type (V_UINT64 _) = PMIX_UINT64"
| "value_type (V_FLOAT _) = PMIX_FLOAT"
| "value_type (V_DOUBLE _) = PMIX_DOUBLE"
| "value_type (V_TIMEVAL _ _) = PMIX_TIMEVAL"
| "value_type (V_TIME _) = PMIX_TIME"
| "value_type (V_STATUS _) = PMIX_STATUS"
| "value_type (V_PROC _) = PMIX_PROC"
| "value_type (V_BYTE_OBJECT _) = PMIX_BYTE_OBJECT"
| "value_type (V_DATA_ARRAY _) = PMIX_DATA_ARRAY"
| "value_type (V_PROC_RANK _) = PMIX_PROC_RANK"
| "value_type (V_OTHER t) = t"

text \<open>The status codes the plugin itself returns or passes to callbacks.\<close>

datatype pmix_status =
    PMIX_SUCCESS | PMIX_ERROR | PMIX_ERR_BAD_PARAM | PMIX_ERR_NOT_SUPPORTED
  | PMIX_ERR_NOT_IMPLEMENTED | PMIX_ERR_PROC_ENTRY_NOT_FOUND

datatype block =
    B_string string | B_proc pmix_proc_t | B_bytes "byte list" | B_darray
  | B_procs "pmix_proc_t list" | B_infos "pmix_info_t list" | B_infovec

text \<open>A process name or an info key that fits its field.\<close>

definition proc_ok :: "pmix_proc_t \<Rightarrow> bool" where
  "proc_ok p \<longleftrightarrow> nul_free (nspace p) \<and> length (nspace p) \<le> PMIX_MAX_NSLEN"

definition key_ok :: "string \<Rightarrow> bool" where
  "key_ok k \<longleftrightarrow> nul_free k \<and> length k \<le> PMIX_MAX_KEYLEN"

end
