(* ===== verification/Base64.thy ===== *)
theory Base64
  imports Prelude
begin

text \<open>
  The base64 codec of \<^verbatim>\<open>src/common/libccan/ccan/base64/base64.c\<close> (ccan's base64 module),
  which \<^verbatim>\<open>codec.c\<close> uses to carry fence data through JSON.

  A raw buffer is a \<open>byte list\<close>, base64 text is a \<open>string\<close>. The functions that fill a
  caller's buffer return its final contents; a return of -1 is \<open>Inl\<close> of the \<^verbatim>\<open>errno\<close> value
  set, a failed \<^verbatim>\<open>assert\<close> is \<open>Inl ASSERT\<close>, and the decoder's accesses to the memory behind its two
  pointers are \<open>Inl OVERRUN\<close> when they leave it. The first part of the theory is the code, the second
  the locale of encode/decode tables that belong together with the laws every such pair obeys,
  interpreted on the tables of the source, and the refinement of the decoder over its buffer to the
  bytes a text stands for.
\<close>

subsection \<open>Maps and single characters\<close>

record base64_maps_t =
  encode_map :: string
  decode_map :: "byte list"

definition sixbit_to_b64 :: "base64_maps_t \<Rightarrow> byte \<Rightarrow> char option" where
  "sixbit_to_b64 maps sixbit =
     (if sixbit \<le> 63 then Some (encode_map maps ! unat sixbit) else None)"

text \<open>The sentinel 0xff of the decode map is the return value -1 (with errno EDOM).\<close>

definition sixbit_from_b64 :: "base64_maps_t \<Rightarrow> char \<Rightarrow> byte" where
  "sixbit_from_b64 maps b64letter =
     (let ret = decode_map maps ! of_char b64letter in if ret = 0xff then - 1 else ret)"

definition base64_char_in_alphabet :: "base64_maps_t \<Rightarrow> char \<Rightarrow> bool" where
  "base64_char_in_alphabet maps b64char \<longleftrightarrow> decode_map maps ! of_char b64char \<noteq> 0xff"

fun init_decode_map :: "nat \<Rightarrow> string \<Rightarrow> byte list \<Rightarrow> byte list" where
  "init_decode_map i [] dm = dm"
| "init_decode_map i (c # cs) dm = init_decode_map (Suc i) cs (dm[of_char c := of_nat i])"

definition base64_init_maps :: "string \<Rightarrow> base64_maps_t" where
  "base64_init_maps src =
     \<lparr>encode_map = take 64 src,
      decode_map = init_decode_map 0 (take 64 src) (replicate 256 0xff)\<rparr>"

subsection \<open>Encoding\<close>

definition base64_encoded_length :: "nat \<Rightarrow> nat" where
  "base64_encoded_length srclen = ((srclen + 2) mod size_max div 3 * 4) mod size_max"

definition base64_encode_triplet_using_maps ::
    "base64_maps_t \<Rightarrow> byte \<Rightarrow> byte \<Rightarrow> byte \<Rightarrow> errno + string" where
  "base64_encode_triplet_using_maps maps a b c =
     (case (sixbit_to_b64 maps (drop_bit 2 (a AND 0xfc)),
            sixbit_to_b64 maps (push_bit 4 (a AND 0x3) OR drop_bit 4 (b AND 0xf0)),
            sixbit_to_b64 maps (drop_bit 6 (c AND 0xc0) OR push_bit 2 (b AND 0xf)),
            sixbit_to_b64 maps (c AND 0x3f)) of
        (Some d0, Some d1, Some d2, Some d3) \<Rightarrow> Inr [d0, d1, d2, d3]
      | _ \<Rightarrow> Inl ASSERT)"

definition base64_encode_tail_using_maps ::
    "base64_maps_t \<Rightarrow> byte list \<Rightarrow> errno + string" where
  "base64_encode_tail_using_maps maps src =
     (let srclen = length src; longsrc = src @ replicate (3 - srclen) 0 in
      if \<not> srclen \<le> 3 then Inl ASSERT
      else case base64_encode_triplet_using_maps maps (longsrc ! 0) (longsrc ! 1) (longsrc ! 2) of
             Inl e \<Rightarrow> Inl e
           | Inr dest \<Rightarrow> Inr (take (1 + srclen) dest @ replicate (3 - srclen) CHR ''=''))"

text \<open>The while loop over whole triplets, then the tail.\<close>

fun encode_loop :: "base64_maps_t \<Rightarrow> byte list \<Rightarrow> string \<Rightarrow> errno + string" where
  "encode_loop maps (a # b # c # src) dest =
     (case base64_encode_triplet_using_maps maps a b c of
        Inl e \<Rightarrow> Inl e
      | Inr q \<Rightarrow> encode_loop maps src (dest @ q))"
| "encode_loop maps [] dest = Inr dest"
| "encode_loop maps src dest =
     (case base64_encode_tail_using_maps maps src of
        Inl e \<Rightarrow> Inl e
      | Inr q \<Rightarrow> Inr (dest @ q))"

definition base64_encode_using_maps ::
    "base64_maps_t \<Rightarrow> nat \<Rightarrow> byte list \<Rightarrow> errno + (string \<times> nat)" where
  "base64_encode_using_maps maps destlen src =
     (if destlen < base64_encoded_length (length src) then Inl EOVERFLOW
      else case encode_loop maps src [] of
             Inl e \<Rightarrow> Inl e
           | Inr dest \<Rightarrow> Inr (dest @ replicate (destlen - length dest) NUL, length dest))"

subsection \<open>Decoding\<close>

definition base64_decoded_length :: "nat \<Rightarrow> nat" where
  "base64_decoded_length srclen = ((srclen + 3) mod size_max div 4 * 3) mod size_max"

text \<open>
  The decoder works on the caller's memory: \<open>load_at\<close> and \<open>store_at\<close> access \<open>n\<close> consecutive cells of a
  buffer from an offset on, and an access that leaves the buffer is \<open>OVERRUN\<close>.
\<close>

definition load_at :: "'a list \<Rightarrow> nat \<Rightarrow> nat \<Rightarrow> errno + 'a list" where
  "load_at mem off n = (if off + n \<le> length mem then Inr (take n (drop off mem)) else Inl OVERRUN)"

definition store_at :: "'a list \<Rightarrow> nat \<Rightarrow> 'a list \<Rightarrow> errno + 'a list" where
  "store_at mem off xs =
     (if off + length xs \<le> length mem then Inr (take off mem @ xs @ drop (off + length xs) mem)
      else Inl OVERRUN)"

text \<open>
  The four characters at offset \<open>i\<close> of the source become the three bytes at offset \<open>off\<close> of the
  destination. The operands are promoted to \<^verbatim>\<open>int\<close>, so the right shifts are arithmetic and the
  result is truncated to a \<^verbatim>\<open>char\<close>: on bytes, \<^const>\<open>signed_drop_bit\<close> and wrapping \<^const>\<open>push_bit\<close>.
\<close>

definition base64_decode_quartet_using_maps ::
    "base64_maps_t \<Rightarrow> byte list \<Rightarrow> nat \<Rightarrow> string \<Rightarrow> nat \<Rightarrow> errno + byte list" where
  "base64_decode_quartet_using_maps maps dest off src i =
     (case load_at src i 4 of
        Inl e \<Rightarrow> Inl e
      | Inr s \<Rightarrow>
          (let a = sixbit_from_b64 maps (s ! 0); b = sixbit_from_b64 maps (s ! 1);
               c = sixbit_from_b64 maps (s ! 2); d = sixbit_from_b64 maps (s ! 3) in
           if a = - 1 \<or> b = - 1 \<or> c = - 1 \<or> d = - 1 then Inl EDOM
           else store_at dest off
                  [push_bit 2 a OR signed_drop_bit 4 b,
                   push_bit 4 (b AND 0xf) OR signed_drop_bit 2 c,
                   push_bit 6 (c AND 0x3) OR d]))"

fun tail_insize :: "string \<Rightarrow> nat \<Rightarrow> nat" where
  "tail_insize src 0 = 0"
| "tail_insize src (Suc n) = (if src ! n = CHR ''='' then tail_insize src n else Suc n)"

text \<open>
  The last characters of the source. The quartet's three bytes are all stored, of which the count
  returned may cover only the first; \<^verbatim>\<open>longsrc\<close> has room for four characters.
\<close>

definition base64_decode_tail_using_maps ::
    "base64_maps_t \<Rightarrow> byte list \<Rightarrow> nat \<Rightarrow> string \<Rightarrow> nat \<Rightarrow> nat \<Rightarrow> errno + (byte list \<times> nat)" where
  "base64_decode_tail_using_maps maps dest off src i srclen =
     (case load_at src i srclen of
        Inl e \<Rightarrow> Inl e
      | Inr s \<Rightarrow>
          (let insize = tail_insize s srclen;
               longsrc = take insize s @ replicate (4 - insize) CHR ''A'' in
           if insize = 0 then Inr (dest, 0)
           else if insize = 1 then Inl EINVAL
           else if 4 < insize then Inl OVERRUN
           else case base64_decode_quartet_using_maps maps dest off longsrc 0 of
                  Inl e \<Rightarrow> Inl e
                | Inr dest \<Rightarrow> Inr (dest, insize - 1)))"

text \<open>
  The for loop runs while more than four characters are left; the rest is the tail. The result is the
  destination buffer and \<^verbatim>\<open>dest_offset\<close>.
\<close>

function decode_loop ::
    "base64_maps_t \<Rightarrow> byte list \<Rightarrow> nat \<Rightarrow> string \<Rightarrow> nat \<Rightarrow> nat \<Rightarrow> errno + (byte list \<times> nat)" where
  "decode_loop maps dest off src i srclen =
     (if 4 < srclen - i then
        (case base64_decode_quartet_using_maps maps dest off src i of
           Inl e \<Rightarrow> Inl e
         | Inr dest \<Rightarrow> decode_loop maps dest (off + 3) src (i + 4) srclen)
      else
        (case base64_decode_tail_using_maps maps dest off src i (srclen - i) of
           Inl e \<Rightarrow> Inl e
         | Inr (dest, cnt) \<Rightarrow> Inr (dest, off + cnt)))"
  by pat_completeness auto
termination by (relation "measure (\<lambda>(maps, dest, off, src, i, srclen). srclen - i)") auto

declare decode_loop.simps [simp del]

text \<open>
  \<open>dest\<close> and \<open>src\<close> are the memory the two pointers refer to, \<open>destlen\<close> and \<open>srclen\<close> the sizes the
  caller states. What a failed call leaves in the destination is not part of the result.
\<close>

definition base64_decode_using_maps ::
    "base64_maps_t \<Rightarrow> byte list \<Rightarrow> nat \<Rightarrow> string \<Rightarrow> nat \<Rightarrow> errno + (byte list \<times> nat)" where
  "base64_decode_using_maps maps dest destlen src srclen =
     (if destlen < base64_decoded_length srclen then Inl EOVERFLOW
      else case decode_loop maps dest 0 src 0 srclen of
             Inl e \<Rightarrow> Inl e
           | Inr (dest, off) \<Rightarrow>
               if destlen < off then Inl OVERRUN
               else (case store_at dest off (replicate (destlen - off) 0) of
                       Inl e \<Rightarrow> Inl e
                     | Inr dest \<Rightarrow> Inr (dest, off)))"

subsection \<open>The RFC 4648 tables\<close>

definition base64_maps_rfc4648 :: base64_maps_t where
  "base64_maps_rfc4648 =
     \<lparr>encode_map = ''ABCDEFGHIJKLMNOPQRSTUVWXYZabcdefghijklmnopqrstuvwxyz0123456789+/'',
      decode_map =
        replicate 43 0xff @ [0x3e] @ replicate 3 0xff @
        [0x3f, 0x34, 0x35, 0x36, 0x37, 0x38, 0x39, 0x3a, 0x3b, 0x3c, 0x3d] @
        replicate 7 0xff @
        [0x00, 0x01, 0x02, 0x03, 0x04, 0x05, 0x06, 0x07, 0x08, 0x09, 0x0a, 0x0b, 0x0c, 0x0d,
         0x0e, 0x0f, 0x10, 0x11, 0x12, 0x13, 0x14, 0x15, 0x16, 0x17, 0x18, 0x19] @
        replicate 6 0xff @
        [0x1a, 0x1b, 0x1c, 0x1d, 0x1e, 0x1f, 0x20, 0x21, 0x22, 0x23, 0x24, 0x25, 0x26, 0x27,
         0x28, 0x29, 0x2a, 0x2b, 0x2c, 0x2d, 0x2e, 0x2f, 0x30, 0x31, 0x32, 0x33] @
        replicate 133 0xff\<rparr>"

definition base64_encode :: "nat \<Rightarrow> byte list \<Rightarrow> errno + (string \<times> nat)" where
  "base64_encode = base64_encode_using_maps base64_maps_rfc4648"

definition base64_decode :: "byte list \<Rightarrow> nat \<Rightarrow> string \<Rightarrow> nat \<Rightarrow> errno + (byte list \<times> nat)" where
  "base64_decode = base64_decode_using_maps base64_maps_rfc4648"

subsection \<open>The bits of a triplet and of a quartet\<close>

text \<open>The four six-bit groups of three bytes, as the encoder computes them.\<close>

definition sextet0 :: "byte \<Rightarrow> byte" where
  "sextet0 a = drop_bit 2 (a AND 0xfc)"

definition sextet1 :: "byte \<Rightarrow> byte \<Rightarrow> byte" where
  "sextet1 a b = (push_bit 4 (a AND 0x3) OR drop_bit 4 (b AND 0xf0))"

definition sextet2 :: "byte \<Rightarrow> byte \<Rightarrow> byte" where
  "sextet2 b c = (drop_bit 6 (c AND 0xc0) OR push_bit 2 (b AND 0xf))"

definition sextet3 :: "byte \<Rightarrow> byte" where
  "sextet3 c = c AND 0x3f"

lemmas sextet_defs = sextet0_def sextet1_def sextet2_def sextet3_def

lemma sextets_le [simp]: "sextet0 a \<le> 63" "sextet1 a b \<le> 63" "sextet2 b c \<le> 63" "sextet3 c \<le> 63"
  unfolding sextet_defs by (rule byte_le_63I, rule byte_eqI; simp add: byte_bits)+

text \<open>The three bytes of four six-bit groups, as the decoder computes them.\<close>

definition octet0 :: "byte \<Rightarrow> byte \<Rightarrow> byte" where
  "octet0 a b = push_bit 2 a OR signed_drop_bit 4 b"

definition octet1 :: "byte \<Rightarrow> byte \<Rightarrow> byte" where
  "octet1 b c = push_bit 4 (b AND 0xf) OR signed_drop_bit 2 c"

definition octet2 :: "byte \<Rightarrow> byte \<Rightarrow> byte" where
  "octet2 c d = push_bit 6 (c AND 0x3) OR d"

lemmas octet_defs = octet0_def octet1_def octet2_def

lemma octets_of_sextets [simp]:
  "octet0 (sextet0 a) (sextet1 a b) = a"
  "octet1 (sextet1 a b) (sextet2 b c) = b"
  "octet2 (sextet2 b c) (sextet3 c) = c"
  unfolding sextet_defs octet_defs by (rule byte_eqI; simp add: byte_bits)+

lemma minus_one_byte: "(- 1 :: byte) = 255"
  by simp

lemma sextet_not_minus_1 [simp]: "(s::byte) \<le> 63 \<Longrightarrow> s \<noteq> - 1" "(s::byte) \<le> 63 \<Longrightarrow> s \<noteq> 255"
  unfolding minus_one_byte by (auto simp: word_le_nat_alt)

lemma encode_triplet_sextets:
  "base64_encode_triplet_using_maps maps a b c =
     (case (sixbit_to_b64 maps (sextet0 a), sixbit_to_b64 maps (sextet1 a b),
            sixbit_to_b64 maps (sextet2 b c), sixbit_to_b64 maps (sextet3 c)) of
        (Some d0, Some d1, Some d2, Some d3) \<Rightarrow> Inr [d0, d1, d2, d3]
      | _ \<Rightarrow> Inl ASSERT)"
  unfolding base64_encode_triplet_using_maps_def sextet_defs ..

subsection \<open>What a text decodes to\<close>

text \<open>
  The decoder without its memory: the bytes of a quartet, of a tail and of a whole text. The loop over
  the buffer is shown below to compute these bytes whenever the destination is large enough.
\<close>

definition quartet_bytes :: "base64_maps_t \<Rightarrow> char \<Rightarrow> char \<Rightarrow> char \<Rightarrow> char \<Rightarrow> errno + byte list" where
  "quartet_bytes maps s0 s1 s2 s3 =
     (let a = sixbit_from_b64 maps s0; b = sixbit_from_b64 maps s1;
          c = sixbit_from_b64 maps s2; d = sixbit_from_b64 maps s3 in
      if a = - 1 \<or> b = - 1 \<or> c = - 1 \<or> d = - 1 then Inl EDOM
      else Inr [octet0 a b, octet1 b c, octet2 c d])"

definition tail_bytes :: "base64_maps_t \<Rightarrow> string \<Rightarrow> errno + byte list" where
  "tail_bytes maps src =
     (let insize = tail_insize src (length src);
          longsrc = take insize src @ replicate (4 - insize) CHR ''A'' in
      if insize = 0 then Inr []
      else if insize = 1 then Inl EINVAL
      else case quartet_bytes maps (longsrc ! 0) (longsrc ! 1) (longsrc ! 2) (longsrc ! 3) of
             Inl e \<Rightarrow> Inl e
           | Inr q \<Rightarrow> Inr (take (insize - 1) q))"

fun bytes_of :: "base64_maps_t \<Rightarrow> string \<Rightarrow> byte list \<Rightarrow> errno + byte list" where
  "bytes_of maps (s0 # s1 # s2 # s3 # s4 # src) out =
     (case quartet_bytes maps s0 s1 s2 s3 of
        Inl e \<Rightarrow> Inl e
      | Inr q \<Rightarrow> bytes_of maps (s4 # src) (out @ q))"
| "bytes_of maps src out =
     (case tail_bytes maps src of
        Inl e \<Rightarrow> Inl e
      | Inr q \<Rightarrow> Inr (out @ q))"

subsection \<open>Encode and decode tables that belong together\<close>

text \<open>
  What the codec relies on: 64 letters, none of them the padding sign or NUL, a decode map that
  inverts the encode map, and a letter \<^verbatim>\<open>A\<close>, since the decoder fills a short tail with it
  whatever the alphabet.
\<close>

locale base64_tables =
  fixes maps :: base64_maps_t
  assumes length_encode_map: "length (encode_map maps) = 64"
    and decode_encode: "i < 64 \<Longrightarrow> decode_map maps ! of_char (encode_map maps ! i) = of_nat i"
    and pad_not_letter: "CHR ''='' \<notin> set (encode_map maps)"
    and nul_not_letter: "NUL \<notin> set (encode_map maps)"
    and A_letter: "decode_map maps ! of_char CHR ''A'' \<noteq> 0xff"
begin

definition letter :: "byte \<Rightarrow> char" where
  "letter s = encode_map maps ! unat s"

text \<open>The text of a buffer, as a recursion over its triplets.\<close>

fun text_of :: "byte list \<Rightarrow> string" where
  "text_of (a # b # c # src) =
     [letter (sextet0 a), letter (sextet1 a b), letter (sextet2 b c), letter (sextet3 c)]
     @ text_of src"
| "text_of [] = []"
| "text_of [a] = [letter (sextet0 a), letter (sextet1 a 0), CHR ''='', CHR ''='']"
| "text_of [a, b] =
     [letter (sextet0 a), letter (sextet1 a b), letter (sextet2 b 0), CHR ''='']"

lemma letter_in_alphabet: "s \<le> 63 \<Longrightarrow> letter s \<in> set (encode_map maps)"
  unfolding letter_def by (rule nth_mem) (simp add: length_encode_map unat_byte_le_63)

lemma letter_not_pad [simp]: "s \<le> 63 \<Longrightarrow> letter s \<noteq> CHR ''=''" "s \<le> 63 \<Longrightarrow> letter s \<noteq> NUL"
  using letter_in_alphabet pad_not_letter nul_not_letter by metis+

lemma sixbit_from_letter [simp]: "s \<le> 63 \<Longrightarrow> sixbit_from_b64 maps (letter s) = s"
  using decode_encode [of "unat s"]
  by (simp add: sixbit_from_b64_def letter_def unat_byte_le_63 Let_def)

lemma A_sextet [simp]: "sixbit_from_b64 maps CHR ''A'' \<noteq> - 1"
  using A_letter unfolding minus_one_byte sixbit_from_b64_def Let_def by (simp only: if_False not_False_eq_True)

lemma encode_triplet:
  "base64_encode_triplet_using_maps maps a b c =
     Inr [letter (sextet0 a), letter (sextet1 a b), letter (sextet2 b c), letter (sextet3 c)]"
  unfolding encode_triplet_sextets by (simp add: sixbit_to_b64_def letter_def)

lemma encode_tail:
  "base64_encode_tail_using_maps maps [a] = Inr (text_of [a])"
  "base64_encode_tail_using_maps maps [a, b] = Inr (text_of [a, b])"
  by (simp_all add: base64_encode_tail_using_maps_def encode_triplet numeral_2_eq_2)

theorem encode_loop_text: "encode_loop maps src dest = Inr (dest @ text_of src)"
  by (induction src arbitrary: dest rule: text_of.induct)
     (simp_all add: encode_triplet encode_tail del: text_of.simps(3,4))

lemma length_text_of: "length (text_of src) = (length src + 2) div 3 * 4"
proof (induction src rule: text_of.induct)
  case (1 a b c src)
  have "(length (a # b # c # src) + 2) div 3 = Suc ((length src + 2) div 3)" by simp
  with "1" show ?case by simp
qed simp_all

lemma nul_free_text_of: "nul_free (text_of src)"
  by (induction src rule: text_of.induct) (auto simp: nul_free_def dest: sym)

lemma quartet_letters:
  "quartet_bytes maps
     (letter (sextet0 a)) (letter (sextet1 a b)) (letter (sextet2 b c)) (letter (sextet3 c)) =
   Inr [a, b, c]"
  by (simp add: quartet_bytes_def Let_def)

lemma bytes_tail_3: "bytes_of maps (text_of [a, b, c]) out = Inr (out @ [a, b, c])"
  by (simp add: tail_bytes_def Let_def quartet_letters)

lemma bytes_tail_2: "bytes_of maps (text_of [a, b]) out = Inr (out @ [a, b])"
  by (simp add: tail_bytes_def Let_def quartet_bytes_def)

lemma bytes_tail_1: "bytes_of maps (text_of [a]) out = Inr (out @ [a])"
  by (simp add: tail_bytes_def Let_def quartet_bytes_def)

theorem bytes_of_text: "bytes_of maps (text_of src) out = Inr (out @ src)"
proof (induction src arbitrary: out rule: text_of.induct)
  case (1 a b c src)
  show ?case
  proof (cases "text_of src")
    case Nil
    then have "src = []" by (cases src rule: text_of.cases) auto
    then show ?thesis using bytes_tail_3 by simp
  next
    case (Cons t ts)
    then show ?thesis using "1" [of "out @ [a, b, c]"] by (simp add: quartet_letters)
  qed
qed (use bytes_tail_1 bytes_tail_2 in \<open>simp_all add: tail_bytes_def\<close>)

end

subsection \<open>The decoder computes these bytes inside its buffer\<close>

lemma store_atE:
  assumes "off + length xs \<le> length mem"
  obtains mem' where "store_at mem off xs = Inr mem'" "length mem' = length mem"
    "take (off + length xs) mem' = take off mem @ xs"
  using that [of "take off mem @ xs @ drop (off + length xs) mem"] assms by (simp add: store_at_def)

lemma tail_insize_le: "tail_insize src n \<le> n"
  by (induction n) auto

lemma quartet_bytes_length: "quartet_bytes maps s0 s1 s2 s3 = Inr q \<Longrightarrow> length q = 3"
  by (auto simp: quartet_bytes_def Let_def split: if_splits)

lemma quartet_bytes_error: "quartet_bytes maps s0 s1 s2 s3 = Inl e \<Longrightarrow> e = EDOM"
  by (simp add: quartet_bytes_def Let_def split: if_splits)

lemma decode_quartet_eq:
  assumes "i + 4 \<le> length src"
  shows "base64_decode_quartet_using_maps maps dest off src i =
    (case quartet_bytes maps (src ! i) (src ! (i + 1)) (src ! (i + 2)) (src ! (i + 3)) of
       Inl e \<Rightarrow> Inl e
     | Inr q \<Rightarrow> store_at dest off q)"
  using assms by (simp add: base64_decode_quartet_using_maps_def load_at_def quartet_bytes_def
      octet_defs Let_def)

lemma tail_bytes_length: "tail_bytes maps s = Inr q \<Longrightarrow> length s \<le> 4 \<Longrightarrow> length q \<le> (length s + 3) div 4 * 3"
  using tail_insize_le [of s "length s"]
  by (auto simp: tail_bytes_def Let_def dest!: quartet_bytes_length split: if_splits sum.splits)

lemma tail_bytes_error: "tail_bytes maps s = Inl e \<Longrightarrow> e = EDOM \<or> e = EINVAL"
  by (auto simp: tail_bytes_def Let_def dest: quartet_bytes_error split: if_splits sum.splits)

lemma bytes_of_error: "bytes_of maps s out = Inl e \<Longrightarrow> e = EDOM \<or> e = EINVAL"
  by (induction maps s out rule: bytes_of.induct)
     (auto dest: quartet_bytes_error tail_bytes_error split: sum.splits)

text \<open>At least four characters of text stand for three bytes of data; the tail may be shorter.\<close>

lemma bytes_of_length:
  "bytes_of maps s out = Inr out' \<Longrightarrow> length out' \<le> length out + (length s + 3) div 4 * 3"
proof (induction maps s out arbitrary: out' rule: bytes_of.induct)
  case (1 maps s0 s1 s2 s3 s4 src out)
  have "(length (s0 # s1 # s2 # s3 # s4 # src) + 3) div 4 = Suc ((length (s4 # src) + 3) div 4)"
    by simp
  with "1" show ?case by (fastforce split: sum.splits dest: quartet_bytes_length)
qed (auto split: sum.splits dest: tail_bytes_length)

text \<open>The destination after a step: what was written before, then the bytes decoded.\<close>

definition decodes_to ::
    "byte list \<Rightarrow> errno + byte list \<Rightarrow> errno + (byte list \<times> nat) \<Rightarrow> bool" where
  "decodes_to dest spec r \<longleftrightarrow>
     (case spec of
        Inl e \<Rightarrow> r = Inl e
      | Inr out \<Rightarrow> (\<exists>dest'. r = Inr (dest', length out) \<and> length dest' = length dest
                            \<and> take (length out) dest' = out))"

lemma decode_tail_refines:
  assumes "i + length s \<le> length src" "take (length s) (drop i src) = s" "length s \<le> 4"
    and "off + (length s + 3) div 4 * 3 \<le> length dest" and "take off dest = out" "length out = off"
  shows "decodes_to dest (case tail_bytes maps s of Inl e \<Rightarrow> Inl e | Inr q \<Rightarrow> Inr (out @ q))
    (case base64_decode_tail_using_maps maps dest off src i (length s) of
       Inl e \<Rightarrow> Inl e | Inr (dest, cnt) \<Rightarrow> Inr (dest, off + cnt))"
proof -
  define insize where "insize = tail_insize s (length s)"
  define longsrc where "longsrc = take insize s @ replicate (4 - insize) CHR ''A''"
  define spec where "spec = quartet_bytes maps (longsrc ! 0) (longsrc ! 1) (longsrc ! 2) (longsrc ! 3)"
  have le: "insize \<le> length s" unfolding insize_def by (rule tail_insize_le)
  have load: "load_at src i (length s) = Inr s" using assms(1,2) by (simp add: load_at_def)
  have tail: "tail_bytes maps s = (if insize = 0 then Inr [] else if insize = 1 then Inl EINVAL
      else case spec of Inl e \<Rightarrow> Inl e | Inr q \<Rightarrow> Inr (take (insize - 1) q))"
    unfolding tail_bytes_def spec_def longsrc_def insize_def Let_def ..
  have quartet: "base64_decode_quartet_using_maps maps dest off longsrc 0
      = (case spec of Inl e \<Rightarrow> Inl e | Inr q \<Rightarrow> store_at dest off q)"
    using decode_quartet_eq [of 0 longsrc] le assms(3) by (simp add: longsrc_def spec_def numeral_nat)
  have code: "base64_decode_tail_using_maps maps dest off src i (length s) =
    (if insize = 0 then Inr (dest, 0) else if insize = 1 then Inl EINVAL
     else case (case spec of Inl e \<Rightarrow> Inl e | Inr q \<Rightarrow> store_at dest off q) of
            Inl e \<Rightarrow> Inl e | Inr dest \<Rightarrow> Inr (dest, insize - 1))"
    using le assms(3) unfolding base64_decode_tail_using_maps_def load sum.case Let_def
      insize_def [symmetric] longsrc_def [symmetric] quartet by simp
  show ?thesis
  proof (cases "insize \<le> 1")
    case True
    then show ?thesis using assms(5,6) unfolding tail code by (auto simp: decodes_to_def)
  next
    case False
    show ?thesis
    proof (cases spec)
      case (Inl e)
      then show ?thesis using False unfolding tail code by (simp add: decodes_to_def)
    next
      case (Inr q)
      have q: "length q = 3" using Inr unfolding spec_def by (rule quartet_bytes_length)
      have "0 < length s" using False le by linarith
      then have "length s = 1 \<or> length s = 2 \<or> length s = 3 \<or> length s = 4" using assms(3) by linarith
      then have "(length s + 3) div 4 = 1" by auto
      then have room: "off + length q \<le> length dest" using assms(4) q by simp
      obtain dest' where dest': "store_at dest off q = Inr dest'" "length dest' = length dest"
        "take (off + length q) dest' = take off dest @ q" by (rule store_atE [OF room])
      have n: "insize - 1 \<le> 3" using le assms(3) by simp
      have "take (off + (insize - 1)) dest' = take (off + (insize - 1)) (take (off + length q) dest')"
        using n q by simp
      also have "\<dots> = out @ take (insize - 1) q" unfolding dest'(3) using assms(5,6) by simp
      finally show ?thesis using False Inr dest'(1,2) assms(6) n q unfolding tail code
        by (simp add: decodes_to_def)
    qed
  qed
qed

lemma bytes_of_short:
  "length s \<le> 4 \<Longrightarrow>
   bytes_of maps s out = (case tail_bytes maps s of Inl e \<Rightarrow> Inl e | Inr q \<Rightarrow> Inr (out @ q))"
  by (cases "(maps, s, out)" rule: bytes_of.cases) auto

lemma decode_loop_refines:
  assumes "n \<le> length src" "i \<le> n" and "off + (n - i + 3) div 4 * 3 \<le> length dest"
    and "take off dest = out" "length out = off"
  shows "decodes_to dest (bytes_of maps (drop i (take n src)) out) (decode_loop maps dest off src i n)"
  using assms
proof (induction maps dest off src i n arbitrary: out rule: decode_loop.induct)
  case (1 maps dest off src i n)
  let ?s = "drop i (take n src)"
  have len: "length ?s = n - i" using "1.prems" by simp
  show ?case
  proof (cases "4 < n - i")
    case True
    let ?q = "quartet_bytes maps (src ! i) (src ! (i + 1)) (src ! (i + 2)) (src ! (i + 3))"
    obtain s4 s where s: "drop (i + 4) (take n src) = s4 # s"
      using True len by (cases "drop (i + 4) (take n src)") auto
    have at: "drop k (take n src) = src ! k # drop (Suc k) (take n src)" if "k < n" for k
      using that "1.prems"(1) by (simp add: Cons_nth_drop_Suc [symmetric])
    have quartet: "?s = src ! i # src ! (i + 1) # src ! (i + 2) # src ! (i + 3) # s4 # s"
      using at [of i] at [of "i + 1"] at [of "i + 2"] at [of "i + 3"] s True by (simp add: numeral_nat)
    have step: "decode_loop maps dest off src i n =
      (case ?q of Inl e \<Rightarrow> Inl e | Inr q \<Rightarrow>
        (case store_at dest off q of Inl e \<Rightarrow> Inl e
           | Inr dest \<Rightarrow> decode_loop maps dest (off + 3) src (i + 4) n))"
      using True "1.prems"(1) decode_quartet_eq [of i src maps dest off]
      by (subst decode_loop.simps) (simp split: sum.split)
    show ?thesis
    proof (cases ?q)
      case (Inl e)
      then show ?thesis unfolding step quartet by (simp add: decodes_to_def)
    next
      case (Inr q)
      have q: "length q = 3" using Inr by (rule quartet_bytes_length)
      have div: "(n - i + 3) div 4 = Suc ((n - (i + 4) + 3) div 4)"
        using True div_add_self2 [of 4 "n - (i + 4) + 3"] by (simp add: algebra_simps)
      have room: "off + length q \<le> length dest" using "1.prems"(3) q unfolding div by simp
      obtain dest' where dest': "store_at dest off q = Inr dest'" "length dest' = length dest"
        "take (off + length q) dest' = take off dest @ q" by (rule store_atE [OF room])
      have room': "off + 3 + (n - (i + 4) + 3) div 4 * 3 \<le> length dest'"
        using "1.prems"(3) unfolding dest'(2) div by (simp only: mult_Suc add.assoc)
      have code: "base64_decode_quartet_using_maps maps dest off src i = Inr dest'"
        using decode_quartet_eq [of i src maps dest off] Inr dest'(1) True "1.prems"(1) by simp
      have "decodes_to dest' (bytes_of maps (drop (i + 4) (take n src)) (out @ q))
          (decode_loop maps dest' (off + 3) src (i + 4) n)"
        by (rule "1.IH" [OF True code])
           (use "1.prems" True dest' q room' in simp_all)
      then show ?thesis using dest'(1) Inr unfolding step quartet s
        by (simp add: decodes_to_def dest'(2) split: sum.splits)
    qed
  next
    case False
    have "bytes_of maps ?s out = (case tail_bytes maps ?s of Inl e \<Rightarrow> Inl e | Inr q \<Rightarrow> Inr (out @ q))"
      using False len bytes_of_short [of ?s maps out] by simp
    moreover have "decode_loop maps dest off src i n =
      (case base64_decode_tail_using_maps maps dest off src i (length ?s) of
         Inl e \<Rightarrow> Inl e | Inr (dest, cnt) \<Rightarrow> Inr (dest, off + cnt))"
      using False len by (subst decode_loop.simps) simp
    moreover have "decodes_to dest (case tail_bytes maps ?s of Inl e \<Rightarrow> Inl e | Inr q \<Rightarrow> Inr (out @ q))
      (case base64_decode_tail_using_maps maps dest off src i (length ?s) of
         Inl e \<Rightarrow> Inl e | Inr (dest, cnt) \<Rightarrow> Inr (dest, off + cnt))"
      by (rule decode_tail_refines) (use "1.prems" False len in \<open>simp_all add: take_drop add.commute\<close>)
    ultimately show ?thesis by simp
  qed
qed

lemma base64_decoded_length_eq:
  "n < 2 ^ 62 \<Longrightarrow> base64_decoded_length n = (n + 3) div 4 * 3"
  by (simp add: base64_decoded_length_def size_max_def)

lemma base64_encoded_length_eq:
  "n < 2 ^ 61 \<Longrightarrow> base64_encoded_length n = (n + 2) div 3 * 4"
  by (simp add: base64_encoded_length_def size_max_def)

text \<open>
  The decoder on a buffer of the size it is told, for the first \<open>n\<close> characters of the source: it never
  leaves the buffer, and the buffer holds the bytes followed by NULs, whatever it held before.
\<close>

lemma base64_decode_bytes:
  assumes "n \<le> length src" "n < 2 ^ 62"
  shows "base64_decode_using_maps maps dest (length dest) src n =
    (if length dest < base64_decoded_length n then Inl EOVERFLOW
     else case bytes_of maps (take n src) [] of
            Inl e \<Rightarrow> Inl e
          | Inr out \<Rightarrow> Inr (out @ replicate (length dest - length out) 0, length out))"
proof (cases "length dest < base64_decoded_length n")
  case True
  then show ?thesis by (simp add: base64_decode_using_maps_def)
next
  case False
  then have refines: "decodes_to dest (bytes_of maps (take n src) []) (decode_loop maps dest 0 src 0 n)"
    using decode_loop_refines [of n src 0 0 dest "[]" maps] assms by (simp add: base64_decoded_length_eq)
  show ?thesis
  proof (cases "bytes_of maps (take n src) []")
    case (Inl e)
    then show ?thesis using False refines by (simp add: base64_decode_using_maps_def decodes_to_def)
  next
    case (Inr out)
    then obtain dest' where dest': "decode_loop maps dest 0 src 0 n = Inr (dest', length out)"
      "length dest' = length dest" "take (length out) dest' = out"
      using refines by (auto simp: decodes_to_def)
    have "length out \<le> length dest" using dest'(2,3) by (metis length_take min.cobounded1)
    then show ?thesis using False Inr dest'
      by (simp add: base64_decode_using_maps_def store_at_def)
  qed
qed

subsection \<open>Tables built from an alphabet\<close>

lemma of_char_eq_iff [simp]: "(of_char c :: nat) = of_char d \<longleftrightarrow> c = d"
  by (metis char_of_char)

lemma of_char_less: "(of_char c :: nat) < 256"
  by simp

lemma length_init_decode_map [simp]: "length (init_decode_map i cs dm) = length dm"
  by (induction i cs dm rule: init_decode_map.induct) auto

lemma init_decode_map_other:
  "c \<notin> set cs \<Longrightarrow> init_decode_map i cs dm ! of_char c = dm ! of_char c"
  by (induction i cs dm rule: init_decode_map.induct) auto

lemma init_decode_map_nth:
  "distinct cs \<Longrightarrow> length dm = 256 \<Longrightarrow> j < length cs \<Longrightarrow>
   init_decode_map i cs dm ! of_char (cs ! j) = of_nat (i + j)"
proof (induction i cs dm arbitrary: j rule: init_decode_map.induct)
  case (2 i c cs dm)
  then show ?case
    by (cases j) (auto simp: init_decode_map_other of_char_less)
qed simp

lemma base64_init_maps_tables:
  assumes "length al = 64" "distinct al" "CHR ''='' \<notin> set al" "NUL \<notin> set al" "CHR ''A'' \<in> set al"
  shows "base64_tables (base64_init_maps al)"
proof
  show "length (encode_map (base64_init_maps al)) = 64"
    using assms by (simp add: base64_init_maps_def)
next
  fix i :: nat
  assume "i < 64"
  with assms show "decode_map (base64_init_maps al) ! of_char (encode_map (base64_init_maps al) ! i)
      = of_nat i"
    by (simp add: base64_init_maps_def init_decode_map_nth)
next
  obtain j where j: "j < 64" "al ! j = CHR ''A''"
    using assms by (metis in_set_conv_nth)
  then have "decode_map (base64_init_maps al) ! of_char CHR ''A'' = of_nat j"
    using assms init_decode_map_nth [of al "replicate 256 0xff" j 0] by (simp add: base64_init_maps_def)
  moreover have "(of_nat j :: byte) \<noteq> 0xff"
    using j by (simp add: word_unat_eq_iff unat_of_nat)
  ultimately show "decode_map (base64_init_maps al) ! of_char CHR ''A'' \<noteq> 0xff" by simp
qed (use assms in \<open>auto simp: base64_init_maps_def\<close>)

text \<open>
  The pregenerated RFC 4648 tables are what \<^verbatim>\<open>base64_init_maps\<close> computes from their alphabet,
  entry by entry.
\<close>

theorem base64_maps_rfc4648_generated:
  "base64_init_maps (encode_map base64_maps_rfc4648) = base64_maps_rfc4648"
  by code_simp

interpretation rfc4648: base64_tables base64_maps_rfc4648
proof -
  let ?al = "encode_map base64_maps_rfc4648"
  have "length ?al = 64 \<and> distinct ?al \<and> CHR ''='' \<notin> set ?al \<and> NUL \<notin> set ?al \<and> CHR ''A'' \<in> set ?al"
    by code_simp
  then have "base64_tables (base64_init_maps ?al)"
    by (intro base64_init_maps_tables) blast+
  moreover have "base64_init_maps ?al = base64_maps_rfc4648"
    by code_simp
  ultimately show "base64_tables base64_maps_rfc4648" by simp
qed

abbreviation base64_text :: "byte list \<Rightarrow> string" where
  "base64_text \<equiv> base64_tables.text_of base64_maps_rfc4648"

lemma length_base64_text:
  "length src < 2 ^ 61 \<Longrightarrow> length (base64_text src) = base64_encoded_length (length src)"
  by (simp add: rfc4648.length_text_of base64_encoded_length_eq)

lemma base64_encode_text:
  "length src < 2 ^ 61 \<Longrightarrow> base64_encoded_length (length src) \<le> n \<Longrightarrow>
   base64_encode n src =
     Inr (base64_text src @ replicate (n - length (base64_text src)) NUL, length (base64_text src))"
  by (simp add: base64_encode_def base64_encode_using_maps_def rfc4648.encode_loop_text
      length_base64_text)

lemma base64_decode_text:
  "length src < 2 ^ 61 \<Longrightarrow> base64_decoded_length (length (base64_text src)) \<le> length buf \<Longrightarrow>
   base64_decode buf (length buf) (base64_text src @ rest) (length (base64_text src))
     = Inr (src @ replicate (length buf - length src) 0, length src)"
  using base64_decode_bytes [of "length (base64_text src)" "base64_text src @ rest" base64_maps_rfc4648 buf]
  by (simp add: base64_decode_def rfc4648.bytes_of_text rfc4648.length_text_of)

text \<open>
  C20. Encoding into a buffer that is large enough and decoding the text into another, whatever that
  buffer held, gives back the data, NUL-padded to the size of each buffer as the header promises; the
  sizes computed by \<^verbatim>\<open>base64_encoded_length\<close> and \<^verbatim>\<open>base64_decoded_length\<close> are enough.
\<close>

theorem base64_roundtrip:
  assumes "length src < 2 ^ 61"
    and "base64_encoded_length (length src) \<le> n"
    and "base64_decoded_length (base64_encoded_length (length src)) \<le> m" and "length buf = m"
  shows "\<exists>txt. base64_encode n src =
             Inr (txt @ replicate (n - length txt) NUL, base64_encoded_length (length src))
           \<and> nul_free txt
           \<and> base64_decode buf m txt (length txt) = Inr (src @ replicate (m - length src) 0, length src)"
  using base64_encode_text [OF assms(1,2)] base64_decode_text [OF assms(1), of buf "[]"] assms
    rfc4648.nul_free_text_of [of src] length_base64_text [OF assms(1)]
  by (intro exI [of _ "base64_text src"]) simp

theorem base64_roundtrip_witness:
  "\<exists>txt. base64_encode 5 [1, 2] = Inr (txt @ replicate (5 - length txt) NUL, 4)
      \<and> nul_free txt
      \<and> base64_decode [7, 8, 9] 3 txt (length txt) = Inr ([1, 2] @ replicate 1 0, length [1, 2::byte])"
  using base64_roundtrip [of "[1, 2]" 5 3 "[7, 8, 9]"]
  by (simp add: base64_encoded_length_def base64_decoded_length_def size_max_def)

text \<open>
  C21. On any text and any destination buffer, every byte the decoder stores (three at a time, the
  last three of a short tail included) and reads lies inside the buffers: the result is never
  \<open>OVERRUN\<close>. It either reports an error, EOVERFLOW exactly when the buffer is smaller than
  \<^verbatim>\<open>base64_decoded_length\<close>, or fills the buffer, NULs after the bytes it counts.
\<close>

theorem base64_decode_in_bounds:
  assumes "length txt < 2 ^ 62"
  shows "case base64_decode buf (length buf) txt (length txt) of
           Inl e \<Rightarrow> (e = EOVERFLOW \<longleftrightarrow> length buf < base64_decoded_length (length txt))
                     \<and> e \<noteq> ASSERT \<and> e \<noteq> OVERRUN
         | Inr (buf', n) \<Rightarrow> length buf' = length buf \<and> n \<le> base64_decoded_length (length txt)
                            \<and> base64_decoded_length (length txt) \<le> length buf
                            \<and> drop n buf' = replicate (length buf - n) 0"
proof -
  note decode = base64_decode_bytes [OF order_refl assms, of base64_maps_rfc4648 buf, folded base64_decode_def,
      unfolded take_all [OF order_refl]]
  show ?thesis
  proof (cases "bytes_of base64_maps_rfc4648 txt []")
    case (Inl e)
    then show ?thesis using bytes_of_error [OF Inl] decode by auto
  next
    case (Inr out)
    then show ?thesis using bytes_of_length [OF Inr] decode assms by (auto simp: base64_decoded_length_eq)
  qed
qed

theorem base64_decode_in_bounds_witness:
  "length ''Zg=='' < 2 ^ 62 \<and>
   (case base64_decode [1, 2, 3] (length [1, 2, 3::byte]) ''Zg=='' (length ''Zg=='') of
      Inl e \<Rightarrow> (e = EOVERFLOW \<longleftrightarrow> length [1, 2, 3::byte] < base64_decoded_length (length ''Zg==''))
                \<and> e \<noteq> ASSERT \<and> e \<noteq> OVERRUN
    | Inr (buf', n) \<Rightarrow> length buf' = length [1, 2, 3::byte] \<and> n \<le> base64_decoded_length (length ''Zg=='')
                       \<and> base64_decoded_length (length ''Zg=='') \<le> length [1, 2, 3::byte]
                       \<and> drop n buf' = replicate (length [1, 2, 3::byte] - n) 0)"
  using base64_decode_in_bounds [of "''Zg==''" "[1, 2, 3]"] by simp

text \<open>
  Any alphabet of 64 distinct letters round-trips through the tables \<^verbatim>\<open>base64_init_maps\<close>
  builds for it, provided it holds the letter A (which the decoder uses to fill a short tail) and
  neither the padding sign nor NUL.
\<close>

theorem base64_custom_alphabet_roundtrip:
  assumes "length al = 64" "distinct al" "CHR ''='' \<notin> set al" "NUL \<notin> set al" "CHR ''A'' \<in> set al"
    and "length src < 2 ^ 61" and "length buf = base64_decoded_length (base64_encoded_length (length src))"
  shows "\<exists>txt. base64_encode_using_maps (base64_init_maps al) (base64_encoded_length (length src)) src
             = Inr (txt, length txt)
           \<and> base64_decode_using_maps (base64_init_maps al) buf (length buf) txt (length txt)
             = Inr (src @ replicate (length buf - length src) 0, length src)"
proof -
  have tables: "base64_tables (base64_init_maps al)"
    using assms by (intro base64_init_maps_tables)
  let ?txt = "base64_tables.text_of (base64_init_maps al) src"
  have len: "length ?txt = base64_encoded_length (length src)"
    using assms base64_tables.length_text_of [OF tables] by (simp add: base64_encoded_length_eq)
  moreover have "length ?txt < 2 ^ 62"
    using assms(6) base64_tables.length_text_of [OF tables, of src] by simp
  ultimately show ?thesis
    using base64_decode_bytes [of "length ?txt" ?txt "base64_init_maps al" buf] assms(7)
    by (intro exI [of _ ?txt])
       (simp add: base64_encode_using_maps_def base64_tables.encode_loop_text [OF tables]
         base64_tables.bytes_of_text [OF tables])
qed

theorem base64_custom_alphabet_roundtrip_witness:
  "let al = ''ABCDEFGHIJKLMNOPQRSTUVWXYZabcdefghijklmnopqrstuvwxyz0123456789-_'' in
   \<exists>txt. base64_encode_using_maps (base64_init_maps al) 4 [0xfb]
             = Inr (txt, length txt)
           \<and> base64_decode_using_maps (base64_init_maps al) [9, 9, 9] (length [9, 9, 9::byte]) txt (length txt)
             = Inr ([0xfb, 0, 0], length [0xfb::byte])"
  unfolding Let_def
  using base64_custom_alphabet_roundtrip
    [of "''ABCDEFGHIJKLMNOPQRSTUVWXYZabcdefghijklmnopqrstuvwxyz0123456789-_''" "[0xfb]" "[9, 9, 9]"]
  by (simp add: base64_decoded_length_def base64_encoded_length_def size_max_def)

text \<open>
  Without that letter the custom alphabet breaks: here A is replaced by \<^verbatim>\<open>-\<close>, one byte is
  encoded without complaint and the decoder rejects its text with EDOM.
\<close>

theorem base64_custom_alphabet_without_A:
  "let maps = base64_init_maps
       ''-BCDEFGHIJKLMNOPQRSTUVWXYZabcdefghijklmnopqrstuvwxyz0123456789+/'' in
   base64_encode_using_maps maps 4 [0xfb] = Inr (''+w=='', 4)
   \<and> base64_decode_using_maps maps [0, 0, 0] (length [0, 0, 0::byte]) ''+w=='' 4 = Inl EDOM"
proof -
  let ?maps = "base64_init_maps
       ''-BCDEFGHIJKLMNOPQRSTUVWXYZabcdefghijklmnopqrstuvwxyz0123456789+/''"
  have "encode_loop ?maps [0xfb] [] = Inr ''+w==''" "bytes_of ?maps ''+w=='' [] = Inl EDOM"
    by code_simp+
  then show ?thesis
    using base64_decode_bytes [of 4 "''+w==''" ?maps "[0, 0, 0]"]
    unfolding Let_def base64_encode_using_maps_def
    by (simp add: base64_encoded_length_def base64_decoded_length_def size_max_def del: bytes_of.simps)
qed

end
