(* ===== verification/Codec.thy ===== *)
theory Codec
  imports Pmix_Types Jansson Base64
begin

text \<open>
  \<^verbatim>\<open>src/shell/plugins/codec.c\<close>: conversion between PMIx data and JSON, over the JSON library's
  interface \<open>L\<close>. An encoder returns \<open>None\<close> for a null pointer. A decoder that
  allocates returns a pair: the outcome (\<open>Fail\<close> is the return value -1, \<open>Undef\<close> undefined
  behaviour) and the heap blocks it has allocated and not freed. The releasing functions return the
  blocks they free.
\<close>

subsection \<open>Pointers and raw data\<close>

definition codec_pointer_encode :: "'j lib \<Rightarrow> u64 \<Rightarrow> 'j option" where
  "codec_pointer_encode L ptr = json_integer L ptr"

definition codec_pointer_decode :: "'j lib \<Rightarrow> 'j \<Rightarrow> u64 option" where
  "codec_pointer_decode L j =
     (if \<not> json_is_integer L j then None else Some (json_integer_value L j))"

text \<open>The lengths pass through \<^verbatim>\<open>int\<close> variables; the conversions are written out.\<close>

definition codec_data_encode :: "'j lib \<Rightarrow> byte list \<Rightarrow> 'j option" where
  "codec_data_encode L data =
     (let xlength = size_of_int (int_of_size (base64_encoded_length (length data) + 1)) in
      if \<not> malloc_ok L xlength then None
      else case base64_encode xlength data of
             Inl e \<Rightarrow> None
           | Inr (xdata, n) \<Rightarrow> json_string_nocheck L (c_string xdata))"

definition json_string_length :: "'j lib \<Rightarrow> 'j \<Rightarrow> nat" where
  "json_string_length L j = (case json_string_value L j of None \<Rightarrow> 0 | Some s \<Rightarrow> length s)"

definition codec_data_decode_bufsize :: "'j lib \<Rightarrow> 'j \<Rightarrow> int" where
  "codec_data_decode_bufsize L j =
     (if \<not> json_is_string L j then - 1
      else let xlength = int_of_size (json_string_length L j)
           in sint (of_nat (base64_decoded_length (size_of_int xlength)) :: u64))"

text \<open>
  The source is the string with its NUL terminator. A string whose length overflows \<^verbatim>\<open>int\<close> is decoded
  with a source size near \<open>size_max\<close>: the base64 decoder refuses most of these, but for the last three
  \<^verbatim>\<open>base64_decoded_length\<close> wraps to 0 and its loop runs out of the buffers, which is \<open>Undef\<close>.
\<close>

definition codec_data_decode_tobuf ::
    "'j lib \<Rightarrow> 'j \<Rightarrow> byte list \<Rightarrow> nat \<Rightarrow> (byte list \<times> nat) outcome" where
  "codec_data_decode_tobuf L j data len =
     (if \<not> json_is_string L j then Fail
      else case json_string_value L j of
             None \<Rightarrow> Fail
           | Some xdata \<Rightarrow>
               let xlength = int_of_size (json_string_length L j) in
               (case base64_decode data len (xdata @ [NUL]) (size_of_int xlength) of
                  Inl e \<Rightarrow> if e = OVERRUN then Undef else Fail
                | Inr r \<Rightarrow> Ok r))"

text \<open>What a block from \<^verbatim>\<open>malloc\<close> holds is unspecified; here each byte is \<^verbatim>\<open>0xa5\<close>.\<close>

definition unwritten :: "nat \<Rightarrow> byte list" where
  "unwritten n = replicate n 0xa5"

lemma length_unwritten [simp]: "length (unwritten n) = n"
  by (simp add: unwritten_def)

definition codec_data_decode :: "'j lib \<Rightarrow> 'j \<Rightarrow> (byte list \<times> nat) outcome" where
  "codec_data_decode L j =
     (let bufsize = codec_data_decode_bufsize L j in
      if bufsize < 0 then Fail
      else if \<not> malloc_ok L (nat bufsize) then Fail
      else codec_data_decode_tobuf L j (unwritten (nat bufsize)) (nat bufsize))"

definition codec_data_length :: "'j lib \<Rightarrow> 'j \<Rightarrow> int outcome" where
  "codec_data_length L j =
     (case codec_data_decode L j of Undef \<Rightarrow> Undef | Fail \<Rightarrow> Ok (- 1) | Ok (data, len) \<Rightarrow> Ok (int len))"

subsection \<open>Process names\<close>

definition codec_proc_encode :: "'j lib \<Rightarrow> pmix_proc_t \<Rightarrow> 'j option" where
  "codec_proc_encode L proc =
     json_pack L [(''nspace'', PkS (nspace proc)), (''rank'', PkI (rank proc))]"

definition codec_proc_decode :: "'j lib \<Rightarrow> 'j \<Rightarrow> pmix_proc_t option" where
  "codec_proc_decode L j =
     (case json_unpack L j [(''nspace'', UpS), (''rank'', UpI)] of
        Some [UvS ns, UvI r] \<Rightarrow>
          Some \<lparr>nspace = strlcpy_field ns (PMIX_MAX_NSLEN + 1), rank = r\<rparr>
      | _ \<Rightarrow> None)"

text \<open>The append loop shared by both array encoders (entry by entry, failing at the first failure).\<close>

primrec array_encode_loop :: "'j lib \<Rightarrow> ('a \<Rightarrow> 'j option) \<Rightarrow> 'j \<Rightarrow> 'a list \<Rightarrow> 'j option" where
  "array_encode_loop L enc a [] = Some a"
| "array_encode_loop L enc a (x # xs) =
     (case enc x of
        None \<Rightarrow> None
      | Some entry \<Rightarrow>
          (case json_array_append L a entry of
             None \<Rightarrow> None
           | Some a' \<Rightarrow> array_encode_loop L enc a' xs))"

definition codec_proc_array_encode :: "'j lib \<Rightarrow> pmix_proc_t list \<Rightarrow> 'j option" where
  "codec_proc_array_encode L procs =
     (case json_array L of
        None \<Rightarrow> None
      | Some a \<Rightarrow> array_encode_loop L (codec_proc_encode L) a procs)"

definition sizeof_proc :: nat where "sizeof_proc = 260"
definition sizeof_info :: nat where "sizeof_info = 552"

definition codec_proc_array_decode :: "'j lib \<Rightarrow> 'j \<Rightarrow> pmix_proc_t list outcome" where
  "codec_proc_array_decode L j =
     (let nprocs = length (json_array_elems L j) in
      if \<not> json_is_array L j \<or> \<not> malloc_ok L (nprocs * sizeof_proc) then Fail
      else traverse (\<lambda>v. of_option (codec_proc_decode L v)) (json_array_elems L j))"

subsection \<open>Values\<close>

fun codec_value_data :: "'j lib \<Rightarrow> pmix_value_t \<Rightarrow> 'j option" where
  "codec_value_data L (V_BOOL flag) = Some (if flag then json_true L else json_false L)"
| "codec_value_data L (V_BYTE x) = json_integer L (ucast x)"
| "codec_value_data L (V_STRING s) = (case s of None \<Rightarrow> None | Some s \<Rightarrow> json_string L s)"
| "codec_value_data L (V_SIZE x) = json_integer L x"
| "codec_value_data L (V_PID x) = json_integer L (scast x)"
| "codec_value_data L (V_INT x) = json_integer L (scast x)"
| "codec_value_data L (V_INT8 x) = json_integer L (scast x)"
| "codec_value_data L (V_INT16 x) = json_integer L (scast x)"
| "codec_value_data L (V_INT32 x) = json_integer L (scast x)"
| "codec_value_data L (V_INT64 x) = json_integer L x"
| "codec_value_data L (V_UINT x) = json_integer L (ucast x)"
| "codec_value_data L (V_UINT8 x) = json_integer L (ucast x)"
| "codec_value_data L (V_UINT16 x) = json_integer L (ucast x)"
| "codec_value_data L (V_UINT32 x) = json_integer L (ucast x)"
| "codec_value_data L (V_UINT64 x) = json_integer L x"
| "codec_value_data L (V_PROC_RANK x) = json_integer L (ucast x)"
| "codec_value_data L (V_FLOAT x) = json_real L (double_of_float L x)"
| "codec_value_data L (V_DOUBLE x) = json_real L x"
| "codec_value_data L (V_TIMEVAL sec usec) =
     json_pack L [(''sec'', PkBigI sec), (''usec'', PkBigI usec)]"
| "codec_value_data L (V_TIME x) = json_integer L x"
| "codec_value_data L (V_STATUS x) = json_integer L (scast x)"
| "codec_value_data L (V_PROC p) = codec_proc_encode L p"
| "codec_value_data L _ = None"

definition codec_value_encode :: "'j lib \<Rightarrow> pmix_value_t \<Rightarrow> 'j option" where
  "codec_value_encode L v =
     (case codec_value_data L v of
        None \<Rightarrow> None
      | Some data \<Rightarrow> json_pack L [(''type'', PkI (ucast (value_type v))), (''data'', PkO data)])"

fun codec_value_release :: "pmix_value_t \<Rightarrow> block list" where
  "codec_value_release (V_PROC p) = [B_proc p]"
| "codec_value_release (V_STRING s) = (case s of None \<Rightarrow> [] | Some s \<Rightarrow> [B_string s])"
| "codec_value_release _ = []"

text \<open>
  The branch for \<^verbatim>\<open>PMIX_TIMEVAL\<close> calls \<^verbatim>\<open>json_unpack\<close> with the format \<^verbatim>\<open>{s:I s:I}\<close> but passes
  only the two destinations, no keys: the library reads \<^verbatim>\<open>&sec\<close> as a string and takes two more
  arguments that were never passed. The branch for \<^verbatim>\<open>PMIX_STRING\<close> passes the null pointer that
  \<^verbatim>\<open>json_string_value\<close> returns for a value that is not a string on to \<^verbatim>\<open>strdup\<close>.
\<close>

definition codec_value_decode_data ::
    "'j lib \<Rightarrow> u32 \<Rightarrow> 'j \<Rightarrow> pmix_value_t outcome \<times> block list" where
  "codec_value_decode_data L type data =
     (let int = json_integer_value L data in
      if type = ucast PMIX_BOOL then (Ok (V_BOOL (\<not> json_is_false L data)), [])
      else if type = ucast PMIX_BYTE then (Ok (V_BYTE (ucast int)), [])
      else if type = ucast PMIX_STRING then
        (case json_string_value L data of
           None \<Rightarrow> (Undef, [])
         | Some buf \<Rightarrow>
             let s = c_string buf in
             if malloc_ok L (length s + 1) then (Ok (V_STRING (Some s)), [B_string s]) else (Fail, []))
      else if type = ucast PMIX_SIZE then (Ok (V_SIZE int), [])
      else if type = ucast PMIX_PID then (Ok (V_PID (ucast int)), [])
      else if type = ucast PMIX_INT then (Ok (V_INT (ucast int)), [])
      else if type = ucast PMIX_INT8 then (Ok (V_INT8 (ucast int)), [])
      else if type = ucast PMIX_INT16 then (Ok (V_INT16 (ucast int)), [])
      else if type = ucast PMIX_INT32 then (Ok (V_INT32 (ucast int)), [])
      else if type = ucast PMIX_INT64 then (Ok (V_INT64 int), [])
      else if type = ucast PMIX_UINT then (Ok (V_UINT (ucast int)), [])
      else if type = ucast PMIX_UINT8 then (Ok (V_UINT8 (ucast int)), [])
      else if type = ucast PMIX_UINT16 then (Ok (V_UINT16 (ucast int)), [])
      else if type = ucast PMIX_UINT32 then (Ok (V_UINT32 (ucast int)), [])
      else if type = ucast PMIX_UINT64 then (Ok (V_UINT64 int), [])
      else if type = ucast PMIX_PROC_RANK then (Ok (V_PROC_RANK (ucast int)), [])
      else if type = ucast PMIX_FLOAT then
        (Ok (V_FLOAT (float_of_double L (json_real_value L data))), [])
      else if type = ucast PMIX_DOUBLE then (Ok (V_DOUBLE (json_real_value L data)), [])
      else if type = ucast PMIX_TIMEVAL then (Undef, [])
      else if type = ucast PMIX_TIME then (Ok (V_TIME int), [])
      else if type = ucast PMIX_STATUS then (Ok (V_STATUS (ucast int)), [])
      else if type = ucast PMIX_PROC then
        (if \<not> malloc_ok L sizeof_proc then (Fail, [])
         else case codec_proc_decode L data of
                None \<Rightarrow> (Fail, [])
              | Some p \<Rightarrow> (Ok (V_PROC p), [B_proc p]))
      else (Fail, []))"

definition codec_value_decode :: "'j lib \<Rightarrow> 'j \<Rightarrow> pmix_value_t outcome \<times> block list" where
  "codec_value_decode L j =
     (case json_unpack L j [(''type'', UpI), (''data'', UpO)] of
        Some [UvI type, UvO data] \<Rightarrow> codec_value_decode_data L type data
      | _ \<Rightarrow> (Fail, []))"

subsection \<open>Info structures\<close>

definition codec_info_encode :: "'j lib \<Rightarrow> pmix_info_t \<Rightarrow> 'j option" where
  "codec_info_encode L info =
     (case codec_value_encode L (ivalue info) of
        None \<Rightarrow> None
      | Some v \<Rightarrow> json_pack L [(''key'', PkS (ikey info)), (''flags'', PkI (iflags info)),
                              (''value'', PkO v)])"

definition codec_info_release :: "pmix_info_t \<Rightarrow> block list" where
  "codec_info_release info = codec_value_release (ivalue info)"

definition codec_info_decode :: "'j lib \<Rightarrow> 'j \<Rightarrow> pmix_info_t outcome \<times> block list" where
  "codec_info_decode L j =
     (case json_unpack L j [(''key'', UpS), (''flags'', UpI), (''value'', UpO)] of
        Some [UvS key, UvI flags, UvO xvalue] \<Rightarrow>
          (case codec_value_decode L xvalue of
             (Ok v, live) \<Rightarrow> (Ok (Info (strlcpy_field key (PMIX_MAX_KEYLEN + 1)) flags v), live)
           | (Fail, live) \<Rightarrow> (Fail, live)
           | (Undef, live) \<Rightarrow> (Undef, live))
      | _ \<Rightarrow> (Fail, []))"

definition codec_info_array_encode :: "'j lib \<Rightarrow> pmix_info_t list \<Rightarrow> 'j option" where
  "codec_info_array_encode L info =
     (case json_array L of
        None \<Rightarrow> None
      | Some a \<Rightarrow> array_encode_loop L (codec_info_encode L) a info)"

text \<open>
  The decoding loop. When an element fails only the array itself is freed, so the blocks of the
  elements decoded before it stay allocated.
\<close>

primrec info_array_decode_loop ::
    "'j lib \<Rightarrow> 'j list \<Rightarrow> pmix_info_t list \<Rightarrow> block list \<Rightarrow> pmix_info_t list outcome \<times> block list"
where
  "info_array_decode_loop L [] done live = (Ok done, live @ [B_infos done])"
| "info_array_decode_loop L (v # vs) done live =
     (case codec_info_decode L v of
        (Ok info, l) \<Rightarrow> info_array_decode_loop L vs (done @ [info]) (live @ l)
      | (Fail, l) \<Rightarrow> (Fail, live @ l)
      | (Undef, l) \<Rightarrow> (Undef, live @ l))"

definition codec_info_array_decode ::
    "'j lib \<Rightarrow> 'j \<Rightarrow> pmix_info_t list outcome \<times> block list" where
  "codec_info_array_decode L j =
     (let ninfo = length (json_array_elems L j) in
      if \<not> json_is_array L j \<or> \<not> malloc_ok L (ninfo * sizeof_info) then (Fail, [])
      else info_array_decode_loop L (json_array_elems L j) [] [])"

text \<open>The argument is the array pointer, which may be null.\<close>

definition codec_info_array_destroy :: "pmix_info_t list option \<Rightarrow> block list" where
  "codec_info_array_destroy info =
     (case info of
        None \<Rightarrow> []
      | Some is \<Rightarrow> concat (map codec_info_release is) @ [B_infos is])"

subsection \<open>Facts that hold for every implementation of the library\<close>

text \<open>What a value must satisfy to survive the trip: text without NUL, names that fit.\<close>

fun value_ok :: "'j lib \<Rightarrow> pmix_value_t \<Rightarrow> bool" where
  "value_ok L (V_STRING s) \<longleftrightarrow>
     (case s of None \<Rightarrow> False | Some s \<Rightarrow> nul_free s \<and> malloc_ok L (length s + 1))"
| "value_ok L (V_PROC p) \<longleftrightarrow> proc_ok p \<and> malloc_ok L sizeof_proc"
| "value_ok L (V_FLOAT x) \<longleftrightarrow> float_of_double L (double_of_float L x) = x"
| "value_ok L (V_TIMEVAL _ _) \<longleftrightarrow> False"
| "value_ok L v \<longleftrightarrow> True"

definition info_ok :: "'j lib \<Rightarrow> pmix_info_t \<Rightarrow> bool" where
  "info_ok L i \<longleftrightarrow> key_ok (ikey i) \<and> value_ok L (ivalue i)"

lemma info_array_decode_loop_Fail:
  assumes "list_all2 (\<lambda>i e. codec_info_decode L e = (Ok i, codec_info_release i)) is es"
    and "codec_info_decode L e = (Fail, [])"
  shows "info_array_decode_loop L (es @ e # rest) done live =
    (Fail, live @ concat (map codec_info_release is))"
  using assms(1) assms(2)
  by (induction "is" es arbitrary: "done" live rule: list_all2_induct) auto

context jansson
begin

lemma pointer_roundtrip:
  "codec_pointer_encode L p = Some j \<Longrightarrow> codec_pointer_decode L j = Some p"
  using integer [of p j] by (simp add: codec_pointer_encode_def codec_pointer_decode_def)

lemma proc_roundtrip:
  "codec_proc_encode L p = Some j \<Longrightarrow> proc_ok p \<Longrightarrow> codec_proc_decode L j = Some p"
  using unpack_SI [of "''nspace''" "nspace p" "''rank''" "rank p" j]
  by (simp add: codec_proc_encode_def codec_proc_decode_def proc_ok_def)

lemma value_data_roundtrip:
  assumes "codec_value_data L v = Some data" and "value_ok L v"
  shows "codec_value_decode_data L (ucast (value_type v)) data = (Ok v, codec_value_release v)"
proof (cases v)
  case (V_STRING s)
  with assms string_value show ?thesis
    by (auto simp: codec_value_decode_data_def pmix_type_codes split: option.splits)
next
  case (V_PROC p)
  with assms proc_roundtrip show ?thesis
    by (auto simp: codec_value_decode_data_def pmix_type_codes)
next
  case (V_BOOL b)
  with assms is_false_false is_false_true show ?thesis
    by (auto simp: codec_value_decode_data_def pmix_type_codes split: if_splits)
next
  case (V_FLOAT x)
  with assms real [of "double_of_float L x" data] show ?thesis
    by (simp add: codec_value_decode_data_def pmix_type_codes)
next
  case (V_DOUBLE x)
  with assms real [of x data] show ?thesis
    by (simp add: codec_value_decode_data_def pmix_type_codes)
qed (use assms in \<open>auto simp: codec_value_decode_data_def pmix_type_codes truncate_zero_extend
       truncate_sign_extend dest!: integer\<close>)

lemma value_unpack:
  assumes "codec_value_encode L v = Some j"
  obtains data where "codec_value_data L v = Some data"
    and "json_unpack L j [(''type'', UpI), (''data'', UpO)] = Some [UvI (ucast (value_type v)), UvO data]"
  using assms by (auto simp: codec_value_encode_def intro: unpack_IO split: option.splits)

lemma value_roundtrip:
  assumes "codec_value_encode L v = Some j" and "value_ok L v"
  shows "codec_value_decode L j = (Ok v, codec_value_release v)"
proof -
  from assms(1) obtain data where "codec_value_data L v = Some data"
    and "json_unpack L j [(''type'', UpI), (''data'', UpO)] = Some [UvI (ucast (value_type v)), UvO data]"
    by (rule value_unpack)
  with assms(2) show ?thesis by (simp add: codec_value_decode_def value_data_roundtrip)
qed

lemma info_roundtrip:
  assumes "codec_info_encode L i = Some j" and "info_ok L i"
  shows "codec_info_decode L j = (Ok i, codec_info_release i)"
proof -
  from assms(1) obtain v where v: "codec_value_encode L (ivalue i) = Some v"
    and j: "json_pack L [(''key'', PkS (ikey i)), (''flags'', PkI (iflags i)), (''value'', PkO v)]
            = Some j"
    by (auto simp: codec_info_encode_def split: option.splits)
  from j have "json_unpack L j [(''key'', UpS), (''flags'', UpI), (''value'', UpO)]
      = Some [UvS (ikey i), UvI (iflags i), UvO v]"
    by (rule unpack_SIO) simp
  then show ?thesis using value_roundtrip [OF v] assms(2)
    by (cases i) (simp add: codec_info_decode_def info_ok_def key_ok_def codec_info_release_def)
qed

lemma array_encode_loop_elems:
  "array_encode_loop L enc a xs = Some b \<Longrightarrow> json_is_array L a \<Longrightarrow>
   json_is_array L b \<and> (\<exists>es. json_array_elems L b = json_array_elems L a @ es
     \<and> list_all2 (\<lambda>x e. enc x = Some e) xs es)"
proof (induction xs arbitrary: a)
  case (Cons x xs)
  from Cons.prems obtain e a' where e: "enc x = Some e"
    and a': "json_array_append L a e = Some a'" and loop: "array_encode_loop L enc a' xs = Some b"
    by (auto split: option.splits)
  from append [OF Cons.prems(2) a'] Cons.IH [OF loop] obtain es where
    "json_is_array L b" "json_array_elems L b = json_array_elems L a @ e # es"
    "list_all2 (\<lambda>x e. enc x = Some e) xs es"
    by auto
  with e show ?case by (intro conjI exI [of _ "e # es"]) auto
qed auto

lemma array_encode_elems:
  assumes "json_array L = Some a" and "array_encode_loop L enc a xs = Some b"
  shows "json_is_array L b" and "list_all2 (\<lambda>x e. enc x = Some e) xs (json_array_elems L b)"
  using array [OF assms(1)] array_encode_loop_elems [OF assms(2)] by auto

lemma proc_array_roundtrip:
  assumes "codec_proc_array_encode L ps = Some j" and "list_all proc_ok ps"
    and "malloc_ok L (length ps * sizeof_proc)"
  shows "codec_proc_array_decode L j = Ok ps"
proof -
  from assms(1) obtain a where "json_array L = Some a"
    and "array_encode_loop L (codec_proc_encode L) a ps = Some j"
    by (auto simp: codec_proc_array_encode_def split: option.splits)
  note elems = array_encode_elems [OF this]
  have "list_all2 (\<lambda>e p. of_option (codec_proc_decode L e) = Ok p) (json_array_elems L j) ps"
    using elems(2) assms(2)
    by (auto simp: list_all2_conv_all_nth list_all_length proc_roundtrip)
  then show ?thesis using elems(1) assms(3) list_all2_lengthD [OF elems(2)]
    by (simp add: codec_proc_array_decode_def traverse_Ok_iff)
qed

lemma info_array_decode_loop_Ok:
  assumes "list_all2 (\<lambda>i e. codec_info_decode L e = (Ok i, codec_info_release i)) is es"
  shows "info_array_decode_loop L es done live =
    (Ok (done @ is), live @ concat (map codec_info_release is) @ [B_infos (done @ is)])"
  using assms by (induction "is" es arbitrary: "done" live rule: list_all2_induct) auto

lemma info_array_roundtrip:
  assumes "codec_info_array_encode L is = Some j" and "list_all (info_ok L) is"
    and "malloc_ok L (length is * sizeof_info)"
  shows "codec_info_array_decode L j = (Ok is, codec_info_array_destroy (Some is))"
proof -
  from assms(1) obtain a where "json_array L = Some a"
    and "array_encode_loop L (codec_info_encode L) a is = Some j"
    by (auto simp: codec_info_array_encode_def split: option.splits)
  note elems = array_encode_elems [OF this]
  have "list_all2 (\<lambda>i e. codec_info_decode L e = (Ok i, codec_info_release i)) is (json_array_elems L j)"
    using elems(2) assms(2) by (auto simp: list_all2_conv_all_nth list_all_length info_roundtrip)
  from info_array_decode_loop_Ok [OF this] show ?thesis
    using elems(1) assms(3) list_all2_lengthD [OF elems(2)]
    by (simp add: codec_info_array_decode_def codec_info_array_destroy_def)
qed

text \<open>What can be said of any JSON that decodes.\<close>

lemma unpack_S_nul_free: "json_unpack L j ((k, UpS) # fs) = Some (UvS s # vs) \<Longrightarrow> nul_free s"
  using unpack_format [of j "(k, UpS) # fs"] by simp

lemma proc_decode_ok: "codec_proc_decode L j = Some p \<Longrightarrow> proc_ok p"
  by (auto simp: codec_proc_decode_def proc_ok_def strlcpy_field_eq dest!: unpack_S_nul_free
      split: option.splits list.splits unpacked.splits)

lemma value_decode_data_sound:
  "codec_value_decode_data L t data = (Ok v, live) \<Longrightarrow>
   live = codec_value_release v \<and> (\<forall>p. v = V_PROC p \<longrightarrow> proc_ok p)"
  unfolding codec_value_decode_data_def Let_def
  by (auto simp only: prod.inject outcome.inject outcome.distinct codec_value_release.simps
      pmix_value_t.inject pmix_value_t.distinct option.case proc_decode_ok
      split: if_split_asm option.split_asm)

lemma value_decode_sound:
  "codec_value_decode L j = (Ok v, live) \<Longrightarrow>
   live = codec_value_release v \<and> (\<forall>p. v = V_PROC p \<longrightarrow> proc_ok p)"
  by (simp add: codec_value_decode_def value_decode_data_sound
      split: option.splits list.splits unpacked.splits)

lemma info_decode_sound:
  "codec_info_decode L j = (Ok i, live) \<Longrightarrow>
   live = codec_info_release i \<and> key_ok (ikey i) \<and> (\<forall>p. ivalue i = V_PROC p \<longrightarrow> proc_ok p)"
  by (auto simp: codec_info_decode_def codec_info_release_def key_ok_def strlcpy_field_eq
      dest!: unpack_S_nul_free value_decode_sound
      split: option.splits list.splits unpacked.splits outcome.splits prod.splits)

lemma info_array_decode_loop_sound:
  "info_array_decode_loop L es done live = (Ok is, live') \<Longrightarrow>
   \<exists>new. is = done @ new \<and> length new = length es
     \<and> (\<forall>i \<in> set new. key_ok (ikey i) \<and> (\<forall>p. ivalue i = V_PROC p \<longrightarrow> proc_ok p))
     \<and> live' = live @ concat (map codec_info_release new) @ [B_infos is]"
proof (induction es arbitrary: "done" live)
  case (Cons e es)
  from Cons.prems obtain i l where i: "codec_info_decode L e = (Ok i, l)"
    and loop: "info_array_decode_loop L es (done @ [i]) (live @ l) = (Ok is, live')"
    by (auto split: prod.splits outcome.splits)
  from Cons.IH [OF loop] info_decode_sound [OF i] show ?case
    by (auto intro: exI [of _ "i # _"])
qed auto

lemma info_array_decode_sound:
  assumes "codec_info_array_decode L j = (Ok is, live)"
  shows "length is = length (json_array_elems L j)
    \<and> (\<forall>i \<in> set is. key_ok (ikey i) \<and> (\<forall>p. ivalue i = V_PROC p \<longrightarrow> proc_ok p))
    \<and> live = codec_info_array_destroy (Some is)"
  using assms info_array_decode_loop_sound [of "json_array_elems L j" "[]" "[]"]
  by (fastforce simp: codec_info_array_decode_def codec_info_array_destroy_def split: if_splits)

lemma timeval_decode:
  assumes "codec_value_encode L (V_TIMEVAL sec usec) = Some j"
  shows "codec_value_decode L j = (Undef, [])"
  using assms
  by (rule value_unpack) (simp add: codec_value_decode_def codec_value_decode_data_def pmix_type_codes)

text \<open>Raw data: the text that \<open>codec_data_encode\<close> stores, and what decoding it yields.\<close>

lemma data_encode_string:
  assumes "codec_data_encode L d = Some j" and "length d \<le> 1610612733"
  shows "json_string_value L j = Some (base64_text d)"
proof -
  have len: "length (base64_text d) = (length d + 2) div 3 * 4"
    by (rule rfc4648.length_text_of)
  have "c_string (base64_text d @ replicate k NUL) = base64_text d" for k
    using rfc4648.nul_free_text_of [of d]
    by (cases k) (auto simp: c_string_def nul_free_def takeWhile_append)
  moreover have "base64_encoded_length (length d) + 1 < 2 ^ 31"
    using assms(2) by (simp add: base64_encoded_length_eq)
  ultimately show ?thesis
    using assms string
    by (auto simp: codec_data_encode_def base64_encode_text Let_def simp del: of_nat_add of_nat_Suc
        split: if_splits)
qed

lemma data_decode_string:
  assumes "json_string_value L j = Some (base64_text d)" and "length d \<le> 1610612733"
  shows "codec_data_decode_bufsize L j = int (base64_decoded_length (length (base64_text d)))"
    and "base64_decoded_length (length (base64_text d)) \<le> length buf \<Longrightarrow>
      codec_data_decode_tobuf L j buf (length buf) = Ok (d @ replicate (length buf - length d) 0, length d)"
proof -
  have len: "length (base64_text d) < 2 ^ 31"
    using assms(2) by (simp add: rfc4648.length_text_of)
  have slen: "json_string_length L j = length (base64_text d)"
    using assms(1) by (simp add: json_string_length_def)
  have "base64_decoded_length (length (base64_text d)) < 2 ^ 63"
    using len by (simp add: base64_decoded_length_eq)
  then have "sint (of_nat (base64_decoded_length (length (base64_text d))) :: u64)
      = int (base64_decoded_length (length (base64_text d)))"
    by (intro sint_of_nat_small) simp
  then show "codec_data_decode_bufsize L j = int (base64_decoded_length (length (base64_text d)))"
    using len slen assms(1) is_string [of j] by (simp add: codec_data_decode_bufsize_def)
  show "codec_data_decode_tobuf L j buf (length buf) = Ok (d @ replicate (length buf - length d) 0, length d)"
    if "base64_decoded_length (length (base64_text d)) \<le> length buf"
    using base64_decode_text [OF _ that, of "[NUL]"] len slen assms is_string [of j]
    by (simp add: codec_data_decode_tobuf_def)
qed

lemma data_roundtrip:
  assumes "codec_data_encode L d = Some j" and "length d \<le> 1610612733"
    and "malloc_ok L (base64_decoded_length (base64_encoded_length (length d)))"
  shows "\<exists>buf. codec_data_decode L j = Ok (buf, length d) \<and> take (length d) buf = d
           \<and> codec_data_length L j = Ok (int (length d))"
proof -
  have len: "length (base64_text d) = base64_encoded_length (length d)"
    using assms(2) by (simp add: length_base64_text)
  note decode = data_decode_string [OF data_encode_string [OF assms(1,2)] assms(2)]
  show ?thesis using decode(1) decode(2) [of "unwritten (base64_decoded_length (length (base64_text d)))"] assms(3)
    by (simp add: codec_data_decode_def codec_data_length_def len)
qed

end

context jansson_mem
begin

lemma data_encode_ok:
  assumes "length d \<le> 1610612733"
  shows "codec_data_encode L d \<noteq> None"
proof -
  have "base64_encoded_length (length d) + 1 < 2 ^ 31"
    using assms by (simp add: base64_encoded_length_eq)
  then show ?thesis
    using assms malloc_ok [of "base64_encoded_length (length d) + 1"] string_nocheck_ok
    by (simp add: codec_data_encode_def base64_encode_text del: of_nat_add of_nat_Suc)
qed

lemma value_encode_None_iff: "codec_value_encode L v = None \<longleftrightarrow> codec_value_data L v = None"
  using pack_ok [of "[(''type'', PkI _), (''data'', PkO _)]"]
  by (auto simp: codec_value_encode_def split: option.splits)

lemma timeval_ok: "json_pack L [(''sec'', PkBigI s), (''usec'', PkBigI u)] \<noteq> None"
  by (rule pack_ok) auto

lemma proc_encode_ok: "utf8 (nspace p) \<Longrightarrow> codec_proc_encode L p \<noteq> None"
  unfolding codec_proc_encode_def by (rule pack_ok) auto

lemma array_encode_loop_ok:
  "json_is_array L a \<Longrightarrow> (\<And>x. x \<in> set xs \<Longrightarrow> enc x \<noteq> None) \<Longrightarrow> array_encode_loop L enc a xs \<noteq> None"
proof (induction xs arbitrary: a)
  case (Cons x xs)
  obtain e b where "enc x = Some e" "json_array_append L a e = Some b"
    using Cons.prems append_ok [of a] by fastforce
  with Cons append [of a e b] show ?case by auto
qed simp

lemma array_encode_ok:
  assumes "\<And>x. x \<in> set xs \<Longrightarrow> enc x \<noteq> None"
  shows "\<exists>a b. json_array L = Some a \<and> array_encode_loop L enc a xs = Some b"
proof -
  obtain a where "json_array L = Some a" using array_ok by blast
  with array_encode_loop_ok [of a xs enc] array [of a] assms show ?thesis by auto
qed

lemma proc_array_encode_ok:
  assumes "\<And>p. p \<in> set ps \<Longrightarrow> utf8 (nspace p)"
  shows "codec_proc_array_encode L ps \<noteq> None"
  using array_encode_ok [of ps "codec_proc_encode L"] assms proc_encode_ok
  by (auto simp: codec_proc_array_encode_def)

end

subsection \<open>Properties\<close>

text \<open>
  C17. Info arrays whose values have any of the types both sides support (\<open>info_ok\<close>: not PMIX_TIMEVAL,
  which the encoder emits and the decoder mishandles, see \<open>codec_timeval_decode_undefined\<close>) survive the
  trip through JSON: decoding what \<^verbatim>\<open>codec_info_array_encode\<close> built returns the same array, key, flags and
  value of every element, and the only blocks still allocated are those that \<^verbatim>\<open>codec_info_array_destroy\<close>
  will free.
\<close>

theorem codec_info_array_roundtrip:
  assumes "jansson L"
    and "codec_info_array_encode L is = Some j"
    and "list_all (info_ok L) is"
    and "malloc_ok L (length is * sizeof_info)"
  shows "codec_info_array_decode L j = (Ok is, codec_info_array_destroy (Some is))"
  using assms by (rule jansson.info_array_roundtrip)

theorem codec_info_array_roundtrip_witness:
  "let is = [Info ''pmix.collect'' 1 (V_BOOL True), Info ''pmix.evtext'' 0 (V_STRING (Some ''boo'')),
             Info ''x'' 0 (V_INT8 0xfe)];
       j = the (codec_info_array_encode json_lib is)
   in codec_info_array_decode json_lib j = (Ok is, codec_info_array_destroy (Some is))"
  unfolding Let_def
  by (rule codec_info_array_roundtrip [OF jlib.jansson_axioms]; code_simp)

text \<open>
  Process arrays survive the trip through JSON, ranks beyond the range of a signed integer (the
  wildcard rank) included.
\<close>

theorem codec_proc_array_roundtrip:
  assumes "jansson L"
    and "codec_proc_array_encode L ps = Some j"
    and "list_all proc_ok ps"
    and "malloc_ok L (length ps * sizeof_proc)"
  shows "codec_proc_array_decode L j = Ok ps"
  using assms by (rule jansson.proc_array_roundtrip)

theorem codec_proc_array_roundtrip_witness:
  "let ps = [\<lparr>nspace = ''f23'', rank = PMIX_RANK_WILDCARD\<rparr>];
       j = the (codec_proc_array_encode json_lib ps)
   in codec_proc_array_decode json_lib j = Ok ps"
  unfolding Let_def
  by (rule codec_proc_array_roundtrip [OF jlib.jansson_axioms]; code_simp)

text \<open>
  C18. Raw data survives the trip: up to the largest size whose base64 text fits an \<^verbatim>\<open>int\<close>, the
  JSON string decodes to the same bytes and the length reported is their number.
\<close>

theorem codec_data_roundtrip:
  assumes "jansson L"
    and "codec_data_encode L d = Some j"
    and "length d \<le> 1610612733"
    and "malloc_ok L (base64_decoded_length (base64_encoded_length (length d)))"
  shows "\<exists>buf. codec_data_decode L j = Ok (buf, length d) \<and> take (length d) buf = d
           \<and> codec_data_length L j = Ok (int (length d))"
  using assms by (rule jansson.data_roundtrip)

theorem codec_data_roundtrip_witness:
  "let j = the (codec_data_encode json_lib [0, 255, 7, 9]) in
   \<exists>buf. codec_data_decode json_lib j = Ok (buf, length [0, 255, 7, 9::byte])
     \<and> take (length [0, 255, 7, 9::byte]) buf = [0, 255, 7, 9]
     \<and> codec_data_length json_lib j = Ok (int (length [0, 255, 7, 9::byte]))"
proof -
  have "codec_data_encode json_lib [0, 255, 7, 9] \<noteq> None"
    by (rule jlib.data_encode_ok) simp
  then show ?thesis unfolding Let_def
    by (intro codec_data_roundtrip [OF jlib.jansson_axioms]) (auto simp: json_lib_def)
qed

text \<open>
  C19. Whatever JSON arrives: if the info array decodes, every key and every process name fits the
  character array it was copied into, and the blocks allocated for the result are exactly those
  that \<^verbatim>\<open>codec_info_array_destroy\<close> frees, each once.
\<close>

theorem codec_info_array_decode_sound:
  assumes "jansson L"
    and "codec_info_array_decode L j = (Ok is, live)"
  shows "length is = length (json_array_elems L j)
    \<and> (\<forall>i \<in> set is. key_ok (ikey i) \<and> (\<forall>p. ivalue i = V_PROC p \<longrightarrow> proc_ok p))
    \<and> live = codec_info_array_destroy (Some is)"
  using assms by (rule jansson.info_array_decode_sound)

theorem codec_info_array_decode_sound_witness:
  "let j = JArr [JObj [(''key'', JStr ''who''), (''flags'', JInt 0),
             (''value'', JObj [(''type'', JInt 22),
                (''data'', JObj [(''nspace'', JStr ''f1''), (''rank'', JInt 7)])])]];
       is = [Info ''who'' 0 (V_PROC \<lparr>nspace = ''f1'', rank = 7\<rparr>)];
       live = [B_proc \<lparr>nspace = ''f1'', rank = 7\<rparr>, B_infos is]
   in codec_info_array_decode json_lib j = (Ok is, live)
      \<and> length is = length (json_array_elems json_lib j)
      \<and> (\<forall>i \<in> set is. key_ok (ikey i) \<and> (\<forall>p. ivalue i = V_PROC p \<longrightarrow> proc_ok p))
      \<and> live = codec_info_array_destroy (Some is)"
proof -
  let ?j = "JArr [JObj [(''key'', JStr ''who''), (''flags'', JInt 0),
             (''value'', JObj [(''type'', JInt 22),
                (''data'', JObj [(''nspace'', JStr ''f1''), (''rank'', JInt 7)])])]]"
  let ?is = "[Info ''who'' 0 (V_PROC \<lparr>nspace = ''f1'', rank = 7\<rparr>)]"
  let ?live = "[B_proc \<lparr>nspace = ''f1'', rank = 7\<rparr>, B_infos ?is]"
  have d: "codec_info_array_decode json_lib ?j = (Ok ?is, ?live)" by code_simp
  show ?thesis unfolding Let_def
    using conjI [OF d codec_info_array_decode_sound [OF jlib.jansson_axioms d]] .
qed

text \<open>
  When an element of an info array does not decode, the call fails with the strings and
  process names of all elements before it still allocated and unreachable: only the array itself is
  freed.
\<close>

theorem codec_info_array_decode_leaks:
  assumes "json_is_array L j" and "malloc_ok L (length (json_array_elems L j) * sizeof_info)"
    and "json_array_elems L j = es @ e # rest"
    and "list_all2 (\<lambda>i e. codec_info_decode L e = (Ok i, codec_info_release i)) is es"
    and "codec_info_decode L e = (Fail, [])"
  shows "codec_info_array_decode L j = (Fail, concat (map codec_info_release is))"
  using assms by (simp add: codec_info_array_decode_def info_array_decode_loop_Fail)

theorem codec_info_array_decode_leaks_witness:
  "let info = JObj [(''key'', JStr ''k''), (''flags'', JInt 0),
                    (''value'', JObj [(''type'', JInt 3), (''data'', JStr ''text'')])]
   in codec_info_array_decode json_lib (JArr [info, JTrue]) = (Fail, [B_string ''text''])"
  unfolding Let_def
  by (subst codec_info_array_decode_leaks [where e = JTrue and rest = "[]"
          and es = "[JObj [(''key'', JStr ''k''), (''flags'', JInt 0),
                    (''value'', JObj [(''type'', JInt 3), (''data'', JStr ''text'')])]]"
          and ?is = "[Info ''k'' 0 (V_STRING (Some ''text''))]"]; code_simp)

text \<open>
  A \<^verbatim>\<open>PMIX_TIMEVAL\<close> value encodes, but decoding what the encoder produced is undefined
  behaviour: the unpack call passes no keys for its format.
\<close>

theorem codec_timeval_decode_undefined:
  assumes "jansson L" and "codec_value_encode L (V_TIMEVAL sec usec) = Some j"
  shows "codec_value_decode L j = (Undef, [])"
  using assms by (rule jansson.timeval_decode)

theorem codec_timeval_decode_undefined_witness:
  "let j = the (codec_value_encode json_lib (V_TIMEVAL 1 2))
   in codec_value_encode json_lib (V_TIMEVAL 1 2) = Some j \<and> codec_value_decode json_lib j = (Undef, [])"
proof -
  let ?j = "the (codec_value_encode json_lib (V_TIMEVAL 1 2))"
  have e: "codec_value_encode json_lib (V_TIMEVAL 1 2) = Some ?j" by code_simp
  show ?thesis unfolding Let_def
    by (intro conjI e codec_timeval_decode_undefined [OF jlib.jansson_axioms e])
qed

text \<open>
  With memory available, \<^verbatim>\<open>codec_value_encode\<close> succeeds exactly on the types of its switch: on
  text that is not null and is valid UTF-8, on floating-point numbers the JSON library accepts, and
  on every value of the other listed types; a byte object, a data array or a value of an unlisted
  type yields a null pointer.
\<close>

theorem codec_value_encode_total:
  assumes "jansson_mem L utf8"
  shows "codec_value_encode L v = None \<longleftrightarrow>
    (case v of
       V_STRING s \<Rightarrow> s = None \<or> json_string L (the s) = None
     | V_FLOAT x \<Rightarrow> json_real L (double_of_float L x) = None
     | V_DOUBLE x \<Rightarrow> json_real L x = None
     | V_PROC p \<Rightarrow> codec_proc_encode L p = None
     | V_BYTE_OBJECT b \<Rightarrow> True | V_DATA_ARRAY a \<Rightarrow> True | V_OTHER t \<Rightarrow> True
     | _ \<Rightarrow> False)"
  using jansson_mem.value_encode_None_iff [OF assms, of v] jansson_mem.integer_ok [OF assms]
    jansson_mem.timeval_ok [OF assms]
  by (cases v) (auto split: option.splits)

theorem codec_value_encode_total_witness:
  "codec_value_encode json_lib (V_DATA_ARRAY None) = None \<and> codec_value_encode json_lib (V_INT 3) \<noteq> None"
  using codec_value_encode_total [OF jlib.jansson_mem_axioms, of "V_DATA_ARRAY None"]
    codec_value_encode_total [OF jlib.jansson_mem_axioms, of "V_INT 3"]
  by simp

end
