(* ===== verification/Exchange.thy ===== *)
theory Exchange
  imports Kary Codec
begin

text \<open>
  \<^verbatim>\<open>src/shell/plugins/exchange.c\<close>: one shell's side of the collective that gathers data up a tree of
  shells and distributes the result. The types are parameterised by the JSON values \<open>'j\<close>, the
  request messages \<open>'m\<close> of the children (flux messages, opaque here) and the callback argument \<open>'c\<close>;
  a null callback is \<open>None\<close>.

  A handler returns the new state and the calls it makes, in order: requests and responses sent,
  the exit callback with the session it can inspect, log messages, the pending requests that are
  destroyed without an answer, and the futures destroyed, whose continuations will not run. What the flux calls return is the record \<open>xenv\<close>. Calling the null
  callback or dereferencing a null session is the outcome \<open>Undef\<close>.
\<close>

record ('j, 'm, 'c) session =
  data_in :: 'j
  data_out :: "'j option"
  exit_cb :: "'c option"
  requests :: "'m list"
  fut :: bool
  local :: bool
  has_error :: bool

record ('j, 'm, 'c) exchange =
  xsize :: int
  xrank :: int
  parent_rank :: u32
  xchild_count :: nat
  xsession :: "('j, 'm, 'c) session option"

record 'm xenv =
  alloc_ok :: bool
  rpc_ok :: bool
  then_ok :: bool
  respond_ok :: "'m \<Rightarrow> bool"
  msglist_append_ok :: bool
  future_is_ready :: bool

datatype ('j, 'm, 'c) effect =
    SendRequest u32 'j
  | Respond 'm 'j
  | RespondError 'm errno "string option"
  | ExitCb 'c "('j, 'm, 'c) session"
  | Dropped 'm
  | FutureDestroyed
  | Warn string

type_synonym ('j, 'm, 'c) step_result =
  "(('j, 'm, 'c) exchange \<times> ('j, 'm, 'c) effect list) outcome"

subsection \<open>Sessions\<close>

text \<open>Destroying a session destroys its pending requests and its future, if it has one.\<close>

definition session_destroy :: "('j, 'm, 'c) session option \<Rightarrow> ('j, 'm, 'c) effect list" where
  "session_destroy ses = (case ses of
        None \<Rightarrow> []
      | Some s \<Rightarrow> map Dropped (requests s) @ (if fut s then [FutureDestroyed] else []))"

definition session_create :: "'j lib \<Rightarrow> 'm xenv \<Rightarrow> ('j, 'm, 'c) session option" where
  "session_create L E =
     (if \<not> alloc_ok E then None
      else case json_array L of
             None \<Rightarrow> None
           | Some a \<Rightarrow> Some \<lparr>data_in = a, data_out = None, exit_cb = None, requests = [],
                              fut = False, local = False, has_error = False\<rparr>)"

text \<open>The part after the label \<^verbatim>\<open>done\<close>: exit callback, then the session goes.\<close>

definition session_done ::
    "('j, 'm, 'c) exchange \<Rightarrow> ('j, 'm, 'c) session \<Rightarrow> ('j, 'm, 'c) effect list
     \<Rightarrow> ('j, 'm, 'c) step_result" where
  "session_done xcg ses es =
     (case exit_cb ses of
        None \<Rightarrow> Undef
      | Some cb \<Rightarrow>
          Ok (xcg\<lparr>xsession := None\<rparr>, es @ [ExitCb cb ses] @ session_destroy (Some ses)))"

text \<open>
  The loop that pops and answers the pending requests: the effects, the requests left in the list,
  and whether a response failed. A null \<^verbatim>\<open>data_out\<close> makes the packing fail.
\<close>

fun respond_loop ::
    "'m xenv \<Rightarrow> 'j option \<Rightarrow> 'm list \<Rightarrow> ('j, 'm, 'c) effect list \<times> 'm list \<times> bool" where
  "respond_loop E out [] = ([], [], False)"
| "respond_loop E out (msg # rest) =
     (case out of
        Some d \<Rightarrow>
          if respond_ok E msg then
            (let (es, left, err) = respond_loop E out rest in (Respond msg d # es, left, err))
          else ([Warn ''error responding to pmix-exchange request'', Dropped msg], rest, True)
      | None \<Rightarrow> ([Warn ''error responding to pmix-exchange request'', Dropped msg], rest, True))"

definition session_process ::
    "'m xenv \<Rightarrow> ('j, 'm, 'c) exchange \<Rightarrow> ('j, 'm, 'c) session \<Rightarrow> ('j, 'm, 'c) step_result" where
  "session_process E xcg ses =
     (if has_error ses then session_done xcg ses []
      else if \<not> local ses \<or> length (requests ses) < xchild_count xcg then
        Ok (xcg\<lparr>xsession := Some ses\<rparr>, [])
      else
        let send = 0 < xrank xcg \<and> \<not> fut ses;
            sent = (if send \<and> rpc_ok E then [SendRequest (parent_rank xcg) (data_in ses)] else [])
        in if send \<and> \<not> (rpc_ok E \<and> then_ok E) then
             session_done xcg (ses\<lparr>has_error := True\<rparr>)
               (sent @ (if rpc_ok E then [FutureDestroyed] else [])
                     @ [Warn ''error sending pmix-exchange request''])
           else
             let ses = ses\<lparr>fut := fut ses \<or> send\<rparr>
             in if fut ses \<and> \<not> future_is_ready E then Ok (xcg\<lparr>xsession := Some ses\<rparr>, sent)
                else
                  let ses = (if xrank xcg = 0 then ses\<lparr>data_out := Some (data_in ses)\<rparr> else ses);
                      (es, left, err) = respond_loop E (data_out ses) (requests ses)
                  in session_done xcg (ses\<lparr>requests := left, has_error := err\<rparr>) (sent @ es))"

subsection \<open>Message handlers and the entry point\<close>

text \<open>The parent answered (\<open>None\<close>: with an error); the future is ready when its continuation runs.\<close>

definition exchange_response_completion ::
    "'m xenv \<Rightarrow> 'j option \<Rightarrow> ('j, 'm, 'c) exchange \<Rightarrow> ('j, 'm, 'c) step_result" where
  "exchange_response_completion E reply xcg =
     (case xsession xcg of
        None \<Rightarrow> Undef
      | Some ses \<Rightarrow>
          let ready = E\<lparr>future_is_ready := True\<rparr> in
          (case reply of
             Some data \<Rightarrow> session_process ready xcg (ses\<lparr>data_out := Some data\<rparr>)
           | None \<Rightarrow>
               bind_outcome (session_process ready xcg (ses\<lparr>has_error := True\<rparr>))
                 (\<lambda>(xcg', es). Ok (xcg', Warn ''pmix-exchange request'' # es))))"

text \<open>A child sent a request; \<open>payload\<close> is what unpacking it yields.\<close>

definition exchange_request_cb ::
    "'j lib \<Rightarrow> 'm xenv \<Rightarrow> 'm \<Rightarrow> 'j option \<Rightarrow> ('j, 'm, 'c) exchange \<Rightarrow> ('j, 'm, 'c) step_result"
where
  "exchange_request_cb L E msg payload xcg =
     (case payload of
        None \<Rightarrow> Ok (xcg, [RespondError msg E_OTHER None])
      | Some data \<Rightarrow>
          (case (case xsession xcg of None \<Rightarrow> session_create L E | Some s \<Rightarrow> Some s) of
             None \<Rightarrow> Ok (xcg, [RespondError msg E_OTHER None])
           | Some ses \<Rightarrow>
               let xcg = xcg\<lparr>xsession := Some ses\<rparr> in
               if length (requests ses) = xchild_count xcg then
                 Ok (xcg, [RespondError msg EINPROGRESS
                             (Some ''exchange received too many child requests'')])
               else
                 (case json_array_extend L (data_in ses) data of
                    None \<Rightarrow>
                      Ok (xcg, [RespondError msg ENOMEM
                                 (Some ''exchange request failed to extend data_in array'')])
                  | Some data_in' \<Rightarrow>
                      let ses = ses\<lparr>data_in := data_in'\<rparr> in
                      if \<not> msglist_append_ok E then
                        Ok (xcg\<lparr>xsession := Some ses\<rparr>,
                            [RespondError msg E_OTHER
                               (Some ''exchange request failed to save pending request'')])
                      else
                        session_process E xcg (ses\<lparr>requests := requests ses @ [msg]\<rparr>))))"

text \<open>
  This shell enters the exchange. The first component of the result is the error (return value -1)
  if there is one. The callback and the exchange handle may be null pointers.
\<close>

definition exchange_enter_base64_string ::
    "'j lib \<Rightarrow> 'm xenv \<Rightarrow> 'j option \<Rightarrow> 'c option \<Rightarrow> ('j, 'm, 'c) exchange option
     \<Rightarrow> (errno option \<times> ('j, 'm, 'c) exchange option \<times> ('j, 'm, 'c) effect list) outcome"
where
  "exchange_enter_base64_string L E data cb xcgp =
     (case (xcgp, cb) of
        (Some xcg, Some c) \<Rightarrow>
          if data \<noteq> None \<and> \<not> json_is_string L (the data) then Ok (Some EINVAL, xcgp, [])
          else
            (case (case xsession xcg of None \<Rightarrow> session_create L E | Some s \<Rightarrow> Some s) of
               None \<Rightarrow> Ok (Some E_OTHER, xcgp, [])
             | Some ses \<Rightarrow>
                 if local ses then
                   Ok (Some EINPROGRESS, Some (xcg\<lparr>xsession := Some ses\<rparr>), [])
                 else
                   let ses = ses\<lparr>exit_cb := Some c, local := True\<rparr> in
                   (case (case data of None \<Rightarrow> Some (data_in ses)
                                     | Some d \<Rightarrow> json_array_append L (data_in ses) d) of
                      None \<Rightarrow> Ok (Some ENOMEM, Some (xcg\<lparr>xsession := Some ses\<rparr>), [])
                    | Some data_in' \<Rightarrow>
                        bind_outcome (session_process E xcg (ses\<lparr>data_in := data_in'\<rparr>))
                          (\<lambda>(xcg', es). Ok (None, Some xcg', es))))
      | _ \<Rightarrow> Ok (Some EINVAL, xcgp, []))"

subsection \<open>Creation, destruction, results\<close>

definition DEFAULT_TREE_K :: int where
  "DEFAULT_TREE_K = 2"

text \<open>
  \<open>info\<close> is the size and rank that unpacking the shell info yields, \<open>service_ok\<close> whether the
  service can be registered; the result is the handle and the log.
\<close>

definition exchange_create ::
    "bool \<Rightarrow> (int \<times> int) option \<Rightarrow> bool \<Rightarrow> int \<Rightarrow>
     ('j, 'm, 'c) exchange option \<times> ('j, 'm, 'c) effect list" where
  "exchange_create calloc_ok info service_ok k =
     (case (calloc_ok, info) of
        (True, Some (sz, rnk)) \<Rightarrow>
          let kk = (if k \<le> 0 then DEFAULT_TREE_K else if sz < k then sz else k);
              log = (if \<not> k \<le> 0 \<and> sz < k \<and> rnk = 0
                     then [Warn ''requested exchange fanout too large, using k''] else [])
          in if \<not> service_ok then (None, log)
             else (Some \<lparr>xsize = sz, xrank = rnk,
                        parent_rank = kary_parentof (of_int kk) (of_int rnk),
                        xchild_count = child_count (of_int kk) (of_int rnk) (of_int sz),
                        xsession = None\<rparr>, log)
      | _ \<Rightarrow> (None, []))"

definition exchange_destroy :: "('j, 'm, 'c) exchange option \<Rightarrow> ('j, 'm, 'c) effect list" where
  "exchange_destroy xcgp = (case xcgp of None \<Rightarrow> [] | Some xcg \<Rightarrow> session_destroy (xsession xcg))"

text \<open>The accessors are called from the exit callback, on the session that has completed.\<close>

definition exchange_has_error :: "('j, 'm, 'c) session \<Rightarrow> bool" where
  "exchange_has_error ses = has_error ses"

primrec get_data_bufsize :: "'j lib \<Rightarrow> nat \<Rightarrow> 'j list \<Rightarrow> nat option" where
  "get_data_bufsize L bufsize [] = Some bufsize"
| "get_data_bufsize L bufsize (v # vs) =
     (let chunksize = codec_data_decode_bufsize L v in
      if chunksize < 0 then None
      else get_data_bufsize L ((bufsize + nat chunksize) mod size_max) vs)"

text \<open>The second loop decodes each entry into the buffer behind the data of the entries before it.\<close>

primrec get_data_decode :: "'j lib \<Rightarrow> byte list \<Rightarrow> nat \<Rightarrow> 'j list \<Rightarrow> (byte list \<times> nat) outcome" where
  "get_data_decode L data used [] = Ok (data, used)"
| "get_data_decode L data used (v # vs) =
     bind_outcome (codec_data_decode_tobuf L v (drop used data) (length data - used))
       (\<lambda>(chunk, chunksize). get_data_decode L (take used data @ chunk) (used + chunksize) vs)"

text \<open>The first \<open>used\<close> bytes of the buffer are the data.\<close>

definition exchange_get_data :: "'j lib \<Rightarrow> ('j, 'm, 'c) session \<Rightarrow> byte list outcome" where
  "exchange_get_data L ses =
     (let elems = (case data_out ses of None \<Rightarrow> [] | Some d \<Rightarrow> json_array_elems L d) in
      case get_data_bufsize L 0 elems of
        None \<Rightarrow> Fail
      | Some bufsize \<Rightarrow>
          if \<not> malloc_ok L bufsize then Fail
          else bind_outcome (get_data_decode L (unwritten bufsize) 0 elems)
                 (\<lambda>(data, used). Ok (take used data)))"

subsection \<open>The invariant of a shell's exchange\<close>

text \<open>
  Of a stored session: no error is recorded (an error ends the session at once), the callback is set
  exactly when this shell has entered, there are never more pending requests than children, and a
  request to the parent is under way only on a shell that has entered and heard from all children.
\<close>

definition session_inv :: "('j, 'm, 'c) exchange \<Rightarrow> ('j, 'm, 'c) session \<Rightarrow> bool" where
  "session_inv xcg ses \<longleftrightarrow>
     \<not> has_error ses \<and> (local ses \<longleftrightarrow> exit_cb ses \<noteq> None)
     \<and> length (requests ses) \<le> xchild_count xcg
     \<and> (fut ses \<longrightarrow> local ses \<and> length (requests ses) = xchild_count xcg \<and> 0 < xrank xcg)"

definition exchange_inv :: "('j, 'm, 'c) exchange \<Rightarrow> bool" where
  "exchange_inv xcg \<longleftrightarrow> (case xsession xcg of None \<Rightarrow> True | Some ses \<Rightarrow> session_inv xcg ses)"

definition pending :: "('j, 'm, 'c) exchange \<Rightarrow> 'm list" where
  "pending xcg = (case xsession xcg of None \<Rightarrow> [] | Some ses \<Rightarrow> requests ses)"

text \<open>The requests settled by a list of effects: answered, refused, or dropped.\<close>

fun settled :: "('j, 'm, 'c) effect list \<Rightarrow> 'm list" where
  "settled [] = []"
| "settled (Respond m d # es) = m # settled es"
| "settled (RespondError m e s # es) = m # settled es"
| "settled (Dropped m # es) = m # settled es"
| "settled (_ # es) = settled es"

fun exits :: "('j, 'm, 'c) effect list \<Rightarrow> ('c \<times> ('j, 'm, 'c) session) list" where
  "exits [] = []"
| "exits (ExitCb c ses # es) = (c, ses) # exits es"
| "exits (_ # es) = exits es"

lemma settled_append [simp]: "settled (es @ fs) = settled es @ settled fs"
  by (induction es rule: settled.induct) auto

lemma exits_append [simp]: "exits (es @ fs) = exits es @ exits fs"
  by (induction es rule: exits.induct) auto

lemma settled_Dropped [simp]: "settled (map Dropped ms) = ms"
  by (induction ms) auto

lemma exits_Dropped [simp]: "exits (map Dropped ms) = []"
  by (induction ms) auto

lemma respond_loop_settled:
  assumes "respond_loop E out ms = (es, left, err)"
  shows "settled es @ left = ms" and "exits es = []" and "\<not> err \<Longrightarrow> left = []"
  using assms by (induction ms arbitrary: es left err)
    (auto split: option.splits if_splits prod.splits)

lemma session_done_cases:
  assumes "exit_cb ses \<noteq> None"
  obtains cb where "exit_cb ses = Some cb"
    and "session_done xcg ses es =
      Ok (xcg\<lparr>xsession := None\<rparr>, es @ [ExitCb cb ses] @ session_destroy (Some ses))"
  using assms by (auto simp: session_done_def)

text \<open>
  What every call of \<^verbatim>\<open>session_process\<close> guarantees, from a session that satisfies the invariant but
  for an error that may just have been recorded.
\<close>

definition frame_eq :: "('j, 'm, 'c) exchange \<Rightarrow> ('j, 'm, 'c) exchange \<Rightarrow> bool" where
  "frame_eq xcg xcg' \<longleftrightarrow> xcg' = xcg\<lparr>xsession := xsession xcg'\<rparr>"

definition good_result ::
    "('j, 'm, 'c) exchange \<Rightarrow> ('j, 'm, 'c) session \<Rightarrow> ('j, 'm, 'c) step_result \<Rightarrow> bool" where
  "good_result xcg ses r \<longleftrightarrow>
     (\<exists>xcg' es. r = Ok (xcg', es) \<and> exchange_inv xcg' \<and> frame_eq xcg xcg'
        \<and> mset (pending xcg') + mset (settled es) = mset (requests ses)
        \<and> (case xsession xcg' of
             None \<Rightarrow> \<exists>cb s. exit_cb ses = Some cb \<and> exits es = [(cb, s)]
           | Some s \<Rightarrow> exits es = [] \<and> exit_cb s = exit_cb ses))"

lemma session_done_good:
  assumes "exit_cb ses' \<noteq> None" and "exit_cb ses' = exit_cb ses"
    and "mset (settled es) + mset (requests ses') = mset (requests ses)" and "exits es = []"
  shows "good_result xcg ses (session_done xcg ses' es)"
proof -
  from assms(1) obtain cb where "exit_cb ses' = Some cb" "session_done xcg ses' es =
      Ok (xcg\<lparr>xsession := None\<rparr>, es @ [ExitCb cb ses'] @ session_destroy (Some ses'))"
    by (rule session_done_cases)
  with assms show ?thesis
    by (auto simp: good_result_def exchange_inv_def frame_eq_def pending_def session_destroy_def)
qed

lemma session_process_good:
  fixes xcg :: "('j, 'm, 'c) exchange"
  assumes "local ses \<longleftrightarrow> exit_cb ses \<noteq> None" and "has_error ses \<Longrightarrow> local ses"
    and "length (requests ses) \<le> xchild_count xcg"
    and "fut ses \<Longrightarrow> local ses \<and> length (requests ses) = xchild_count xcg \<and> 0 < xrank xcg"
  shows "good_result xcg ses (session_process E xcg ses)"
proof (cases "has_error ses")
  case True
  with assms show ?thesis by (simp add: session_process_def session_done_good)
next
  case False
  show ?thesis
  proof (cases "\<not> local ses \<or> length (requests ses) < xchild_count xcg")
    case True
    with False assms show ?thesis
      by (auto simp: session_process_def good_result_def exchange_inv_def session_inv_def frame_eq_def
          pending_def)
  next
    case ready: False
    then have cb: "exit_cb ses \<noteq> None" using assms by simp
    let ?send = "0 < xrank xcg \<and> \<not> fut ses"
    let ?ses = "ses\<lparr>fut := fut ses \<or> ?send\<rparr>"
    let ?out = "if xrank xcg = 0 then Some (data_in ses) else data_out ses"
    obtain es :: "('j, 'm, 'c) effect list" and left err
      where loop: "respond_loop E ?out (requests ses) = (es, left, err)"
      by (cases "respond_loop E ?out (requests ses) :: ('j, 'm, 'c) effect list \<times> 'm list \<times> bool")
    note settled = respond_loop_settled [OF loop]
    have mset: "mset (settled es) + mset left = mset (requests ses)"
      using settled(1) by (metis mset_append)
    consider (fail) "?send" "\<not> (rpc_ok E \<and> then_ok E)"
      | (wait) "\<not> (?send \<and> \<not> (rpc_ok E \<and> then_ok E))" "fut ses \<or> ?send" "\<not> future_is_ready E"
      | (complete) "\<not> (?send \<and> \<not> (rpc_ok E \<and> then_ok E))" "\<not> ((fut ses \<or> ?send) \<and> \<not> future_is_ready E)"
      by blast
    then show ?thesis
    proof cases
      case fail
      with False ready cb show ?thesis
        by (auto simp: session_process_def Let_def intro!: session_done_good)
    next
      case wait
      with False ready cb assms show ?thesis
        by (auto simp: session_process_def Let_def good_result_def exchange_inv_def session_inv_def
            frame_eq_def pending_def)
    next
      case complete
      have "good_result xcg ses (session_done xcg (s\<lparr>requests := left, has_error := err\<rparr>) (sent @ es))"
        if "exit_cb s = exit_cb ses" "settled sent = []" "exits sent = []" for s sent
        using that cb mset settled(2) by (intro session_done_good) auto
      moreover have "session_process E xcg ses =
          session_done xcg ((?ses\<lparr>data_out := ?out\<rparr>)\<lparr>requests := left, has_error := err\<rparr>)
            ((if ?send then [SendRequest (parent_rank xcg) (data_in ses)] else []) @ es)"
        using complete False ready loop
        by (cases "xrank xcg = 0") (auto simp: session_process_def Let_def)
      ultimately show ?thesis by simp
    qed
  qed
qed

subsection \<open>Runs of one shell\<close>

definition outstanding :: "('j, 'm, 'c) exchange \<Rightarrow> 'c list" where
  "outstanding xcg =
     (case xsession xcg of
        None \<Rightarrow> []
      | Some ses \<Rightarrow> (case exit_cb ses of None \<Rightarrow> [] | Some c \<Rightarrow> [c]))"

text \<open>
  What a handler owes: it does not run into undefined behaviour, it keeps the invariant and the
  constants of the exchange; \<open>ms\<close> are the requests it accepts, \<open>cs\<close> the callbacks.
\<close>

definition handles ::
    "('j, 'm, 'c) exchange \<Rightarrow> 'm list \<Rightarrow> 'c list \<Rightarrow> ('j, 'm, 'c) exchange \<times> ('j, 'm, 'c) effect list
     \<Rightarrow> bool" where
  "handles xcg ms cs r \<longleftrightarrow>
     (case r of (xcg', es) \<Rightarrow>
        exchange_inv xcg' \<and> frame_eq xcg xcg'
        \<and> mset (pending xcg') + mset (settled es) = mset (pending xcg) + mset ms
        \<and> map fst (exits es) @ outstanding xcg' = outstanding xcg @ cs)"

lemma frame_eq_trans: "frame_eq a b \<Longrightarrow> frame_eq b c \<Longrightarrow> frame_eq a c"
  unfolding frame_eq_def by (metis exchange.update_convs(5) exchange.surjective)

lemma good_result_handles:
  assumes "good_result xcg ses r"
    and "mset (requests ses) = mset (pending xcg0) + mset ms"
    and "outstanding xcg0 @ cs = (case exit_cb ses of None \<Rightarrow> [] | Some c \<Rightarrow> [c])"
    and "frame_eq xcg0 xcg"
  shows "\<exists>xcg' es. r = Ok (xcg', es) \<and> handles xcg0 ms cs (xcg', es)"
proof -
  from assms(1) obtain xcg' es where r: "r = Ok (xcg', es)" "exchange_inv xcg'" "frame_eq xcg xcg'"
    and ms: "mset (pending xcg') + mset (settled es) = mset (requests ses)"
    and ex: "case xsession xcg' of None \<Rightarrow> \<exists>cb s. exit_cb ses = Some cb \<and> exits es = [(cb, s)]
      | Some s \<Rightarrow> exits es = [] \<and> exit_cb s = exit_cb ses"
    by (auto simp: good_result_def)
  have "frame_eq xcg0 xcg'" using assms(4) r(3) by (rule frame_eq_trans)
  moreover have "map fst (exits es) @ outstanding xcg' = (case exit_cb ses of None \<Rightarrow> [] | Some c \<Rightarrow> [c])"
    using ex by (cases "xsession xcg'") (auto simp: outstanding_def)
  then have "map fst (exits es) @ outstanding xcg' = outstanding xcg0 @ cs"
    using assms(3) by simp
  ultimately show ?thesis using r ms assms(2) by (simp add: handles_def)
qed

lemma frame_eq_update [simp]: "frame_eq xcg (xcg\<lparr>xsession := s\<rparr>)" "frame_eq xcg xcg"
  by (simp_all add: frame_eq_def)

lemma session_create_fields:
  "session_create L E = Some ses \<Longrightarrow>
   requests ses = [] \<and> exit_cb ses = None \<and> \<not> local ses \<and> \<not> fut ses \<and> \<not> has_error ses \<and> data_out ses = None"
  by (auto simp: session_create_def split: if_splits option.splits)

text \<open>The session a handler works on: the current one, or a fresh one.\<close>

lemma current_session:
  assumes "exchange_inv xcg"
    and "(case xsession xcg of None \<Rightarrow> session_create L E | Some s \<Rightarrow> Some s) = Some ses"
  shows "session_inv xcg ses" and "pending xcg = requests ses"
    and "outstanding xcg = (case exit_cb ses of None \<Rightarrow> [] | Some c \<Rightarrow> [c])"
  using assms
  by (auto simp: exchange_inv_def pending_def outstanding_def session_inv_def
      dest!: session_create_fields split: option.splits)

lemma request_handles:
  assumes "exchange_inv xcg"
  shows "\<exists>xcg' es. exchange_request_cb L E msg payload xcg = Ok (xcg', es)
    \<and> handles xcg [msg] [] (xcg', es)"
proof -
  have refuse: "handles xcg [msg] [] (xcg\<lparr>xsession := Some s\<rparr>, [RespondError msg e t])"
    if "(case xsession xcg of None \<Rightarrow> session_create L E | Some s \<Rightarrow> Some s) = Some ses"
      and "s = ses\<lparr>data_in := d\<rparr>" for ses s e t d
    using that(2) current_session [OF assms that(1)]
    by (auto simp: handles_def exchange_inv_def session_inv_def pending_def outstanding_def
        split: option.splits)
  have error: "handles xcg [msg] [] (xcg, [RespondError msg e t])" for e t
    using assms by (simp add: handles_def)
  show ?thesis
  proof (cases payload)
    case None
    with error show ?thesis by (simp add: exchange_request_cb_def)
  next
    case (Some data)
    show ?thesis
    proof (cases "case xsession xcg of None \<Rightarrow> session_create L E | Some s \<Rightarrow> Some s")
      case None
      with Some error show ?thesis by (simp add: exchange_request_cb_def)
    next
      case ses: (Some ses)
      note cur = current_session [OF assms ses]
      show ?thesis
      proof (cases "length (requests ses) = xchild_count xcg
          \<or> json_array_extend L (data_in ses) data = None \<or> \<not> msglist_append_ok E")
        case True
        with Some ses refuse [OF ses, of ses "data_in ses"]
          refuse [OF ses, of "ses\<lparr>data_in := the (json_array_extend L (data_in ses) data)\<rparr>"]
        show ?thesis by (auto simp: exchange_request_cb_def Let_def split: option.splits)
      next
        case False
        then obtain d where d: "json_array_extend L (data_in ses) data = Some d" by auto
        let ?ses = "ses\<lparr>data_in := d, requests := requests ses @ [msg]\<rparr>"
        let ?xcg = "xcg\<lparr>xsession := Some ses\<rparr>"
        have "good_result ?xcg ?ses (session_process E ?xcg ?ses)"
          using cur(1) False by (intro session_process_good) (auto simp: session_inv_def)
        then have "\<exists>xcg' es. session_process E ?xcg ?ses = Ok (xcg', es)
            \<and> handles xcg [msg] [] (xcg', es)"
          using cur by (intro good_result_handles [where xcg = ?xcg and ses = ?ses]) auto
        then show ?thesis using Some ses d False
          by (simp add: exchange_request_cb_def Let_def)
      qed
    qed
  qed
qed

lemma response_handles:
  assumes "exchange_inv xcg" and "xsession xcg = Some ses" and "fut ses"
  shows "\<exists>xcg' es. exchange_response_completion E reply xcg = Ok (xcg', es)
    \<and> handles xcg [] [] (xcg', es)"
proof -
  let ?E = "E\<lparr>future_is_ready := True\<rparr>"
  have inv: "session_inv xcg ses" using assms by (simp add: exchange_inv_def)
  have "\<exists>xcg' es. session_process ?E xcg s = Ok (xcg', es) \<and> handles xcg [] [] (xcg', es)"
    if "s = ses\<lparr>data_out := d\<rparr> \<or> s = ses\<lparr>has_error := True\<rparr>" for s d
    using that inv assms(2,3)
    by (intro good_result_handles [where ses = s and xcg = xcg] session_process_good)
       (auto simp: session_inv_def pending_def outstanding_def)
  from this [of "ses\<lparr>data_out := reply\<rparr>" reply] this [of "ses\<lparr>has_error := True\<rparr>"]
  show ?thesis using assms(2)
    by (cases reply) (auto simp: exchange_response_completion_def handles_def)
qed

text \<open>
  The callback of an entry is installed when the entry is accepted, and also when it is refused with
  ENOMEM: the error is reported after the callback has been stored in the session.
\<close>

definition installs :: "errno option \<Rightarrow> bool" where
  "installs rc \<longleftrightarrow> rc = None \<or> rc = Some ENOMEM"

lemma enter_handles:
  assumes "exchange_inv xcg"
  shows "\<exists>rc xcg' es. exchange_enter_base64_string L E data (Some c) (Some xcg) = Ok (rc, Some xcg', es)
    \<and> handles xcg [] (if installs rc then [c] else []) (xcg', es)"
proof (cases "data \<noteq> None \<and> \<not> json_is_string L (the data)")
  case True
  with assms show ?thesis by (simp add: exchange_enter_base64_string_def handles_def installs_def)
next
  case data: False
  show ?thesis
  proof (cases "case xsession xcg of None \<Rightarrow> session_create L E | Some s \<Rightarrow> Some s")
    case None
    with data assms show ?thesis by (simp add: exchange_enter_base64_string_def handles_def installs_def)
  next
    case ses: (Some ses)
    note cur = current_session [OF assms ses]
    show ?thesis
    proof (cases "local ses")
      case True
      with data ses cur show ?thesis
        by (auto simp: exchange_enter_base64_string_def handles_def exchange_inv_def session_inv_def
            pending_def outstanding_def installs_def)
    next
      case False
      let ?app = "case data of None \<Rightarrow> Some (data_in ses) | Some d \<Rightarrow> json_array_append L (data_in ses) d"
      show ?thesis
      proof (cases ?app)
        case None
        let ?ses = "ses\<lparr>exit_cb := Some c, local := True\<rparr>"
        have "handles xcg [] [c] (xcg\<lparr>xsession := Some ?ses\<rparr>, [])"
          using cur False by (auto simp: handles_def exchange_inv_def session_inv_def pending_def
              outstanding_def split: option.splits)
        with None data ses False show ?thesis
          by (cases data) (auto simp: exchange_enter_base64_string_def Let_def installs_def)
      next
        case (Some d)
        let ?ses = "ses\<lparr>exit_cb := Some c, local := True, data_in := d\<rparr>"
        have "good_result xcg ?ses (session_process E xcg ?ses)"
          using cur(1) False by (intro session_process_good) (auto simp: session_inv_def)
        then have "\<exists>xcg' es. session_process E xcg ?ses = Ok (xcg', es)
            \<and> handles xcg [] [c] (xcg', es)"
          using cur False
          by (intro good_result_handles [where xcg = xcg and ses = ?ses]) (auto simp: session_inv_def)
        then obtain xcg' es where "session_process E xcg ?ses = Ok (xcg', es)"
          and h: "handles xcg [] [c] (xcg', es)"
          by blast
        then have "exchange_enter_base64_string L E data (Some c) (Some xcg) = Ok (None, Some xcg', es)"
          using data ses False Some by (cases data) (auto simp: exchange_enter_base64_string_def Let_def)
        with h show ?thesis by (simp add: installs_def)
      qed
    qed
  qed
qed

text \<open>
  The futures created by the requests to the parent and not destroyed since: only these have a
  continuation the reactor can run.
\<close>

fun live :: "('j, 'm, 'c) effect list \<Rightarrow> int" where
  "live [] = 0"
| "live (SendRequest r d # es) = live es + 1"
| "live (FutureDestroyed # es) = live es - 1"
| "live (_ # es) = live es"

lemma live_append [simp]: "live (es @ fs) = live es + live fs"
  by (induction es rule: live.induct) auto

lemma live_Dropped [simp]: "live (map Dropped ms) = 0"
  by (induction ms) auto

lemma live_respond_loop: "respond_loop E out ms = (es, left, err) \<Longrightarrow> live es = 0"
  by (induction ms arbitrary: es left err) (auto split: option.splits if_splits prod.splits)

definition has_future :: "('j, 'm, 'c) exchange \<Rightarrow> bool" where
  "has_future xcg \<longleftrightarrow> (case xsession xcg of None \<Rightarrow> False | Some ses \<Rightarrow> fut ses)"

text \<open>A handler that starts with \<open>n\<close> futures of the session leaves the one of the stored session, if any.\<close>

definition tracks :: "bool \<Rightarrow> ('j, 'm, 'c) step_result \<Rightarrow> bool" where
  "tracks f r \<longleftrightarrow> (\<forall>xcg es. r = Ok (xcg, es) \<longrightarrow> live es + of_bool f = of_bool (has_future xcg))"

lemma tracks_Ok [simp]: "tracks f (Ok (xcg, es)) \<longleftrightarrow> live es + of_bool f = of_bool (has_future xcg)"
  by (simp add: tracks_def)

lemma has_future_update [simp]:
  "has_future (xcg\<lparr>xsession := Some ses\<rparr>) = fut ses" "\<not> has_future (xcg\<lparr>xsession := None\<rparr>)"
  by (simp_all add: has_future_def)

lemma session_done_tracks:
  "live es + of_bool f = of_bool (fut ses) \<Longrightarrow> tracks f (session_done xcg ses es)"
  by (auto simp: session_done_def session_destroy_def tracks_def split: option.splits)

lemma session_process_tracks: "fut ses = f \<Longrightarrow> tracks f (session_process E xcg ses)"
  by (auto simp: session_process_def Let_def live_respond_loop split: prod.split intro!: session_done_tracks)

lemma current_fut:
  "(case xsession xcg of None \<Rightarrow> session_create L E | Some s \<Rightarrow> Some s) = Some ses \<Longrightarrow> fut ses = has_future xcg"
  by (auto simp: has_future_def dest: session_create_fields split: option.splits)

lemma request_tracks: "tracks (has_future xcg) (exchange_request_cb L E msg payload xcg)"
proof (cases "case xsession xcg of None \<Rightarrow> session_create L E | Some s \<Rightarrow> Some s")
  case None
  then show ?thesis by (cases payload) (simp_all add: exchange_request_cb_def)
next
  case (Some ses)
  then show ?thesis using current_fut [OF Some]
    by (cases payload)
       (simp_all add: exchange_request_cb_def Let_def session_process_tracks split: option.split)
qed

lemma enter_tracks:
  assumes "exchange_enter_base64_string L E data (Some c) (Some xcg) = Ok (rc, Some xcg', es)"
  shows "live es + of_bool (has_future xcg) = of_bool (has_future xcg')"
proof (cases "data \<noteq> None \<and> \<not> json_is_string L (the data)")
  case True
  with assms show ?thesis by (simp add: exchange_enter_base64_string_def)
next
  case data: False
  show ?thesis
  proof (cases "case xsession xcg of None \<Rightarrow> session_create L E | Some s \<Rightarrow> Some s")
    case None
    with assms data show ?thesis by (cases data) (auto simp: exchange_enter_base64_string_def)
  next
    case (Some ses)
    let ?app = "case data of None \<Rightarrow> Some (data_in ses) | Some d \<Rightarrow> json_array_append L (data_in ses) d"
    note fut = current_fut [OF Some]
    show ?thesis
    proof (cases "local ses \<or> ?app = None")
      case True
      with assms data Some fut show ?thesis
        by (cases data; cases "local ses") (auto simp: exchange_enter_base64_string_def Let_def)
    next
      case False
      then obtain d where d: "?app = Some d" "\<not> local ses" by auto
      have "session_process E xcg (ses\<lparr>exit_cb := Some c, local := True, data_in := d\<rparr>) = Ok (xcg', es)"
        using assms data Some d
        by (cases data) (auto simp: exchange_enter_base64_string_def Let_def bind_outcome_Ok_iff)
      then show ?thesis
        using session_process_tracks [of "ses\<lparr>exit_cb := Some c, local := True, data_in := d\<rparr>" "fut ses" E xcg]
          fut by simp
    qed
  qed
qed

lemma response_tracks:
  assumes "xsession xcg = Some ses" "fut ses"
  shows "tracks True (exchange_response_completion E reply xcg)"
proof (cases reply)
  case None
  have "tracks True (session_process (E\<lparr>future_is_ready := True\<rparr>) xcg (ses\<lparr>has_error := True\<rparr>))"
    using assms by (intro session_process_tracks) simp
  with None assms show ?thesis
    by (auto simp: exchange_response_completion_def tracks_def bind_outcome_Ok_iff split: prod.splits)
next
  case (Some d)
  with assms show ?thesis
    by (auto simp: exchange_response_completion_def intro!: session_process_tracks)
qed

text \<open>
  The histories of one shell: any order of entries, child requests and answers of the parent, with
  any combination of failing library calls. The arguments record the callbacks installed, the
  requests received and the effects so far. The answer of the parent is handled by the continuation
  of a future, which the reactor runs only while the future is live.
\<close>

inductive exchange_run ::
    "'j lib \<Rightarrow> ('j, 'm, 'c) exchange \<Rightarrow> 'c list \<Rightarrow> 'm list \<Rightarrow> ('j, 'm, 'c) effect list \<Rightarrow> bool"
  for L where
  run_start: "xsession xcg = None \<Longrightarrow> exchange_run L xcg [] [] []"
| run_enter: "exchange_run L xcg cs ms es \<Longrightarrow>
    exchange_enter_base64_string L E data (Some c) (Some xcg) = Ok (rc, Some xcg', fs) \<Longrightarrow>
    exchange_run L xcg' (if installs rc then cs @ [c] else cs) ms (es @ fs)"
| run_request: "exchange_run L xcg cs ms es \<Longrightarrow>
    exchange_request_cb L E msg payload xcg = Ok (xcg', fs) \<Longrightarrow>
    exchange_run L xcg' cs (ms @ [msg]) (es @ fs)"
| run_response: "exchange_run L xcg cs ms es \<Longrightarrow> 0 < live es \<Longrightarrow>
    exchange_response_completion E reply xcg = Ok (xcg', fs) \<Longrightarrow>
    exchange_run L xcg' cs ms (es @ fs)"

lemma handles_accounts:
  assumes "handles xcg ns ds (xcg', fs)" and "map fst (exits es) @ outstanding xcg = cs"
    and "mset (settled es) + mset (pending xcg) = mset ms"
  shows "exchange_inv xcg' \<and> map fst (exits (es @ fs)) @ outstanding xcg' = cs @ ds
    \<and> mset (settled (es @ fs)) + mset (pending xcg') = mset (ms @ ns)"
proof -
  from assms(1) have "mset (settled fs) + mset (pending xcg') = mset (pending xcg) + mset ns"
    by (simp add: handles_def add.commute)
  then have "mset (settled (es @ fs)) + mset (pending xcg') = mset (ms @ ns)"
    using assms(3) by (metis add.assoc mset_append settled_append)
  with assms(1,2) show ?thesis by (auto simp: handles_def)
qed

lemma exchange_run_accounts:
  assumes "exchange_run L xcg cs ms es"
  shows "exchange_inv xcg \<and> map fst (exits es) @ outstanding xcg = cs
    \<and> mset (settled es) + mset (pending xcg) = mset ms \<and> live es = of_bool (has_future xcg)"
  using assms
proof induction
  case (run_start xcg)
  then show ?case by (simp add: exchange_inv_def outstanding_def pending_def has_future_def)
next
  case (run_enter xcg cs ms es E data c rc xcg' fs)
  from run_enter.IH have "exchange_inv xcg" by blast
  from enter_handles [OF this, of L E data c] run_enter.hyps(2)
  have "handles xcg [] (if installs rc then [c] else []) (xcg', fs)" by auto
  from handles_accounts [OF this] run_enter.IH enter_tracks [OF run_enter.hyps(2)]
  show ?case by (cases "installs rc") auto
next
  case (run_request xcg cs ms es E msg payload xcg' fs)
  from run_request.IH have "exchange_inv xcg" by blast
  from request_handles [OF this, of L E msg payload] run_request.hyps(2)
  have "handles xcg [msg] [] (xcg', fs)" by auto
  from handles_accounts [OF this] run_request.IH request_tracks [of xcg L E msg payload] run_request.hyps(2)
  show ?case by (auto simp: tracks_def)
next
  case (run_response xcg cs ms es E reply xcg' fs)
  from run_response.IH run_response.hyps(2) have wait: "has_future xcg" by (simp split: if_splits)
  then obtain ses where ses: "xsession xcg = Some ses" "fut ses"
    by (auto simp: has_future_def split: option.splits)
  from run_response.IH have "exchange_inv xcg" by blast
  from response_handles [OF this ses, of E reply] run_response.hyps(3)
  have "handles xcg [] [] (xcg', fs)" by auto
  from handles_accounts [OF this] run_response.IH response_tracks [OF ses, of E reply]
    run_response.hyps(3) wait show ?case by (auto simp: tracks_def)
qed

text \<open>
  C13. In every history of a shell, whatever library calls fail: the exit callbacks are called in the
  order of the entries that installed them (the accepted ones, and one refused with ENOMEM, which
  leaves its callback installed), each exactly once, at most one being outstanding; and every child
  request is settled exactly once or still pending, none is lost or answered twice.
\<close>

theorem exchange_exactly_once:
  assumes "exchange_run L xcg cs ms es"
  shows "map fst (exits es) @ outstanding xcg = cs \<and> length (outstanding xcg) \<le> 1
    \<and> mset (settled es) + mset (pending xcg) = mset ms"
  using exchange_run_accounts [OF assms] by (auto simp: outstanding_def split: option.splits)

text \<open>
  C14. No history, failing library calls included, leads to undefined behaviour: no handler calls a null
  exit callback, and the continuation of a request to the parent never meets a session that is gone,
  because the future is destroyed with its session. There is never more than one live future.
\<close>

theorem exchange_never_undefined:
  assumes "exchange_run L xcg cs ms es"
  shows "exchange_request_cb L E msg payload xcg \<noteq> Undef
    \<and> exchange_enter_base64_string L E data (Some c) (Some xcg) \<noteq> Undef
    \<and> (live es = 0 \<or> live es = 1 \<and> exchange_response_completion E reply xcg \<noteq> Undef)"
proof (intro conjI)
  have inv: "exchange_inv xcg" and fut: "live es = of_bool (has_future xcg)"
    using exchange_run_accounts [OF assms] by blast+
  show "exchange_request_cb L E msg payload xcg \<noteq> Undef"
    using request_handles [OF inv, of L E msg payload] by auto
  show "exchange_enter_base64_string L E data (Some c) (Some xcg) \<noteq> Undef"
    using enter_handles [OF inv, of L E data c] by auto
  show "live es = 0 \<or> live es = 1 \<and> exchange_response_completion E reply xcg \<noteq> Undef"
  proof (cases "xsession xcg")
    case None
    then show ?thesis using fut by (simp add: has_future_def)
  next
    case (Some ses)
    then show ?thesis using fut response_handles [OF inv Some, of E reply]
      by (cases "fut ses") (auto simp: has_future_def)
  qed
qed

text \<open>A leaf shell of rank 1 enters, sends its data and gets an answer.\<close>

definition good_env :: "'m xenv" where
  "good_env = \<lparr>alloc_ok = True, rpc_ok = True, then_ok = True, respond_ok = (\<lambda>_. True),
               msglist_append_ok = True, future_is_ready = False\<rparr>"

definition leaf :: "(json, nat, nat) exchange" where
  "leaf = \<lparr>xsize = 2, xrank = 1, parent_rank = 0, xchild_count = 0, xsession = None\<rparr>"

definition leaf_waiting :: "(json, nat, nat) session" where
  "leaf_waiting = \<lparr>data_in = JArr [JStr ''Zg==''], data_out = None, exit_cb = Some 5, requests = [],
                   fut = True, local = True, has_error = False\<rparr>"

lemma leaf_run: "exchange_run json_lib (leaf\<lparr>xsession := Some leaf_waiting\<rparr>) [5] []
    [SendRequest 0 (JArr [JStr ''Zg==''])]"
proof -
  have "exchange_enter_base64_string json_lib good_env (Some (JStr ''Zg=='')) (Some 5) (Some leaf)
      = Ok (None, Some (leaf\<lparr>xsession := Some leaf_waiting\<rparr>), [SendRequest 0 (JArr [JStr ''Zg==''])])"
    by (simp add: exchange_enter_base64_string_def leaf_def good_env_def json_lib_def session_create_def
        session_process_def Let_def leaf_waiting_def)
  from run_enter [OF run_start this] show ?thesis by (simp add: leaf_def installs_def)
qed

theorem exchange_exactly_once_witness:
  "map fst (exits [SendRequest 0 (JArr [JStr ''Zg=='']) :: (json, nat, nat) effect])
     @ outstanding (leaf\<lparr>xsession := Some leaf_waiting\<rparr>) = [5]
   \<and> length (outstanding (leaf\<lparr>xsession := Some leaf_waiting\<rparr>)) \<le> 1
   \<and> mset (settled [SendRequest 0 (JArr [JStr ''Zg=='']) :: (json, nat, nat) effect])
     + mset (pending (leaf\<lparr>xsession := Some leaf_waiting\<rparr>)) = mset []"
  using exchange_exactly_once [OF leaf_run] .

theorem exchange_never_undefined_witness:
  "exchange_response_completion good_env None (leaf\<lparr>xsession := Some leaf_waiting\<rparr>) \<noteq> Undef"
  using exchange_never_undefined [OF leaf_run] by auto

text \<open>
  When the parent answers with an error, the callback is told, but the children are not: every
  pending child request is destroyed without an answer.
\<close>

theorem exchange_error_drops_children:
  assumes "xsession xcg = Some ses" and "exit_cb ses = Some cb"
  shows "exchange_response_completion E None xcg =
    Ok (xcg\<lparr>xsession := None\<rparr>,
        [Warn ''pmix-exchange request'', ExitCb cb (ses\<lparr>has_error := True\<rparr>)]
        @ map Dropped (requests ses) @ (if fut ses then [FutureDestroyed] else []))"
  using assms by (simp add: exchange_response_completion_def session_process_def session_done_def
      session_destroy_def Let_def)

theorem exchange_error_drops_children_witness:
  "let ses = leaf_waiting\<lparr>requests := [3, 4]\<rparr>; xcg = leaf\<lparr>xsession := Some ses\<rparr> in
   exchange_response_completion good_env None xcg =
     Ok (xcg\<lparr>xsession := None\<rparr>,
         [Warn ''pmix-exchange request'', ExitCb 5 (ses\<lparr>has_error := True\<rparr>)] @ [Dropped 3, Dropped 4, FutureDestroyed])"
  unfolding Let_def
  by (subst exchange_error_drops_children [where ses = "leaf_waiting\<lparr>requests := [3, 4]\<rparr>" and cb = 5])
     (simp_all add: leaf_waiting_def)

text \<open>
  An entry that fails because the data cannot be appended reports the error but leaves the
  session marked as entered with the caller's callback installed: no later entry is accepted, and
  the callback the caller was told would not be used is still outstanding.
\<close>

theorem exchange_enter_enomem_keeps_callback:
  assumes "exchange_enter_base64_string L E data (Some c) (Some xcg) = Ok (Some ENOMEM, xcgp, es)"
  shows "\<exists>xcg'. xcgp = Some xcg' \<and> es = [] \<and> outstanding xcg' = [c]
    \<and> (\<forall>E' d c'. (d = None \<or> json_is_string L (the d)) \<longrightarrow>
         exchange_enter_base64_string L E' d (Some c') (Some xcg')
           = Ok (Some EINPROGRESS, Some xcg', []))"
proof -
  from assms obtain ses where "xcgp = Some (xcg\<lparr>xsession := Some (ses\<lparr>exit_cb := Some c, local := True\<rparr>)\<rparr>)"
    and "es = []"
    by (auto simp: exchange_enter_base64_string_def Let_def bind_outcome_Ok_iff
        split: if_splits option.splits prod.splits)
  then show ?thesis by (simp add: exchange_enter_base64_string_def outstanding_def)
qed

theorem exchange_enter_enomem_keeps_callback_witness:
  "let L = json_lib\<lparr>json_array_append := (\<lambda>_ _. None)\<rparr> in
   \<exists>xcg'. exchange_enter_base64_string L good_env (Some (JStr ''Zg=='')) (Some 5) (Some leaf)
       = Ok (Some ENOMEM, Some xcg', []) \<and> outstanding xcg' = [5]
     \<and> (\<forall>E' d c'. (d = None \<or> json_is_string L (the d)) \<longrightarrow>
         exchange_enter_base64_string L E' d (Some c') (Some xcg')
           = Ok (Some EINPROGRESS, Some xcg', []))"
proof -
  let ?L = "json_lib\<lparr>json_array_append := (\<lambda>_ _. None)\<rparr>"
  have "exchange_enter_base64_string ?L good_env (Some (JStr ''Zg=='')) (Some 5) (Some leaf)
      = Ok (Some ENOMEM, Some (leaf\<lparr>xsession := Some (leaf_waiting\<lparr>data_in := JArr [], fut := False\<rparr>)\<rparr>), [])"
    by (simp add: exchange_enter_base64_string_def leaf_def good_env_def json_lib_def session_create_def
        Let_def leaf_waiting_def)
  from this exchange_enter_enomem_keeps_callback [OF this] show ?thesis
    unfolding Let_def by auto
qed

subsection \<open>Assembling the result\<close>

text \<open>The room the first loop reserves for the text of \<open>d\<close> is enough for \<open>d\<close>.\<close>

definition chunk_room :: "byte list \<Rightarrow> nat" where
  "chunk_room d = base64_decoded_length (length (base64_text d))"

definition data_limit :: nat where
  "data_limit = 1610612733"

lemma chunk_room_ge: "length d \<le> data_limit \<Longrightarrow> length d \<le> chunk_room d"
  by (simp add: data_limit_def chunk_room_def rfc4648.length_text_of base64_decoded_length_eq)

definition is_text_of :: "'j lib \<Rightarrow> 'j \<Rightarrow> byte list \<Rightarrow> bool" where
  "is_text_of L v d \<longleftrightarrow> json_string_value L v = Some (base64_text d) \<and> length d \<le> data_limit"

context jansson
begin

lemma get_data_bufsize_texts:
  "list_all2 (is_text_of L) vs ds \<Longrightarrow> b + sum_list (map chunk_room ds) < size_max \<Longrightarrow>
   get_data_bufsize L b vs = Some (b + sum_list (map chunk_room ds))"
  by (induction vs ds arbitrary: b rule: list_all2_induct)
     (simp_all add: data_decode_string(1) is_text_of_def data_limit_def chunk_room_def)

lemma get_data_decode_texts:
  "list_all2 (is_text_of L) vs ds \<Longrightarrow> used + sum_list (map chunk_room ds) \<le> length data \<Longrightarrow>
   \<exists>data'. get_data_decode L data used vs = Ok (data', used + length (concat ds))
     \<and> take (used + length (concat ds)) data' = take used data @ concat ds"
proof (induction vs ds arbitrary: data used rule: list_all2_induct)
  case (Cons v vs d ds)
  let ?data = "take used data @ d @ replicate (length data - used - length d) 0"
  have len: "length d \<le> chunk_room d" using Cons by (auto simp: is_text_of_def intro: chunk_room_ge)
  have "codec_data_decode_tobuf L v (drop used data) (length (drop used data))
      = Ok (d @ replicate (length (drop used data) - length d) 0, length d)"
    by (rule data_decode_string(2)) (use Cons in \<open>simp_all add: is_text_of_def data_limit_def chunk_room_def\<close>)
  then have step: "get_data_decode L data used (v # vs) = get_data_decode L ?data (used + length d) vs"
    by simp
  have "used + length d + sum_list (map chunk_room ds) \<le> length ?data"
    using Cons.prems len by simp
  from Cons.IH [OF this] show ?case using Cons.prems len unfolding step
    by (auto simp: add.assoc)
qed simp

lemma get_data_texts:
  assumes "data_out ses = Some out" and "list_all2 (is_text_of L) (json_array_elems L out) ds"
    and "sum_list (map chunk_room ds) < size_max" and "malloc_ok L (sum_list (map chunk_room ds))"
  shows "exchange_get_data L ses = Ok (concat ds)"
  using assms get_data_bufsize_texts [OF assms(2), of 0]
    get_data_decode_texts [OF assms(2), of 0 "unwritten (sum_list (map chunk_room ds))"]
  by (auto simp: exchange_get_data_def)

end

text \<open>
  C15. On a result array whose entries are base64 texts of data chunks, \<^verbatim>\<open>exchange_get_data\<close> returns
  the concatenation of the chunks: the buffer computed by the first loop is large enough for every
  decoding step of the second.
\<close>

theorem exchange_get_data_concat:
  assumes "jansson L" and "data_out ses = Some out"
    and "list_all2 (is_text_of L) (json_array_elems L out) ds"
    and "sum_list (map chunk_room ds) < size_max" and "malloc_ok L (sum_list (map chunk_room ds))"
  shows "exchange_get_data L ses = Ok (concat ds)"
  using assms by (rule jansson.get_data_texts)

theorem exchange_get_data_concat_witness:
  "exchange_get_data json_lib
     (leaf_waiting\<lparr>data_out := Some (JArr [JStr (base64_text [1]), JStr (base64_text [2, 3])])\<rparr>)
   = Ok (concat [[1], [2, 3]])"
  by (rule exchange_get_data_concat [OF jlib.jansson_axioms,
        where out = "JArr [JStr (base64_text [1]), JStr (base64_text [2, 3])]"])
     (simp_all add: json_lib_def is_text_of_def data_limit_def chunk_room_def rfc4648.length_text_of
       base64_decoded_length_def size_max_def)

end
