(* ===== verification/Exchange_System.thy ===== *)
theory Exchange_System
  imports Exchange
begin

text \<open>
  The shells of a job exchanging data. Each shell runs the handlers of \<^verbatim>\<open>exchange.c\<close>; flux carries
  requests and responses reliably, with no order between different shells. A state is the shells'
  exchange handles, the requests in flight (per sender, with the rank they are addressed to), the
  responses in flight (per receiver; \<open>None\<close> is an error response) and, as history, the calls of
  each shell's exit callback. Shells may run ahead of each other by whole rounds: \<open>inp r t\<close> is the
  data shell \<open>r\<close> contributes to its \<open>t\<close>-th exchange (\<open>None\<close>: no data), and the callback
  argument is the number of the round. A request names its sender.

  The theory shows that every exchange delivers to every shell exactly the data of all shells of
  that round, without error, and that the protocol neither deadlocks nor runs forever.
\<close>

record 'j sys =
  shells :: "nat \<Rightarrow> ('j, nat, nat) exchange"
  reqs :: "nat \<Rightarrow> (nat \<times> 'j) list"
  resps :: "nat \<Rightarrow> 'j option list"
  outs :: "nat \<Rightarrow> (nat \<times> ('j, nat, nat) session) list"

subsection \<open>Steps\<close>

text \<open>What the effects of a handler running on shell \<open>r\<close> do to the network and the history.\<close>

fun route :: "nat \<Rightarrow> ('j, nat, nat) effect list \<Rightarrow> 'j sys \<Rightarrow> 'j sys" where
  "route r [] s = s"
| "route r (SendRequest p d # es) s =
     route r es (s\<lparr>reqs := (reqs s)(r := reqs s r @ [(unat p, d)])\<rparr>)"
| "route r (Respond m d # es) s =
     route r es (s\<lparr>resps := (resps s)(m := resps s m @ [Some d])\<rparr>)"
| "route r (RespondError m e t # es) s =
     route r es (s\<lparr>resps := (resps s)(m := resps s m @ [None])\<rparr>)"
| "route r (ExitCb c ses # es) s =
     route r es (s\<lparr>outs := (outs s)(r := outs s r @ [(c, ses)])\<rparr>)"
| "route r (_ # es) s = route r es s"

definition set_shell :: "nat \<Rightarrow> ('j, nat, nat) exchange \<Rightarrow> 'j sys \<Rightarrow> 'j sys" where
  "set_shell r xcg s = s\<lparr>shells := (shells s)(r := xcg)\<rparr>"

definition sys_init :: "nat \<Rightarrow> 'j sys" where
  "sys_init n =
     \<lparr>shells = (\<lambda>r. the (fst (exchange_create True (Some (int n, int r)) True 0))),
      reqs = (\<lambda>_. []), resps = (\<lambda>_. []), outs = (\<lambda>_. [])\<rparr>"

text \<open>
  One step: a shell that is not already in an exchange enters its next one, of \<open>T\<close> in all; a request
  reaches its destination; or a response reaches the shell that asked.
\<close>

inductive sys_step ::
    "'j lib \<Rightarrow> nat \<Rightarrow> (nat \<Rightarrow> nat \<Rightarrow> 'j option) \<Rightarrow> nat \<Rightarrow> 'j sys \<Rightarrow> 'j sys \<Rightarrow> bool"
  for L n inp T where
  enter: "r < n \<Longrightarrow> outstanding (shells s r) = [] \<Longrightarrow> t = length (outs s r) \<Longrightarrow> t < T \<Longrightarrow>
    exchange_enter_base64_string L good_env (inp r t) (Some t) (Some (shells s r)) = Ok (rc, Some xcg, es) \<Longrightarrow>
    sys_step L n inp T s (route r es (set_shell r xcg s))"
| request: "reqs s c = (p, d) # rest \<Longrightarrow>
    exchange_request_cb L good_env c (Some d) (shells s p) = Ok (xcg, es) \<Longrightarrow>
    sys_step L n inp T s (route p es (set_shell p xcg (s\<lparr>reqs := (reqs s)(c := rest)\<rparr>)))"
| response: "resps s c = reply # rest \<Longrightarrow>
    exchange_response_completion good_env reply (shells s c) = Ok (xcg, es) \<Longrightarrow>
    sys_step L n inp T s (route c es (set_shell c xcg (s\<lparr>resps := (resps s)(c := rest)\<rparr>)))"

inductive sys_reach ::
    "'j lib \<Rightarrow> nat \<Rightarrow> (nat \<Rightarrow> nat \<Rightarrow> 'j option) \<Rightarrow> nat \<Rightarrow> nat \<Rightarrow> 'j sys \<Rightarrow> bool"
  for L n inp T where
  reach_init: "sys_reach L n inp T 0 (sys_init n)"
| reach_step: "sys_reach L n inp T k s \<Longrightarrow> sys_step L n inp T s s' \<Longrightarrow> sys_reach L n inp T (Suc k) s'"

text \<open>Every contribution is a JSON string, as \<^verbatim>\<open>exchange_enter_base64_string\<close> requires.\<close>

definition valid_inputs :: "'j lib \<Rightarrow> (nat \<Rightarrow> nat \<Rightarrow> 'j option) \<Rightarrow> bool" where
  "valid_inputs L inp \<longleftrightarrow> (\<forall>r t d. inp r t = Some d \<longrightarrow> json_is_string L d)"

subsection \<open>What an exchange should deliver\<close>

definition contrib :: "(nat \<Rightarrow> nat \<Rightarrow> 'j option) \<Rightarrow> nat \<Rightarrow> nat \<Rightarrow> 'j multiset" where
  "contrib inp t r = (case inp r t of None \<Rightarrow> {#} | Some d \<Rightarrow> {#d#})"

definition total :: "nat \<Rightarrow> (nat \<Rightarrow> nat \<Rightarrow> 'j option) \<Rightarrow> nat \<Rightarrow> 'j multiset" where
  "total n inp t = (\<Sum>r<n. contrib inp t r)"

text \<open>The data of the subtree below a shell.\<close>

function subtree :: "nat \<Rightarrow> (nat \<Rightarrow> nat \<Rightarrow> 'j option) \<Rightarrow> nat \<Rightarrow> nat \<Rightarrow> 'j multiset" where
  "subtree n inp t r = contrib inp t r + (\<Sum>c\<in>children 2 n r. subtree n inp t c)"
  by pat_completeness auto
termination
proof (relation "measure (\<lambda>(n, inp, t, r). n - r)")
  fix n and inp :: "nat \<Rightarrow> nat \<Rightarrow> 'j option" and t r c
  assume "c \<in> children 2 n r"
  then have "r < c" "c < n" using children_greater [of 2 c n r] by (auto simp: children_def)
  then show "((n, inp, t, c), (n, inp, t, r)) \<in> measure (\<lambda>(n, inp, t, r). n - r)" by simp
qed simp

declare subtree.simps [simp del]

lemma subtree_root: "0 < n \<Longrightarrow> subtree n inp t 0 = total n inp t"
  unfolding total_def by (rule tree_sum [of 2]) (auto intro: subtree.simps)

subsection \<open>The invariant\<close>

abbreviation round_of :: "'j sys \<Rightarrow> nat \<Rightarrow> nat" where
  "round_of s r \<equiv> length (outs s r)"

definition waiting :: "'j sys \<Rightarrow> nat \<Rightarrow> bool" where
  "waiting s r = (case xsession (shells s r) of None \<Rightarrow> False | Some ses \<Rightarrow> fut ses)"

abbreviation received :: "'j sys \<Rightarrow> nat \<Rightarrow> nat list" where
  "received s r \<equiv> pending (shells s r)"

text \<open>The constants of a shell's handle, and its session: what it has gathered is its own
  contribution once it has entered and the subtrees of the children heard from.\<close>

definition handle_ok :: "nat \<Rightarrow> nat \<Rightarrow> ('j, nat, nat) exchange \<Rightarrow> bool" where
  "handle_ok n r xcg \<longleftrightarrow> xrank xcg = int r \<and> parent_rank xcg = kary_parentof 2 (of_nat r)
     \<and> xchild_count xcg = card (children 2 n r)"

definition gathering ::
    "'j lib \<Rightarrow> nat \<Rightarrow> (nat \<Rightarrow> nat \<Rightarrow> 'j option) \<Rightarrow> nat \<Rightarrow> nat \<Rightarrow> ('j, nat, nat) session \<Rightarrow> bool" where
  "gathering L n inp t r ses \<longleftrightarrow>
     json_is_array L (data_in ses) \<and> \<not> has_error ses \<and> data_out ses = None
     \<and> exit_cb ses = (if local ses then Some t else None)
     \<and> distinct (requests ses) \<and> set (requests ses) \<subseteq> children 2 n r
     \<and> mset (json_array_elems L (data_in ses))
       = (if local ses then contrib inp t r else {#}) + (\<Sum>c\<in>set (requests ses). subtree n inp t c)
     \<and> (fut ses \<longrightarrow> 0 < r \<and> local ses \<and> set (requests ses) = children 2 n r)"

text \<open>A shell that has all it needs does not keep gathering.\<close>

definition settled_down :: "nat \<Rightarrow> nat \<Rightarrow> ('j, nat, nat) session \<Rightarrow> bool" where
  "settled_down n r ses \<longleftrightarrow> (local ses \<and> set (requests ses) = children 2 n r \<longrightarrow> fut ses)"

definition shell_inv ::
    "'j lib \<Rightarrow> nat \<Rightarrow> (nat \<Rightarrow> nat \<Rightarrow> 'j option) \<Rightarrow> bool \<Rightarrow> 'j sys \<Rightarrow> nat \<Rightarrow> bool" where
  "shell_inv L n inp strict s r \<longleftrightarrow> handle_ok n r (shells s r)
     \<and> (case xsession (shells s r) of
          None \<Rightarrow> True
        | Some ses \<Rightarrow> gathering L n inp (round_of s r) r ses \<and> (strict \<longrightarrow> settled_down n r ses))"

text \<open>
  The link of shell \<open>c\<close> to its parent: while \<open>c\<close> waits, its request is in flight, or held by the
  parent, or the answer is in flight, exactly one of these; otherwise none. Parent and child are in
  the same round, the parent being one ahead while an answer is in flight.
\<close>

definition link_inv ::
    "'j lib \<Rightarrow> nat \<Rightarrow> (nat \<Rightarrow> nat \<Rightarrow> 'j option) \<Rightarrow> 'j sys \<Rightarrow> nat \<Rightarrow> bool" where
  "link_inv L n inp s c \<longleftrightarrow>
     length (reqs s c) + of_bool (c \<in> set (received s (parent 2 c))) + length (resps s c)
       = of_bool (waiting s c)
     \<and> round_of s (parent 2 c) = round_of s c + length (resps s c)
     \<and> (\<forall>m\<in>set (reqs s c). fst m = parent 2 c \<and> json_is_array L (snd m)
          \<and> mset (json_array_elems L (snd m)) = subtree n inp (round_of s c) c)
     \<and> (\<forall>m\<in>set (resps s c). \<exists>D. m = Some D
          \<and> mset (json_array_elems L D) = total n inp (round_of s c))"

definition delivered ::
    "'j lib \<Rightarrow> nat \<Rightarrow> (nat \<Rightarrow> nat \<Rightarrow> 'j option) \<Rightarrow> nat \<Rightarrow> nat \<times> ('j, nat, nat) session \<Rightarrow> bool" where
  "delivered L n inp t e \<longleftrightarrow>
     fst e = t \<and> \<not> has_error (snd e)
     \<and> (\<exists>D. data_out (snd e) = Some D \<and> mset (json_array_elems L D) = total n inp t)"

definition outs_inv ::
    "'j lib \<Rightarrow> nat \<Rightarrow> (nat \<Rightarrow> nat \<Rightarrow> 'j option) \<Rightarrow> 'j sys \<Rightarrow> nat \<Rightarrow> bool" where
  "outs_inv L n inp s r \<longleftrightarrow> (\<forall>t<round_of s r. delivered L n inp t (outs s r ! t))"

text \<open>The whole; \<open>lax r\<close> exempts one shell in the middle of a handler from \<open>settled_down\<close>.\<close>

definition sys_inv ::
    "'j lib \<Rightarrow> nat \<Rightarrow> (nat \<Rightarrow> nat \<Rightarrow> 'j option) \<Rightarrow> nat option \<Rightarrow> 'j sys \<Rightarrow> bool" where
  "sys_inv L n inp lax s \<longleftrightarrow>
     (\<forall>r<n. shell_inv L n inp (lax \<noteq> Some r) s r \<and> outs_inv L n inp s r)
     \<and> (\<forall>c. 0 < c \<and> c < n \<longrightarrow> link_inv L n inp s c)
     \<and> (\<forall>c. \<not> (0 < c \<and> c < n) \<longrightarrow> reqs s c = [] \<and> resps s c = [])"

subsection \<open>The handlers when no library call fails\<close>

lemma respond_loop_ok:
  "(\<And>m. respond_ok E m) \<Longrightarrow> respond_loop E (Some d) ms = (map (\<lambda>m. Respond m d) ms, [], False)"
  by (induction ms) simp_all

lemma session_process_cases:
  assumes "session_process good_env xcg ses = Ok (xcg', es)"
    and "\<not> has_error ses" "\<not> fut ses" "0 \<le> xrank xcg"
  obtains (gather) "\<not> local ses \<or> length (requests ses) < xchild_count xcg"
      "xcg' = xcg\<lparr>xsession := Some ses\<rparr>" "es = []"
    | (send) "local ses" "xchild_count xcg \<le> length (requests ses)" "0 < xrank xcg"
      "xcg' = xcg\<lparr>xsession := Some (ses\<lparr>fut := True\<rparr>)\<rparr>" "es = [SendRequest (parent_rank xcg) (data_in ses)]"
    | (root) cb where "local ses" "xchild_count xcg \<le> length (requests ses)" "xrank xcg = 0"
      "exit_cb ses = Some cb" "xcg' = xcg\<lparr>xsession := None\<rparr>"
      "es = map (\<lambda>m. Respond m (data_in ses)) (requests ses)
         @ [ExitCb cb (ses\<lparr>data_out := Some (data_in ses), requests := []\<rparr>)]"
  using assms
  by (cases "xrank xcg = 0"; cases "exit_cb ses"; cases "local ses";
      cases "length (requests ses) < xchild_count xcg")
     (auto simp: session_process_def good_env_def Let_def session_done_def session_destroy_def
       respond_loop_ok)

lemma response_completion_ok:
  assumes "exchange_response_completion good_env (Some D) xcg = Ok (xcg', es)"
    and "xsession xcg = Some ses" "\<not> has_error ses" "fut ses" "local ses" "exit_cb ses = Some cb"
    and "xchild_count xcg \<le> length (requests ses)" "0 < xrank xcg"
  shows "xcg' = xcg\<lparr>xsession := None\<rparr>"
    and "es = map (\<lambda>m. Respond m D) (requests ses)
         @ [ExitCb cb (ses\<lparr>data_out := Some D, requests := []\<rparr>), FutureDestroyed]"
  using assms
  by (auto simp: exchange_response_completion_def session_process_def good_env_def Let_def
      session_done_def session_destroy_def respond_loop_ok)

lemma session_done_frame [simp]:
  "session_done (xcg\<lparr>xsession := x\<rparr>) ses es = session_done xcg ses es"
  by (simp add: session_done_def split: option.split)

lemma session_process_frame [simp]:
  "session_process E (xcg\<lparr>xsession := x\<rparr>) ses = session_process E xcg ses"
  by (simp add: session_process_def Let_def)

lemma pending_simps [simp]:
  "pending (xcg\<lparr>xsession := None\<rparr>) = []" "pending (xcg\<lparr>xsession := Some ses\<rparr>) = requests ses"
  by (simp_all add: pending_def)

lemma set_shell_sel [simp]:
  "shells (set_shell r xcg s) = (shells s)(r := xcg)" "reqs (set_shell r xcg s) = reqs s"
  "resps (set_shell r xcg s) = resps s" "outs (set_shell r xcg s) = outs s"
  by (simp_all add: set_shell_def)

lemma set_shell_twice [simp]: "set_shell r a (set_shell r b s) = set_shell r a s"
  by (simp add: set_shell_def)

lemma route_answers:
  "distinct ms \<Longrightarrow> route r (map (\<lambda>m. Respond m D) ms @ [ExitCb c ses]) s =
     s\<lparr>resps := (\<lambda>m. if m \<in> set ms then resps s m @ [Some D] else resps s m),
       outs := (outs s)(r := outs s r @ [(c, ses)])\<rparr>"
  by (induction ms arbitrary: s) (auto intro!: sys.equality ext)

subsection \<open>Preservation\<close>

lemma shell_inv_cong:
  "shells s' r = shells s r \<Longrightarrow> outs s' r = outs s r \<Longrightarrow>
   shell_inv L n inp strict s' r = shell_inv L n inp strict s r"
  by (simp add: shell_inv_def cong: option.case_cong)

lemma outs_inv_cong: "outs s' r = outs s r \<Longrightarrow> outs_inv L n inp s' r = outs_inv L n inp s r"
  by (simp add: outs_inv_def)

lemma link_inv_cong:
  "reqs s' c = reqs s c \<Longrightarrow> resps s' c = resps s c \<Longrightarrow> waiting s' c = waiting s c \<Longrightarrow>
   c \<in> set (received s' (parent 2 c)) \<longleftrightarrow> c \<in> set (received s (parent 2 c)) \<Longrightarrow>
   round_of s' c = round_of s c \<Longrightarrow> round_of s' (parent 2 c) = round_of s (parent 2 c) \<Longrightarrow>
   link_inv L n inp s' c = link_inv L n inp s c"
  by (simp add: link_inv_def)

lemma sys_invI:
  assumes "\<And>r. r < n \<Longrightarrow> shell_inv L n inp (lax \<noteq> Some r) s r"
    and "\<And>r. r < n \<Longrightarrow> outs_inv L n inp s r"
    and "\<And>c. 0 < c \<Longrightarrow> c < n \<Longrightarrow> link_inv L n inp s c"
    and "\<And>c. \<not> (0 < c \<and> c < n) \<Longrightarrow> reqs s c = [] \<and> resps s c = []"
  shows "sys_inv L n inp lax s"
  using assms by (simp add: sys_inv_def)

lemma sys_invD:
  assumes "sys_inv L n inp lax s"
  shows "r < n \<Longrightarrow> shell_inv L n inp (lax \<noteq> Some r) s r"
    and "r < n \<Longrightarrow> outs_inv L n inp s r"
    and "0 < c \<Longrightarrow> c < n \<Longrightarrow> link_inv L n inp s c"
    and "\<not> (0 < c \<and> c < n) \<Longrightarrow> reqs s c = [] \<and> resps s c = []"
  using assms unfolding sys_inv_def by blast+

text \<open>A shell completes: its children's links turn from held requests to answers in flight.\<close>

definition finish :: "nat \<Rightarrow> 'j \<Rightarrow> nat \<Rightarrow> ('j, nat, nat) session \<Rightarrow> 'j sys \<Rightarrow> 'j sys" where
  "finish r D cb ses s = s\<lparr>shells := (shells s)(r := (shells s r)\<lparr>xsession := None\<rparr>),
     resps := (\<lambda>m. if m \<in> set (received s r) then resps s m @ [Some D] else resps s m),
     outs := (outs s)(r := outs s r @ [(cb, ses)])\<rparr>"

lemma finish_sel [simp]:
  "shells (finish r D cb ses s) = (shells s)(r := (shells s r)\<lparr>xsession := None\<rparr>)"
  "reqs (finish r D cb ses s) = reqs s"
  "resps (finish r D cb ses s) = (\<lambda>m. if m \<in> set (received s r) then resps s m @ [Some D] else resps s m)"
  "outs (finish r D cb ses s) = (outs s)(r := outs s r @ [(cb, ses)])"
  by (simp_all add: finish_def)

lemma route_FutureDestroyed [simp]: "route r (es @ [FutureDestroyed]) s = route r es s"
  by (induction r es s rule: route.induct) auto

lemma route_finish:
  assumes "distinct (received s r)"
  shows "route r (map (\<lambda>m. Respond m D) (received s r) @ [ExitCb cb ses])
      (set_shell r ((shells s r)\<lparr>xsession := None\<rparr>) s) = finish r D cb ses s"
  using assms by (simp add: route_answers finish_def set_shell_def cong: if_cong)

text \<open>The three states of a link whose child waits, and the idle link.\<close>

lemma link_held:
  assumes "link_inv L n inp s c" and "c \<in> set (received s (parent 2 c))"
  shows "waiting s c \<and> reqs s c = [] \<and> resps s c = [] \<and> round_of s (parent 2 c) = round_of s c"
  using assms by (auto simp: link_inv_def of_bool_def split: if_splits)

lemma link_requested:
  assumes "link_inv L n inp s c" and "reqs s c = (p, d) # rest"
  shows "waiting s c \<and> rest = [] \<and> resps s c = [] \<and> c \<notin> set (received s (parent 2 c))
    \<and> round_of s (parent 2 c) = round_of s c \<and> p = parent 2 c \<and> json_is_array L d
    \<and> mset (json_array_elems L d) = subtree n inp (round_of s c) c"
  using assms by (auto simp: link_inv_def of_bool_def split: if_splits)

lemma link_answered:
  assumes "link_inv L n inp s c" and "resps s c = m # rest"
  shows "waiting s c \<and> rest = [] \<and> reqs s c = [] \<and> c \<notin> set (received s (parent 2 c))
    \<and> round_of s (parent 2 c) = Suc (round_of s c)
    \<and> (\<exists>D. m = Some D \<and> mset (json_array_elems L D) = total n inp (round_of s c))"
  using assms by (auto simp: link_inv_def of_bool_def split: if_splits)

lemma link_idle:
  assumes "link_inv L n inp s c" and "\<not> waiting s c"
  shows "reqs s c = [] \<and> resps s c = [] \<and> c \<notin> set (received s (parent 2 c))
    \<and> round_of s (parent 2 c) = round_of s c"
  using assms by (auto simp: link_inv_def of_bool_def split: if_splits)

lemma finish_link:
  assumes "link_inv L n inp s c" and "c \<noteq> r" "0 < c" "c < n"
    and "set (received s r) = children 2 n r"
    and "mset (json_array_elems L D) = total n inp (round_of s r)"
  shows "link_inv L n inp (finish r D cb ses s) c"
proof (cases "parent 2 c = r")
  case True
  then have "c \<in> set (received s r)" using assms by (simp add: children_def)
  with assms True link_held [OF assms(1)] show ?thesis
    by (simp add: link_inv_def waiting_def)
next
  case False
  then have "c \<notin> set (received s r)" using assms by (simp add: children_def)
  with assms False show ?thesis
    by (subst link_inv_cong [of _ _ s]) (auto simp: waiting_def)
qed

lemma finish_inv:
  assumes inv: "\<And>q. q < n \<Longrightarrow> q \<noteq> r \<Longrightarrow> shell_inv L n inp True s q"
    "\<And>q. q < n \<Longrightarrow> outs_inv L n inp s q"
    "\<And>c. 0 < c \<Longrightarrow> c < n \<Longrightarrow> c \<noteq> r \<Longrightarrow> link_inv L n inp s c"
    "\<And>c. \<not> (0 < c \<and> c < n) \<Longrightarrow> reqs s c = [] \<and> resps s c = []"
    and own: "0 < r \<Longrightarrow> link_inv L n inp (finish r D cb ses s) r"
    and r: "handle_ok n r (shells s r)" "set (received s r) = children 2 n r"
    and D: "mset (json_array_elems L D) = total n inp (round_of s r)"
    and ses: "delivered L n inp (round_of s r) (cb, ses)"
  shows "sys_inv L n inp None (finish r D cb ses s)"
proof (rule sys_invI)
  fix q assume q: "q < n"
  show "shell_inv L n inp (None \<noteq> Some q) (finish r D cb ses s) q"
  proof (cases "q = r")
    case True
    then show ?thesis using r by (simp add: shell_inv_def handle_ok_def)
  next
    case False
    then show ?thesis using inv(1) [OF q False] by (subst shell_inv_cong [of _ _ s]) auto
  qed
  show "outs_inv L n inp (finish r D cb ses s) q"
    using inv(2) [OF q] ses by (auto simp: outs_inv_def nth_append less_Suc_eq)
next
  fix c assume "0 < c" "c < n"
  then show "link_inv L n inp (finish r D cb ses s) c"
    using own finish_link [OF inv(3) _ _ _ r(2) D] by (cases "c = r") auto
next
  fix c assume "\<not> (0 < c \<and> c < n)"
  then show "reqs (finish r D cb ses s) c = [] \<and> resps (finish r D cb ses s) c = []"
    using inv(4) r(2) by (auto simp: children_def)
qed

lemma in_flight_range:
  "sys_inv L n inp lax s \<Longrightarrow> reqs s c \<noteq> [] \<or> resps s c \<noteq> [] \<Longrightarrow> 0 < c \<and> c < n"
  unfolding sys_inv_def by blast

text \<open>The session of a shell that can go on: all its children are in, so all their requests.\<close>

lemma gathering_full:
  assumes "gathering L n inp t r ses" and "card (children 2 n r) \<le> length (requests ses)"
  shows "set (requests ses) = children 2 n r"
proof (rule card_seteq)
  show "card (children 2 n r) \<le> card (set (requests ses))"
    using assms by (simp add: gathering_def distinct_card)
qed (use assms in \<open>auto simp: gathering_def\<close>)

lemma gathering_length:
  assumes "gathering L n inp t r ses"
  shows "length (requests ses) \<le> card (children 2 n r)"
    and "c \<in> children 2 n r \<Longrightarrow> c \<notin> set (requests ses) \<Longrightarrow>
      length (requests ses) < card (children 2 n r)"
proof -
  have *: "length (requests ses) = card (set (requests ses))" "set (requests ses) \<subseteq> children 2 n r"
    using assms by (simp_all add: gathering_def distinct_card)
  then show "length (requests ses) \<le> card (children 2 n r)" by (simp add: card_mono)
  assume "c \<in> children 2 n r" "c \<notin> set (requests ses)"
  then show "length (requests ses) < card (children 2 n r)"
    using * by (auto intro: psubset_card_mono)
qed

lemma shell_session:
  "shell_inv L n inp strict s r \<Longrightarrow> xsession (shells s r) = Some ses \<Longrightarrow>
   gathering L n inp (round_of s r) r ses"
  by (simp add: shell_inv_def)

lemma gathered_all:
  "gathering L n inp t r ses \<Longrightarrow> local ses \<Longrightarrow> set (requests ses) = children 2 n r \<Longrightarrow>
   mset (json_array_elems L (data_in ses)) = subtree n inp t r"
  by (subst subtree.simps) (simp add: gathering_def)

text \<open>How many steps a shell has made: entries, requests and answers received.\<close>

definition steps_made :: "nat \<Rightarrow> 'j sys \<Rightarrow> nat \<Rightarrow> nat" where
  "steps_made n s r = round_of s r + length (outstanding (shells s r))
     + card (children 2 n r) * round_of s r + length (received s r) + (if 0 < r then round_of s r else 0)"

lemma outstanding_gathering:
  "gathering L n inp t r ses \<Longrightarrow> xsession xcg = Some ses \<Longrightarrow>
   outstanding xcg = (if local ses then [t] else [])"
  by (simp add: gathering_def outstanding_def)

lemma parent_rank_eq:
  assumes "n < 2 ^ 31" "0 < r" "r < n"
  shows "unat (kary_parentof 2 (of_nat r)) = parent 2 r"
proof -
  have "unat (of_nat r :: u32) = r" using assms by (simp add: unat_of_nat)
  then show ?thesis using assms kary_parentof_eq [of 2 "of_nat r"] by simp
qed

text \<open>
  The call of \<^verbatim>\<open>session_process\<close> that ends a handler, from a session in which something was added:
  a shell below the root that has everything sends its request, the root completes.
\<close>

lemma send_preserves:
  fixes s :: "'j sys"
  defines "s' \<equiv> \<lambda>r ses. s\<lparr>shells := (shells s)(r := (shells s r)\<lparr>xsession := Some (ses\<lparr>fut := True\<rparr>)\<rparr>),
     reqs := (reqs s)(r := reqs s r @ [(parent 2 r, data_in ses)])\<rparr>"
  assumes r: "0 < r" "r < n"
    and inv: "sys_inv L n inp (Some r) s"
    and ses: "xsession (shells s r) = Some ses" "\<not> fut ses" "local ses"
    and full: "set (requests ses) = children 2 n r"
  shows "sys_inv L n inp None (s' r ses)"
proof (rule sys_invI)
  note shell = sys_invD(1) [OF inv r(2)]
  then have h: "handle_ok n r (shells s r)" by (simp add: shell_inv_def)
  note g = shell_session [OF shell ses(1)]
  note link = sys_invD(3) [OF inv r]
  have "\<not> waiting s r" using ses by (simp add: waiting_def)
  note idle = link_idle [OF link this]
  {
    fix q assume q: "q < n"
    show "shell_inv L n inp (None \<noteq> Some q) (s' r ses) q"
    proof (cases "q = r")
      case True
      then show ?thesis using h g ses full r
        by (simp add: s'_def shell_inv_def gathering_def handle_ok_def settled_down_def)
    next
      case False
      then show ?thesis using sys_invD(1) [OF inv q]
        by (subst shell_inv_cong [of _ _ s]) (auto simp: s'_def)
    qed
    show "outs_inv L n inp (s' r ses) q"
      using sys_invD(2) [OF inv q] by (subst outs_inv_cong [of _ _ s]) (auto simp: s'_def)
  next
    fix c assume c: "0 < c" "c < n"
    have pne: "parent 2 c \<noteq> c" using parent_less [of 2 c] c by simp
    show "link_inv L n inp (s' r ses) c"
    proof (cases "c = r")
      case True
      with pne idle link gathered_all [OF g ses(3) full] g show ?thesis
        by (auto simp: s'_def link_inv_def waiting_def gathering_def)
    next
      case False
      then show ?thesis using sys_invD(3) [OF inv c] ses
        by (subst link_inv_cong [of _ _ s]) (auto simp: s'_def waiting_def pending_def)
    qed
  next
    fix c assume "\<not> (0 < c \<and> c < n)"
    then show "reqs (s' r ses) c = [] \<and> resps (s' r ses) c = []"
      using sys_invD(4) [OF inv] r by (auto simp: s'_def)
  }
qed

lemma root_preserves:
  assumes n: "0 < n"
    and inv: "sys_inv L n inp (Some 0) s"
    and ses: "xsession (shells s 0) = Some ses" "local ses" "exit_cb ses = Some cb"
    and full: "set (requests ses) = children 2 n 0"
  shows "sys_inv L n inp None
    (finish 0 (data_in ses) cb (ses\<lparr>data_out := Some (data_in ses), requests := []\<rparr>) s)"
proof (rule finish_inv)
  note shell = sys_invD(1) [OF inv n]
  then show "handle_ok n 0 (shells s 0)" by (simp add: shell_inv_def)
  note g = shell_session [OF shell ses(1)]
  show "shell_inv L n inp True s q" if "q < n" "q \<noteq> 0" for q
    using sys_invD(1) [OF inv that(1)] that(2) by simp
  show D: "mset (json_array_elems L (data_in ses)) = total n inp (round_of s 0)"
    using gathered_all [OF g ses(2) full] subtree_root [OF n] by simp
  show "delivered L n inp (round_of s 0) (cb, ses\<lparr>data_out := Some (data_in ses), requests := []\<rparr>)"
    using D g ses by (simp add: delivered_def gathering_def)
  show "set (received s 0) = children 2 n 0" using ses(1) full by (simp add: pending_def)
qed (use sys_invD(2-4) [OF inv] in auto)

lemma sys_inv_unlax:
  assumes "sys_inv L n inp (Some r) s"
    and "\<And>ses. xsession (shells s r) = Some ses \<Longrightarrow> settled_down n r ses"
  shows "sys_inv L n inp None s"
proof (rule sys_invI)
  fix q assume "q < n"
  then show "shell_inv L n inp (None \<noteq> Some q) s q"
    using sys_invD(1) [OF assms(1), of q] assms(2)
    by (cases "q = r") (auto simp: shell_inv_def split: option.splits)
qed (use sys_invD(2-4) [OF assms(1)] in auto)

lemma process_preserves:
  assumes n: "0 < n" "n < 2 ^ 31" "r < n"
    and inv: "sys_inv L n inp (Some r) s"
    and ses: "xsession (shells s r) = Some ses" "\<not> fut ses"
    and proc: "session_process good_env (shells s r) ses = Ok (xcg', es)"
  shows "sys_inv L n inp None (route r es (set_shell r xcg' s))
    \<and> steps_made n (route r es (set_shell r xcg' s)) r = steps_made n s r
    \<and> (\<forall>q. q \<noteq> r \<longrightarrow> shells (route r es (set_shell r xcg' s)) q = shells s q
          \<and> outs (route r es (set_shell r xcg' s)) q = outs s q)"
proof -
  note shell = sys_invD(1) [OF inv n(3)]
  then have h: "handle_ok n r (shells s r)" by (simp add: shell_inv_def)
  note g = shell_session [OF shell ses(1)]
  have err: "\<not> has_error ses" "0 \<le> xrank (shells s r)" and dist: "distinct (requests ses)"
    using g h by (simp_all add: gathering_def handle_ok_def)
  have full: "set (requests ses) = children 2 n r"
    if "xchild_count (shells s r) \<le> length (requests ses)"
    using gathering_full [OF g] that h by (simp add: handle_ok_def)
  from proc err(1) ses(2) err(2) show ?thesis
  proof (cases rule: session_process_cases)
    case gather
    have "settled_down n r ses"
      using gather(1) h distinct_card [OF dist] by (auto simp: settled_down_def handle_ok_def)
    with ses(1) have "sys_inv L n inp None s" by (intro sys_inv_unlax [OF inv]) simp
    moreover have "set_shell r ((shells s r)\<lparr>xsession := Some ses\<rparr>) s = s"
      using ses(1) by (simp add: set_shell_def fun_upd_idem)
    ultimately show ?thesis using gather by simp
  next
    case send
    then have r0: "0 < r" using h by (simp add: handle_ok_def)
    have "unat (parent_rank (shells s r)) = parent 2 r"
      using h parent_rank_eq [OF n(2) r0 n(3)] by (simp add: handle_ok_def)
    with send_preserves [OF r0 n(3) inv ses send(1) full [OF send(2)]] send ses show ?thesis
      by (simp add: set_shell_def steps_made_def pending_def outstanding_def)
  next
    case (root cb)
    then have r0: "r = 0" using h by (simp add: handle_ok_def)
    have rec: "received s r = requests ses" using ses by (simp add: pending_def)
    let ?ses = "ses\<lparr>data_out := Some (data_in ses), requests := []\<rparr>"
    have s': "route r es (set_shell r xcg' s) = finish r (data_in ses) cb ?ses s"
      using root(5,6) dist rec route_finish [of s r "data_in ses" cb ?ses] by simp
    have "steps_made n (finish r (data_in ses) cb ?ses s) r = steps_made n s r"
      using outstanding_gathering [OF g ses(1)] root full [OF root(2)] distinct_card [OF dist] r0 rec
      by (simp add: steps_made_def outstanding_def)
    with root_preserves [of n L inp s ses cb] root(1,4) full [OF root(2)] n inv ses r0
    show ?thesis unfolding s' by simp
  qed
qed

text \<open>A handler that touches the session of one shell, before it calls \<^verbatim>\<open>session_process\<close>.\<close>

lemma set_session_inv:
  assumes inv: "sys_inv L n inp None s"
    and g: "gathering L n inp (round_of s r) r ses" and nofut: "\<not> fut ses" "\<not> waiting s r"
    and s': "s' = s\<lparr>shells := (shells s)(r := (shells s r)\<lparr>xsession := Some ses\<rparr>), reqs := rq\<rparr>"
    and links: "\<And>c. 0 < c \<Longrightarrow> c < n \<Longrightarrow> parent 2 c = r \<Longrightarrow> link_inv L n inp s' c"
    and rq: "\<And>c. parent 2 c \<noteq> r \<or> \<not> (0 < c \<and> c < n) \<Longrightarrow> rq c = reqs s c"
  shows "sys_inv L n inp (Some r) s'"
proof (rule sys_invI)
  fix q assume q: "q < n"
  show "shell_inv L n inp (Some r \<noteq> Some q) s' q"
  proof (cases "q = r")
    case True
    then show ?thesis using sys_invD(1) [OF inv q] g by (simp add: s' shell_inv_def handle_ok_def)
  next
    case False
    then show ?thesis using sys_invD(1) [OF inv q]
      by (subst shell_inv_cong [of _ _ s]) (auto simp: s')
  qed
  show "outs_inv L n inp s' q"
    using sys_invD(2) [OF inv q] by (subst outs_inv_cong [of _ _ s]) (auto simp: s')
next
  fix c assume c: "0 < c" "c < n"
  show "link_inv L n inp s' c"
  proof (cases "parent 2 c = r")
    case False
    then show ?thesis using sys_invD(3) [OF inv c] rq [of c] nofut
      by (subst link_inv_cong [of _ _ s]) (auto simp: s' waiting_def)
  qed (use links c in auto)
next
  fix c assume "\<not> (0 < c \<and> c < n)"
  then show "reqs s' c = [] \<and> resps s' c = []"
    using sys_invD(4) [OF inv] rq [of c] by (simp add: s')
qed

lemma sys_inv_exchange_inv:
  assumes "shell_inv L n inp strict s r"
  shows "exchange_inv (shells s r)"
proof (cases "xsession (shells s r)")
  case (Some ses)
  note g = shell_session [OF assms Some]
  show ?thesis using Some assms g gathering_length(1) [OF g] distinct_card [of "requests ses"]
    by (auto simp: exchange_inv_def session_inv_def gathering_def shell_inv_def handle_ok_def)
qed (simp add: exchange_inv_def)

text \<open>The outcome of a step on shell \<open>r\<close>: the invariant, and one more step made there.\<close>

definition good_step ::
    "'j lib \<Rightarrow> nat \<Rightarrow> (nat \<Rightarrow> nat \<Rightarrow> 'j option) \<Rightarrow> 'j sys \<Rightarrow> nat \<Rightarrow> 'j sys \<Rightarrow> bool" where
  "good_step L n inp s r s' \<longleftrightarrow>
     sys_inv L n inp None s' \<and> r < n \<and> steps_made n s' r = Suc (steps_made n s r)
     \<and> (\<forall>q. q \<noteq> r \<longrightarrow> shells s' q = shells s q \<and> outs s' q = outs s q)"

context jansson_mem
begin

lemma session_create_ok:
  obtains a where "(session_create L good_env :: (_, nat, nat) session option) =
      Some \<lparr>data_in = a, data_out = None, exit_cb = None, requests = [], fut = False, local = False,
            has_error = False\<rparr>"
    and "json_is_array L a" "json_array_elems L a = []"
  using array_ok array by (auto simp: session_create_def good_env_def)

text \<open>The session a handler works on: the shell's, or a fresh one.\<close>

lemma working_session:
  assumes "shell_inv L n inp strict s r"
  obtains ses where
    "(case xsession (shells s r) of None \<Rightarrow> session_create L good_env | Some s \<Rightarrow> Some s) = Some ses"
    "gathering L n inp (round_of s r) r ses" "requests ses = received s r"
    "fut ses \<longleftrightarrow> waiting s r"
    "length (outstanding (shells s r)) = of_bool (local ses)"
proof (cases "xsession (shells s r)")
  case None
  obtain a where a: "(session_create L good_env :: (_, nat, nat) session option) =
      Some \<lparr>data_in = a, data_out = None, exit_cb = None, requests = [], fut = False, local = False,
            has_error = False\<rparr>" "json_is_array L a" "json_array_elems L a = []"
    by (rule session_create_ok)
  then show ?thesis using None
    by (intro that [of "\<lparr>data_in = a, data_out = None, exit_cb = None, requests = [], fut = False,
        local = False, has_error = False\<rparr>"]) (auto simp: gathering_def pending_def waiting_def outstanding_def)
next
  case (Some ses)
  note g = shell_session [OF assms Some]
  show ?thesis using Some g outstanding_gathering [OF g Some]
    by (intro that [of ses]) (auto simp: pending_def waiting_def)
qed

lemma enter_good:
  assumes n: "0 < n" "n < 2 ^ 31" "r < n" and inv: "sys_inv L n inp None s"
    and inp: "\<And>d. inp r (round_of s r) = Some d \<Longrightarrow> json_is_string L d"
    and idle: "outstanding (shells s r) = []"
    and enter: "exchange_enter_base64_string L good_env (inp r (round_of s r)) (Some (round_of s r))
      (Some (shells s r)) = Ok (rc, Some xcg, es)"
  shows "good_step L n inp s r (route r es (set_shell r xcg s))"
proof -
  obtain ses where ses:
    "(case xsession (shells s r) of None \<Rightarrow> session_create L good_env | Some s \<Rightarrow> Some s) = Some ses"
    "gathering L n inp (round_of s r) r ses" "requests ses = received s r"
    "fut ses \<longleftrightarrow> waiting s r" "length (outstanding (shells s r)) = of_bool (local ses)"
    by (rule working_session [OF sys_invD(1) [OF inv n(3)]])
  have loc: "\<not> local ses" using ses(5) idle by simp
  then have nofut: "\<not> fut ses" using ses(2) by (simp add: gathering_def)
  have arr: "json_is_array L (data_in ses)" using ses(2) by (simp add: gathering_def)
  obtain a where a: "(case inp r (round_of s r) of None \<Rightarrow> Some (data_in ses)
        | Some d \<Rightarrow> json_array_append L (data_in ses) d) = Some a" "json_is_array L a"
      "mset (json_array_elems L a) = mset (json_array_elems L (data_in ses)) + contrib inp (round_of s r) r"
  proof (cases "inp r (round_of s r)")
    case (Some d)
    obtain a where "json_array_append L (data_in ses) d = Some a" using append_ok [OF arr, of d] by auto
    with append [OF arr this] Some show ?thesis by (intro that [of a]) (auto simp: contrib_def)
  qed (use that [of "data_in ses"] arr in \<open>simp add: contrib_def\<close>)
  let ?ses = "ses\<lparr>exit_cb := Some (round_of s r), local := True, data_in := a\<rparr>"
  let ?s = "set_shell r ((shells s r)\<lparr>xsession := Some ?ses\<rparr>) s"
  have g: "gathering L n inp (round_of s r) r ?ses"
    using ses(2) a loc nofut by (simp add: gathering_def ac_simps)
  have lax: "sys_inv L n inp (Some r) ?s"
  proof (rule set_session_inv [OF inv g, where rq = "reqs s"])
    fix c assume c: "0 < c" "c < n" "parent 2 c = r"
    have "c \<noteq> r" using parent_less [of 2 c] c by auto
    then show "link_inv L n inp ?s c" using sys_invD(3) [OF inv c(1,2)] ses(3)
      by (subst link_inv_cong [of _ _ s]) (auto simp: waiting_def c(3))
  qed (use nofut ses(4) in \<open>auto simp: set_shell_def\<close>)
  have "session_process good_env (shells ?s r) ?ses = Ok (xcg, es)"
    using enter ses(1) loc a(1) inp
    by (cases "inp r (round_of s r)")
       (auto simp: exchange_enter_base64_string_def Let_def bind_outcome_Ok_iff)
  from process_preserves [OF n lax _ _ this] nofut
  have "sys_inv L n inp None (route r es (set_shell r xcg s))
    \<and> steps_made n (route r es (set_shell r xcg s)) r = steps_made n ?s r
    \<and> (\<forall>q. q \<noteq> r \<longrightarrow> shells (route r es (set_shell r xcg s)) q = shells s q
          \<and> outs (route r es (set_shell r xcg s)) q = outs s q)"
    by simp
  moreover have "steps_made n ?s r = Suc (steps_made n s r)"
    using idle ses(3) by (simp add: steps_made_def outstanding_def)
  ultimately show ?thesis using n by (simp add: good_step_def)
qed


lemma request_good:
  assumes n: "0 < n" "n < 2 ^ 31" and inv: "sys_inv L n inp None s"
    and req: "reqs s c = (p, d) # rest"
    and cb: "exchange_request_cb L good_env c (Some d) (shells s p) = Ok (xcg, es)"
  shows "good_step L n inp s p (route p es (set_shell p xcg (s\<lparr>reqs := (reqs s)(c := rest)\<rparr>)))"
proof -
  let ?sr = "s\<lparr>reqs := (reqs s)(c := rest)\<rparr>"
  have c: "0 < c" "c < n" using in_flight_range [OF inv, of c] req by auto
  note link = link_requested [OF sys_invD(3) [OF inv c] req]
  have p: "p = parent 2 c" "p < n" using link parent_less [of 2 c] c by auto
  have child: "c \<in> children 2 n p" using p c by (simp add: children_def)
  obtain ses where ses:
    "(case xsession (shells s p) of None \<Rightarrow> session_create L good_env | Some s \<Rightarrow> Some s) = Some ses"
    "gathering L n inp (round_of s p) p ses" "requests ses = received s p"
    "fut ses \<longleftrightarrow> waiting s p" "length (outstanding (shells s p)) = of_bool (local ses)"
    by (rule working_session [OF sys_invD(1) [OF inv p(2)]])
  have new: "c \<notin> set (requests ses)" using link p ses(3) by simp
  have nofut: "\<not> fut ses" using ses(2) new child by (auto simp: gathering_def)
  have room: "length (requests ses) < xchild_count (shells s p)"
    using gathering_length(2) [OF ses(2) child new] sys_invD(1) [OF inv p(2)]
    by (simp add: shell_inv_def handle_ok_def)
  have arr: "json_is_array L (data_in ses)" using ses(2) by (simp add: gathering_def)
  obtain a where a: "json_array_extend L (data_in ses) d = Some a"
    using extend_ok [OF arr, of d] link by auto
  let ?ses = "ses\<lparr>data_in := a, requests := requests ses @ [c]\<rparr>"
  let ?s = "set_shell p ((shells s p)\<lparr>xsession := Some ?ses\<rparr>) ?sr"
  have g: "gathering L n inp (round_of s p) p ?ses"
    using ses(2) extend [OF a] new child nofut link p by (auto simp: gathering_def ac_simps)
  have lax: "sys_inv L n inp (Some p) ?s"
  proof (rule set_session_inv [OF inv g, where rq = "(reqs s)(c := rest)"])
    fix b assume b: "0 < b" "b < n" "parent 2 b = p"
    have bp: "b \<noteq> p" using parent_less [of 2 b] b by auto
    show "link_inv L n inp ?s b"
    proof (cases "b = c")
      case True
      with link sys_invD(3) [OF inv c] p bp show ?thesis by (auto simp: link_inv_def waiting_def)
    next
      case False
      with sys_invD(3) [OF inv b(1,2)] ses(3) bp show ?thesis
        by (subst link_inv_cong [of _ _ s]) (auto simp: waiting_def b(3))
    qed
  qed (use nofut ses(4) p c in \<open>auto simp: set_shell_def\<close>)
  have "session_process good_env (shells ?s p) ?ses = Ok (xcg, es)"
    using cb ses(1) room a by (simp add: exchange_request_cb_def Let_def) (simp add: good_env_def)
  from process_preserves [OF n p(2) lax _ _ this] nofut
  have "sys_inv L n inp None (route p es (set_shell p xcg ?sr))
    \<and> steps_made n (route p es (set_shell p xcg ?sr)) p = steps_made n ?s p
    \<and> (\<forall>q. q \<noteq> p \<longrightarrow> shells (route p es (set_shell p xcg ?sr)) q = shells s q
          \<and> outs (route p es (set_shell p xcg ?sr)) q = outs s q)"
    by simp
  moreover have "steps_made n ?s p = Suc (steps_made n s p)"
    using ses(3,5) g outstanding_gathering [OF g, of "shells ?s p"] by (simp add: steps_made_def)
  ultimately show ?thesis using p by (simp add: good_step_def)
qed

lemma response_good:
  assumes n: "0 < n" "n < 2 ^ 31" and inv: "sys_inv L n inp None s"
    and resp: "resps s c = reply # rest"
    and cb: "exchange_response_completion good_env reply (shells s c) = Ok (xcg, es)"
  shows "good_step L n inp s c (route c es (set_shell c xcg (s\<lparr>resps := (resps s)(c := rest)\<rparr>)))"
proof -
  let ?sr = "s\<lparr>resps := (resps s)(c := rest)\<rparr>"
  have c: "0 < c" "c < n" using in_flight_range [OF inv, of c] resp by auto
  note link = link_answered [OF sys_invD(3) [OF inv c] resp]
  then obtain D where D: "reply = Some D" "mset (json_array_elems L D) = total n inp (round_of s c)"
    by blast
  note shell = sys_invD(1) [OF inv c(2)]
  then have h: "handle_ok n c (shells s c)" by (simp add: shell_inv_def)
  from link obtain ses where ses: "xsession (shells s c) = Some ses" "fut ses"
    by (auto simp: waiting_def split: option.splits)
  note g = shell_session [OF shell ses(1)]
  have all: "local ses" "exit_cb ses = Some (round_of s c)" "set (requests ses) = children 2 n c"
      "distinct (requests ses)" "\<not> has_error ses"
    using g ses(2) by (auto simp: gathering_def)
  have cnt: "length (requests ses) = card (children 2 n c)" using all distinct_card by metis
  let ?ses = "ses\<lparr>data_out := Some D, requests := []\<rparr>"
  have xcg: "xcg = (shells s c)\<lparr>xsession := None\<rparr>"
      "es = (map (\<lambda>m. Respond m D) (requests ses) @ [ExitCb (round_of s c) ?ses]) @ [FutureDestroyed]"
    using response_completion_ok [OF cb [unfolded D(1)] ses(1) all(5) ses(2) all(1,2)] h c cnt
    by (simp_all add: handle_ok_def)
  have rec: "received s c = requests ses" using ses by (simp add: pending_def)
  have s': "route c es (set_shell c xcg ?sr) = finish c D (round_of s c) ?ses ?sr"
    using route_finish [of ?sr c D "round_of s c" ?ses] xcg all(4) rec by (simp only: route_FutureDestroyed) simp
  have "sys_inv L n inp None (finish c D (round_of s c) ?ses ?sr)"
  proof (rule finish_inv)
    show "shell_inv L n inp True ?sr q" if "q < n" for q
      using sys_invD(1) [OF inv that] by (subst shell_inv_cong [of _ _ s]) auto
    show "outs_inv L n inp ?sr q" if "q < n" for q
      using sys_invD(2) [OF inv that] by (subst outs_inv_cong [of _ _ s]) auto
    show "link_inv L n inp ?sr b" if "0 < b" "b < n" "b \<noteq> c" for b
      using sys_invD(3) [OF inv that(1,2)] that(3)
      by (subst link_inv_cong [of _ _ s]) (auto simp: waiting_def)
    show "reqs ?sr b = [] \<and> resps ?sr b = []" if "\<not> (0 < b \<and> b < n)" for b
      using sys_invD(4) [OF inv that] c that by auto
    have "c \<notin> set (requests ses)" using all(3) parent_less [of 2 c] c by (auto simp: children_def)
    then show "link_inv L n inp (finish c D (round_of s c) ?ses ?sr) c"
      using link rec parent_less [of 2 c] c by (auto simp: link_inv_def waiting_def)
    show "delivered L n inp (round_of ?sr c) (round_of s c, ?ses)"
      using D all by (simp add: delivered_def)
  qed (use h rec all D in simp_all)
  moreover have "steps_made n (finish c D (round_of s c) ?ses ?sr) c = Suc (steps_made n s c)"
    using outstanding_gathering [OF g ses(1)] all cnt c rec by (simp add: steps_made_def outstanding_def)
  ultimately show ?thesis using c by (simp add: good_step_def s')
qed

lemma sys_step_good:
  assumes n: "0 < n" "n < 2 ^ 31" and inv: "sys_inv L n inp None s"
    and inp: "valid_inputs L inp"
    and step: "sys_step L n inp T s s'"
  shows "\<exists>r. good_step L n inp s r s'"
  using step
proof cases
  case (enter r t rc xcg es)
  then show ?thesis using enter_good [OF n _ inv] inp unfolding valid_inputs_def by blast
next
  case (request c p d rest xcg es)
  then show ?thesis using request_good [OF n inv] by blast
next
  case (response c reply rest xcg es)
  then show ?thesis using response_good [OF n inv] by blast
qed

end

lemma sys_init_handle:
  assumes "n < 2 ^ 31" and "r < n"
  shows "handle_ok n r (shells (sys_init n) r)" and "xsession (shells (sys_init n) r) = None"
proof -
  have "unat (of_nat n :: u32) = n" "unat (of_nat r :: u32) = r"
    using assms by (simp_all add: unat_of_nat)
  then show "handle_ok n r (shells (sys_init n) r)" using assms child_count_eq [of 2 "of_nat r" "of_nat n"]
    by (simp add: sys_init_def exchange_create_def handle_ok_def DEFAULT_TREE_K_def)
  show "xsession (shells (sys_init n) r) = None" by (simp add: sys_init_def exchange_create_def)
qed

lemma sys_init_inv:
  fixes L :: "'j lib"
  assumes "n < 2 ^ 31"
  shows "sys_inv L n inp None (sys_init n)"
proof (rule sys_invI)
  have idle: "xsession (shells (sys_init n :: 'j sys) r) = None" for r
    by (simp add: sys_init_def exchange_create_def)
  then show "shell_inv L n inp (None \<noteq> Some r) (sys_init n) r" if "r < n" for r
    using sys_init_handle [OF assms that] by (simp add: shell_inv_def)
  show "link_inv L n inp (sys_init n) c" if "0 < c" "c < n" for c
    using idle by (simp add: link_inv_def waiting_def pending_def) (simp add: sys_init_def)
qed (simp_all add: sys_init_def outs_inv_def)

lemma good_step_total:
  fixes s :: "'j sys"
  assumes "good_step L n inp s r s'"
  shows "(\<Sum>q<n. steps_made n s' q) = Suc (\<Sum>q<n. steps_made n s q)"
proof -
  have same: "steps_made n s' q = steps_made n s q" if "q \<noteq> r" for q
    using assms that by (simp add: good_step_def steps_made_def)
  have "r \<in> {..<n}" using assms by (simp add: good_step_def)
  then have "(\<Sum>q<n. steps_made n x q) = steps_made n x r + (\<Sum>q\<in>{..<n} - {r}. steps_made n x q)"
    for x :: "'j sys"
    by (simp add: sum.remove)
  moreover have "(\<Sum>q\<in>{..<n} - {r}. steps_made n s' q) = (\<Sum>q\<in>{..<n} - {r}. steps_made n s q)"
    using same by (intro sum.cong) auto
  ultimately show ?thesis using assms by (simp add: good_step_def)
qed

context jansson_mem
begin

lemma sys_reach_inv:
  assumes "sys_reach L n inp T k s" and "0 < n" "n < 2 ^ 31"
    and "valid_inputs L inp"
  shows "sys_inv L n inp None s \<and> k = (\<Sum>r<n. steps_made n s r)"
  using assms(1)
proof induction
  case reach_init
  have "steps_made n (sys_init n :: 'a sys) r = 0" for r
    by (simp add: steps_made_def sys_init_def exchange_create_def outstanding_def pending_def)
  then show ?case using sys_init_inv [OF assms(3)] by simp
next
  case (reach_step k s s')
  then obtain r where "good_step L n inp s r s'" using sys_step_good assms by blast
  with reach_step good_step_total show ?case by (fastforce simp: good_step_def)
qed

end

subsection \<open>Progress\<close>

lemma route_sel [simp]:
  "shells (route r es s) = shells s" "outs (route r es s) = (outs s)(r := outs s r @ exits es)"
  by (induction r es s rule: route.induct) auto

definition within :: "nat \<Rightarrow> nat \<Rightarrow> 'j sys \<Rightarrow> bool" where
  "within n T s \<longleftrightarrow> (\<forall>r<n. round_of s r + length (outstanding (shells s r)) \<le> T)"

lemma handles_count:
  assumes "handles xcg ms cs (xcg', es)"
  shows "length (exits es) + length (outstanding xcg') = length (outstanding xcg) + length cs"
proof -
  have "length (map fst (exits es) @ outstanding xcg') = length (outstanding xcg @ cs)"
    using assms by (simp add: handles_def)
  then show ?thesis by simp
qed

lemma outstanding_le: "length (outstanding xcg) \<le> 1"
  by (simp add: outstanding_def split: option.split)

lemma enter_count:
  assumes "exchange_inv xcg"
    and "exchange_enter_base64_string L E data (Some c) (Some xcg) = Ok (rc, Some xcg', es)"
  shows "length (exits es) + length (outstanding xcg') \<le> Suc (length (outstanding xcg))"
proof -
  from enter_handles [OF assms(1), of L E data c] assms(2)
  have "handles xcg [] (if installs rc then [c] else []) (xcg', es)" by auto
  from handles_count [OF this] show ?thesis by (simp split: if_splits)
qed

context jansson_mem
begin

lemma step_handlers:
  assumes inv: "sys_inv L n inp None s"
  shows "r < n \<Longrightarrow> \<exists>rc xcg es. exchange_enter_base64_string L good_env (inp r t) (Some c) (Some (shells s r))
      = Ok (rc, Some xcg, es)"
    and "reqs s c = (p, d) # rest \<Longrightarrow> \<exists>xcg es. exchange_request_cb L good_env c (Some d) (shells s p)
      = Ok (xcg, es) \<and> handles (shells s p) [c] [] (xcg, es)"
    and "resps s c = m # rest' \<Longrightarrow> \<exists>xcg es. exchange_response_completion good_env m (shells s c)
      = Ok (xcg, es) \<and> handles (shells s c) [] [] (xcg, es)"
proof -
  have inv': "exchange_inv (shells s q)" if "q < n" for q
    using sys_inv_exchange_inv sys_invD(1) [OF inv that] .
  show "\<exists>rc xcg es. exchange_enter_base64_string L good_env (inp r t) (Some c) (Some (shells s r))
      = Ok (rc, Some xcg, es)" if "r < n"
    using enter_handles [OF inv' [OF that], of L good_env "inp r t" c] by blast
  show "\<exists>xcg es. exchange_request_cb L good_env c (Some d) (shells s p)
      = Ok (xcg, es) \<and> handles (shells s p) [c] [] (xcg, es)" if "reqs s c = (p, d) # rest"
  proof -
    have c: "0 < c" "c < n" using in_flight_range [OF inv, of c] that by auto
    then have "p < n" using link_requested [OF sys_invD(3) [OF inv c] that] parent_less [of 2 c] by simp
    then show ?thesis using request_handles [OF inv', of p L good_env c "Some d"] by blast
  qed
  show "\<exists>xcg es. exchange_response_completion good_env m (shells s c)
      = Ok (xcg, es) \<and> handles (shells s c) [] [] (xcg, es)" if "resps s c = m # rest'"
  proof -
    have c: "0 < c" "c < n" using in_flight_range [OF inv, of c] that by auto
    have "waiting s c" using link_answered [OF sys_invD(3) [OF inv c] that] by simp
    then show ?thesis using response_handles [OF inv' [OF c(2)], of _ good_env m]
      by (auto simp: waiting_def split: option.splits)
  qed
qed

lemma sys_step_within:
  assumes "sys_step L n inp T s s'" and inv: "sys_inv L n inp None s" and within: "within n T s"
  shows "within n T s'"
  using assms(1)
proof cases
  case (enter r t rc xcg es)
  from enter_count [OF sys_inv_exchange_inv [OF sys_invD(1) [OF inv enter(2)]] enter(6)]
    enter within show ?thesis by (auto simp: within_def)
next
  case (request c p d rest xcg es)
  with step_handlers(2) [OF inv request(2)] have "handles (shells s p) [c] [] (xcg, es)" by simp
  from handles_count [OF this] request(1) within show ?thesis by (auto simp: within_def)
next
  case (response c m rest xcg es)
  with step_handlers(3) [OF inv response(2)] have "handles (shells s c) [] [] (xcg, es)" by simp
  from handles_count [OF this] response(1) within show ?thesis by (auto simp: within_def)
qed

lemma sys_reach_within:
  assumes "sys_reach L n inp T k s" and "0 < n" "n < 2 ^ 31"
    and "valid_inputs L inp"
  shows "within n T s"
  using assms(1)
proof induction
  case reach_init
  then show ?case by (simp add: within_def sys_init_def exchange_create_def outstanding_def)
next
  case (reach_step k s s')
  then show ?case using sys_step_within sys_reach_inv [OF reach_step(1) assms(2-4)] by blast
qed

text \<open>Quiet: nothing in flight, and no shell can enter another exchange.\<close>

lemma stuck_quiet:
  assumes inv: "sys_inv L n inp None s" and within: "within n T s"
    and stuck: "\<nexists>s'. sys_step L n inp T s s'"
  shows "reqs s c = []" and "resps s c = []"
    and "r < n \<Longrightarrow> outstanding (shells s r) = [] \<Longrightarrow> round_of s r = T"
proof -
  show "reqs s c = []"
  proof (cases "reqs s c")
    case (Cons m rest)
    obtain p d where "m = (p, d)" by (cases m)
    with Cons have req: "reqs s c = (p, d) # rest" by simp
    show ?thesis using step_handlers(2) [OF inv req] stuck sys_step.request [OF req] by blast
  qed
  show "resps s c = []"
    using step_handlers(3) [OF inv, of c] stuck sys_step.response by (cases "resps s c") blast+
  show "round_of s r = T" if r: "r < n" "outstanding (shells s r) = []"
  proof (rule ccontr)
    assume "round_of s r \<noteq> T"
    then have "round_of s r < T" using within r by (auto simp: within_def)
    then show False using step_handlers(1) [OF inv r(1)] stuck sys_step.enter [OF r refl] by blast
  qed
qed

end

text \<open>If nothing can happen any more, every shell has completed all its exchanges.\<close>

context jansson_mem
begin

lemma quiet_rounds:
  assumes inv: "sys_inv L n inp None s" and quiet: "\<And>c. resps s c = []"
  shows "r < n \<Longrightarrow> round_of s r = round_of s 0"
proof (induction r rule: less_induct)
  case (less r)
  show ?case
  proof (cases "r = 0")
    case False
    then have "round_of s (parent 2 r) = round_of s r"
      using sys_invD(3) [OF inv, of r] less.prems quiet by (simp add: link_inv_def)
    with less.IH [of "parent 2 r"] less.prems parent_less [of 2 r] False show ?thesis by simp
  qed simp
qed

lemma quiet_waiting:
  assumes inv: "sys_inv L n inp None s" and quiet: "\<And>c. reqs s c = []" "\<And>c. resps s c = []"
    and entered: "\<And>r. r < n \<Longrightarrow> outstanding (shells s r) \<noteq> []"
  shows "r < n \<Longrightarrow> waiting s r"
proof (induction "n - r" arbitrary: r rule: less_induct)
  case less
  note shell = sys_invD(1) [OF inv less.prems]
  from entered [OF less.prems] obtain ses where ses: "xsession (shells s r) = Some ses"
    by (auto simp: outstanding_def split: option.splits)
  note g = shell_session [OF shell ses]
  have "local ses" using outstanding_gathering [OF g ses] entered [OF less.prems] by (auto split: if_splits)
  moreover have "children 2 n r \<subseteq> set (requests ses)"
  proof
    fix c assume c: "c \<in> children 2 n r"
    then have lt: "r < c" "0 < c" "c < n" and p: "parent 2 c = r"
      using children_greater [of 2 c n r] by (auto simp: children_def)
    from less.hyps [of c] lt have "waiting s c" by simp
    then show "c \<in> set (requests ses)"
      using sys_invD(3) [OF inv lt(2,3)] quiet p ses by (auto simp: link_inv_def pending_def of_bool_def split: if_splits)
  qed
  ultimately have "fut ses" using shell ses g
    by (auto simp: shell_inv_def settled_down_def gathering_def)
  then show ?case using ses by (simp add: waiting_def)
qed

lemma stuck_complete:
  assumes n: "0 < n" and inv: "sys_inv L n inp None s" and within: "within n T s"
    and stuck: "\<nexists>s'. sys_step L n inp T s s'" and r: "r < n"
  shows "round_of s r = T"
proof (rule ccontr)
  note quiet = stuck_quiet [OF inv within stuck]
  assume "round_of s r \<noteq> T"
  then have "outstanding (shells s q) \<noteq> []" if "q < n" for q
    using quiet(3) [OF that] quiet_rounds [OF inv quiet(2) that] quiet_rounds [OF inv quiet(2) r] by auto
  from quiet_waiting [OF inv quiet(1,2) this n] obtain ses where
    "xsession (shells s 0) = Some ses" "fut ses" by (auto simp: waiting_def split: option.splits)
  then show False using shell_session [OF sys_invD(1) [OF inv n]] by (auto simp: gathering_def)
qed

end

subsection \<open>The number of steps\<close>

lemma sum_card_children: "0 < n \<Longrightarrow> (\<Sum>r<n. card (children 2 n r)) = n - 1"
proof -
  assume n: "0 < n"
  have "(\<Sum>r<n. card (children 2 n r)) = card (\<Union>r<n. children 2 n r)"
    by (rule card_UN_disjoint [symmetric]) (auto simp: children_def)
  also have "(\<Union>r<n. children 2 n r) = {1..<n}"
  proof (intro set_eqI iffI)
    fix c assume "c \<in> {1..<n}"
    then have "c \<in> children 2 n (parent 2 c)" "parent 2 c < n"
      using parent_less [of 2 c] by (auto simp: children_def)
    then show "c \<in> (\<Union>r<n. children 2 n r)" by blast
  qed (auto simp: children_def)
  finally show ?thesis by simp
qed

definition budget :: "nat \<Rightarrow> nat \<Rightarrow> nat \<Rightarrow> nat" where
  "budget n T r = T + card (children 2 n r) * T + (if 0 < r then T else 0)"

lemma sum_budget:
  assumes "0 < n"
  shows "(\<Sum>r<n. budget n T r) = (3 * n - 2) * T"
proof -
  have "(\<Sum>r<n. (if 0 < r then T else 0)) = (n - 1) * T"
  proof -
    have "(\<Sum>r<Suc m. (if 0 < r then T else 0)) = m * T" for m by (induction m) simp_all
    from this [of "n - 1"] assms show ?thesis by simp
  qed
  moreover have "(\<Sum>r<n. card (children 2 n r) * T) = (n - 1) * T"
    using sum_card_children [OF assms] by (simp add: sum_distrib_right [symmetric])
  ultimately have "(\<Sum>r<n. budget n T r) = n * T + (n - 1) * T + (n - 1) * T"
    by (simp add: budget_def sum.distrib)
  also have "\<dots> = (3 * n - 2) * T" using assms by (cases n) (simp_all add: algebra_simps)
  finally show ?thesis .
qed

lemma steps_made_le:
  assumes inv: "sys_inv L n inp None s" and within: "within n T s" and r: "r < n"
  shows "steps_made n s r \<le> budget n T r"
proof -
  note shell = sys_invD(1) [OF inv r]
  have rnd: "round_of s r + length (outstanding (shells s r)) \<le> T" using within r by (simp add: within_def)
  have "card (children 2 n r) * round_of s r + length (received s r) \<le> card (children 2 n r) * T"
  proof (cases "received s r")
    case Nil
    then show ?thesis using rnd by simp
  next
    case (Cons c cs)
    then obtain ses where ses: "xsession (shells s r) = Some ses" "received s r = requests ses"
      by (auto simp: pending_def split: option.splits)
    note g = shell_session [OF shell ses(1)]
    have "c \<in> children 2 n r" using g Cons ses by (auto simp: gathering_def)
    then have c: "0 < c" "c < n" and p: "parent 2 c = r" by (auto simp: children_def)
    have held: "waiting s c" "round_of s r = round_of s c"
      using link_held [OF sys_invD(3) [OF inv c]] p Cons by auto
    then obtain sc where sc: "xsession (shells s c) = Some sc" "fut sc"
      by (auto simp: waiting_def split: option.splits)
    note gc = shell_session [OF sys_invD(1) [OF inv c(2)] sc(1)]
    have "outstanding (shells s c) \<noteq> []" using outstanding_gathering [OF gc sc(1)] gc sc(2)
      by (auto simp: gathering_def)
    then have "0 < length (outstanding (shells s c))" by simp
    moreover have "round_of s c + length (outstanding (shells s c)) \<le> T"
      using within c(2) by (simp add: within_def)
    ultimately have "Suc (round_of s c) \<le> T" by linarith
    with held(2) have "card (children 2 n r) * Suc (round_of s r) \<le> card (children 2 n r) * T"
      by (intro mult_le_mono2) simp
    with gathering_length(1) [OF g] ses(2) show ?thesis by simp
  qed
  with rnd show ?thesis by (cases "0 < r") (simp_all add: steps_made_def budget_def)
qed

lemma steps_made_complete:
  assumes inv: "sys_inv L n inp None s" and within: "within n T s" and r: "r < n" and all: "round_of s r = T"
  shows "steps_made n s r = budget n T r"
  using steps_made_le [OF assms(1-3)] all by (cases "0 < r") (simp_all add: steps_made_def budget_def)

subsection \<open>Properties\<close>

text \<open>
  C3. Whatever the order in which messages are delivered and shells enter: each call of a shell's
  exit callback is the one for that round, reports no error, and its result array holds exactly the
  data of all shells for that round, every contribution once.
\<close>

theorem exchange_delivers_all:
  assumes "jansson_mem L utf8" and "0 < n" "n < 2 ^ 31" and "valid_inputs L inp"
    and "sys_reach L n inp T k s" and "r < n" and "t < length (outs s r)"
  shows "fst (outs s r ! t) = t \<and> \<not> has_error (snd (outs s r ! t))
    \<and> (\<exists>D. data_out (snd (outs s r ! t)) = Some D \<and> mset (json_array_elems L D) = total n inp t)"
proof -
  have "sys_inv L n inp None s"
    using jansson_mem.sys_reach_inv [OF assms(1,5,2-4)] by blast
  from sys_invD(2) [OF this assms(6)] assms(7) show ?thesis
    by (auto simp: outs_inv_def delivered_def)
qed

text \<open>
  C4. The protocol does not deadlock: in every reachable state some handler can run to completion,
  unless every shell has completed all its exchanges, and then no message is in flight and no request
  is left unanswered.
\<close>

theorem exchange_no_deadlock:
  assumes "jansson_mem L utf8" and "0 < n" "n < 2 ^ 31" and "valid_inputs L inp"
    and "sys_reach L n inp T k s" and "\<nexists>s'. sys_step L n inp T s s'"
  shows "(\<forall>r<n. length (outs s r) = T \<and> outstanding (shells s r) = [] \<and> pending (shells s r) = [])
    \<and> (\<forall>c. reqs s c = [] \<and> resps s c = [])"
proof -
  have inv: "sys_inv L n inp None s"
    using jansson_mem.sys_reach_inv [OF assms(1,5,2-4)] by blast
  have within: "within n T s" using jansson_mem.sys_reach_within [OF assms(1,5,2-4)] .
  note quiet = jansson_mem.stuck_quiet [OF assms(1) inv within assms(6)]
  have all: "length (outs s r) = T" if "r < n" for r
    using jansson_mem.stuck_complete [OF assms(1,2) inv within assms(6) that] .
  have "outstanding (shells s r) = [] \<and> pending (shells s r) = []" if r: "r < n" for r
    using steps_made_complete [OF inv within r all [OF r]] all [OF r]
    by (cases "0 < r") (simp_all add: steps_made_def budget_def)
  with all quiet(1,2) show ?thesis by blast
qed

text \<open>
  C5. The protocol ends: a run makes at most \<open>(3 * n - 2) * T\<close> steps for \<open>T\<close> exchanges of \<open>n\<close>
  shells, and a run that cannot be continued has made exactly that many (per exchange, \<open>n\<close> entries,
  \<open>n - 1\<close> requests and \<open>n - 1\<close> answers).
\<close>

theorem exchange_terminates:
  assumes "jansson_mem L utf8" and "0 < n" "n < 2 ^ 31" and "valid_inputs L inp"
    and "sys_reach L n inp T k s"
  shows "k \<le> (3 * n - 2) * T \<and> ((\<nexists>s'. sys_step L n inp T s s') \<longrightarrow> k = (3 * n - 2) * T)"
proof -
  have inv: "sys_inv L n inp None s" and k: "k = (\<Sum>r<n. steps_made n s r)"
    using jansson_mem.sys_reach_inv [OF assms(1,5,2-4)] by blast+
  have within: "within n T s" using jansson_mem.sys_reach_within [OF assms(1,5,2-4)] .
  have "k \<le> (\<Sum>r<n. budget n T r)"
    unfolding k by (rule sum_mono) (simp add: steps_made_le [OF inv within])
  moreover have "k = (\<Sum>r<n. budget n T r)" if "\<nexists>s'. sys_step L n inp T s s'"
    unfolding k using steps_made_complete [OF inv within]
      jansson_mem.stuck_complete [OF assms(1,2) inv within that] by (intro sum.cong) auto
  ultimately show ?thesis unfolding sum_budget [OF assms(2)] by blast
qed

text \<open>A job of two shells, each with one string: a complete run.\<close>

definition demo_inp :: "nat \<Rightarrow> nat \<Rightarrow> json option" where
  "demo_inp r t = Some (JStr (if r = 0 then ''Zg=='' else ''Zm8=''))"

definition demo_ses :: "json \<Rightarrow> nat list \<Rightarrow> bool \<Rightarrow> (json, nat, nat) session" where
  "demo_ses d ms f = \<lparr>data_in = d, data_out = None, exit_cb = Some 0, requests = ms, fut = f,
     local = True, has_error = False\<rparr>"

definition demo_shell :: "nat \<Rightarrow> (json, nat, nat) session option \<Rightarrow> (json, nat, nat) exchange" where
  "demo_shell r ses = \<lparr>xsize = 2, xrank = int r, parent_rank = (if r = 0 then KARY_NONE else 0),
     xchild_count = (if r = 0 then 1 else 0), xsession = ses\<rparr>"

abbreviation demo_all :: json where
  "demo_all \<equiv> JArr [JStr ''Zg=='', JStr ''Zm8='']"

definition demo :: "(json, nat, nat) session option \<Rightarrow> (json, nat, nat) session option \<Rightarrow>
    (nat \<times> json) list \<Rightarrow> json option list \<Rightarrow> (nat \<times> (json, nat, nat) session) list \<Rightarrow>
    (nat \<times> (json, nat, nat) session) list \<Rightarrow> json sys" where
  "demo s0 s1 req resp out0 out1 = (sys_init 2)\<lparr>
     shells := (\<lambda>r. if r = 0 then demo_shell 0 s0 else if r = 1 then demo_shell 1 s1
                    else shells (sys_init 2) r),
     reqs := (\<lambda>c. if c = 1 then req else []), resps := (\<lambda>c. if c = 1 then resp else []),
     outs := (\<lambda>r. if r = 0 then out0 else if r = 1 then out1 else [])\<rparr>"

abbreviation demo_out :: "json \<Rightarrow> bool \<Rightarrow> (nat \<times> (json, nat, nat) session) list" where
  "demo_out d f \<equiv> [(0, (demo_ses d [] f)\<lparr>data_out := Some demo_all\<rparr>)]"

lemma demo_init: "sys_init 2 = demo None None [] [] [] []"
proof -
  have "children 2 2 0 = {1}" "children 2 2 1 = {}" by (auto simp: children_def parent_def)
  then have "xchild_count (shells (sys_init 2 :: json sys) 0) = 1"
    "xchild_count (shells (sys_init 2 :: json sys) 1) = 0"
    using sys_init_handle(1) [of 2 0, where 'a = json] sys_init_handle(1) [of 2 1, where 'a = json]
    by (simp_all add: handle_ok_def)
  then have "shells (sys_init 2 :: json sys) 0 = demo_shell 0 None"
    "shells (sys_init 2 :: json sys) 1 = demo_shell 1 None"
    by (simp_all add: sys_init_def exchange_create_def demo_shell_def DEFAULT_TREE_K_def kary_parentof_def)
  then show ?thesis by (auto simp: demo_def intro!: sys.equality ext) (simp_all add: sys_init_def)
qed

lemmas demo_simps = exchange_enter_base64_string_def exchange_request_cb_def exchange_response_completion_def
  good_env_def json_lib_def session_create_def session_process_def session_done_def session_destroy_def
  demo_shell_def demo_ses_def Let_def

lemma demo_enter1:
  "sys_step json_lib 2 demo_inp 1 (demo None None [] [] [] [])
     (demo None (Some (demo_ses (JArr [JStr ''Zm8='']) [] True)) [(0, JArr [JStr ''Zm8=''])] [] [] [])"
  (is "sys_step _ _ _ _ ?s ?s'")
proof -
  let ?xcg = "demo_shell 1 (Some (demo_ses (JArr [JStr ''Zm8='']) [] True))"
  have "sys_step json_lib 2 demo_inp 1 ?s
      (route 1 [SendRequest 0 (JArr [JStr ''Zm8=''])] (set_shell 1 ?xcg ?s))"
    by (rule sys_step.enter [where t = 0 and rc = None])
       (simp_all add: demo_def outstanding_def demo_inp_def demo_simps)
  moreover have "route 1 [SendRequest 0 (JArr [JStr ''Zm8=''])] (set_shell 1 ?xcg ?s) = ?s'"
    by (auto simp: demo_def set_shell_def intro!: sys.equality ext)
  ultimately show ?thesis by simp
qed

lemma demo_enter0:
  "sys_step json_lib 2 demo_inp 1
     (demo None (Some (demo_ses (JArr [JStr ''Zm8='']) [] True)) [(0, JArr [JStr ''Zm8=''])] [] [] [])
     (demo (Some (demo_ses (JArr [JStr ''Zg=='']) [] False))
       (Some (demo_ses (JArr [JStr ''Zm8='']) [] True)) [(0, JArr [JStr ''Zm8=''])] [] [] [])"
  (is "sys_step _ _ _ _ ?s ?s'")
proof -
  let ?xcg = "demo_shell 0 (Some (demo_ses (JArr [JStr ''Zg=='']) [] False))"
  have "sys_step json_lib 2 demo_inp 1 ?s (route 0 [] (set_shell 0 ?xcg ?s))"
    by (rule sys_step.enter [where t = 0 and rc = None])
       (simp_all add: demo_def outstanding_def demo_inp_def demo_simps)
  moreover have "route 0 [] (set_shell 0 ?xcg ?s) = ?s'"
    by (auto simp: demo_def set_shell_def intro!: sys.equality ext)
  ultimately show ?thesis by simp
qed

lemma demo_request:
  "sys_step json_lib 2 demo_inp 1
     (demo (Some (demo_ses (JArr [JStr ''Zg=='']) [] False))
       (Some (demo_ses (JArr [JStr ''Zm8='']) [] True)) [(0, JArr [JStr ''Zm8=''])] [] [] [])
     (demo None (Some (demo_ses (JArr [JStr ''Zm8='']) [] True)) [] [Some demo_all]
       (demo_out demo_all False) [])"
  (is "sys_step _ _ _ _ ?s ?s'")
proof -
  let ?es = "[Respond 1 demo_all, ExitCb 0 ((demo_ses demo_all [] False)\<lparr>data_out := Some demo_all\<rparr>)]"
  have "sys_step json_lib 2 demo_inp 1 ?s
      (route 0 ?es (set_shell 0 (demo_shell 0 None) (?s\<lparr>reqs := (reqs ?s)(1 := [])\<rparr>)))"
    by (rule sys_step.request [where d = "JArr [JStr ''Zm8='']"]) (simp_all add: demo_def demo_simps)
  moreover have "route 0 ?es (set_shell 0 (demo_shell 0 None) (?s\<lparr>reqs := (reqs ?s)(1 := [])\<rparr>)) = ?s'"
    by (auto simp: demo_def set_shell_def intro!: sys.equality ext)
  ultimately show ?thesis by simp
qed

abbreviation demo_end :: "json sys" where
  "demo_end \<equiv> demo None None [] [] (demo_out demo_all False) (demo_out (JArr [JStr ''Zm8='']) True)"

lemma demo_response:
  "sys_step json_lib 2 demo_inp 1
     (demo None (Some (demo_ses (JArr [JStr ''Zm8='']) [] True)) [] [Some demo_all]
       (demo_out demo_all False) []) demo_end"
  (is "sys_step _ _ _ _ ?s ?s'")
proof -
  let ?es = "[ExitCb 0 ((demo_ses (JArr [JStr ''Zm8='']) [] True)\<lparr>data_out := Some demo_all\<rparr>), FutureDestroyed]"
  have "sys_step json_lib 2 demo_inp 1 ?s
      (route 1 ?es (set_shell 1 (demo_shell 1 None) (?s\<lparr>resps := (resps ?s)(1 := [])\<rparr>)))"
    by (rule sys_step.response [where reply = "Some demo_all"]) (simp_all add: demo_def demo_simps)
  moreover have "route 1 ?es (set_shell 1 (demo_shell 1 None) (?s\<lparr>resps := (resps ?s)(1 := [])\<rparr>)) = ?s'"
    by (auto simp: demo_def set_shell_def intro!: sys.equality ext)
  ultimately show ?thesis by simp
qed

lemma demo_run: "sys_reach json_lib 2 demo_inp 1 4 demo_end"
proof -
  have "sys_reach json_lib 2 demo_inp 1 0 (demo None None [] [] [] [])"
    using sys_reach.reach_init [of json_lib 2 demo_inp 1] by (simp add: demo_init)
  from reach_step [OF reach_step [OF reach_step [OF reach_step [OF this demo_enter1] demo_enter0]
        demo_request] demo_response]
  show ?thesis by (simp add: eval_nat_numeral)
qed

lemma demo_stuck: "\<nexists>s'. sys_step json_lib 2 demo_inp 1 demo_end s'"
  by (auto simp: demo_def less_2_cases_iff elim!: sys_step.cases split: if_splits)

lemma demo_inputs: "valid_inputs json_lib demo_inp"
  by (simp add: valid_inputs_def demo_inp_def json_lib_def)

theorem exchange_delivers_all_witness:
  "fst (outs demo_end 1 ! 0) = 0 \<and> \<not> has_error (snd (outs demo_end 1 ! 0))
   \<and> (\<exists>D. data_out (snd (outs demo_end 1 ! 0)) = Some D
        \<and> mset (json_array_elems json_lib D) = total 2 demo_inp 0)"
  using exchange_delivers_all [OF jlib.jansson_mem_axioms _ _ demo_inputs demo_run, of 1 0]
  by (simp add: demo_def)

theorem exchange_no_deadlock_witness:
  "let s = demo_end in length (outs s 1) = 1 \<and> outstanding (shells s 1) = [] \<and> pending (shells s 1) = []
     \<and> reqs s 1 = [] \<and> resps s 1 = []"
  using exchange_no_deadlock [OF jlib.jansson_mem_axioms _ _ demo_inputs demo_run demo_stuck]
  by (simp add: Let_def)

theorem exchange_terminates_witness: "4 \<le> (3 * 2 - 2) * (1::nat) \<and> (4::nat) = (3 * 2 - 2) * 1"
  using exchange_terminates [OF jlib.jansson_mem_axioms _ _ demo_inputs demo_run] demo_stuck by simp

end
