(* ===== verification/Fence.thy ===== *)
theory Fence
  imports Interthread Exchange_System
begin

text \<open>
  \<^verbatim>\<open>src/shell/plugins/fence.c\<close>: the fence operation. \<^verbatim>\<open>fence_server_cb\<close> runs in the PMIx server
  thread and sends the call over the inter-thread channel; \<^verbatim>\<open>fence_shell_cb\<close> runs in the shell thread,
  decodes it and enters the exchange; \<^verbatim>\<open>exchange_exit_cb\<close> passes the result to the callback function
  of the PMIx server. Function and data pointers are 64-bit words, 0 being the null pointer. The exit
  callback of the exchange and its argument are the fence call itself.

  A handler reports what it does as a list of effects: calls of the PMIx callback, log messages,
  memory freed, and what the exchange sends. Reading the first element of an empty process array is
  the outcome \<open>Undef\<close>. A base64 text whose length overflows \<^verbatim>\<open>int\<close> makes the decoder leave its buffers;
  the handler that decodes it then reports \<open>FUndef\<close>, after which the effects have no meaning.
  \<^verbatim>\<open>global_fence_ctx\<close> is a flag: whether the static pointer is set.
\<close>

record fence_call =
  procs :: "pmix_proc_t list option"
  info :: "pmix_info_t list option"
  cbfunc :: u64
  cbdata :: u64
  collect :: bool
  call_seq :: u32

record ('j, 'm) fence =
  fence_exchange :: "('j, 'm, fence_call) exchange"
  trace_flag :: bool
  exchange_seq :: u32

datatype ('j, 'm) fence_effect =
    Cbfunc u64 pmix_status "byte list option" nat u64
  | FLog log_msg
  | TraceStart u32 int
  | TraceEnd u32 nat pmix_status
  | FUndef
  | FFree "block list"
  | Net "('j, 'm, fence_call) effect"

definition fence_call_destroy :: "fence_call option \<Rightarrow> block list" where
  "fence_call_destroy fxcall =
     (case fxcall of
        None \<Rightarrow> []
      | Some c \<Rightarrow> (case procs c of None \<Rightarrow> [] | Some ps \<Rightarrow> [B_procs ps]) @ codec_info_array_destroy (info c))"

definition fence_call_create :: "bool \<Rightarrow> ('j, 'm) fence \<Rightarrow> fence_call option \<times> ('j, 'm) fence" where
  "fence_call_create calloc_ok fx =
     (if \<not> calloc_ok then (None, fx)
      else (Some \<lparr>procs = None, info = None, cbfunc = 0, cbdata = 0, collect = False,
                  call_seq = exchange_seq fx\<rparr>,
            fx\<lparr>exchange_seq := exchange_seq fx + 1\<rparr>))"

definition exchange_exit_cb ::
    "'j lib \<Rightarrow> ('j, 'm, 'c) session \<Rightarrow> fence_call \<Rightarrow> ('j, 'm) fence_effect list" where
  "exchange_exit_cb L ses fxcall =
     (let (log, status, data, ndata) =
        (if exchange_has_error ses then ([FLog (LWarn ''pmix exchange failed'')], PMIX_ERROR, None, 0)
         else case exchange_get_data L ses of
                Fail \<Rightarrow> ([FLog (LWarn ''error accessing pmix exchanged data'')], PMIX_ERROR, None, 0)
              | Undef \<Rightarrow> ([FUndef], PMIX_ERROR, None, 0)
              | Ok d \<Rightarrow> ([], PMIX_SUCCESS, Some d, length d))
      in log @ [TraceEnd (call_seq fxcall) ndata status,
                Cbfunc (cbfunc fxcall) status data ndata (cbdata fxcall),
                FFree (fence_call_destroy (Some fxcall))])"

text \<open>The exchange calls the exit callback while it runs.\<close>

definition run_effects ::
    "'j lib \<Rightarrow> ('j, 'm, fence_call) effect list \<Rightarrow> ('j, 'm) fence_effect list" where
  "run_effects L es =
     concat (map (\<lambda>e. case e of ExitCb c ses \<Rightarrow> exchange_exit_cb L ses c | e \<Rightarrow> [Net e]) es)"

definition parse_fence_attr ::
    "fence_call \<Rightarrow> pmix_info_t \<Rightarrow> pmix_status \<times> fence_call \<times> log_msg list" where
  "parse_fence_attr fxcall i =
     (if ikey i = ''pmix.collect'' then
        (case ivalue i of
           V_BOOL flag \<Rightarrow> (PMIX_SUCCESS, if flag then fxcall\<lparr>collect := True\<rparr> else fxcall, [])
         | _ \<Rightarrow> (PMIX_ERR_BAD_PARAM, fxcall, [LWarn ''fence attr has wrong type'']))
      else if iflags i AND PMIX_INFO_REQD \<noteq> 0 then
        (PMIX_ERR_BAD_PARAM, fxcall, [LWarn ''unknown required fence attr''])
      else (PMIX_SUCCESS, fxcall, [LDebug ''ignoring unknown optional fence attr'']))"

text \<open>The loop over the attributes; it stops at the first error.\<close>

fun parse_fence_attrs ::
    "fence_call \<Rightarrow> pmix_info_t list \<Rightarrow> pmix_status \<times> fence_call \<times> log_msg list" where
  "parse_fence_attrs fxcall [] = (PMIX_SUCCESS, fxcall, [])"
| "parse_fence_attrs fxcall (i # is) =
     (case parse_fence_attr fxcall i of
        (rc, fxcall, log) \<Rightarrow>
          if rc \<noteq> PMIX_SUCCESS then (rc, fxcall, log)
          else (case parse_fence_attrs fxcall is of (rc, fxcall, log') \<Rightarrow> (rc, fxcall, log @ log')))"

text \<open>The condition that unpacks the message: the call as far as it was filled in, and the data.\<close>

definition fence_call_unpack ::
    "'j lib \<Rightarrow> 'j option \<Rightarrow> fence_call \<Rightarrow> 'j outcome \<times> fence_call" where
  "fence_call_unpack L pl c =
     (case (case pl of
              None \<Rightarrow> None
            | Some j \<Rightarrow> json_unpack L j [(''procs'', UpO), (''info'', UpO), (''data'', UpO),
                                        (''cbfunc'', UpO), (''cbdata'', UpO)]) of
        Some [UvO xprocs, UvO xinfo, UvO xdata, UvO xcbfunc, UvO xcbdata] \<Rightarrow>
          (case codec_proc_array_decode L xprocs of
             Undef \<Rightarrow> (Undef, c)
           | Fail \<Rightarrow> (Fail, c)
           | Ok ps \<Rightarrow>
               let c = c\<lparr>procs := Some ps\<rparr> in
               (case fst (codec_info_array_decode L xinfo) of
                  Undef \<Rightarrow> (Undef, c)
                | Fail \<Rightarrow> (Fail, c)
                | Ok is \<Rightarrow>
                    let c = c\<lparr>info := Some is\<rparr> in
                    (case codec_pointer_decode L xcbfunc of
                       None \<Rightarrow> (Fail, c)
                     | Some f \<Rightarrow>
                         let c = c\<lparr>cbfunc := f\<rparr> in
                         (case codec_pointer_decode L xcbdata of
                            None \<Rightarrow> (Fail, c)
                          | Some d \<Rightarrow>
                              let c = c\<lparr>cbdata := d\<rparr> in
                              if f = 0 then (Fail, c) else (Ok xdata, c)))))
      | _ \<Rightarrow> (Fail, c))"

text \<open>The code after the label \<^verbatim>\<open>error\<close>.\<close>

definition fence_error :: "pmix_status \<Rightarrow> fence_call \<Rightarrow> ('j, 'm) fence_effect list" where
  "fence_error rc fxcall =
     [Cbfunc (cbfunc fxcall) rc None 0 (cbdata fxcall), FFree (fence_call_destroy (Some fxcall))]"

text \<open>The trace message at the start of an exchange decodes the data to report its size.\<close>

definition fence_trace_start :: "'j lib \<Rightarrow> 'j \<Rightarrow> fence_call \<Rightarrow> ('j, 'm) fence_effect list" where
  "fence_trace_start L xdata fxcall =
     (case (if collect fxcall then codec_data_length L xdata else Ok 0) of
        Ok n \<Rightarrow> [TraceStart (call_seq fxcall) n]
      | _ \<Rightarrow> [FUndef])"

lemma fence_trace_start_no_data [simp]:
  "\<not> collect c \<Longrightarrow> fence_trace_start L xdata c = [TraceStart (call_seq c) 0]"
  by (simp add: fence_trace_start_def)

definition fence_shell_cb ::
    "'j lib \<Rightarrow> 'm xenv \<Rightarrow> bool \<Rightarrow> 'j option \<Rightarrow> ('j, 'm) fence
     \<Rightarrow> (('j, 'm) fence \<times> ('j, 'm) fence_effect list) outcome" where
  "fence_shell_cb L E calloc_ok pl fx =
     (case fence_call_create calloc_ok fx of
        (None, fx) \<Rightarrow> Ok (fx, [FLog (LWarn ''error unpacking interthread fence_upcall message'')])
      | (Some fxcall, fx) \<Rightarrow>
          (case fence_call_unpack L pl fxcall of
             (Undef, _) \<Rightarrow> Undef
           | (Fail, fxcall) \<Rightarrow>
               Ok (fx, [FLog (LWarn ''error unpacking interthread fence_upcall message''),
                        FFree (fence_call_destroy (Some fxcall))])
           | (Ok xdata, fxcall) \<Rightarrow>
               let ps = (case procs fxcall of None \<Rightarrow> [] | Some ps \<Rightarrow> ps) in
               if ps = [] then Undef
               else if 1 < length ps \<or> rank (hd ps) \<noteq> PMIX_RANK_WILDCARD then
                 Ok (fx, FLog (LWarn ''fence over proc subset is not supported by flux'')
                         # fence_error PMIX_ERR_NOT_SUPPORTED fxcall)
               else
                 (case parse_fence_attrs fxcall (case info fxcall of None \<Rightarrow> [] | Some is \<Rightarrow> is) of
                    (rc, fxcall, log) \<Rightarrow>
                      if rc \<noteq> PMIX_SUCCESS then Ok (fx, map FLog log @ fence_error rc fxcall)
                      else
                        let log = map FLog log
                                  @ (if trace_flag fx then fence_trace_start L xdata fxcall else []) in
                        bind_outcome
                          (exchange_enter_base64_string L E (if collect fxcall then Some xdata else None)
                             (Some fxcall) (Some (fence_exchange fx)))
                          (\<lambda>(err, xcgp, es).
                             let fx = fx\<lparr>fence_exchange := (case xcgp of None \<Rightarrow> fence_exchange fx
                                                                          | Some x \<Rightarrow> x)\<rparr> in
                             (case err of
                                None \<Rightarrow> Ok (fx, log @ run_effects L es)
                              | Some _ \<Rightarrow>
                                  Ok (fx, log @ run_effects L es @ FLog (LWarn ''error initiating pmix exchange'')
                                          # fence_error PMIX_ERROR fxcall))))))"

text \<open>The other two handlers of the exchange, run by a shell whose exchange belongs to a fence.\<close>

definition fence_exchange_step ::
    "'j lib \<Rightarrow> ('j, 'm) fence \<Rightarrow> ('j, 'm, fence_call) step_result
     \<Rightarrow> (('j, 'm) fence \<times> ('j, 'm) fence_effect list) outcome" where
  "fence_exchange_step L fx r =
     bind_outcome r (\<lambda>(xcg, es). Ok (fx\<lparr>fence_exchange := xcg\<rparr>, run_effects L es))"

subsection \<open>The server side\<close>

text \<open>The result is the status returned and the channel; the error message goes to standard error.\<close>

definition fence_server_cb ::
    "'j lib \<Rightarrow> send_env \<Rightarrow> ('h, 'j) interthread \<Rightarrow> pmix_proc_t list \<Rightarrow> pmix_info_t list \<Rightarrow> byte list
     \<Rightarrow> u64 \<Rightarrow> u64 \<Rightarrow> pmix_status \<times> ('h, 'j) interthread" where
  "fence_server_cb L S it ps is data f d =
     (case (codec_proc_array_encode L ps, codec_info_array_encode L is, codec_data_encode L data,
            codec_pointer_encode L f, codec_pointer_encode L d) of
        (Some xprocs, Some xinfo, Some xdata, Some xcbfunc, Some xcbdata) \<Rightarrow>
          (case interthread_send_pack L S it ''fence_upcall''
                  [(''procs'', PkO xprocs), (''info'', PkO xinfo), (''data'', PkO xdata),
                   (''cbfunc'', PkO xcbfunc), (''cbdata'', PkO xcbdata)] of
             (rc, it) \<Rightarrow> if rc < 0 then (PMIX_ERROR, it) else (PMIX_SUCCESS, it))
      | _ \<Rightarrow> (PMIX_ERROR, it))"

text \<open>Destroying the fence also resets \<^verbatim>\<open>global_fence_ctx\<close>, given and returned as \<open>ctx\<close>.\<close>

definition fence_destroy ::
    "('j, 'm) fence option \<Rightarrow> bool \<Rightarrow> ('j, 'm, fence_call) effect list \<times> bool" where
  "fence_destroy fxp ctx =
     (case fxp of
        None \<Rightarrow> ([], ctx)
      | Some fx \<Rightarrow> (exchange_destroy (Some (fence_exchange fx)), False))"

text \<open>
  The arguments are what the calls return; the shell's size and rank are \<open>shell_info\<close>. A creation that
  fails after the allocation destroys what there is of the fence, which has no session yet.
\<close>

definition fence_create ::
    "bool \<Rightarrow> (int \<times> int) option \<Rightarrow> bool \<Rightarrow> (upcall, 'j) interthread \<Rightarrow> bool
     \<Rightarrow> ('j, 'm) fence option \<times> bool \<times> (upcall, 'j) interthread" where
  "fence_create calloc_ok shell_info service_ok it ctx =
     (if \<not> calloc_ok then (None, ctx, it)
      else case interthread_register it ''fence_upcall'' H_fence of
             Inl _ \<Rightarrow> (None, False, it)
           | Inr it \<Rightarrow>
               (case fst (exchange_create True shell_info service_ok 0) of
                  None \<Rightarrow> (None, False, it)
                | Some xcg \<Rightarrow>
                    (Some \<lparr>fence_exchange = xcg, trace_flag = True, exchange_seq = 0\<rparr>, True, it)))"

subsection \<open>Attributes\<close>

definition attr_ok :: "pmix_info_t \<Rightarrow> bool" where
  "attr_ok i \<longleftrightarrow> (if ikey i = ''pmix.collect'' then (case ivalue i of V_BOOL _ \<Rightarrow> True | _ \<Rightarrow> False)
                 else iflags i AND PMIX_INFO_REQD = 0)"

definition wants_collect :: "pmix_info_t list \<Rightarrow> bool" where
  "wants_collect is \<longleftrightarrow> list_ex (\<lambda>i. ikey i = ''pmix.collect'' \<and> ivalue i = V_BOOL True) is"

lemma parse_fence_attr_ok:
  "attr_ok i \<Longrightarrow> \<exists>log. parse_fence_attr c i
     = (PMIX_SUCCESS, c\<lparr>collect := collect c \<or> wants_collect [i]\<rparr>, log)"
  by (auto simp: attr_ok_def parse_fence_attr_def wants_collect_def split: if_splits pmix_value_t.splits)

lemma parse_fence_attr_bad:
  "\<not> attr_ok i \<Longrightarrow> \<exists>log. parse_fence_attr c i = (PMIX_ERR_BAD_PARAM, c, log)"
  by (auto simp: attr_ok_def parse_fence_attr_def split: if_splits pmix_value_t.splits)

text \<open>Everything in a fence call but \<^verbatim>\<open>collect\<close> is left alone by the attributes.\<close>

lemma parse_fence_attrs_ok:
  "list_all attr_ok is \<Longrightarrow> \<exists>log. parse_fence_attrs c is
     = (PMIX_SUCCESS, c\<lparr>collect := collect c \<or> wants_collect is\<rparr>, log)"
proof (induction "is" arbitrary: c)
  case (Cons i "is")
  then obtain log where "parse_fence_attr c i = (PMIX_SUCCESS, c\<lparr>collect := collect c \<or> wants_collect [i]\<rparr>, log)"
    using parse_fence_attr_ok [of i c] by auto
  with Cons.IH [of "c\<lparr>collect := collect c \<or> wants_collect [i]\<rparr>"] Cons.prems show ?case
    by (auto simp: wants_collect_def disj_assoc)
qed (simp add: wants_collect_def)

lemma parse_fence_attrs_bad:
  "\<not> list_all attr_ok is \<Longrightarrow> \<exists>b log. parse_fence_attrs c is = (PMIX_ERR_BAD_PARAM, c\<lparr>collect := b\<rparr>, log)"
proof (induction "is" arbitrary: c)
  case (Cons i "is")
  show ?case
  proof (cases "attr_ok i")
    case True
    then obtain log where "parse_fence_attr c i = (PMIX_SUCCESS, c\<lparr>collect := collect c \<or> wants_collect [i]\<rparr>, log)"
      using parse_fence_attr_ok [of i c] by auto
    with Cons.IH [of "c\<lparr>collect := collect c \<or> wants_collect [i]\<rparr>"] Cons.prems True show ?thesis by auto
  next
    case False
    from parse_fence_attr_bad [OF False, of c] show ?thesis by (auto intro: exI [of _ "collect c"])
  qed
qed simp

subsection \<open>The call survives the channel\<close>

context jansson
begin

lemma fence_upcall_payload:
  assumes "fence_server_cb L S it ps is data f d = (PMIX_SUCCESS, it')"
    and "list_all proc_ok ps" "list_all (info_ok L) is" and "f \<noteq> 0"
    and "malloc_ok L (length ps * sizeof_proc)" "malloc_ok L (length is * sizeof_info)"
  obtains pl xdata where "it' = it\<lparr>queue := queue it @ [\<lparr>topic = Some ''fence_upcall'', payload = Some pl\<rparr>]\<rparr>"
    "codec_data_encode L data = Some xdata"
    "fence_call_unpack L (Some pl) c
       = (Ok xdata, c\<lparr>procs := Some ps, info := Some is, cbfunc := f, cbdata := d\<rparr>)"
proof -
  from assms(1) obtain xprocs xinfo xdata xf xd pl where enc:
    "codec_proc_array_encode L ps = Some xprocs" "codec_info_array_encode L is = Some xinfo"
    "codec_data_encode L data = Some xdata" "codec_pointer_encode L f = Some xf"
    "codec_pointer_encode L d = Some xd"
    and pack: "json_pack L [(''procs'', PkO xprocs), (''info'', PkO xinfo), (''data'', PkO xdata),
                   (''cbfunc'', PkO xf), (''cbdata'', PkO xd)] = Some pl"
    and it': "it' = it\<lparr>queue := queue it @ [\<lparr>topic = Some ''fence_upcall'', payload = Some pl\<rparr>]\<rparr>"
    by (auto simp: fence_server_cb_def interthread_send_pack_def split: option.splits if_splits)
  have "json_unpack L pl [(''procs'', UpO), (''info'', UpO), (''data'', UpO), (''cbfunc'', UpO),
      (''cbdata'', UpO)] = Some [UvO xprocs, UvO xinfo, UvO xdata, UvO xf, UvO xd]"
    by (rule unpack_pack [OF pack]) auto
  with enc(3) it' show ?thesis
    using that proc_array_roundtrip [OF enc(1) assms(2,5)] info_array_roundtrip [OF enc(2) assms(3,6)]
      pointer_roundtrip [OF enc(4)] pointer_roundtrip [OF enc(5)] assms(4)
    by (simp add: fence_call_unpack_def Let_def)
qed

end

subsection \<open>Accounting for callbacks\<close>

fun callbacks :: "('j, 'm) fence_effect list \<Rightarrow> (u64 \<times> u64) list" where
  "callbacks [] = []"
| "callbacks (Cbfunc f s data n d # es) = (f, d) # callbacks es"
| "callbacks (_ # es) = callbacks es"

lemma callbacks_append [simp]: "callbacks (es @ fs) = callbacks es @ callbacks fs"
  by (induction es rule: callbacks.induct) auto

lemma callbacks_FLog [simp]: "callbacks (map FLog ls) = []"
  by (induction ls) auto

lemma callbacks_trace_start [simp]: "callbacks (fence_trace_start L xdata c) = []"
  by (simp add: fence_trace_start_def split: outcome.split)

lemma callbacks_exit [simp]: "callbacks (exchange_exit_cb L ses c) = [(cbfunc c, cbdata c)]"
  by (simp add: exchange_exit_cb_def split: outcome.split)

abbreviation answer_to :: "fence_call \<Rightarrow> u64 \<times> u64" where
  "answer_to c \<equiv> (cbfunc c, cbdata c)"

lemma callbacks_run_effects: "callbacks (run_effects L es) = map (answer_to \<circ> fst) (exits es)"
  by (induction es rule: exits.induct) (auto simp: run_effects_def)

text \<open>The data array of a stored session is an array, so that an entry cannot fail to append to it.\<close>

definition fence_inv :: "'j lib \<Rightarrow> ('j, 'm) fence \<Rightarrow> bool" where
  "fence_inv L fx \<longleftrightarrow> exchange_inv (fence_exchange fx)
     \<and> (case xsession (fence_exchange fx) of None \<Rightarrow> True | Some ses \<Rightarrow> json_is_array L (data_in ses))"

lemma session_process_data_in:
  "session_process E xcg ses = Ok (xcg', es) \<Longrightarrow> xsession xcg' = Some ses' \<Longrightarrow> data_in ses' = data_in ses"
  by (auto simp: session_process_def session_done_def Let_def split: if_splits option.splits prod.splits)

text \<open>The shapes of what entering and receiving leave behind.\<close>

definition current ::
    "'j lib \<Rightarrow> 'm xenv \<Rightarrow> ('j, 'm, 'c) exchange \<Rightarrow> ('j, 'm, 'c) session option" where
  "current L E xcg = (case xsession xcg of None \<Rightarrow> session_create L E | Some s \<Rightarrow> Some s)"

lemma enter_shape:
  assumes "exchange_enter_base64_string L E data (Some c) (Some xcg0) = Ok (rc, Some xcg, es)"
  obtains "xcg = xcg0" "rc \<noteq> Some ENOMEM"
    | ses where "current L E xcg0 = Some ses" "rc \<noteq> Some ENOMEM" "xcg = xcg0\<lparr>xsession := Some ses\<rparr>"
    | ses d where "current L E xcg0 = Some ses" "data = Some d" "json_array_append L (data_in ses) d = None"
    | ses a where "current L E xcg0 = Some ses" "rc = None"
      "a = data_in ses \<or> (\<exists>d. json_array_append L (data_in ses) d = Some a)"
      "session_process E xcg0 (ses\<lparr>exit_cb := Some c, local := True, data_in := a\<rparr>) = Ok (xcg, es)"
proof (cases "data \<noteq> None \<and> \<not> json_is_string L (the data)")
  case True
  then show ?thesis using assms that(1) by (auto simp: exchange_enter_base64_string_def)
next
  case data: False
  show ?thesis
  proof (cases "current L E xcg0")
    case None
    then show ?thesis using assms data that(1)
      by (auto simp: exchange_enter_base64_string_def current_def)
  next
    case (Some ses)
    show ?thesis
    proof (cases "local ses")
      case True
      then show ?thesis using assms data Some that(2)
        by (auto simp: exchange_enter_base64_string_def current_def)
    next
      case False
      have enter: "exchange_enter_base64_string L E data (Some c) (Some xcg0) =
        (case (case data of None \<Rightarrow> Some (data_in ses) | Some d \<Rightarrow> json_array_append L (data_in ses) d) of
           None \<Rightarrow> Ok (Some ENOMEM, Some (xcg0\<lparr>xsession := Some (ses\<lparr>exit_cb := Some c, local := True\<rparr>)\<rparr>), [])
         | Some a \<Rightarrow> bind_outcome (session_process E xcg0 (ses\<lparr>exit_cb := Some c, local := True, data_in := a\<rparr>))
             (\<lambda>(xcg', es). Ok (None, Some xcg', es)))"
        using False data Some unfolding exchange_enter_base64_string_def current_def [symmetric]
        by (cases data) (simp_all add: Let_def)
      show ?thesis
      proof (cases data)
        case None
        then show ?thesis using assms [unfolded enter] that(4) [of ses "data_in ses"] Some
          by (auto simp: bind_outcome_Ok_iff)
      next
        case (Some d)
        then show ?thesis using assms [unfolded enter] that(3) [of ses d] that(4) [of ses] \<open>current L E xcg0 = Some ses\<close>
          by (cases "json_array_append L (data_in ses) d") (auto simp: bind_outcome_Ok_iff)
      qed
    qed
  qed
qed

lemma request_shape:
  assumes "exchange_request_cb L E m pl xcg0 = Ok (xcg, es)"
  obtains "xcg = xcg0"
    | ses where "current L E xcg0 = Some ses" "xcg = xcg0\<lparr>xsession := Some ses\<rparr>"
    | ses a b where "current L E xcg0 = Some ses" "json_array_extend L (data_in ses) b = Some a"
      "xcg = xcg0\<lparr>xsession := Some (ses\<lparr>data_in := a\<rparr>)\<rparr>"
    | ses a b where "current L E xcg0 = Some ses" "json_array_extend L (data_in ses) b = Some a"
      "session_process E xcg0 (ses\<lparr>data_in := a, requests := requests ses @ [m]\<rparr>) = Ok (xcg, es)"
proof (cases pl)
  case None
  then show ?thesis using assms that(1) by (simp add: exchange_request_cb_def)
next
  case (Some b)
  show ?thesis
  proof (cases "current L E xcg0")
    case None
    then show ?thesis using assms Some that(1) by (simp add: exchange_request_cb_def current_def)
  next
    case cur: (Some ses)
    show ?thesis
    proof (cases "length (requests ses) = xchild_count xcg0")
      case True
      then show ?thesis using assms Some cur that(2) by (simp add: exchange_request_cb_def current_def)
    next
      case False
      have req: "exchange_request_cb L E m pl xcg0 =
        (case json_array_extend L (data_in ses) b of
           None \<Rightarrow> Ok (xcg0\<lparr>xsession := Some ses\<rparr>, [RespondError m ENOMEM
             (Some ''exchange request failed to extend data_in array'')])
         | Some a \<Rightarrow>
             if \<not> msglist_append_ok E then
               Ok (xcg0\<lparr>xsession := Some (ses\<lparr>data_in := a\<rparr>)\<rparr>, [RespondError m E_OTHER
                 (Some ''exchange request failed to save pending request'')])
             else session_process E xcg0 (ses\<lparr>data_in := a, requests := requests ses @ [m]\<rparr>))"
        using False Some cur unfolding exchange_request_cb_def current_def [symmetric]
        by (simp add: Let_def cong: option.case_cong if_cong)
      show ?thesis
      proof (cases "json_array_extend L (data_in ses) b")
        case None
        then show ?thesis using assms [unfolded req] that(2) [OF cur] by simp
      next
        case (Some a)
        show ?thesis
        proof (cases "msglist_append_ok E")
          case True
          then show ?thesis using assms [unfolded req] that(4) [OF cur Some] Some by simp
        next
          case False
          then show ?thesis using assms [unfolded req] that(3) [OF cur Some] Some by simp
        qed
      qed
    qed
  qed
qed

context jansson_mem
begin

lemma current_array:
  "fence_inv L fx \<Longrightarrow> current L E (fence_exchange fx) = Some ses \<Longrightarrow> json_is_array L (data_in ses)"
  using array by (auto simp: fence_inv_def session_create_def current_def split: option.splits if_splits)

lemma fence_inv_process:
  assumes "session_process E xcg0 ses = Ok (xcg, es)" and "json_is_array L (data_in ses)"
    and "exchange_inv xcg"
  shows "fence_inv L (fx\<lparr>fence_exchange := xcg\<rparr>)"
proof (cases "xsession xcg")
  case (Some ses')
  then show ?thesis using session_process_data_in [OF assms(1) Some] assms(2,3) by (simp add: fence_inv_def)
qed (use assms(3) in \<open>simp add: fence_inv_def\<close>)

lemma enter_inv:
  assumes inv: "fence_inv L fx"
    and enter: "exchange_enter_base64_string L E data (Some c) (Some (fence_exchange fx)) = Ok (rc, Some xcg, es)"
  shows "rc \<noteq> Some ENOMEM \<and> fence_inv L (fx\<lparr>fence_exchange := xcg\<rparr>)"
proof -
  have xinv: "rc \<noteq> Some ENOMEM \<Longrightarrow> exchange_inv xcg"
    using enter_handles [of "fence_exchange fx" L E data c] assms by (auto simp: fence_inv_def handles_def)
  from enter show ?thesis
  proof (cases rule: enter_shape)
    case 1
    then show ?thesis using inv by (simp add: fence_inv_def)
  next
    case (2 ses)
    then show ?thesis using xinv current_array [OF inv 2(1)] by (simp add: fence_inv_def)
  next
    case (3 ses d)
    then show ?thesis using append_ok [OF current_array [OF inv 3(1)]] by simp
  next
    case (4 ses a)
    have "json_is_array L a" using 4(3) append current_array [OF inv 4(1)] by blast
    then show ?thesis using 4(2) xinv fence_inv_process [OF 4(4)] by simp
  qed
qed

lemma request_inv:
  assumes inv: "fence_inv L fx" and req: "exchange_request_cb L E m pl (fence_exchange fx) = Ok (xcg, es)"
  shows "fence_inv L (fx\<lparr>fence_exchange := xcg\<rparr>)"
proof -
  have xinv: "exchange_inv xcg"
    using request_handles [of "fence_exchange fx" L E m pl] assms by (auto simp: fence_inv_def handles_def)
  from req show ?thesis
  proof (cases rule: request_shape)
    case 1
    then show ?thesis using inv by (simp add: fence_inv_def)
  next
    case (2 ses)
    then show ?thesis using xinv current_array [OF inv 2(1)] by (simp add: fence_inv_def)
  next
    case (3 ses a b)
    then show ?thesis using xinv extend [OF 3(2)] by (simp add: fence_inv_def)
  next
    case (4 ses a b)
    then show ?thesis using xinv extend [OF 4(2)] fence_inv_process [OF 4(3)] by simp
  qed
qed

lemma response_inv:
  assumes inv: "fence_inv L fx" and ses: "xsession (fence_exchange fx) = Some ses" "fut ses"
    and resp: "exchange_response_completion E reply (fence_exchange fx) = Ok (xcg, es)"
  shows "fence_inv L (fx\<lparr>fence_exchange := xcg\<rparr>)"
proof -
  have xinv: "exchange_inv xcg"
    using response_handles [of "fence_exchange fx" ses E reply] assms by (auto simp: fence_inv_def handles_def)
  have arr: "json_is_array L (data_in ses)" using inv ses(1) by (simp add: fence_inv_def)
  show ?thesis
  proof (cases reply)
    case None
    then obtain fs where "session_process (E\<lparr>future_is_ready := True\<rparr>) (fence_exchange fx) (ses\<lparr>has_error := True\<rparr>)
        = Ok (xcg, fs)"
      using resp ses by (auto simp: exchange_response_completion_def Let_def bind_outcome_Ok_iff)
    from fence_inv_process [OF this _ xinv] arr show ?thesis by simp
  next
    case (Some D)
    then have "session_process (E\<lparr>future_is_ready := True\<rparr>) (fence_exchange fx) (ses\<lparr>data_out := Some D\<rparr>)
        = Ok (xcg, es)"
      using resp ses by (simp add: exchange_response_completion_def Let_def)
    from fence_inv_process [OF this _ xinv] arr show ?thesis by simp
  qed
qed

end

subsection \<open>Histories of a fence\<close>

text \<open>The callback a message obliges the shell to call: none if it cannot be decoded.\<close>

definition accepted :: "'j lib \<Rightarrow> bool \<Rightarrow> 'j option \<Rightarrow> ('j, 'm) fence \<Rightarrow> (u64 \<times> u64) list" where
  "accepted L calloc_ok pl fx =
     (case fst (fence_call_create calloc_ok fx) of
        None \<Rightarrow> []
      | Some c \<Rightarrow> (case fence_call_unpack L pl c of (Ok _, c) \<Rightarrow> [answer_to c] | _ \<Rightarrow> []))"

text \<open>
  The histories of one shell's fence: fence messages from the server thread, requests of child
  shells and answers of the parent, in any order and with any combination of failing flux calls; the
  arguments are the callbacks accepted and the effects so far.
\<close>

inductive fence_run ::
    "'j lib \<Rightarrow> ('j, 'm) fence \<Rightarrow> (u64 \<times> u64) list \<Rightarrow> ('j, 'm) fence_effect list \<Rightarrow> bool"
  for L where
  fence_start: "fence_create calloc_ok shell_info service_ok it ctx = (Some fx, ctx', it') \<Longrightarrow> fence_run L fx [] []"
| fence_upcall: "fence_run L fx as es \<Longrightarrow> fence_shell_cb L E calloc_ok pl fx = Ok (fx', fs) \<Longrightarrow>
    fence_run L fx' (as @ accepted L calloc_ok pl fx) (es @ fs)"
| fence_request: "fence_run L fx as es \<Longrightarrow>
    fence_exchange_step L fx (exchange_request_cb L E m pl (fence_exchange fx)) = Ok (fx', fs) \<Longrightarrow>
    fence_run L fx' as (es @ fs)"
| fence_response: "fence_run L fx as es \<Longrightarrow> xsession (fence_exchange fx) = Some ses \<Longrightarrow> fut ses \<Longrightarrow>
    fence_exchange_step L fx (exchange_response_completion E reply (fence_exchange fx)) = Ok (fx', fs) \<Longrightarrow>
    fence_run L fx' as (es @ fs)"

text \<open>What a step owes: the callbacks made and the one outstanding are those accepted.\<close>

abbreviation owed :: "('j, 'm) fence \<Rightarrow> (u64 \<times> u64) list" where
  "owed fx \<equiv> map answer_to (outstanding (fence_exchange fx))"

definition accounts :: "'j lib \<Rightarrow> ('j, 'm) fence \<Rightarrow> (u64 \<times> u64) list \<Rightarrow>
    ('j, 'm) fence \<times> ('j, 'm) fence_effect list \<Rightarrow> bool" where
  "accounts L fx new r \<longleftrightarrow> fence_inv L (fst r)
     \<and> mset (callbacks (snd r)) + mset (owed (fst r)) = mset (owed fx) + mset new"

lemma handles_owed:
  assumes "handles (fence_exchange fx) ms cs (xcg, es)"
  shows "mset (callbacks (run_effects L es)) + mset (map answer_to (outstanding xcg))
    = mset (owed fx) + mset (map answer_to cs)"
proof -
  have "map fst (exits es) @ outstanding xcg = outstanding (fence_exchange fx) @ cs"
    using assms by (simp add: handles_def)
  then have "map answer_to (map fst (exits es) @ outstanding xcg)
      = map answer_to (outstanding (fence_exchange fx) @ cs)" by (rule arg_cong)
  then show ?thesis by (simp only: callbacks_run_effects map_append mset_append [symmetric] map_map)
qed

lemma fence_inv_seq [simp]: "fence_inv L (fx\<lparr>exchange_seq := k\<rparr>) = fence_inv L fx"
  by (simp add: fence_inv_def)

text \<open>A fence call that is well formed enters the exchange; refused entries are answered at once.\<close>

abbreviation blank_call :: "u32 \<Rightarrow> fence_call" where
  "blank_call k \<equiv> \<lparr>procs = None, info = None, cbfunc = 0, cbdata = 0, collect = False, call_seq = k\<rparr>"

lemma fence_shell_cb_enters:
  assumes "fence_call_unpack L pl (blank_call (exchange_seq fx)) = (Ok xdata, c)"
    and "procs c = Some [p]" "rank p = PMIX_RANK_WILDCARD" "info c = Some is"
    and "parse_fence_attrs c is = (PMIX_SUCCESS, c', lg)"
    and "exchange_enter_base64_string L E (if collect c' then Some xdata else None) (Some c')
           (Some (fence_exchange fx)) = Ok (err, Some xcg, es)"
  shows "\<exists>log. callbacks log = [] \<and> fence_shell_cb L E True pl fx =
    Ok (fx\<lparr>exchange_seq := exchange_seq fx + 1, fence_exchange := xcg\<rparr>,
        log @ run_effects L es
        @ (if err = None then [] else FLog (LWarn ''error initiating pmix exchange'') # fence_error PMIX_ERROR c'))"
proof -
  let ?log = "map FLog lg @ (if trace_flag fx then fence_trace_start L xdata c' else [])"
  have "callbacks ?log = []" by simp
  moreover have "fence_shell_cb L E True pl fx =
    Ok (fx\<lparr>exchange_seq := exchange_seq fx + 1, fence_exchange := xcg\<rparr>,
        ?log @ run_effects L es
        @ (if err = None then [] else FLog (LWarn ''error initiating pmix exchange'') # fence_error PMIX_ERROR c'))"
    using assms by (cases err) (simp_all add: fence_shell_cb_def fence_call_create_def Let_def)
  ultimately show ?thesis by blast
qed

context jansson_mem
begin

lemma exchange_step_accounts:
  assumes "fence_exchange_step L fx r = Ok (fx', fs)" and "r = Ok (xcg, es)"
    and "handles (fence_exchange fx) ms [] (xcg, es)" and "fence_inv L (fx\<lparr>fence_exchange := xcg\<rparr>)"
  shows "accounts L fx [] (fx', fs)"
  using assms handles_owed [OF assms(3), of L] by (auto simp: accounts_def fence_exchange_step_def)

lemma enter_accounts:
  assumes inv: "fence_inv L fx"
    and enter: "exchange_enter_base64_string L E data (Some c) (Some (fence_exchange fx)) = Ok (rc, xcgp, es)"
  obtains xcg where "xcgp = Some xcg" "fence_inv L (fx\<lparr>fence_exchange := xcg\<rparr>)"
    "mset (callbacks (run_effects L es)) + mset (map answer_to (outstanding xcg))
      = mset (owed fx) + mset (if rc = None then [answer_to c] else [])"
proof -
  have "exchange_inv (fence_exchange fx)" using inv by (simp add: fence_inv_def)
  from enter_handles [OF this, of L E data c] enter obtain xcg where xcg: "xcgp = Some xcg"
    and h: "handles (fence_exchange fx) [] (if installs rc then [c] else []) (xcg, es)"
    by auto
  from enter_inv [OF inv enter [unfolded xcg]] h have
    "handles (fence_exchange fx) [] (if rc = None then [c] else []) (xcg, es)"
    "fence_inv L (fx\<lparr>fence_exchange := xcg\<rparr>)" by (simp_all add: installs_def)
  with handles_owed [OF this(1), of L] xcg that show ?thesis by (cases rc) auto
qed

lemma fence_error_callbacks [simp]: "callbacks (fence_error rc c) = [answer_to c]"
  by (simp add: fence_error_def)

lemma shell_cb_accounts:
  assumes inv: "fence_inv L fx" and cb: "fence_shell_cb L E calloc_ok pl fx = Ok (fx', fs)"
  shows "accounts L fx (accepted L calloc_ok pl fx) (fx', fs)"
proof (cases "calloc_ok")
  case False
  then show ?thesis using assms
    by (auto simp: fence_shell_cb_def fence_call_create_def accounts_def accepted_def)
next
  case True
  let ?c = "\<lparr>procs = None, info = None, cbfunc = 0, cbdata = 0, collect = False, call_seq = exchange_seq fx\<rparr>"
  let ?fx = "fx\<lparr>exchange_seq := exchange_seq fx + 1\<rparr>"
  have create: "fence_call_create calloc_ok fx = (Some ?c, ?fx)"
    using True by (simp add: fence_call_create_def)
  obtain x c where unpack: "fence_call_unpack L pl ?c = (x, c)" by (cases "fence_call_unpack L pl ?c")
  consider "x = Undef" | "x = Fail" | xdata where "x = Ok xdata" by (cases x) auto
  then show ?thesis
  proof cases
    case 1
    then show ?thesis using cb create unpack by (simp add: fence_shell_cb_def)
  next
    case 2
    then show ?thesis using cb inv create unpack
      by (auto simp: fence_shell_cb_def accounts_def accepted_def)
  next
    case (3 xdata)
    note acc = create unpack 3
    let ?ps = "case procs c of None \<Rightarrow> [] | Some ps \<Rightarrow> ps"
    from unpack 3 obtain "is" where infos: "info c = Some is"
      by (auto simp: fence_call_unpack_def Let_def split: option.splits list.splits unpacked.splits outcome.splits if_splits)
    let ?is = "is"
    obtain rc c' log where attrs: "parse_fence_attrs c ?is = (rc, c', log)"
      by (cases "parse_fence_attrs c ?is")
    have same: "answer_to c' = answer_to c"
      using parse_fence_attrs_ok [of ?is c] parse_fence_attrs_bad [of ?is c] attrs
      by (cases "list_all attr_ok ?is") auto
    have accd: "accepted L calloc_ok pl fx = [answer_to c]" using acc by (simp add: accepted_def)
    consider (empty) "?ps = []" | (subset) "?ps \<noteq> []" "1 < length ?ps \<or> rank (hd ?ps) \<noteq> PMIX_RANK_WILDCARD"
      | (attr) "?ps \<noteq> []" "\<not> (1 < length ?ps \<or> rank (hd ?ps) \<noteq> PMIX_RANK_WILDCARD)" "rc \<noteq> PMIX_SUCCESS"
      | (go) "?ps \<noteq> []" "\<not> (1 < length ?ps \<or> rank (hd ?ps) \<noteq> PMIX_RANK_WILDCARD)" "rc = PMIX_SUCCESS"
      by blast
    then show ?thesis
    proof cases
      case empty
      then show ?thesis using cb acc by (simp add: fence_shell_cb_def)
    next
      case subset
      then show ?thesis using cb inv acc accd
        by (auto simp: fence_shell_cb_def accounts_def Let_def simp del: length_greater_0_conv)
    next
      case attr
      then show ?thesis using cb inv acc infos attrs same accd
        by (auto simp: fence_shell_cb_def accounts_def Let_def)
    next
      case go
      let ?data = "if collect c' then Some xdata else None"
      from go(1,2) obtain p where ps: "procs c = Some [p]" "rank p = PMIX_RANK_WILDCARD"
        by (cases "procs c"; cases ?ps; cases "tl ?ps") auto
      obtain err xcgp es where enter: "exchange_enter_base64_string L E ?data (Some c') (Some (fence_exchange fx))
          = Ok (err, xcgp, es)"
        using cb acc infos attrs go
        by (cases "exchange_enter_base64_string L E ?data (Some c') (Some (fence_exchange fx))")
           (auto simp: fence_shell_cb_def Let_def)
      obtain xcg where x: "xcgp = Some xcg"
        "fence_inv L (fx\<lparr>fence_exchange := xcg\<rparr>)"
        "mset (callbacks (run_effects L es)) + mset (map answer_to (outstanding xcg))
          = mset (owed fx) + mset (if err = None then [answer_to c'] else [])"
        by (rule enter_accounts [OF inv enter])
      obtain log where log: "callbacks log = []"
        "fx' = fx\<lparr>exchange_seq := exchange_seq fx + 1, fence_exchange := xcg\<rparr>"
        "fs = log @ run_effects L es
          @ (if err = None then [] else FLog (LWarn ''error initiating pmix exchange'') # fence_error PMIX_ERROR c')"
        using fence_shell_cb_enters [OF unpack [unfolded 3] ps infos attrs [unfolded go(3)] enter [unfolded x(1)]]
          cb True by auto
      have "mset (callbacks fs) + mset (map answer_to (outstanding xcg)) = mset (owed fx) + {#answer_to c'#}"
        using x(3) log(1,3) by (cases err) (auto simp: ac_simps)
      then show ?thesis using x(2) log(2) same accd by (simp add: accounts_def fence_inv_def)
    qed
  qed
qed

lemma fence_run_accounts:
  assumes "fence_run L fx as es"
  shows "fence_inv L fx \<and> mset (callbacks es) + mset (owed fx) = mset as"
  using assms
proof induction
  case (fence_start calloc_ok shell_info service_ok it ctx fx ctx' it')
  then have "xsession (fence_exchange fx) = None"
    by (auto simp: fence_create_def exchange_create_def Let_def split: if_splits sum.splits option.splits)
  then show ?case by (simp add: fence_inv_def exchange_inv_def outstanding_def)
next
  case (fence_upcall fx as es E calloc_ok pl fx' fs)
  then have "accounts L fx (accepted L calloc_ok pl fx) (fx', fs)" using shell_cb_accounts by blast
  with fence_upcall.IH show ?case by (auto simp: accounts_def ac_simps)
next
  case (fence_request fx as es E m pl fx' fs)
  then have inv: "fence_inv L fx" by blast
  then obtain xcg gs where r: "exchange_request_cb L E m pl (fence_exchange fx) = Ok (xcg, gs)"
    and h: "handles (fence_exchange fx) [m] [] (xcg, gs)"
    using request_handles [of "fence_exchange fx" L E m pl] by (auto simp: fence_inv_def)
  from exchange_step_accounts [OF fence_request.hyps(2) r h request_inv [OF inv r]] fence_request.IH
  show ?case by (auto simp: accounts_def ac_simps)
next
  case (fence_response fx as es ses E reply fx' fs)
  then have inv: "fence_inv L fx" by blast
  then obtain xcg gs where r: "exchange_response_completion E reply (fence_exchange fx) = Ok (xcg, gs)"
    and h: "handles (fence_exchange fx) [] [] (xcg, gs)"
    using response_handles [of "fence_exchange fx" ses E reply] fence_response.hyps by (auto simp: fence_inv_def)
  from exchange_step_accounts [OF fence_response.hyps(4) r h response_inv [OF inv fence_response.hyps(2,3) r]]
    fence_response.IH
  show ?case by (auto simp: accounts_def ac_simps)
qed

end

subsection \<open>What the callbacks deliver\<close>

lemma map_of_image_mset:
  "mset xs = image_mset f M \<Longrightarrow> \<exists>ys. xs = map f ys \<and> mset ys = M"
proof (induction xs arbitrary: M)
  case (Cons x xs)
  then have "image_mset f M = add_mset x (mset xs)" by simp
  then obtain a N where "M = add_mset a N" "f a = x" "image_mset f N = mset xs"
    by (rule msed_map_invR [elim_format]) auto
  with Cons.IH [of N] obtain ys where "xs = map f ys" "mset ys = N" by metis
  with \<open>M = _\<close> \<open>f a = x\<close> show ?case by (intro exI [of _ "a # ys"]) simp
qed simp

text \<open>Every shell contributes the encoding of its data, or nothing when it does not collect.\<close>

definition encoded :: "'j lib \<Rightarrow> (nat \<Rightarrow> nat \<Rightarrow> byte list option) \<Rightarrow> nat \<Rightarrow> nat \<Rightarrow> 'j option" where
  "encoded L dat r t = (case dat r t of None \<Rightarrow> None | Some d \<Rightarrow> codec_data_encode L d)"

definition data_ok :: "(nat \<Rightarrow> nat \<Rightarrow> byte list option) \<Rightarrow> bool" where
  "data_ok dat \<longleftrightarrow> (\<forall>r t d. dat r t = Some d \<longrightarrow> length d \<le> data_limit)"

context jansson_mem
begin

lemma encoded_valid:
  assumes "data_ok dat"
  shows "valid_inputs L (encoded L dat)"
  using data_encode_string is_string assms
  by (fastforce simp: data_ok_def valid_inputs_def encoded_def data_limit_def split: option.splits)

lemma total_encoded:
  assumes "data_ok dat"
  shows "total n (encoded L dat) t = image_mset (\<lambda>d. the (codec_data_encode L d)) (total n dat t)"
proof -
  have "contrib (encoded L dat) t r = image_mset (\<lambda>d. the (codec_data_encode L d)) (contrib dat t r)" for r
    using data_encode_ok assms
    by (auto simp: data_ok_def contrib_def encoded_def data_limit_def split: option.split)
  then show ?thesis by (induction n) (simp_all add: total_def)
qed

lemma exit_cb_delivers:
  assumes "data_ok dat"
    and "(\<Sum>d\<in>#total n dat t. chunk_room d) < 2 ^ 40"
    and "\<not> has_error ses" "data_out ses = Some D"
    and "mset (json_array_elems L D) = total n (encoded L dat) t"
  shows "\<exists>ds. mset ds = total n dat t \<and> exchange_exit_cb L ses c =
    [TraceEnd (call_seq c) (length (concat ds)) PMIX_SUCCESS,
     Cbfunc (cbfunc c) PMIX_SUCCESS (Some (concat ds)) (length (concat ds)) (cbdata c),
     FFree (fence_call_destroy (Some c))]"
proof -
  let ?enc = "\<lambda>d. the (codec_data_encode L d)"
  from assms(5) total_encoded [OF assms(1), of n t]
  obtain ds where ds: "json_array_elems L D = map ?enc ds" "mset ds = total n dat t"
    using map_of_image_mset [of "json_array_elems L D" ?enc "total n dat t"] by auto
  have lim: "length d \<le> data_limit" if "d \<in> set ds" for d
  proof -
    have "d \<in># total n dat t" using that ds(2) by (metis set_mset_mset)
    then show ?thesis using assms(1)
      by (auto simp: data_ok_def total_def contrib_def set_mset_sum split: option.splits)
  qed
  have "is_text_of L (?enc d) d" if "d \<in> set ds" for d
    using data_encode_ok data_encode_string lim [OF that] by (fastforce simp: is_text_of_def data_limit_def)
  then have all: "list_all2 (is_text_of L) (json_array_elems L D) ds"
    unfolding ds(1) by (simp add: list_all2_map1 list_all2_same)
  have sum: "sum_list (map chunk_room ds) = (\<Sum>d\<in>#total n dat t. chunk_room d)"
    by (metis ds(2) mset_map sum_mset_sum_list)
  then have "exchange_get_data L ses = Ok (concat ds)"
    using get_data_texts [OF assms(4) all] assms(2) malloc_ok by (simp add: size_max_def)
  with assms(3) ds(2) show ?thesis
    by (intro exI [of _ ds]) (simp add: exchange_exit_cb_def exchange_has_error_def)
qed

end

subsection \<open>Properties\<close>

text \<open>
  C2. A fence delivers to every server, for every order of message delivery across the job: when the
  \<open>t\<close>-th exchange of a shell completes, its callback function is called once with success, the call's
  argument and a buffer that is the concatenation, in some order, of exactly the data all shells
  contributed to that fence, decoded from the base64 texts that travelled between the shells.
\<close>

theorem fence_delivers_all:
  assumes "jansson_mem L utf8" and "0 < n" "n < 2 ^ 31"
    and "data_ok dat"
    and "(\<Sum>d\<in>#total n dat t. chunk_room d) < 2 ^ 40"
    and "sys_reach L n (encoded L dat) T k s" and "r < n" and "t < length (outs s r)"
  shows "\<exists>ds. mset ds = total n dat t \<and> exchange_exit_cb L (snd (outs s r ! t)) c =
    [TraceEnd (call_seq c) (length (concat ds)) PMIX_SUCCESS,
     Cbfunc (cbfunc c) PMIX_SUCCESS (Some (concat ds)) (length (concat ds)) (cbdata c),
     FFree (fence_call_destroy (Some c))]"
proof -
  have "valid_inputs L (encoded L dat)" using jansson_mem.encoded_valid [OF assms(1)] assms(4) .
  then have "sys_inv L n (encoded L dat) None s"
    using jansson_mem.sys_reach_inv [OF assms(1,6,2,3)] by blast
  from sys_invD(2) [OF this assms(7)] assms(8) obtain D where
    "\<not> has_error (snd (outs s r ! t))" "data_out (snd (outs s r ! t)) = Some D"
    "mset (json_array_elems L D) = total n (encoded L dat) t"
    by (auto simp: outs_inv_def delivered_def)
  then show ?thesis using jansson_mem.exit_cb_delivers [OF assms(1) assms(4,5)] by blast
qed

text \<open>The two-shell job again, with the data behind its base64 texts: \<^verbatim>\<open>f\<close> and \<^verbatim>\<open>fo\<close>.\<close>

definition demo_dat :: "nat \<Rightarrow> nat \<Rightarrow> byte list option" where
  "demo_dat r t = Some (if r = 0 then [102] else [102, 111])"

lemma json_lib_data_encode:
  assumes "length d \<le> data_limit" and "encode_loop base64_maps_rfc4648 d [] = Inr txt"
  shows "codec_data_encode json_lib d = Some (JStr txt)"
proof -
  obtain j where j: "codec_data_encode json_lib d = Some j"
    using jlib.data_encode_ok [of d] assms(1) by (auto simp: data_limit_def)
  have "j_string j = Some (base64_text d)"
    using jlib.data_encode_string [OF j] assms(1) by (simp add: data_limit_def json_lib_def)
  moreover have "base64_text d = txt" using assms(2) rfc4648.encode_loop_text [of d "[]"] by simp
  ultimately show ?thesis using j by (cases j) auto
qed

lemma demo_encoded: "encoded json_lib demo_dat = demo_inp"
proof (intro ext)
  have "codec_data_encode json_lib [102] = Some (JStr ''Zg=='')"
    by (rule json_lib_data_encode) (simp add: data_limit_def, code_simp)
  moreover have "codec_data_encode json_lib [102, 111] = Some (JStr ''Zm8='')"
    by (rule json_lib_data_encode) (simp add: data_limit_def, code_simp)
  ultimately show "encoded json_lib demo_dat r t = demo_inp r t" for r t
    by (simp add: encoded_def demo_dat_def demo_inp_def)
qed

lemma demo_reach: "sys_reach json_lib 2 (encoded json_lib demo_dat) 1 4 demo_end"
  unfolding demo_encoded by (rule demo_run)

theorem fence_delivers_all_witness:
  "\<exists>ds. mset ds = total 2 demo_dat 0
     \<and> exchange_exit_cb json_lib (snd (outs demo_end 1 ! 0)) (blank_call 5) =
       [TraceEnd 5 (length (concat ds)) PMIX_SUCCESS,
        Cbfunc 0 PMIX_SUCCESS (Some (concat ds)) (length (concat ds)) 0,
        FFree (fence_call_destroy (Some (blank_call 5)))]"
proof -
  have room: "(\<Sum>d\<in>#total 2 demo_dat 0. chunk_room d) < 2 ^ 40"
    by (simp add: total_def contrib_def demo_dat_def lessThan_Suc lessThan_nat_numeral chunk_room_def
        rfc4648.length_text_of base64_decoded_length_eq)
  have lim: "data_ok demo_dat" by (simp add: data_ok_def demo_dat_def data_limit_def)
  have len: "0 < length (outs demo_end 1)" by (simp add: demo_def)
  from fence_delivers_all [OF jlib.jansson_mem_axioms _ _ lim room demo_reach _ len, of "blank_call 5"]
  show ?thesis by simp
qed

text \<open>
  C6. In every history of a shell in which the allocations of the JSON library succeed (\<open>jansson_mem\<close>),
  whatever flux calls fail: the callback functions called so far and the one still waiting for the
  exchange are exactly those of the fence messages that could be decoded, so that no accepted fence is
  forgotten or answered twice. Without the condition an entry that runs out of memory is answered and
  stays in the exchange, as \<open>fence_enomem_answered_and_outstanding\<close> below shows.
\<close>

theorem fence_answers_once:
  assumes "jansson_mem L utf8" and "fence_run L fx as es"
  shows "mset (callbacks es) + mset (map (\<lambda>c. (cbfunc c, cbdata c)) (outstanding (fence_exchange fx))) = mset as
    \<and> length (outstanding (fence_exchange fx)) \<le> 1"
  using jansson_mem.fence_run_accounts [OF assms] outstanding_le by blast

text \<open>
  C7. A fence over the whole namespace that the PMIx server thread submits arrives intact in the
  shell thread: the handler enters the exchange with the server's data exactly when the attributes
  ask to collect it, with the server's callback and argument.
\<close>

theorem fence_upcall_enters_exchange:
  assumes "jansson L" and "fence_server_cb L S it [p] is data f d = (PMIX_SUCCESS, it')"
    and "proc_ok p" "rank p = PMIX_RANK_WILDCARD" "list_all (info_ok L) is" "list_all attr_ok is" and "f \<noteq> 0"
    and "malloc_ok L sizeof_proc" "malloc_ok L (length is * sizeof_info)"
    and "call = \<lparr>procs = Some [p], info = Some is, cbfunc = f, cbdata = d, collect = wants_collect is,
                call_seq = exchange_seq fx\<rparr>"
    and "exchange_enter_base64_string L E (if wants_collect is then codec_data_encode L data else None)
           (Some call) (Some (fence_exchange fx)) = Ok (None, Some xcg, es)"
  shows "\<exists>pl log. queue it' = queue it @ [\<lparr>topic = Some ''fence_upcall'', payload = Some pl\<rparr>]
    \<and> fence_shell_cb L E True (Some pl) fx
      = Ok (fx\<lparr>exchange_seq := exchange_seq fx + 1, fence_exchange := xcg\<rparr>, log @ run_effects L es)"
proof -
  let ?blank = "blank_call (exchange_seq fx)"
  obtain pl xdata where pl: "it' = it\<lparr>queue := queue it @ [\<lparr>topic = Some ''fence_upcall'', payload = Some pl\<rparr>]\<rparr>"
      "codec_data_encode L data = Some xdata"
    and unpack: "fence_call_unpack L (Some pl) ?blank
       = (Ok xdata, ?blank\<lparr>procs := Some [p], info := Some is, cbfunc := f, cbdata := d\<rparr>)"
    by (rule jansson.fence_upcall_payload [OF assms(1,2) _ assms(5,7) _ assms(9), where c = ?blank])
       (use assms(3,8) in simp_all)
  obtain lg where attrs: "parse_fence_attrs (?blank\<lparr>procs := Some [p], info := Some is, cbfunc := f, cbdata := d\<rparr>) is
      = (PMIX_SUCCESS, call, lg)"
    using parse_fence_attrs_ok [OF assms(6), of "?blank\<lparr>procs := Some [p], info := Some is, cbfunc := f, cbdata := d\<rparr>"]
      assms(10) by auto
  have enter: "exchange_enter_base64_string L E (if collect call then Some xdata else None)
           (Some call) (Some (fence_exchange fx)) = Ok (None, Some xcg, es)"
    using assms(10,11) pl(2) by (cases "wants_collect is") simp_all
  show ?thesis using fence_shell_cb_enters [OF unpack _ assms(4) _ attrs enter] pl(1) by auto
qed

text \<open>A job of one shell: the fence completes as soon as it is entered.\<close>

definition demo_channel :: "(upcall, json) interthread" where
  "demo_channel = \<lparr>send = True, recv = True, w = True, handlers = [], verbose = 0, queue = []\<rparr>"

definition demo_fence :: "(json, nat) fence" where
  "demo_fence = \<lparr>fence_exchange = \<lparr>xsize = 1, xrank = 0, parent_rank = KARY_NONE, xchild_count = 0,
     xsession = None\<rparr>, trace_flag = True, exchange_seq = 0\<rparr>"

definition demo_call :: fence_call where
  "demo_call = \<lparr>procs = Some [\<lparr>nspace = ''f1'', rank = PMIX_RANK_WILDCARD\<rparr>], info = Some [],
     cbfunc = 7, cbdata = 8, collect = False, call_seq = 0\<rparr>"

definition demo_payload :: json where
  "demo_payload = JObj [(''procs'', JArr [JObj [(''nspace'', JStr ''f1''), (''rank'', JInt (- 2))]]),
     (''info'', JArr []), (''data'', JStr ''Zg==''), (''cbfunc'', JInt 7), (''cbdata'', JInt 8)]"

lemma demo_create:
  "fst (fence_create True (Some (1, 0)) True demo_channel False) = Some demo_fence"
  by code_simp

lemma demo_unpack:
  "fence_call_unpack json_lib (Some demo_payload) (blank_call 0) = (Ok (JStr ''Zg==''), demo_call)"
  by code_simp

lemma demo_shell_cb:
  "fence_shell_cb json_lib good_env True (Some demo_payload) demo_fence =
     Ok (demo_fence\<lparr>exchange_seq := 1\<rparr>,
         [TraceStart 0 0, TraceEnd 0 0 PMIX_SUCCESS, Cbfunc 7 PMIX_SUCCESS (Some []) 0 8,
          FFree (fence_call_destroy (Some demo_call))])"
  by code_simp

lemma demo_fence_run:
  "fence_run json_lib (demo_fence\<lparr>exchange_seq := 1\<rparr>) [(7, 8)]
     [TraceStart 0 0, TraceEnd 0 0 PMIX_SUCCESS, Cbfunc 7 PMIX_SUCCESS (Some []) 0 8,
      FFree (fence_call_destroy (Some demo_call))]"
proof -
  obtain ctx' it' where "fence_create True (Some (1, 0)) True demo_channel False = (Some demo_fence, ctx', it')"
    using demo_create by (metis prod.collapse)
  from fence_upcall [OF fence_start [OF this] demo_shell_cb]
  show ?thesis using demo_unpack
    by (simp add: accepted_def fence_call_create_def demo_fence_def demo_call_def)
qed

theorem fence_answers_once_witness:
  "let fx = demo_fence\<lparr>exchange_seq := 1\<rparr> in
   mset (callbacks [TraceStart 0 0, TraceEnd 0 0 PMIX_SUCCESS, Cbfunc 7 PMIX_SUCCESS (Some []) 0 8,
      FFree (fence_call_destroy (Some demo_call)) :: (json, nat) fence_effect])
     + mset (map (\<lambda>c. (cbfunc c, cbdata c)) (outstanding (fence_exchange fx))) = mset [(7, 8)]
   \<and> length (outstanding (fence_exchange fx)) \<le> 1"
  unfolding Let_def by (rule fence_answers_once [OF jlib.jansson_mem_axioms demo_fence_run])

theorem fence_upcall_enters_exchange_witness:
  "\<exists>pl log. queue (snd (fence_server_cb json_lib demo_send_env demo_channel
       [\<lparr>nspace = ''f1'', rank = PMIX_RANK_WILDCARD\<rparr>] [] [102] 7 8))
       = queue demo_channel @ [\<lparr>topic = Some ''fence_upcall'', payload = Some pl\<rparr>]
    \<and> fence_shell_cb json_lib good_env True (Some pl) demo_fence
      = Ok (demo_fence\<lparr>exchange_seq := exchange_seq demo_fence + 1, fence_exchange := fence_exchange demo_fence\<rparr>,
            log @ run_effects json_lib [ExitCb demo_call \<lparr>data_in = JArr [], data_out = Some (JArr []),
              exit_cb = Some demo_call, requests = [], fut = False, local = True, has_error = False\<rparr>])"
proof -
  have enc: "codec_data_encode json_lib [102] = Some (JStr ''Zg=='')"
    by (rule json_lib_data_encode) (simp add: data_limit_def, code_simp)
  have parts: "codec_proc_array_encode json_lib [\<lparr>nspace = ''f1'', rank = PMIX_RANK_WILDCARD\<rparr>]
      = Some (JArr [JObj [(''nspace'', JStr ''f1''), (''rank'', JInt (- 2))]])"
    "codec_info_array_encode json_lib [] = Some (JArr [])" by code_simp+
  have ok: "fst (fence_server_cb json_lib demo_send_env demo_channel
      [\<lparr>nspace = ''f1'', rank = PMIX_RANK_WILDCARD\<rparr>] [] [102] 7 8) = PMIX_SUCCESS"
    by (simp add: fence_server_cb_def enc parts) (simp add: interthread_send_pack_def codec_pointer_encode_def
        demo_send_env_def json_lib_def)
  show ?thesis
  proof (rule fence_upcall_enters_exchange [OF jlib.jansson_axioms])
    show "fence_server_cb json_lib demo_send_env demo_channel
      [\<lparr>nspace = ''f1'', rank = PMIX_RANK_WILDCARD\<rparr>] [] [102] 7 8
      = (PMIX_SUCCESS, snd (fence_server_cb json_lib demo_send_env demo_channel
      [\<lparr>nspace = ''f1'', rank = PMIX_RANK_WILDCARD\<rparr>] [] [102] 7 8))"
      using ok by (metis prod.collapse)
    show "exchange_enter_base64_string json_lib good_env
      (if wants_collect [] then codec_data_encode json_lib [102] else None) (Some demo_call)
      (Some (fence_exchange demo_fence)) = Ok (None, Some (fence_exchange demo_fence),
        [ExitCb demo_call \<lparr>data_in = JArr [], data_out = Some (JArr []), exit_cb = Some demo_call,
          requests = [], fut = False, local = True, has_error = False\<rparr>])"
      by (simp add: wants_collect_def) code_simp
  qed (simp_all add: proc_ok_def nul_free_def PMIX_MAX_NSLEN_def json_lib_def demo_call_def demo_fence_def
      wants_collect_def)
qed

text \<open>
  C12. A fence the plugin does not support is refused at once: over a subset of the processes with
  PMIX_ERR_NOT_SUPPORTED, with an unknown required attribute or a \<^verbatim>\<open>pmix.collect\<close> of the wrong type
  with PMIX_ERR_BAD_PARAM. The server's callback gets the status, the exchange is not entered and
  everything decoded from the message is freed.
\<close>

theorem fence_refuses_unsupported:
  assumes "fence_call_unpack L pl (blank_call (exchange_seq fx)) = (Ok xdata, c)"
    and "procs c = Some ps" "ps \<noteq> []" "info c = Some is"
    and "\<not> (length ps = 1 \<and> rank (hd ps) = PMIX_RANK_WILDCARD \<and> list_all attr_ok is)"
  shows "\<exists>log c'. fence_shell_cb L E True pl fx =
      Ok (fx\<lparr>exchange_seq := exchange_seq fx + 1\<rparr>,
          map FLog log @
          [Cbfunc (cbfunc c) (if length ps = 1 \<and> rank (hd ps) = PMIX_RANK_WILDCARD then PMIX_ERR_BAD_PARAM
                              else PMIX_ERR_NOT_SUPPORTED) None 0 (cbdata c),
           FFree (fence_call_destroy (Some c'))])
      \<and> c' = c\<lparr>collect := collect c'\<rparr>
      \<and> fence_call_destroy (Some c') = B_procs ps # codec_info_array_destroy (Some is)"
proof (cases "length ps = 1 \<and> rank (hd ps) = PMIX_RANK_WILDCARD")
  case True
  then have "\<not> list_all attr_ok is" using assms(5) by simp
  then obtain b lg where attrs: "parse_fence_attrs c is = (PMIX_ERR_BAD_PARAM, c\<lparr>collect := b\<rparr>, lg)"
    using parse_fence_attrs_bad [of "is" c] by auto
  from True have "\<not> (1 < length ps \<or> rank (hd ps) \<noteq> PMIX_RANK_WILDCARD)" by simp
  then have "fence_shell_cb L E True pl fx =
      Ok (fx\<lparr>exchange_seq := exchange_seq fx + 1\<rparr>, map FLog lg @ fence_error PMIX_ERR_BAD_PARAM (c\<lparr>collect := b\<rparr>))"
    using assms attrs by (simp add: fence_shell_cb_def fence_call_create_def Let_def)
  with True assms(2,4) show ?thesis
    by (intro exI [of _ lg] exI [of _ "c\<lparr>collect := b\<rparr>"]) (simp add: fence_error_def fence_call_destroy_def)
next
  case False
  then have many: "1 < length ps \<or> rank (hd ps) \<noteq> PMIX_RANK_WILDCARD"
    using assms(3) by (cases ps) auto
  then have "fence_shell_cb L E True pl fx =
      Ok (fx\<lparr>exchange_seq := exchange_seq fx + 1\<rparr>,
          FLog (LWarn ''fence over proc subset is not supported by flux'') # fence_error PMIX_ERR_NOT_SUPPORTED c)"
    using assms by (simp add: fence_shell_cb_def fence_call_create_def Let_def)
  with False assms(2,4) show ?thesis
    by (intro exI [of _ "[LWarn ''fence over proc subset is not supported by flux'']"] exI [of _ c])
       (auto simp: fence_error_def fence_call_destroy_def)
qed

definition subset_payload :: json where
  "subset_payload = JObj [(''procs'', JArr [JObj [(''nspace'', JStr ''f1''), (''rank'', JInt 3)]]),
     (''info'', JArr []), (''data'', JStr ''Zg==''), (''cbfunc'', JInt 7), (''cbdata'', JInt 8)]"

theorem fence_refuses_unsupported_witness:
  "\<exists>log c'. fence_shell_cb json_lib good_env True (Some subset_payload) demo_fence =
      Ok (demo_fence\<lparr>exchange_seq := exchange_seq demo_fence + 1\<rparr>,
          map FLog log @ [Cbfunc 7 PMIX_ERR_NOT_SUPPORTED None 0 8, FFree (fence_call_destroy (Some c'))])
      \<and> fence_call_destroy (Some c')
        = B_procs [\<lparr>nspace = ''f1'', rank = 3\<rparr>] # codec_info_array_destroy (Some [])"
proof -
  let ?c = "(blank_call 0)\<lparr>procs := Some [\<lparr>nspace = ''f1'', rank = 3\<rparr>], info := Some [], cbfunc := 7, cbdata := 8\<rparr>"
  have "fence_call_unpack json_lib (Some subset_payload) (blank_call (exchange_seq demo_fence))
      = (Ok (JStr ''Zg==''), ?c)" by code_simp
  from fence_refuses_unsupported [OF this, of "[\<lparr>nspace = ''f1'', rank = 3\<rparr>]" "[]" good_env]
  show ?thesis by (auto simp: PMIX_RANK_WILDCARD_def)
qed

text \<open>
  A fence over an empty process array, which the server side encodes and sends without
  complaint, makes the shell thread read the first element of an empty array.
\<close>

theorem fence_empty_procs_undefined:
  assumes "fence_call_unpack L pl (blank_call (exchange_seq fx)) = (Ok xdata, c)" and "procs c = Some []"
  shows "fence_shell_cb L E True pl fx = Undef"
  using assms by (simp add: fence_shell_cb_def fence_call_create_def Let_def)

theorem fence_empty_procs_undefined_witness:
  "fence_shell_cb json_lib good_env True
     (Some (JObj [(''procs'', JArr []), (''info'', JArr []), (''data'', JStr ''Zg==''),
       (''cbfunc'', JInt 7), (''cbdata'', JInt 8)])) demo_fence = Undef"
  by (rule fence_empty_procs_undefined [where xdata = "JStr ''Zg==''" and
        c = "(blank_call 0)\<lparr>procs := Some [], info := Some [], cbfunc := 7, cbdata := 8\<rparr>"]) code_simp+

text \<open>
  When memory runs out while a fence enters the exchange, the fence is answered with PMIX_ERROR
  and its call is freed, but the exchange still holds it: when the children's requests are in, the
  callback function is called a second time, through the freed call.
\<close>

theorem fence_enomem_answered_and_outstanding:
  assumes "fence_call_unpack L pl (blank_call (exchange_seq fx)) = (Ok xdata, c)"
    and "procs c = Some [p]" "rank p = PMIX_RANK_WILDCARD" "info c = Some is" "list_all attr_ok is"
    and "exchange_enter_base64_string L E (if collect c \<or> wants_collect is then Some xdata else None)
           (Some (c\<lparr>collect := collect c \<or> wants_collect is\<rparr>)) (Some (fence_exchange fx)) = Ok (Some ENOMEM, xcgp, es)"
  shows "\<exists>fx' fs. fence_shell_cb L E True pl fx = Ok (fx', fs)
    \<and> callbacks fs = [(cbfunc c, cbdata c)]
    \<and> outstanding (fence_exchange fx') = [c\<lparr>collect := collect c \<or> wants_collect is\<rparr>]"
proof -
  let ?c = "c\<lparr>collect := collect c \<or> wants_collect is\<rparr>"
  obtain lg where attrs: "parse_fence_attrs c is = (PMIX_SUCCESS, ?c, lg)"
    using parse_fence_attrs_ok [OF assms(5), of c] by auto
  from assms(6) obtain ses where xcgp: "xcgp = Some ((fence_exchange fx)\<lparr>xsession := Some (ses\<lparr>exit_cb := Some ?c, local := True\<rparr>)\<rparr>)"
    and es: "es = []"
    by (auto simp: exchange_enter_base64_string_def Let_def bind_outcome_Ok_iff
        split: if_splits option.splits prod.splits)
  have "exchange_enter_base64_string L E (if collect ?c then Some xdata else None) (Some ?c) (Some (fence_exchange fx))
      = Ok (Some ENOMEM, Some ((fence_exchange fx)\<lparr>xsession := Some (ses\<lparr>exit_cb := Some ?c, local := True\<rparr>)\<rparr>), [])"
    using assms(6) xcgp es by simp
  from fence_shell_cb_enters [OF assms(1-4) attrs this] show ?thesis
    by (auto simp: run_effects_def fence_error_def outstanding_def)
qed

theorem fence_enomem_answered_and_outstanding_witness:
  "let L = json_lib\<lparr>json_array_append := (\<lambda>_ _. None)\<rparr>;
       pl = JObj [(''procs'', JArr [JObj [(''nspace'', JStr ''f1''), (''rank'', JInt (- 2))]]),
         (''info'', JArr [JObj [(''key'', JStr ''pmix.collect''), (''flags'', JInt 0),
           (''value'', JObj [(''type'', JInt 1), (''data'', JTrue)])]]),
         (''data'', JStr ''Zg==''), (''cbfunc'', JInt 7), (''cbdata'', JInt 8)];
       c = demo_call\<lparr>info := Some [Info ''pmix.collect'' 0 (V_BOOL True)], collect := True\<rparr>
   in \<exists>fx' fs. fence_shell_cb L good_env True (Some pl) demo_fence = Ok (fx', fs)
        \<and> callbacks fs = [(7, 8)] \<and> outstanding (fence_exchange fx') = [c]"
proof -
  let ?L = "json_lib\<lparr>json_array_append := (\<lambda>_ _. None)\<rparr>"
  let ?pl = "JObj [(''procs'', JArr [JObj [(''nspace'', JStr ''f1''), (''rank'', JInt (- 2))]]),
         (''info'', JArr [JObj [(''key'', JStr ''pmix.collect''), (''flags'', JInt 0),
           (''value'', JObj [(''type'', JInt 1), (''data'', JTrue)])]]),
         (''data'', JStr ''Zg==''), (''cbfunc'', JInt 7), (''cbdata'', JInt 8)]"
  let ?is = "[Info ''pmix.collect'' 0 (V_BOOL True)]"
  let ?c = "demo_call\<lparr>info := Some ?is\<rparr>"
  let ?ses = "\<lparr>data_in = JArr [], data_out = None, exit_cb = Some (?c\<lparr>collect := True\<rparr>), requests = [],
      fut = False, local = True, has_error = False\<rparr> :: (json, nat, fence_call) session"
  have "fence_call_unpack ?L (Some ?pl) (blank_call (exchange_seq demo_fence)) = (Ok (JStr ''Zg==''), ?c)"
    by code_simp
  moreover have "exchange_enter_base64_string ?L good_env (Some (JStr ''Zg==''))
      (Some (?c\<lparr>collect := True\<rparr>)) (Some (fence_exchange demo_fence))
    = Ok (Some ENOMEM, Some ((fence_exchange demo_fence)\<lparr>xsession := Some ?ses\<rparr>), [])"
    by code_simp
  ultimately show ?thesis
    using fence_enomem_answered_and_outstanding [of ?L "Some ?pl" demo_fence "JStr ''Zg==''" ?c
        "\<lparr>nspace = ''f1'', rank = PMIX_RANK_WILDCARD\<rparr>" ?is good_env]
    unfolding Let_def
    by (simp add: demo_call_def attr_ok_def wants_collect_def)
qed

end
