(* ===== verification/Abort.thy ===== *)
theory Abort
  imports Fence Cstdio
begin

text \<open>
  \<^verbatim>\<open>src/shell/plugins/abort.c\<close>: a client's \<^verbatim>\<open>PMIx_Abort\<close> becomes a fatal job exception.
  \<^verbatim>\<open>abort_server_cb\<close> runs in the server thread, \<^verbatim>\<open>abort_shell_cb\<close> in the shell thread. The latter
  frees the variable \<^verbatim>\<open>procs\<close> on every path; where it has not been assigned yet, the outcome is \<open>Undef\<close>.
\<close>

record abort =
  abort_trace_flag :: bool

datatype abort_effect =
    ALog log_msg
  | Raise string int string
  | OpCbfunc u64 pmix_status u64
  | AFree block

text \<open>The note of the exception: \<^verbatim>\<open>"%s.%d called PMIx_Abort (status=%d): %s"\<close>.\<close>

definition abort_note :: "pmix_proc_t \<Rightarrow> u32 \<Rightarrow> string \<Rightarrow> string" where
  "abort_note p status message =
     nspace p @ ''.'' @ show_int (sint (rank p)) @ '' called PMIx_Abort (status='' @ show_int (sint status)
     @ ''): '' @ message"

definition abort_shell_cb :: "'j lib \<Rightarrow> 'j option \<Rightarrow> abort_effect list outcome" where
  "abort_shell_cb L pl =
     (case (case pl of
              None \<Rightarrow> None
            | Some j \<Rightarrow> json_unpack L j [(''proc'', UpO), (''server_object'', UpO), (''status'', UpI),
                         (''msg'', UpS), (''procs'', UpO), (''cbfunc'', UpO), (''cbdata'', UpO)]) of
        Some [UvO xproc, UvO xserver_object, UvI status, UvS message, UvO xprocs, UvO xcbfunc, UvO xcbdata] \<Rightarrow>
          (case (codec_proc_decode L xproc, codec_pointer_decode L xserver_object) of
             (Some proc, Some _) \<Rightarrow>
               bind_outcome
                 (case codec_proc_array_decode L xprocs of Ok ps \<Rightarrow> Ok ps | _ \<Rightarrow> Undef)
                 (\<lambda>ps. case (codec_pointer_decode L xcbfunc, codec_pointer_decode L xcbdata) of
                     (Some cbf, Some cbd) \<Rightarrow>
                       Ok ([Raise ''exec'' 0 (abort_note proc status message)]
                           @ (if cbf \<noteq> 0 then [OpCbfunc cbf PMIX_SUCCESS cbd] else [])
                           @ [AFree (B_procs ps)])
                   | _ \<Rightarrow>
                       Ok [ALog (LWarn ''error unpacking interthread abort_upcall message''),
                           AFree (B_procs ps)])
           | _ \<Rightarrow> Undef)
      | _ \<Rightarrow> Undef)"

definition abort_server_cb ::
    "'j lib \<Rightarrow> send_env \<Rightarrow> ('h, 'j) interthread \<Rightarrow> pmix_proc_t \<Rightarrow> u64 \<Rightarrow> u32 \<Rightarrow> string option
     \<Rightarrow> pmix_proc_t list \<Rightarrow> u64 \<Rightarrow> u64 \<Rightarrow> pmix_status \<times> ('h, 'j) interthread" where
  "abort_server_cb L S it proc server_object status message ps f d =
     (case (codec_proc_encode L proc, codec_pointer_encode L server_object, codec_proc_array_encode L ps,
            codec_pointer_encode L f, codec_pointer_encode L d) of
        (Some xproc, Some xserver_object, Some xprocs, Some xcbfunc, Some xcbdata) \<Rightarrow>
          (case interthread_send_pack L S it ''abort_upcall''
                  [(''proc'', PkO xproc), (''server_object'', PkO xserver_object), (''status'', PkI status),
                   (''msg'', PkS (case message of Some s \<Rightarrow> s | None \<Rightarrow> ''(no message)'')),
                   (''procs'', PkO xprocs), (''cbfunc'', PkO xcbfunc), (''cbdata'', PkO xcbdata)] of
             (rc, it) \<Rightarrow> if rc < 0 then (PMIX_ERROR, it) else (PMIX_SUCCESS, it))
      | _ \<Rightarrow> (PMIX_ERROR, it))"

text \<open>Destruction frees the handle and clears the global context.\<close>

definition abort_destroy :: "abort option \<Rightarrow> abort option \<Rightarrow> abort option" where
  "abort_destroy ab ctx = (case ab of None \<Rightarrow> ctx | Some _ \<Rightarrow> None)"

text \<open>The handle and the global context that the server callback uses, and the channel.\<close>

definition abort_create ::
    "bool \<Rightarrow> (upcall, 'j) interthread \<Rightarrow> abort option \<Rightarrow> abort option \<times> abort option \<times> (upcall, 'j) interthread"
where
  "abort_create calloc_ok it ctx =
     (if \<not> calloc_ok then (None, ctx, it)
      else
        let ab = \<lparr>abort_trace_flag = True\<rparr> in
        case interthread_register it ''abort_upcall'' H_abort of
          Inl _ \<Rightarrow> (None, abort_destroy (Some ab) ctx, it)
        | Inr it \<Rightarrow> (Some ab, Some ab, it))"

context jansson
begin

lemma abort_roundtrip:
  assumes "abort_server_cb L S it p so status message ps f d = (PMIX_SUCCESS, it')"
    and "proc_ok p" "list_all proc_ok ps" "malloc_ok L (length ps * sizeof_proc)"
  shows "\<exists>pl. it' = it\<lparr>queue := queue it @ [\<lparr>topic = Some ''abort_upcall'', payload = Some pl\<rparr>]\<rparr>
    \<and> abort_shell_cb L (Some pl) =
      Ok ([Raise ''exec'' 0 (abort_note p status (case message of Some s \<Rightarrow> s | None \<Rightarrow> ''(no message)''))]
          @ (if f \<noteq> 0 then [OpCbfunc f PMIX_SUCCESS d] else []) @ [AFree (B_procs ps)])"
proof -
  let ?msg = "case message of Some s \<Rightarrow> s | None \<Rightarrow> ''(no message)''"
  from assms(1) obtain xp xso xps xf xd pl where enc:
    "codec_proc_encode L p = Some xp" "codec_pointer_encode L so = Some xso"
    "codec_proc_array_encode L ps = Some xps" "codec_pointer_encode L f = Some xf"
    "codec_pointer_encode L d = Some xd"
    and pack: "json_pack L [(''proc'', PkO xp), (''server_object'', PkO xso), (''status'', PkI status),
      (''msg'', PkS ?msg), (''procs'', PkO xps), (''cbfunc'', PkO xf), (''cbdata'', PkO xd)] = Some pl"
    and it': "it' = it\<lparr>queue := queue it @ [\<lparr>topic = Some ''abort_upcall'', payload = Some pl\<rparr>]\<rparr>"
    by (auto simp: abort_server_cb_def interthread_send_pack_def split: option.splits if_splits)
  have "json_unpack L pl [(''proc'', UpO), (''server_object'', UpO), (''status'', UpI), (''msg'', UpS),
      (''procs'', UpO), (''cbfunc'', UpO), (''cbdata'', UpO)]
      = Some [UvO xp, UvO xso, UvI status, UvS ?msg, UvO xps, UvO xf, UvO xd]"
    by (rule unpack_pack [OF pack]) auto
  with it' show ?thesis
    using proc_roundtrip [OF enc(1) assms(2)] proc_array_roundtrip [OF enc(3) assms(3,4)]
      pointer_roundtrip [OF enc(2)] pointer_roundtrip [OF enc(4)] pointer_roundtrip [OF enc(5)]
    by (intro exI [of _ pl]) (simp add: abort_shell_cb_def)
qed

end

text \<open>
  A call of \<^verbatim>\<open>PMIx_Abort\<close> that the server side accepts reaches the shell intact: the shell raises
  one fatal exception of type \<^verbatim>\<open>exec\<close> whose note names the process, the status and the client's
  message (\<^verbatim>\<open>(no message)\<close> when there is none), releases the caller if a callback was given, and frees
  the process array.
\<close>

theorem abort_raises_exception:
  assumes "jansson L" and "abort_server_cb L S it p so status message ps f d = (PMIX_SUCCESS, it')"
    and "proc_ok p" "list_all proc_ok ps" "malloc_ok L (length ps * sizeof_proc)"
  shows "\<exists>pl. it' = it\<lparr>queue := queue it @ [\<lparr>topic = Some ''abort_upcall'', payload = Some pl\<rparr>]\<rparr>
    \<and> abort_shell_cb L (Some pl) =
      Ok ([Raise ''exec'' 0 (abort_note p status (case message of Some s \<Rightarrow> s | None \<Rightarrow> ''(no message)''))]
          @ (if f \<noteq> 0 then [OpCbfunc f PMIX_SUCCESS d] else []) @ [AFree (B_procs ps)])"
  using assms by (rule jansson.abort_roundtrip)

theorem abort_raises_exception_witness:
  "let it' = snd (abort_server_cb json_lib demo_send_env demo_channel \<lparr>nspace = ''f1'', rank = 3\<rparr> 0 1 None [] 7 8)
   in \<exists>pl. queue it' = [\<lparr>topic = Some ''abort_upcall'', payload = Some pl\<rparr>]
        \<and> abort_shell_cb json_lib (Some pl) =
          Ok [Raise ''exec'' 0 ''f1.3 called PMIx_Abort (status=1): (no message)'', OpCbfunc 7 PMIX_SUCCESS 8,
              AFree (B_procs [])]"
proof -
  let ?p = "\<lparr>nspace = ''f1'', rank = 3\<rparr> :: pmix_proc_t"
  let ?r = "abort_server_cb json_lib demo_send_env demo_channel ?p 0 1 None [] 7 8"
  have "fst ?r = PMIX_SUCCESS" by code_simp
  then have "?r = (PMIX_SUCCESS, snd ?r)" by (metis prod.collapse)
  from abort_raises_exception [OF jlib.jansson_axioms this]
  obtain pl where pl: "snd ?r = demo_channel\<lparr>queue := queue demo_channel
        @ [\<lparr>topic = Some ''abort_upcall'', payload = Some pl\<rparr>]\<rparr>"
    "abort_shell_cb json_lib (Some pl) = Ok ([Raise ''exec'' 0 (abort_note ?p 1 ''(no message)'')]
          @ [OpCbfunc 7 PMIX_SUCCESS 8] @ [AFree (B_procs [])])"
    by (auto simp: proc_ok_def nul_free_def PMIX_MAX_NSLEN_def json_lib_def)
  moreover have "abort_note ?p 1 ''(no message)'' = ''f1.3 called PMIx_Abort (status=1): (no message)''"
    by code_simp
  ultimately show ?thesis unfolding Let_def by (intro exI [of _ pl]) (simp add: demo_channel_def)
qed

text \<open>
  A malformed abort message, or one whose process array does not decode, makes the shell free an
  uninitialised pointer.
\<close>

theorem abort_malformed_frees_uninitialised:
  assumes "pl = None \<or> json_unpack L (the pl) [(''proc'', UpO), (''server_object'', UpO), (''status'', UpI),
             (''msg'', UpS), (''procs'', UpO), (''cbfunc'', UpO), (''cbdata'', UpO)] = None"
  shows "abort_shell_cb L pl = Undef"
  using assms by (auto simp: abort_shell_cb_def split: option.splits)

theorem abort_malformed_frees_uninitialised_witness: "abort_shell_cb json_lib (Some (JObj [])) = Undef"
  by (rule abort_malformed_frees_uninitialised) (simp add: json_lib_def)

end
