(* ===== verification/Dmodex.thy ===== *)
theory Dmodex
  imports Fence Cstdio
begin

text \<open>
  \<^verbatim>\<open>src/shell/plugins/dmodex.c\<close>: the direct modex, which the plugin accepts and answers as not
  implemented. \<^verbatim>\<open>lookup_shell_rank\<close> finds the shell that hosts a process; the size of the job and the
  number of tasks of each shell are what the flux shell reports. A sum that does not fit an \<^verbatim>\<open>int\<close>
  is the outcome \<open>Undef\<close>.
\<close>

record dmodex_call =
  dx_proc :: pmix_proc_t
  dx_info :: "pmix_info_t list option"
  shell_rank :: int
  dx_cbfunc :: u64
  dx_cbdata :: u64

datatype dmodex_effect =
    DLog log_msg
  | ModexCbfunc u64 pmix_status u64
  | DFree "block list"

definition dmodex_call_destroy :: "dmodex_call option \<Rightarrow> block list" where
  "dmodex_call_destroy dxcall = (case dxcall of None \<Rightarrow> [] | Some c \<Rightarrow> codec_info_array_destroy (dx_info c))"

definition dmodex_call_create :: "bool \<Rightarrow> dmodex_call option" where
  "dmodex_call_create calloc_ok =
     (if calloc_ok then Some \<lparr>dx_proc = \<lparr>nspace = [], rank = 0\<rparr>, dx_info = None, shell_rank = 0,
                              dx_cbfunc = 0, dx_cbdata = 0\<rparr>
      else None)"

text \<open>The loop over the shells, from \<open>sr\<close> with \<open>left\<close> shells to go.\<close>

fun lookup_loop :: "(nat \<Rightarrow> int option) \<Rightarrow> int \<Rightarrow> int \<Rightarrow> nat \<Rightarrow> nat \<Rightarrow> int outcome" where
  "lookup_loop ntasks rnk base sr 0 = Ok (- 1)"
| "lookup_loop ntasks rnk base sr (Suc left) =
     (case ntasks sr of
        None \<Rightarrow> Ok (- 1)
      | Some nt \<Rightarrow>
          if base \<le> rnk \<and> base + nt > int_max then Undef
          else if base \<le> rnk \<and> rnk < base + nt then Ok (int sr)
          else if base + nt > int_max then Undef
          else lookup_loop ntasks rnk (base + nt) (Suc sr) left)"

definition lookup_shell_rank :: "int option \<Rightarrow> (nat \<Rightarrow> int option) \<Rightarrow> int \<Rightarrow> int outcome" where
  "lookup_shell_rank shell_size ntasks rnk =
     (case shell_size of None \<Rightarrow> Ok (- 1) | Some sz \<Rightarrow> lookup_loop ntasks rnk 0 0 (nat sz))"

text \<open>The condition that unpacks the message.\<close>

definition dmodex_call_unpack :: "'j lib \<Rightarrow> 'j option \<Rightarrow> dmodex_call \<Rightarrow> unit outcome \<times> dmodex_call" where
  "dmodex_call_unpack L pl c =
     (case (case pl of
              None \<Rightarrow> None
            | Some j \<Rightarrow> json_unpack L j [(''proc'', UpO), (''info'', UpO), (''cbfunc'', UpO), (''cbdata'', UpO)]) of
        Some [UvO xproc, UvO xinfo, UvO xcbfunc, UvO xcbdata] \<Rightarrow>
          (case codec_proc_decode L xproc of
             None \<Rightarrow> (Fail, c)
           | Some p \<Rightarrow>
               let c = c\<lparr>dx_proc := p\<rparr> in
               (case fst (codec_info_array_decode L xinfo) of
                  Undef \<Rightarrow> (Undef, c)
                | Fail \<Rightarrow> (Fail, c)
                | Ok is \<Rightarrow>
                    let c = c\<lparr>dx_info := Some is\<rparr> in
                    (case (codec_pointer_decode L xcbfunc, codec_pointer_decode L xcbdata) of
                       (Some f, Some d) \<Rightarrow> (Ok (), c\<lparr>dx_cbfunc := f, dx_cbdata := d\<rparr>)
                     | _ \<Rightarrow> (Fail, c))))
      | _ \<Rightarrow> (Fail, c))"

text \<open>\<^verbatim>\<open>PMIx_Error_string\<close> is the argument \<open>error_string\<close>.\<close>

definition dmodex_shell_cb ::
    "'j lib \<Rightarrow> (pmix_status \<Rightarrow> string) \<Rightarrow> bool \<Rightarrow> int option \<Rightarrow> (nat \<Rightarrow> int option) \<Rightarrow> 'j option
     \<Rightarrow> dmodex_effect list outcome" where
  "dmodex_shell_cb L error_string calloc_ok shell_size ntasks pl =
     (case dmodex_call_create calloc_ok of
        None \<Rightarrow> Ok [DLog (LWarn ''error unpacking dmodex_upcall interthread message'')]
      | Some dxcall \<Rightarrow>
          (case dmodex_call_unpack L pl dxcall of
             (Undef, _) \<Rightarrow> Undef
           | (Fail, dxcall) \<Rightarrow>
               Ok [DLog (LWarn ''error unpacking dmodex_upcall interthread message''),
                   DFree (dmodex_call_destroy (Some dxcall))]
           | (Ok _, dxcall) \<Rightarrow>
               bind_outcome (lookup_shell_rank shell_size ntasks (sint (rank (dx_proc dxcall))))
                 (\<lambda>sr.
                    let dxcall = dxcall\<lparr>shell_rank := sr\<rparr>;
                        rc = (if sr < 0 then PMIX_ERR_PROC_ENTRY_NOT_FOUND else PMIX_ERR_NOT_IMPLEMENTED)
                    in Ok ([DLog (LWarn (''dmodex_upcall for '' @ nspace (dx_proc dxcall) @ ''.''
                                  @ show_int (sint (rank (dx_proc dxcall))) @ '' on shell rank ''
                                  @ show_int (shell_rank dxcall) @ '': '' @ error_string rc))]
                           @ (if dx_cbfunc dxcall \<noteq> 0
                              then [ModexCbfunc (dx_cbfunc dxcall) rc (dx_cbdata dxcall)] else [])
                           @ [DFree (dmodex_call_destroy (Some dxcall))]))))"

definition dmodex_server_cb ::
    "'j lib \<Rightarrow> send_env \<Rightarrow> ('h, 'j) interthread \<Rightarrow> pmix_proc_t \<Rightarrow> pmix_info_t list \<Rightarrow> u64 \<Rightarrow> u64
     \<Rightarrow> pmix_status \<times> ('h, 'j) interthread" where
  "dmodex_server_cb L S it p is f d =
     (case (codec_proc_encode L p, codec_info_array_encode L is, codec_pointer_encode L f,
            codec_pointer_encode L d) of
        (Some xproc, Some xinfo, Some xcbfunc, Some xcbdata) \<Rightarrow>
          (case interthread_send_pack L S it ''dmodex_upcall''
                  [(''proc'', PkO xproc), (''info'', PkO xinfo), (''cbfunc'', PkO xcbfunc), (''cbdata'', PkO xcbdata)] of
             (rc, it) \<Rightarrow> if rc < 0 then (PMIX_ERROR, it) else (PMIX_SUCCESS, it))
      | _ \<Rightarrow> (PMIX_ERROR, it))"

text \<open>The handle holds only pointers to the shell and the channel; \<open>ctx\<close> says whether the global
  context is set.\<close>

definition dmodex_destroy :: "unit option \<Rightarrow> bool \<Rightarrow> bool" where
  "dmodex_destroy dx ctx = (case dx of None \<Rightarrow> ctx | Some _ \<Rightarrow> False)"

definition dmodex_create ::
    "bool \<Rightarrow> (upcall, 'j) interthread \<Rightarrow> bool \<Rightarrow> unit option \<times> bool \<times> (upcall, 'j) interthread" where
  "dmodex_create calloc_ok it ctx =
     (if \<not> calloc_ok then (None, ctx, it)
      else case interthread_register it ''dmodex_upcall'' H_dmodex of
             Inl _ \<Rightarrow> (None, dmodex_destroy (Some ()) ctx, it)
           | Inr it \<Rightarrow> (Some (), True, it))"

subsection \<open>The lookup\<close>

definition tasks_before :: "(nat \<Rightarrow> int) \<Rightarrow> nat \<Rightarrow> int" where
  "tasks_before nt r = (\<Sum>q<r. nt q)"

lemma tasks_before_Suc: "tasks_before nt (Suc r) = tasks_before nt r + nt r"
  by (simp add: tasks_before_def)

lemma tasks_before_mono:
  "(\<And>q. 0 \<le> nt q) \<Longrightarrow> a \<le> b \<Longrightarrow> tasks_before nt a \<le> tasks_before nt b"
  unfolding tasks_before_def by (rule sum_mono2) auto

lemma lookup_loop_found:
  assumes "\<And>q. 0 \<le> nt q" and "tasks_before nt (sr + left) \<le> int_max"
    and "sr \<le> r" "r < sr + left" "tasks_before nt r \<le> rnk" "rnk < tasks_before nt (Suc r)"
  shows "lookup_loop (\<lambda>q. Some (nt q)) rnk (tasks_before nt sr) sr left = Ok (int r)"
  using assms(2-4)
proof (induction left arbitrary: sr)
  case (Suc left)
  have fits: "tasks_before nt sr + nt sr \<le> int_max"
    using tasks_before_mono [of nt "Suc sr" "sr + Suc left"] assms(1) Suc.prems(1) by (simp add: tasks_before_Suc)
  show ?case
  proof (cases "r = sr")
    case True
    then show ?thesis using fits assms(5,6) by (simp add: tasks_before_Suc)
  next
    case False
    then have "tasks_before nt sr + nt sr \<le> rnk"
      using tasks_before_mono [of nt "Suc sr" r] assms(1,5) Suc.prems(2) by (simp add: tasks_before_Suc)
    then show ?thesis using fits Suc.IH [of "Suc sr"] Suc.prems False by (simp add: tasks_before_Suc)
  qed
qed simp

lemma lookup_loop_missing:
  assumes "\<And>q. 0 \<le> nt q" and "tasks_before nt (sr + left) \<le> int_max"
    and "rnk < tasks_before nt sr \<or> tasks_before nt (sr + left) \<le> rnk"
  shows "lookup_loop (\<lambda>q. Some (nt q)) rnk (tasks_before nt sr) sr left = Ok (- 1)"
  using assms(2,3)
proof (induction left arbitrary: sr)
  case (Suc left)
  have fits: "tasks_before nt sr + nt sr \<le> int_max" "tasks_before nt sr + nt sr \<le> tasks_before nt (sr + Suc left)"
    using tasks_before_mono [of nt "Suc sr" "sr + Suc left"] assms(1) Suc.prems(1) by (simp_all add: tasks_before_Suc)
  with Suc assms(1) [of sr] show ?case by (auto simp: tasks_before_Suc intro!: Suc.IH [of "Suc sr", simplified tasks_before_Suc])
qed simp

text \<open>
  C22. With the shells' task counts known and their total an \<^verbatim>\<open>int\<close>, the lookup returns the shell in
  whose block of consecutive ranks the process lies, and -1 for every rank outside the job (as the
  wildcard); no intermediate sum overflows.
\<close>

theorem lookup_shell_rank_correct:
  assumes "\<And>q. 0 \<le> nt q" and "tasks_before nt n \<le> int_max"
  shows "(\<forall>r<n. tasks_before nt r \<le> rnk \<and> rnk < tasks_before nt (Suc r) \<longrightarrow>
            lookup_shell_rank (Some (int n)) (\<lambda>q. Some (nt q)) rnk = Ok (int r))
    \<and> (rnk < 0 \<or> tasks_before nt n \<le> rnk \<longrightarrow>
         lookup_shell_rank (Some (int n)) (\<lambda>q. Some (nt q)) rnk = Ok (- 1))"
proof -
  have "tasks_before nt 0 = 0" by (simp add: tasks_before_def)
  then show ?thesis
    using lookup_loop_found [of nt 0 n _ rnk] lookup_loop_missing [of nt 0 n rnk] assms
    by (auto simp: lookup_shell_rank_def)
qed

theorem lookup_shell_rank_correct_witness:
  "lookup_shell_rank (Some 3) (\<lambda>q. Some 2) 3 = Ok 1 \<and> lookup_shell_rank (Some 3) (\<lambda>q. Some 2) (- 2) = Ok (- 1)"
proof -
  have "tasks_before (\<lambda>q. 2) 1 = 2" "tasks_before (\<lambda>q. 2) (Suc 1) = 4" "tasks_before (\<lambda>q. 2) 3 = 6"
    by (simp_all add: tasks_before_def)
  then show ?thesis
    using lookup_shell_rank_correct [of "\<lambda>q. 2" 3 3] lookup_shell_rank_correct [of "\<lambda>q. 2" 3 "- 2"]
    by (auto simp: int_max_def dest!: spec [of _ 1])
qed

subsection \<open>The upcall\<close>

context jansson
begin

lemma dmodex_roundtrip:
  assumes "dmodex_server_cb L S it p is f d = (PMIX_SUCCESS, it')"
    and "proc_ok p" "list_all (info_ok L) is" "malloc_ok L (length is * sizeof_info)"
    and "lookup_shell_rank shell_size ntasks (sint (rank p)) = Ok sr"
  shows "\<exists>pl log. it' = it\<lparr>queue := queue it @ [\<lparr>topic = Some ''dmodex_upcall'', payload = Some pl\<rparr>]\<rparr>
    \<and> dmodex_shell_cb L err True shell_size ntasks (Some pl) =
      Ok ([DLog log]
          @ (if f \<noteq> 0
             then [ModexCbfunc f (if sr < 0 then PMIX_ERR_PROC_ENTRY_NOT_FOUND else PMIX_ERR_NOT_IMPLEMENTED) d]
             else [])
          @ [DFree (codec_info_array_destroy (Some is))])"
proof -
  from assms(1) obtain xp xi xf xd pl where enc:
    "codec_proc_encode L p = Some xp" "codec_info_array_encode L is = Some xi"
    "codec_pointer_encode L f = Some xf" "codec_pointer_encode L d = Some xd"
    and pack: "json_pack L [(''proc'', PkO xp), (''info'', PkO xi), (''cbfunc'', PkO xf), (''cbdata'', PkO xd)] = Some pl"
    and it': "it' = it\<lparr>queue := queue it @ [\<lparr>topic = Some ''dmodex_upcall'', payload = Some pl\<rparr>]\<rparr>"
    by (auto simp: dmodex_server_cb_def interthread_send_pack_def split: option.splits if_splits)
  have "json_unpack L pl [(''proc'', UpO), (''info'', UpO), (''cbfunc'', UpO), (''cbdata'', UpO)]
      = Some [UvO xp, UvO xi, UvO xf, UvO xd]"
    by (rule unpack_pack [OF pack]) auto
  then have "dmodex_call_unpack L (Some pl) c
      = (Ok (), c\<lparr>dx_proc := p, dx_info := Some is, dx_cbfunc := f, dx_cbdata := d\<rparr>)" for c
    using proc_roundtrip [OF enc(1) assms(2)] info_array_roundtrip [OF enc(2) assms(3,4)]
      pointer_roundtrip [OF enc(3)] pointer_roundtrip [OF enc(4)]
    by (simp add: dmodex_call_unpack_def Let_def)
  with it' assms(5) show ?thesis
    by (intro exI [of _ pl]) (simp add: dmodex_shell_cb_def dmodex_call_create_def dmodex_call_destroy_def Let_def)
qed

end

text \<open>
  Every direct-modex request the server side accepts is answered: the caller's callback, if any,
  is called exactly once, with PMIX_ERR_NOT_IMPLEMENTED for a process of the job and
  PMIX_ERR_PROC_ENTRY_NOT_FOUND otherwise, and everything decoded is freed.
\<close>

theorem dmodex_answers:
  assumes "jansson L" and "dmodex_server_cb L S it p is f d = (PMIX_SUCCESS, it')"
    and "proc_ok p" "list_all (info_ok L) is" "malloc_ok L (length is * sizeof_info)"
    and "lookup_shell_rank shell_size ntasks (sint (rank p)) = Ok sr"
  shows "\<exists>pl log. it' = it\<lparr>queue := queue it @ [\<lparr>topic = Some ''dmodex_upcall'', payload = Some pl\<rparr>]\<rparr>
    \<and> dmodex_shell_cb L err True shell_size ntasks (Some pl) =
      Ok ([DLog log]
          @ (if f \<noteq> 0
             then [ModexCbfunc f (if sr < 0 then PMIX_ERR_PROC_ENTRY_NOT_FOUND else PMIX_ERR_NOT_IMPLEMENTED) d]
             else [])
          @ [DFree (codec_info_array_destroy (Some is))])"
  using assms by (rule jansson.dmodex_roundtrip)

theorem dmodex_answers_witness:
  "let it' = snd (dmodex_server_cb json_lib demo_send_env demo_channel \<lparr>nspace = ''f1'', rank = 3\<rparr> [] 7 8)
   in \<exists>pl log. queue it' = [\<lparr>topic = Some ''dmodex_upcall'', payload = Some pl\<rparr>]
        \<and> dmodex_shell_cb json_lib (\<lambda>_. ''error'') True (Some 3) (\<lambda>_. Some 2) (Some pl) =
          Ok [DLog log, ModexCbfunc 7 PMIX_ERR_NOT_IMPLEMENTED 8, DFree (codec_info_array_destroy (Some []))]"
proof -
  let ?p = "\<lparr>nspace = ''f1'', rank = 3\<rparr> :: pmix_proc_t"
  let ?r = "dmodex_server_cb json_lib demo_send_env demo_channel ?p [] 7 8"
  have "fst ?r = PMIX_SUCCESS" by code_simp
  then have r: "?r = (PMIX_SUCCESS, snd ?r)" by (metis prod.collapse)
  have lookup: "lookup_shell_rank (Some 3) (\<lambda>_. Some 2) (sint (rank ?p)) = Ok 1" by code_simp
  from dmodex_answers [OF jlib.jansson_axioms r _ _ _ lookup, of "\<lambda>_. ''error''"] show ?thesis
    unfolding Let_def by (auto simp: proc_ok_def nul_free_def PMIX_MAX_NSLEN_def json_lib_def demo_channel_def)
qed

end
