(* ===== verification/Notify.thy ===== *)
theory Notify
  imports Fence Cstdio
begin

text \<open>
  \<^verbatim>\<open>src/shell/plugins/notify.c\<close>: event notifications of the PMIx server are logged by the shell. The
  handler identifier, a \<^verbatim>\<open>size_t\<close>, is packed with the format for an \<^verbatim>\<open>int\<close>: its low 32 bits. The call
  of the notification callback is compiled out in the source, so the decoded callback is not used.
\<close>

definition PMIX_EVENT_TEXT_MESSAGE :: string where
  "PMIX_EVENT_TEXT_MESSAGE = ''pmix.evtext''"

record notify =
  notify_id :: int

datatype notify_effect =
    NLog log_msg
  | NFree "block list"

text \<open>The loop that looks for a text: the last one wins.\<close>

fun event_text :: "string option \<Rightarrow> pmix_info_t list \<Rightarrow> string option" where
  "event_text message [] = message"
| "event_text message (i # is) =
     event_text
       (if ikey i = PMIX_EVENT_TEXT_MESSAGE then (case ivalue i of V_STRING s \<Rightarrow> s | _ \<Rightarrow> message) else message) is"

definition notify_note :: "pmix_proc_t \<Rightarrow> u32 \<Rightarrow> string option \<Rightarrow> string" where
  "notify_note source status message =
     ''notify source='' @ nspace source @ ''.'' @ show_int (sint (rank source)) @ '' event-status=''
     @ show_int (sint status) @ (case message of Some s \<Rightarrow> '' '' @ s | None \<Rightarrow> '''')"

text \<open>The condition that unpacks the message: what was decoded when it ended, for the code after
  \<^verbatim>\<open>done\<close>.\<close>

definition notify_unpack ::
    "'j lib \<Rightarrow> 'j option \<Rightarrow> (u32 \<times> pmix_proc_t) outcome \<times> pmix_info_t list option \<times> pmix_info_t list option" where
  "notify_unpack L pl =
     (case (case pl of
              None \<Rightarrow> None
            | Some j \<Rightarrow> json_unpack L j [(''id'', UpI), (''status'', UpI), (''source'', UpO), (''info'', UpO),
                         (''results'', UpO), (''cbfunc'', UpO), (''cbdata'', UpO)]) of
        Some [UvI eid, UvI status, UvO xsource, UvO xinfo, UvO xresults, UvO xcbfunc, UvO xcbdata] \<Rightarrow>
          (case codec_proc_decode L xsource of
             None \<Rightarrow> (Fail, None, None)
           | Some source \<Rightarrow>
               (case fst (codec_info_array_decode L xinfo) of
                  Undef \<Rightarrow> (Undef, None, None)
                | Fail \<Rightarrow> (Fail, None, None)
                | Ok is \<Rightarrow>
                    (case fst (codec_info_array_decode L xresults) of
                       Undef \<Rightarrow> (Undef, Some is, None)
                     | Fail \<Rightarrow> (Fail, Some is, None)
                     | Ok rs \<Rightarrow>
                         (case (codec_pointer_decode L xcbfunc, codec_pointer_decode L xcbdata) of
                            (Some _, Some _) \<Rightarrow> (Ok (status, source), Some is, Some rs)
                          | _ \<Rightarrow> (Fail, Some is, Some rs)))))
      | _ \<Rightarrow> (Fail, None, None))"

definition notify_shell_cb :: "'j lib \<Rightarrow> 'j option \<Rightarrow> notify_effect list outcome" where
  "notify_shell_cb L pl =
     (case notify_unpack L pl of
        (Undef, _, _) \<Rightarrow> Undef
      | (Fail, is, rs) \<Rightarrow>
          Ok [NLog (LWarn ''error unpacking interthread abort_upcall message''),
              NFree (codec_info_array_destroy is @ codec_info_array_destroy rs)]
      | (Ok (status, source), is, rs) \<Rightarrow>
          Ok [NLog (LWarn (notify_note source status (event_text None (case is of None \<Rightarrow> [] | Some is \<Rightarrow> is)))),
              NFree (codec_info_array_destroy is @ codec_info_array_destroy rs)])"

text \<open>The server thread's side; it has no return value.\<close>

definition notify_server_cb ::
    "'j lib \<Rightarrow> send_env \<Rightarrow> ('h, 'j) interthread \<Rightarrow> u64 \<Rightarrow> u32 \<Rightarrow> pmix_proc_t \<Rightarrow> pmix_info_t list
     \<Rightarrow> pmix_info_t list \<Rightarrow> u64 \<Rightarrow> u64 \<Rightarrow> bool \<times> ('h, 'j) interthread" where
  "notify_server_cb L S it evhdlr_registration_id status source is rs f d =
     (case (codec_proc_encode L source, codec_info_array_encode L is, codec_info_array_encode L rs,
            codec_pointer_encode L f, codec_pointer_encode L d) of
        (Some xsource, Some xinfo, Some xresults, Some xcbfunc, Some xcbdata) \<Rightarrow>
          (case interthread_send_pack L S it ''notify_upcall''
                  [(''id'', PkI (ucast evhdlr_registration_id)), (''status'', PkI status),
                   (''source'', PkO xsource), (''info'', PkO xinfo), (''results'', PkO xresults),
                   (''cbfunc'', PkO xcbfunc), (''cbdata'', PkO xcbdata)] of
             (rc, it) \<Rightarrow> (0 \<le> rc, it))
      | _ \<Rightarrow> (False, it))"

datatype event_reg = Register | Deregister int

text \<open>The PMIx calls made are the last component; the global context is reset on destruction.\<close>

definition notify_destroy :: "notify option \<Rightarrow> notify option \<Rightarrow> notify option \<times> event_reg list" where
  "notify_destroy nf ctx =
     (case nf of
        None \<Rightarrow> (ctx, [])
      | Some n \<Rightarrow> (None, if 0 \<le> notify_id n then [Deregister (notify_id n)] else []))"

text \<open>The branch for PMIx version 4 and later; \<open>reg\<close> is what the registration returns.\<close>

definition notify_create ::
    "bool \<Rightarrow> int \<Rightarrow> (upcall, 'j) interthread \<Rightarrow> notify option
     \<Rightarrow> notify option \<times> notify option \<times> (upcall, 'j) interthread \<times> event_reg list" where
  "notify_create calloc_ok reg it ctx =
     (if \<not> calloc_ok then (None, ctx, it, [])
      else
        let nf = \<lparr>notify_id = reg\<rparr> in
        if reg < 0 then
          (case notify_destroy (Some nf) ctx of (ctx, calls) \<Rightarrow> (None, ctx, it, Register # calls))
        else
          (case interthread_register it ''notify_upcall'' H_notify of
             Inl _ \<Rightarrow> (case notify_destroy (Some nf) ctx of (ctx, calls) \<Rightarrow> (None, ctx, it, Register # calls))
           | Inr it \<Rightarrow> (Some nf, Some nf, it, [Register])))"

context jansson
begin

lemma notify_roundtrip:
  assumes "notify_server_cb L S it eid status source is rs f d = (True, it')"
    and "proc_ok source" "list_all (info_ok L) is" "list_all (info_ok L) rs"
    and "malloc_ok L (length is * sizeof_info)" "malloc_ok L (length rs * sizeof_info)"
  shows "\<exists>pl. it' = it\<lparr>queue := queue it @ [\<lparr>topic = Some ''notify_upcall'', payload = Some pl\<rparr>]\<rparr>
    \<and> notify_shell_cb L (Some pl) =
      Ok [NLog (LWarn (notify_note source status (event_text None is))),
          NFree (codec_info_array_destroy (Some is) @ codec_info_array_destroy (Some rs))]"
proof -
  from assms(1) obtain xs xi xr xf xd pl where enc:
    "codec_proc_encode L source = Some xs" "codec_info_array_encode L is = Some xi"
    "codec_info_array_encode L rs = Some xr" "codec_pointer_encode L f = Some xf"
    "codec_pointer_encode L d = Some xd"
    and pack: "json_pack L [(''id'', PkI (ucast eid)), (''status'', PkI status), (''source'', PkO xs),
      (''info'', PkO xi), (''results'', PkO xr), (''cbfunc'', PkO xf), (''cbdata'', PkO xd)] = Some pl"
    and it': "it' = it\<lparr>queue := queue it @ [\<lparr>topic = Some ''notify_upcall'', payload = Some pl\<rparr>]\<rparr>"
    by (auto simp: notify_server_cb_def interthread_send_pack_def split: option.splits if_splits)
  have "json_unpack L pl [(''id'', UpI), (''status'', UpI), (''source'', UpO), (''info'', UpO),
      (''results'', UpO), (''cbfunc'', UpO), (''cbdata'', UpO)]
      = Some [UvI (ucast eid), UvI status, UvO xs, UvO xi, UvO xr, UvO xf, UvO xd]"
    by (rule unpack_pack [OF pack]) auto
  with it' show ?thesis
    using proc_roundtrip [OF enc(1) assms(2)] info_array_roundtrip [OF enc(2) assms(3,5)]
      info_array_roundtrip [OF enc(3) assms(4,6)] pointer_roundtrip [OF enc(4)] pointer_roundtrip [OF enc(5)]
    by (intro exI [of _ pl]) (simp add: notify_shell_cb_def notify_unpack_def)
qed

end

text \<open>What the loop finds.\<close>

lemma event_text_append: "event_text m (is @ js) = event_text (event_text m is) js"
  by (induction "is" arbitrary: m) auto

lemma event_text_other:
  "(\<And>i. i \<in> set is \<Longrightarrow> ikey i \<noteq> PMIX_EVENT_TEXT_MESSAGE \<or> value_type (ivalue i) \<noteq> PMIX_STRING) \<Longrightarrow>
   event_text m is = m"
proof (induction "is" arbitrary: m)
  case (Cons i "is")
  have "(if ikey i = PMIX_EVENT_TEXT_MESSAGE then (case ivalue i of V_STRING s \<Rightarrow> s | _ \<Rightarrow> m) else m) = m"
    using Cons.prems [of i] by (cases "ivalue i") auto
  with Cons.IH [of m] Cons.prems show ?case by simp
qed simp

text \<open>
  Every notification the server side can send is logged by the shell with its source, status and
  the last event text among its attributes, if there is one, and both decoded arrays are freed.
\<close>

theorem notify_logs_event:
  assumes "jansson L" and "notify_server_cb L S it eid status source (pre @ Info PMIX_EVENT_TEXT_MESSAGE fl (V_STRING (Some txt)) # post) rs f d = (True, it')"
    and "\<And>i. i \<in> set post \<Longrightarrow> ikey i \<noteq> PMIX_EVENT_TEXT_MESSAGE"
    and "proc_ok source" "list_all (info_ok L) (pre @ Info PMIX_EVENT_TEXT_MESSAGE fl (V_STRING (Some txt)) # post)"
    and "list_all (info_ok L) rs" "malloc_ok L ((length pre + length post + 1) * sizeof_info)"
    and "malloc_ok L (length rs * sizeof_info)"
  shows "\<exists>pl. it' = it\<lparr>queue := queue it @ [\<lparr>topic = Some ''notify_upcall'', payload = Some pl\<rparr>]\<rparr>
    \<and> notify_shell_cb L (Some pl) =
      Ok [NLog (LWarn (notify_note source status (Some txt))),
          NFree (codec_info_array_destroy (Some (pre @ Info PMIX_EVENT_TEXT_MESSAGE fl (V_STRING (Some txt)) # post))
                 @ codec_info_array_destroy (Some rs))]"
proof -
  have "event_text None (pre @ Info PMIX_EVENT_TEXT_MESSAGE fl (V_STRING (Some txt)) # post) = Some txt"
    using event_text_other [of post "Some txt"] assms(3) by (simp add: event_text_append)
  then show ?thesis
    using jansson.notify_roundtrip [OF assms(1,2,4,5,6) _ assms(8)] assms(7) by (simp add: add.commute)
qed

theorem notify_logs_event_witness:
  "let it' = snd (notify_server_cb json_lib demo_send_env demo_channel 0 1 \<lparr>nspace = ''f1'', rank = 3\<rparr>
         [Info ''pmix.evtext'' 0 (V_STRING (Some ''boo''))] [] 7 8)
   in \<exists>pl. queue it' = [\<lparr>topic = Some ''notify_upcall'', payload = Some pl\<rparr>]
        \<and> notify_shell_cb json_lib (Some pl) =
          Ok [NLog (LWarn ''notify source=f1.3 event-status=1 boo''),
              NFree (codec_info_array_destroy (Some [Info ''pmix.evtext'' 0 (V_STRING (Some ''boo''))])
                     @ codec_info_array_destroy (Some []))]"
proof -
  let ?p = "\<lparr>nspace = ''f1'', rank = 3\<rparr> :: pmix_proc_t"
  let ?is = "[] @ Info PMIX_EVENT_TEXT_MESSAGE 0 (V_STRING (Some ''boo'')) # []"
  let ?r = "notify_server_cb json_lib demo_send_env demo_channel 0 1 ?p ?is [] 7 8"
  have "fst ?r" by code_simp
  then have r: "?r = (True, snd ?r)" by (metis (full_types) prod.collapse)
  have ok: "list_all (info_ok json_lib) ?is" by code_simp
  have text_eq: "notify_note ?p 1 (Some ''boo'') = ''notify source=f1.3 event-status=1 boo''" by code_simp
  have is_eq: "[Info ''pmix.evtext'' 0 (V_STRING (Some ''boo''))] = ?is" by (simp add: PMIX_EVENT_TEXT_MESSAGE_def)
  have "\<exists>pl. snd ?r = demo_channel\<lparr>queue := queue demo_channel @ [\<lparr>topic = Some ''notify_upcall'', payload = Some pl\<rparr>]\<rparr>
    \<and> notify_shell_cb json_lib (Some pl) =
      Ok [NLog (LWarn (notify_note ?p 1 (Some ''boo''))),
          NFree (codec_info_array_destroy (Some ?is) @ codec_info_array_destroy (Some []))]"
    by (rule notify_logs_event [OF jlib.jansson_axioms r _ _ ok])
       (simp_all add: proc_ok_def nul_free_def PMIX_MAX_NSLEN_def json_lib_def)
  then show ?thesis unfolding Let_def is_eq text_eq by (auto simp: demo_channel_def)
qed

end
