(* ===== verification/Infovec.thy ===== *)
theory Infovec
  imports Pmix_Types
begin

text \<open>
  \<^verbatim>\<open>src/shell/plugins/infovec.c\<close>: a growing vector of \<^verbatim>\<open>pmix_info_t\<close>. The array in use is a list (its
  length is \<^verbatim>\<open>count\<close>, the empty list the null pointer), \<open>iv_length\<close> the number of slots allocated. A
  setter takes the pointers it checks as options, returns the error (return value -1) if there is one,
  and the vector; a string or byte buffer passed to a \<^verbatim>\<open>_new\<close> setter belongs to the vector when the
  setter succeeds. Booleans say whether the allocations succeed.
\<close>

definition INFOVEC_CHUNK :: nat where
  "INFOVEC_CHUNK = 8"

record infovec =
  iv_length :: nat
  iv_info :: "pmix_info_t list"

type_synonym iv_result = "errno option \<times> infovec option"

text \<open>The slot returned is the last entry, zeroed.\<close>

definition alloc_slot :: "bool \<Rightarrow> infovec \<Rightarrow> infovec option" where
  "alloc_slot realloc_ok iv =
     (if length (iv_info iv) = iv_length iv then
        if \<not> realloc_ok then None
        else Some \<lparr>iv_length = iv_length iv + INFOVEC_CHUNK, iv_info = iv_info iv @ [Info [] 0 (V_OTHER 0)]\<rparr>
      else Some (iv\<lparr>iv_info := iv_info iv @ [Info [] 0 (V_OTHER 0)]\<rparr>))"

definition fill_slot :: "infovec \<Rightarrow> string \<Rightarrow> pmix_value_t \<Rightarrow> infovec" where
  "fill_slot iv key v = iv\<lparr>iv_info := butlast (iv_info iv) @ [Info (strlcpy_field key (PMIX_MAX_KEYLEN + 1)) 0 v]\<rparr>"

definition infovec_set_str_new ::
    "bool \<Rightarrow> infovec option \<Rightarrow> string option \<Rightarrow> string option \<Rightarrow> iv_result" where
  "infovec_set_str_new realloc_ok ivp keyp valp =
     (case (ivp, keyp, valp) of
        (Some iv, Some key, Some val) \<Rightarrow>
          (case alloc_slot realloc_ok iv of
             None \<Rightarrow> (Some ENOMEM, ivp)
           | Some iv \<Rightarrow> (None, Some (fill_slot iv key (V_STRING (Some val)))))
      | _ \<Rightarrow> (Some EINVAL, ivp))"

text \<open>The last result is what is freed: the copy, when it cannot be stored.\<close>

definition infovec_set_str ::
    "bool \<Rightarrow> bool \<Rightarrow> infovec option \<Rightarrow> string option \<Rightarrow> string option \<Rightarrow> iv_result \<times> block list" where
  "infovec_set_str strdup_ok realloc_ok ivp keyp valp =
     (case (ivp, keyp, valp) of
        (Some iv, Some key, Some val) \<Rightarrow>
          if \<not> strdup_ok then ((Some ENOMEM, ivp), [])
          else (case infovec_set_str_new realloc_ok ivp keyp (Some val) of
                  (Some e, ivp) \<Rightarrow> ((Some e, ivp), [B_string val])
                | (None, ivp) \<Rightarrow> ((None, ivp), []))
      | _ \<Rightarrow> ((Some EINVAL, ivp), []))"

definition infovec_set_u32 :: "bool \<Rightarrow> infovec option \<Rightarrow> string option \<Rightarrow> u32 \<Rightarrow> iv_result" where
  "infovec_set_u32 realloc_ok ivp keyp val =
     (case (ivp, keyp) of
        (Some iv, Some key) \<Rightarrow>
          (case alloc_slot realloc_ok iv of
             None \<Rightarrow> (Some ENOMEM, ivp)
           | Some iv \<Rightarrow> (None, Some (fill_slot iv key (V_UINT32 val))))
      | _ \<Rightarrow> (Some EINVAL, ivp))"

definition infovec_set_u16 :: "bool \<Rightarrow> infovec option \<Rightarrow> string option \<Rightarrow> u16 \<Rightarrow> iv_result" where
  "infovec_set_u16 realloc_ok ivp keyp val =
     (case (ivp, keyp) of
        (Some iv, Some key) \<Rightarrow>
          (case alloc_slot realloc_ok iv of
             None \<Rightarrow> (Some ENOMEM, ivp)
           | Some iv \<Rightarrow> (None, Some (fill_slot iv key (V_UINT16 val))))
      | _ \<Rightarrow> (Some EINVAL, ivp))"

definition infovec_set_bool :: "bool \<Rightarrow> infovec option \<Rightarrow> string option \<Rightarrow> bool \<Rightarrow> iv_result" where
  "infovec_set_bool realloc_ok ivp keyp val =
     (case (ivp, keyp) of
        (Some iv, Some key) \<Rightarrow>
          (case alloc_slot realloc_ok iv of
             None \<Rightarrow> (Some ENOMEM, ivp)
           | Some iv \<Rightarrow> (None, Some (fill_slot iv key (V_BOOL val))))
      | _ \<Rightarrow> (Some EINVAL, ivp))"

definition infovec_set_rank :: "bool \<Rightarrow> infovec option \<Rightarrow> string option \<Rightarrow> u32 \<Rightarrow> iv_result" where
  "infovec_set_rank realloc_ok ivp keyp val =
     (case (ivp, keyp) of
        (Some iv, Some key) \<Rightarrow>
          (case alloc_slot realloc_ok iv of
             None \<Rightarrow> (Some ENOMEM, ivp)
           | Some iv \<Rightarrow> (None, Some (fill_slot iv key (V_PROC_RANK val))))
      | _ \<Rightarrow> (Some EINVAL, ivp))"

text \<open>The array of \<open>val\<close> moves into the entry and the structure that held it is freed.\<close>

definition infovec_set_infovec_new ::
    "bool \<Rightarrow> bool \<Rightarrow> infovec option \<Rightarrow> string option \<Rightarrow> infovec option \<Rightarrow> iv_result \<times> block list" where
  "infovec_set_infovec_new realloc_ok calloc_ok ivp keyp valp =
     (case (ivp, keyp, valp) of
        (Some iv, Some key, Some val) \<Rightarrow>
          (case alloc_slot realloc_ok iv of
             None \<Rightarrow> ((Some ENOMEM, ivp), [])
           | Some iv \<Rightarrow>
               if \<not> calloc_ok then ((Some ENOMEM, Some (fill_slot iv key (V_DATA_ARRAY None))), [])
               else ((None, Some (fill_slot iv key (V_DATA_ARRAY (Some (iv_info val))))), [B_infovec]))
      | _ \<Rightarrow> ((Some EINVAL, ivp), []))"

definition infovec_set_byte_object_new ::
    "bool \<Rightarrow> infovec option \<Rightarrow> string option \<Rightarrow> byte list \<Rightarrow> iv_result" where
  "infovec_set_byte_object_new realloc_ok ivp keyp val =
     (case (ivp, keyp) of
        (Some iv, Some key) \<Rightarrow>
          (case alloc_slot realloc_ok iv of
             None \<Rightarrow> (Some ENOMEM, ivp)
           | Some iv \<Rightarrow> (None, Some (fill_slot iv key (V_BYTE_OBJECT val))))
      | _ \<Rightarrow> (Some EINVAL, ivp))"

definition infovec_count :: "infovec \<Rightarrow> nat" where
  "infovec_count iv = length (iv_info iv)"

definition infovec_info :: "infovec \<Rightarrow> pmix_info_t list" where
  "infovec_info iv = iv_info iv"

text \<open>The blocks freed, in order; the recursion follows nested arrays.\<close>

fun destroy_value :: "pmix_value_t \<Rightarrow> block list"
  and destroy_entries :: "pmix_info_t list \<Rightarrow> block list" where
  "destroy_value (V_STRING s) = (case s of None \<Rightarrow> [] | Some s \<Rightarrow> [B_string s])"
| "destroy_value (V_DATA_ARRAY (Some is)) =
     destroy_entries is @ (if is = [] then [] else [B_infos is]) @ [B_darray]"
| "destroy_value (V_BYTE_OBJECT b) = [B_bytes b]"
| "destroy_value _ = []"
| "destroy_entries [] = []"
| "destroy_entries (Info k f v # is) = destroy_value v @ destroy_entries is"

definition destroy_info_array :: "pmix_info_t list \<Rightarrow> block list" where
  "destroy_info_array is = destroy_entries is @ (if is = [] then [] else [B_infos is])"

definition infovec_destroy :: "infovec option \<Rightarrow> block list" where
  "infovec_destroy ivp = (case ivp of None \<Rightarrow> [] | Some iv \<Rightarrow> destroy_info_array (iv_info iv) @ [B_infovec])"

definition infovec_create :: "bool \<Rightarrow> infovec option" where
  "infovec_create calloc_ok = (if calloc_ok then Some \<lparr>iv_length = 0, iv_info = []\<rparr> else None)"

subsection \<open>Growth and ownership\<close>

definition iv_inv :: "infovec \<Rightarrow> bool" where
  "iv_inv iv \<longleftrightarrow> iv_length iv = 8 * ((length (iv_info iv) + 7) div 8)"

lemma iv_inv_create: "infovec_create True = Some iv \<Longrightarrow> iv_inv iv \<and> iv_info iv = []"
  by (auto simp: infovec_create_def iv_inv_def)

lemma slots_step:
  "n = 8 * ((n + 7) div 8) \<Longrightarrow> n + 8 = 8 * ((n + 8) div (8::nat))"
  "n \<noteq> 8 * ((n + 7) div 8) \<Longrightarrow> (n + 8) div 8 = (n + 7) div (8::nat)"
proof -
  obtain q r where n: "n = 8 * q + r" "r < 8"
    by (metis mod_less_divisor mult_div_mod_eq zero_less_numeral)
  have d: "(n + 8) div 8 = Suc q" "(n + 7) div 8 = q + (r + 7) div 8"
    unfolding n using n(2) by (simp_all add: div_add1_eq [of "8 * q" _ 8] add.assoc)
  have r: "r = 0 \<and> (r + 7) div 8 = 0 \<or> 0 < r \<and> (r + 7) div 8 = 1" using n(2) by auto
  show "n = 8 * ((n + 7) div 8) \<Longrightarrow> n + 8 = 8 * ((n + 8) div (8::nat))"
    "n \<noteq> 8 * ((n + 7) div 8) \<Longrightarrow> (n + 8) div 8 = (n + 7) div (8::nat)"
    using d r n by auto
qed

lemma alloc_fill:
  assumes "alloc_slot ok iv = Some iv1"
  shows "iv_info (fill_slot iv1 key v) = iv_info iv @ [Info (strlcpy_field key 512) 0 v]"
    and "iv_inv iv \<Longrightarrow> iv_inv (fill_slot iv1 key v)"
proof -
  have info: "iv_info iv1 = iv_info iv @ [Info [] 0 (V_OTHER 0)]"
    using assms by (auto simp: alloc_slot_def split: if_splits)
  then show "iv_info (fill_slot iv1 key v) = iv_info iv @ [Info (strlcpy_field key 512) 0 v]"
    by (simp add: fill_slot_def PMIX_MAX_KEYLEN_def)
  have "iv_inv iv \<Longrightarrow> iv_length iv1 = 8 * ((length (iv_info iv) + 8) div 8)"
    using assms slots_step [of "length (iv_info iv)"]
    by (cases "length (iv_info iv) = iv_length iv")
       (auto simp: alloc_slot_def iv_inv_def INFOVEC_CHUNK_def split: if_splits)
  then show "iv_inv iv \<Longrightarrow> iv_inv (fill_slot iv1 key v)"
    using info by (simp add: iv_inv_def fill_slot_def add.commute)
qed

lemma alloc_slot_ok: "\<exists>iv1. alloc_slot True iv = Some iv1"
  by (simp add: alloc_slot_def)

lemma destroy_entries_append: "destroy_entries (is @ js) = destroy_entries is @ destroy_entries js"
proof (induction "is")
  case (Cons i "is")
  then show ?case by (cases i) simp
qed simp

text \<open>
  Histories of a vector under any combination of failing allocations: the blocks it has acquired
  (allocated for it, or handed over to it by a successful call) and the blocks freed on the way.
\<close>

inductive iv_run :: "infovec \<Rightarrow> block list \<Rightarrow> block list \<Rightarrow> bool" where
  iv_start: "infovec_create True = Some iv \<Longrightarrow> iv_run iv [] []"
| iv_str_new: "iv_run iv acq rel \<Longrightarrow> infovec_set_str_new ok (Some iv) (Some key) (Some s) = (e, Some iv') \<Longrightarrow>
    iv_run iv' (acq @ (if e = None then [B_string s] else [])) rel"
| iv_str: "iv_run iv acq rel \<Longrightarrow> infovec_set_str strdup_ok ok (Some iv) (Some key) (Some s) = ((e, Some iv'), fs) \<Longrightarrow>
    iv_run iv' (acq @ (if strdup_ok then [B_string s] else [])) (rel @ fs)"
| iv_u32: "iv_run iv acq rel \<Longrightarrow> infovec_set_u32 ok (Some iv) (Some key) x = (e, Some iv') \<Longrightarrow> iv_run iv' acq rel"
| iv_u16: "iv_run iv acq rel \<Longrightarrow> infovec_set_u16 ok (Some iv) (Some key) y = (e, Some iv') \<Longrightarrow> iv_run iv' acq rel"
| iv_bool: "iv_run iv acq rel \<Longrightarrow> infovec_set_bool ok (Some iv) (Some key) b = (e, Some iv') \<Longrightarrow> iv_run iv' acq rel"
| iv_rank: "iv_run iv acq rel \<Longrightarrow> infovec_set_rank ok (Some iv) (Some key) x = (e, Some iv') \<Longrightarrow> iv_run iv' acq rel"
| iv_bytes: "iv_run iv acq rel \<Longrightarrow> infovec_set_byte_object_new ok (Some iv) (Some key) bs = (e, Some iv') \<Longrightarrow>
    iv_run iv' (acq @ (if e = None then [B_bytes bs] else [])) rel"
| iv_infovec: "iv_run iv acq rel \<Longrightarrow>
    infovec_set_infovec_new ok calloc_ok (Some iv) (Some key) (Some val) = ((e, Some iv'), fs) \<Longrightarrow>
    iv_run iv' (acq @ (if e = None then infovec_destroy (Some val) @ [B_darray] else [])) (rel @ fs)"

text \<open>One entry more, holding the blocks \<open>new\<close>.\<close>

lemma iv_add:
  assumes "iv_inv iv \<and> mset rel + mset (destroy_entries (iv_info iv)) = mset acq"
    and "alloc_slot ok iv = Some iv1" and "destroy_value v = new"
  shows "iv_inv (fill_slot iv1 key v)
    \<and> mset rel + mset (destroy_entries (iv_info (fill_slot iv1 key v))) = mset (acq @ new)"
  using assms alloc_fill [OF assms(2), of key v] by (auto simp: destroy_entries_append ac_simps)

lemma iv_run_owns:
  "iv_run iv acq rel \<Longrightarrow> iv_inv iv \<and> mset rel + mset (destroy_entries (iv_info iv)) = mset acq"
proof (induction rule: iv_run.induct)
  case (iv_start iv)
  then show ?case using iv_inv_create by simp
next
  case (iv_str_new iv acq rel ok key s e iv')
  then show ?case using iv_add [OF iv_str_new.IH, of ok _ "V_STRING (Some s)"]
    by (auto simp: infovec_set_str_new_def split: option.splits)
next
  case (iv_str iv acq rel strdup_ok ok key s e iv' fs)
  then show ?case using iv_add [OF iv_str.IH, of ok _ "V_STRING (Some s)"]
    by (auto simp: infovec_set_str_def infovec_set_str_new_def split: option.splits if_splits)
next
  case (iv_u32 iv acq rel ok key x e iv')
  then show ?case using iv_add [OF iv_u32.IH, of ok _ "V_UINT32 x"]
    by (auto simp: infovec_set_u32_def split: option.splits)
next
  case (iv_u16 iv acq rel ok key y e iv')
  then show ?case using iv_add [OF iv_u16.IH, of ok _ "V_UINT16 y"]
    by (auto simp: infovec_set_u16_def split: option.splits)
next
  case (iv_bool iv acq rel ok key b e iv')
  then show ?case using iv_add [OF iv_bool.IH, of ok _ "V_BOOL b"]
    by (auto simp: infovec_set_bool_def split: option.splits)
next
  case (iv_rank iv acq rel ok key x e iv')
  then show ?case using iv_add [OF iv_rank.IH, of ok _ "V_PROC_RANK x"]
    by (auto simp: infovec_set_rank_def split: option.splits)
next
  case (iv_bytes iv acq rel ok key bs e iv')
  then show ?case using iv_add [OF iv_bytes.IH, of ok _ "V_BYTE_OBJECT bs"]
    by (auto simp: infovec_set_byte_object_new_def split: option.splits)
next
  case (iv_infovec iv acq rel ok calloc_ok key val e iv' fs)
  let ?is = "iv_info val"
  have none: "alloc_slot ok iv = Some iv1 \<Longrightarrow> iv_inv (fill_slot iv1 key (V_DATA_ARRAY None))
      \<and> mset rel + mset (destroy_entries (iv_info (fill_slot iv1 key (V_DATA_ARRAY None)))) = mset acq" for iv1
    using iv_add [OF iv_infovec.IH, of ok iv1 "V_DATA_ARRAY None" "[]" key] by simp
  have some: "alloc_slot ok iv = Some iv1 \<Longrightarrow> iv_inv (fill_slot iv1 key (V_DATA_ARRAY (Some ?is)))
      \<and> mset rel + mset (destroy_entries (iv_info (fill_slot iv1 key (V_DATA_ARRAY (Some ?is)))))
        = mset (acq @ destroy_value (V_DATA_ARRAY (Some ?is)))" for iv1
    using iv_add [OF iv_infovec.IH, of ok iv1 "V_DATA_ARRAY (Some ?is)" _ key] by simp
  show ?case
  proof (cases "alloc_slot ok iv")
    case None
    then show ?thesis using iv_infovec by (auto simp: infovec_set_infovec_new_def)
  next
    case (Some iv1)
    then show ?thesis using iv_infovec.hyps(2) none [OF Some] some [OF Some]
      by (cases calloc_ok)
         (auto simp: infovec_set_infovec_new_def infovec_destroy_def destroy_info_array_def ac_simps)
  qed
qed

text \<open>
  C25. An info vector owns what it was given: after any sequence of setters, whatever allocations
  failed, destroying it frees exactly the blocks it acquired that were not freed on the way, its
  entry array and itself, nested vectors included; nothing leaks and nothing is freed twice. Its
  capacity is always the number of entries rounded up to a multiple of 8.
\<close>

theorem infovec_owns:
  assumes "iv_run iv acq rel"
  shows "mset rel + mset (infovec_destroy (Some iv))
      = mset acq + (if iv_info iv = [] then {#} else {#B_infos (iv_info iv)#}) + {#B_infovec#}
    \<and> infovec_count iv \<le> iv_length iv \<and> iv_length iv mod 8 = 0 \<and> iv_length iv < infovec_count iv + 8"
  using iv_run_owns [OF assms]
  by (auto simp: infovec_destroy_def destroy_info_array_def iv_inv_def infovec_count_def)

text \<open>A vector with a string, and a second one moved into it.\<close>

lemma demo_iv_run:
  "\<exists>iv. iv_run iv [B_string ''f1'', B_infovec, B_darray] [B_infovec] \<and> infovec_count iv = 2"
proof -
  let ?empty = "\<lparr>iv_length = 0, iv_info = []\<rparr>"
  let ?iv1 = "\<lparr>iv_length = 8, iv_info = [Info ''pmix.jobid'' 0 (V_STRING (Some ''f1''))]\<rparr>"
  let ?iv2 = "?iv1\<lparr>iv_info := iv_info ?iv1 @ [Info ''pmix.pdata'' 0 (V_DATA_ARRAY (Some []))]\<rparr>"
  have 0: "iv_run ?empty [] []" by (rule iv_start) (simp add: infovec_create_def)
  have "infovec_set_str True True (Some ?empty) (Some ''pmix.jobid'') (Some ''f1'') = ((None, Some ?iv1), [])"
    by code_simp
  from iv_str [OF 0 this] have 1: "iv_run ?iv1 [B_string ''f1''] []" by simp
  have "infovec_set_infovec_new True True (Some ?iv1) (Some ''pmix.pdata'') (Some ?empty)
      = ((None, Some ?iv2), [B_infovec])"
    by code_simp
  from iv_infovec [OF 1 this] have "iv_run ?iv2 [B_string ''f1'', B_infovec, B_darray] [B_infovec]"
    by (simp add: infovec_destroy_def destroy_info_array_def)
  then show ?thesis by (intro exI [of _ ?iv2]) (simp add: infovec_count_def)
qed

theorem infovec_owns_witness:
  "\<exists>iv. mset [B_infovec] + mset (infovec_destroy (Some iv))
      = mset [B_string ''f1'', B_infovec, B_darray]
        + (if iv_info iv = [] then {#} else {#B_infos (iv_info iv)#}) + {#B_infovec#}
    \<and> infovec_count iv = 2 \<and> infovec_count iv \<le> iv_length iv"
  using infovec_owns demo_iv_run by meson

text \<open>
  With memory available each setter appends exactly one entry, with the given value and the key
  cut to 511 characters, and leaves the entries before it unchanged; a null argument is refused with
  EINVAL and changes nothing.
\<close>

theorem infovec_set_appends:
  assumes "nul_free key"
  shows "let entry = (\<lambda>v r. fst r = None \<and> (\<exists>iv'. snd r = Some iv'
             \<and> infovec_info iv' = infovec_info iv @ [Info (take 511 key) 0 v]
             \<and> infovec_count iv' = infovec_count iv + 1));
             refused = (\<lambda>r. r = (Some EINVAL, Some iv))
    in entry (V_STRING (Some s)) (infovec_set_str_new True (Some iv) (Some key) (Some s))
     \<and> entry (V_STRING (Some s)) (fst (infovec_set_str True True (Some iv) (Some key) (Some s)))
     \<and> entry (V_UINT32 x) (infovec_set_u32 True (Some iv) (Some key) x)
     \<and> entry (V_UINT16 y) (infovec_set_u16 True (Some iv) (Some key) y)
     \<and> entry (V_BOOL b) (infovec_set_bool True (Some iv) (Some key) b)
     \<and> entry (V_PROC_RANK x) (infovec_set_rank True (Some iv) (Some key) x)
     \<and> entry (V_BYTE_OBJECT bs) (infovec_set_byte_object_new True (Some iv) (Some key) bs)
     \<and> entry (V_DATA_ARRAY (Some (infovec_info val)))
         (fst (infovec_set_infovec_new True True (Some iv) (Some key) (Some val)))
     \<and> refused (infovec_set_u32 ok (Some iv) None x)
     \<and> refused (infovec_set_str_new ok (Some iv) (Some key) None)"
proof -
  obtain iv1 where iv1: "alloc_slot True iv = Some iv1" using alloc_slot_ok by blast
  have key: "strlcpy_field key 512 = take 511 key" using assms by (simp add: strlcpy_field_eq)
  note fill = alloc_fill(1) [OF iv1, of key, unfolded key]
  show ?thesis
    unfolding Let_def
    by (simp add: iv1 fill infovec_set_str_new_def infovec_set_str_def infovec_set_u32_def infovec_set_u16_def
        infovec_set_bool_def infovec_set_rank_def infovec_set_byte_object_new_def infovec_set_infovec_new_def
        infovec_info_def infovec_count_def)
qed

theorem infovec_set_appends_witness:
  "\<exists>iv'. infovec_set_u32 True (Some \<lparr>iv_length = 0, iv_info = []\<rparr>) (Some ''pmix.job.size'') 4 = (None, Some iv')
     \<and> infovec_info iv' = [Info ''pmix.job.size'' 0 (V_UINT32 4)]"
proof -
  let ?iv = "\<lparr>iv_length = 0, iv_info = []\<rparr>"
  have "let r = infovec_set_u32 True (Some ?iv) (Some ''pmix.job.size'') 4 in fst r = None \<and> (\<exists>iv'. snd r = Some iv'
             \<and> infovec_info iv' = infovec_info ?iv @ [Info (take 511 ''pmix.job.size'') 0 (V_UINT32 4)])"
    using infovec_set_appends [of "''pmix.job.size''" ?iv "[]" 4 0 True "[]" ?iv True]
    unfolding Let_def by (simp add: nul_free_def del: take_Cons_numeral) blast
  then show ?thesis by (auto simp: Let_def infovec_info_def prod_eq_iff)
qed

end
