(* ===== verification/Argz.thy ===== *)
theory Argz
  imports Cstdio
begin

text \<open>
  The \<^verbatim>\<open>argz\<close> vectors of the C library, as the sources use them: a buffer of strings each ended by NUL.
  \<^verbatim>\<open>argz_create_sep\<close> copies a string, turning separators into NULs and skipping the empty pieces between
  them; iterating with \<^verbatim>\<open>argz_next\<close> visits the strings; \<^verbatim>\<open>argz_add\<close> appends one; \<^verbatim>\<open>argz_stringify\<close> turns
  all NULs but the last into a separator.
\<close>

fun create_sep_loop :: "char \<Rightarrow> string \<Rightarrow> string \<Rightarrow> string" where
  "create_sep_loop delim wp [] = wp @ [NUL]"
| "create_sep_loop delim wp (c # rp) =
     (if c = delim then
        if wp \<noteq> [] \<and> last wp \<noteq> NUL then create_sep_loop delim (wp @ [NUL]) rp
        else create_sep_loop delim wp rp
      else create_sep_loop delim (wp @ [c]) rp)"

definition argz_create_sep :: "string \<Rightarrow> char \<Rightarrow> string" where
  "argz_create_sep s delim = (if s = [] then [] else create_sep_loop delim [] s)"

text \<open>The strings that \<^verbatim>\<open>argz_next\<close> visits.\<close>

fun argz_scan :: "string \<Rightarrow> string \<Rightarrow> string list" where
  "argz_scan u [] = (if u = [] then [] else [u])"
| "argz_scan u (c # argz) = (if c = NUL then u # argz_scan [] argz else argz_scan (u @ [c]) argz)"

abbreviation argz_entries :: "string \<Rightarrow> string list" where
  "argz_entries argz \<equiv> argz_scan [] argz"

definition argz_add :: "string \<Rightarrow> string \<Rightarrow> string" where
  "argz_add argz s = argz @ c_string s @ [NUL]"

definition argz_stringify :: "string \<Rightarrow> char \<Rightarrow> string" where
  "argz_stringify argz sep = map (\<lambda>c. if c = NUL then sep else c) (butlast argz)"

text \<open>What the vectors mean: lists of strings without NUL.\<close>

definition argz_of :: "string list \<Rightarrow> string" where
  "argz_of ss = concat (map (\<lambda>s. s @ [NUL]) ss)"

lemma argz_of_simps [simp]:
  "argz_of [] = []" "argz_of (s # ss) = s @ NUL # argz_of ss" "argz_of (ss @ ts) = argz_of ss @ argz_of ts"
  by (simp_all add: argz_of_def)

lemma argz_scan_append: "nul_free s \<Longrightarrow> argz_scan u (s @ argz) = argz_scan (u @ s) argz"
  by (induction s arbitrary: u) (auto simp: nul_free_def)

lemma argz_entries_of: "list_all nul_free ss \<Longrightarrow> argz_entries (argz_of ss) = ss"
  by (induction ss) (simp_all add: argz_scan_append)

lemma argz_add_of: "nul_free s \<Longrightarrow> argz_add (argz_of ss) s = argz_of (ss @ [s])"
  by (simp add: argz_add_def)

text \<open>The pieces of a string between separators, empty pieces left out.\<close>

fun pieces :: "char \<Rightarrow> string \<Rightarrow> string \<Rightarrow> string list" where
  "pieces delim u [] = (if u = [] then [] else [u])"
| "pieces delim u (c # cs) =
     (if c = delim then (if u = [] then pieces delim [] cs else u # pieces delim [] cs)
      else pieces delim (u @ [c]) cs)"

abbreviation split_sep :: "char \<Rightarrow> string \<Rightarrow> string list" where
  "split_sep delim s \<equiv> pieces delim [] s"

lemma create_sep_loop_parts:
  "nul_free s \<Longrightarrow> nul_free u \<Longrightarrow> delim \<noteq> NUL \<Longrightarrow>
   \<exists>ends. set ends \<subseteq> {NUL} \<and> length ends \<le> 1
     \<and> create_sep_loop delim (argz_of ss @ u) s = argz_of (ss @ pieces delim u s) @ ends"
proof (induction s arbitrary: u ss)
  case Nil
  then show ?case by (intro exI [of _ "if u = [] then [NUL] else []"]) auto
next
  case (Cons c s)
  have nf: "nul_free s" "c \<noteq> NUL" using Cons.prems by (auto simp: nul_free_def)
  show ?case
  proof (cases "c = delim")
    case True
    show ?thesis
    proof (cases "u = []")
      case True
      have "\<not> (argz_of ss @ u \<noteq> [] \<and> last (argz_of ss @ u) \<noteq> NUL)"
        using True by (cases ss rule: rev_cases) auto
      then show ?thesis using Cons.IH [of "[]" ss] Cons.prems nf \<open>c = delim\<close> True by (auto simp: nul_free_def)
    next
      case False
      then have "last (argz_of ss @ u) \<noteq> NUL" using Cons.prems(2) last_in_set [OF False] by (auto simp: nul_free_def simp del: last_in_set)
      then show ?thesis using Cons.IH [of "[]" "ss @ [u]"] Cons.prems nf \<open>c = delim\<close> False
        by (auto simp: nul_free_def)
    qed
  next
    case False
    have "nul_free (u @ [c])" using Cons.prems(2) nf by (auto simp: nul_free_def)
    from Cons.IH [OF nf(1) this Cons.prems(3), of ss] False show ?thesis by simp
  qed
qed

lemma parts_nul_free: "nul_free s \<Longrightarrow> nul_free u \<Longrightarrow> list_all nul_free (pieces delim u s)"
  by (induction delim u s rule: pieces.induct) (auto simp: nul_free_def)

lemma parts_nonempty: "p \<in> set (pieces delim u s) \<Longrightarrow> p \<noteq> []"
  by (induction delim u s rule: pieces.induct) (auto split: if_splits)

text \<open>Splitting a string visits its non-empty pieces, and perhaps one empty string at the end.\<close>

lemma argz_create_sep_entries:
  assumes "nul_free s" and "delim \<noteq> NUL"
  shows "\<exists>e. argz_entries (argz_create_sep s delim) = split_sep delim s @ e \<and> set e \<subseteq> {[]}"
proof (cases "s = []")
  case False
  obtain ends where ends: "set ends \<subseteq> {NUL}" "length ends \<le> 1"
    "create_sep_loop delim [] s = argz_of (split_sep delim s) @ ends"
    using create_sep_loop_parts [OF assms(1) _ assms(2), of "[]" "[]"] by (auto simp: nul_free_def)
  have nf: "list_all nul_free (split_sep delim s)" using parts_nul_free [OF assms(1)] by (simp add: nul_free_def)
  have "ends = [] \<or> ends = [NUL]" using ends by (cases ends) auto
  then show ?thesis
  proof
    assume "ends = []"
    then show ?thesis using False ends(3) argz_entries_of [OF nf]
      by (intro exI [of _ "[]"]) (simp add: argz_create_sep_def)
  next
    assume "ends = [NUL]"
    then have "create_sep_loop delim [] s = argz_of (split_sep delim s @ [[]])" using ends(3) by simp
    moreover have "list_all nul_free (split_sep delim s @ [[]])" using nf by (simp add: nul_free_def)
    ultimately show ?thesis using False argz_entries_of [of "split_sep delim s @ [[]]"]
      by (intro exI [of _ "[[]]"]) (simp add: argz_create_sep_def)
  qed
qed (simp add: argz_create_sep_def)

text \<open>Joining strings and splitting the result.\<close>

fun join :: "char \<Rightarrow> string list \<Rightarrow> string" where
  "join sep [] = []"
| "join sep [s] = s"
| "join sep (s # ss) = s @ sep # join sep ss"

lemma argz_stringify_of:
  assumes "list_all nul_free ss"
  shows "argz_stringify (argz_of ss) sep = join sep ss"
  using assms
proof (induction ss rule: join.induct)
  case (2 sep s)
  then show ?case by (auto simp: argz_stringify_def nul_free_def intro: map_idI)
next
  case (3 sep s t ts)
  have "argz_of (t # ts) \<noteq> []" by simp
  moreover have "map (\<lambda>c. if c = NUL then sep else c) s = s" using 3(2) by (auto simp: nul_free_def intro: map_idI)
  ultimately show ?case using 3 by (simp add: argz_stringify_def butlast_append)
qed (simp add: argz_stringify_def)

lemma parts_append:
  "delim \<notin> set s \<Longrightarrow> pieces delim u (s @ r) = pieces delim (u @ s) r"
  by (induction s arbitrary: u) auto

lemma split_join:
  "list_all (\<lambda>s. s \<noteq> [] \<and> delim \<notin> set s) ss \<Longrightarrow> split_sep delim (join delim ss) = ss"
proof (induction delim ss rule: join.induct)
  case (2 sep s)
  then show ?case using parts_append [of sep s "[]" "[]"] by simp
next
  case (3 sep s t ts)
  then show ?case using parts_append [of sep s "[]" "sep # join sep (t # ts)"] by simp
qed simp

end
