(* ===== verification/Maps.thy ===== *)
theory Maps
  imports Argz Jansson
begin

text \<open>
  \<^verbatim>\<open>src/shell/plugins/maps.c\<close>: the list of host names for \<^verbatim>\<open>PMIx_generate_regex\<close>. The host lists of
  flux, which are not part of the repository, are the record \<open>hostlib\<close>: a host list is a list of names,
  \<^verbatim>\<open>hostlist_append\<close> expands a bracketed list and appends it, \<^verbatim>\<open>hostlist_uniq\<close> removes duplicates. The
  locale \<open>hostlist\<close> states what they promise.
\<close>

record hostlib =
  hostlist_append :: "string list \<Rightarrow> string \<Rightarrow> string list option"
  hostlist_uniq :: "string list \<Rightarrow> string list"
  hostlist_copy_ok :: bool

definition contains_duplicates :: "hostlib \<Rightarrow> string list \<Rightarrow> bool" where
  "contains_duplicates H hl =
     (if \<not> hostlist_copy_ok H then False else length (hostlist_uniq H hl) < length hl)"

definition HOST_NAME_MAX :: nat where
  "HOST_NAME_MAX = 64"

text \<open>The loop that fills the host list.\<close>

fun append_hosts :: "'j lib \<Rightarrow> hostlib \<Rightarrow> string list \<Rightarrow> 'j list \<Rightarrow> string list option" where
  "append_hosts L H hl [] = Some hl"
| "append_hosts L H hl (v # vs) =
     (case json_string_value L v of
        None \<Rightarrow> None
      | Some s \<Rightarrow> (case hostlist_append H hl s of None \<Rightarrow> None | Some hl \<Rightarrow> append_hosts L H hl vs))"

text \<open>The loop that adds the names to the vector, numbered if they have to be made unique.\<close>

fun add_nodes :: "bool \<Rightarrow> nat \<Rightarrow> string \<Rightarrow> string list \<Rightarrow> string" where
  "add_nodes uniqify index argz [] = argz"
| "add_nodes uniqify index argz (node # nodes) =
     (if uniqify then
        add_nodes uniqify (Suc index)
          (argz_add argz (snprintf (HOST_NAME_MAX + 1) (node @ show_nat index))) nodes
      else add_nodes uniqify index (argz_add argz node) nodes)"

text \<open>
  \<open>nodelist\<close> is what unpacking the shell info yields. With no host the vector stays null, which the
  caller takes as a failure. Allocation failures of the vector are left out.
\<close>

definition maps_node_create :: "'j lib \<Rightarrow> hostlib \<Rightarrow> 'j option \<Rightarrow> string option" where
  "maps_node_create L H nodelist =
     (case nodelist of
        None \<Rightarrow> None
      | Some nl \<Rightarrow>
          (case append_hosts L H [] (json_array_elems L nl) of
             None \<Rightarrow> None
           | Some hl \<Rightarrow>
               let argz = add_nodes (contains_duplicates H hl) 0 [] hl in
               if argz = [] then None else Some (argz_stringify argz CHR '','')))"

subsection \<open>What host lists promise\<close>

locale hostlist =
  fixes H :: hostlib and expand :: "string \<Rightarrow> string list"
  assumes hl_append: "hostlist_append H hl s = Some hl' \<Longrightarrow> hl' = hl @ expand s"
    and hl_uniq: "distinct (hostlist_uniq H hl) \<and> set (hostlist_uniq H hl) = set hl"
    and hl_copy: "hostlist_copy_ok H"
begin

lemma contains_duplicates_iff: "contains_duplicates H hl \<longleftrightarrow> \<not> distinct hl"
proof -
  have "length (hostlist_uniq H hl) = card (set hl)" using hl_uniq [of hl] distinct_card by metis
  then show ?thesis using card_length [of hl] card_distinct [of hl] distinct_card [of hl]
    by (simp add: contains_duplicates_def hl_copy) (metis le_neq_implies_less less_irrefl)
qed

lemma append_hosts_eq:
  "append_hosts L H hl vs = Some hl' \<Longrightarrow>
   \<exists>ss. map (json_string_value L) vs = map Some ss \<and> hl' = hl @ concat (map expand ss)"
proof (induction vs arbitrary: hl)
  case (Cons v vs)
  then obtain s hl1 where s: "json_string_value L v = Some s" "hostlist_append H hl s = Some hl1"
    "append_hosts L H hl1 vs = Some hl'"
    by (auto split: option.splits)
  from Cons.IH [OF s(3)] obtain ss where "map (json_string_value L) vs = map Some ss"
    "hl' = hl1 @ concat (map expand ss)" by blast
  with s(1) hl_append [OF s(2)] show ?case by (intro exI [of _ "s # ss"]) simp
qed simp

end

text \<open>An instance: single names, duplicates removed.\<close>

definition plain_hosts :: hostlib where
  "plain_hosts = \<lparr>hostlist_append = (\<lambda>hl s. Some (hl @ [s])), hostlist_uniq = remdups, hostlist_copy_ok = True\<rparr>"

interpretation plain: hostlist plain_hosts "\<lambda>s. [s]"
  by unfold_locales (auto simp: plain_hosts_def)

subsection \<open>The result\<close>

definition numbered :: "string list \<Rightarrow> string list" where
  "numbered hl = map (\<lambda>(i, node). snprintf (HOST_NAME_MAX + 1) (node @ show_nat i)) (enumerate 0 hl)"

lemma nul_free_show_nat: "nul_free (show_nat n)"
  by (simp add: nul_free_def show_nat_not_in)

lemma nul_free_numbered: "nul_free node \<Longrightarrow> nul_free (snprintf k (node @ show_nat i))"
  using nul_free_show_nat [of i] by (auto simp: snprintf_def nul_free_def dest: in_set_takeD)

lemma add_nodes_plain:
  "list_all nul_free hl \<Longrightarrow> add_nodes False i (argz_of ss) hl = argz_of (ss @ hl)"
proof (induction hl arbitrary: ss)
  case (Cons node hl)
  then show ?case using argz_add_of [of node ss] Cons.IH [of "ss @ [node]"] by simp
qed simp

lemma add_nodes_numbered:
  "list_all nul_free hl \<Longrightarrow> add_nodes True i (argz_of ss) hl
     = argz_of (ss @ map (\<lambda>(i, node). snprintf (HOST_NAME_MAX + 1) (node @ show_nat i)) (enumerate i hl))"
proof (induction hl arbitrary: i ss)
  case (Cons node hl)
  let ?n = "snprintf (HOST_NAME_MAX + 1) (node @ show_nat i)"
  have "argz_add (argz_of ss) ?n = argz_of (ss @ [?n])"
    using Cons.prems by (intro argz_add_of nul_free_numbered) simp
  then show ?case using Cons.IH [of "Suc i" "ss @ [?n]"] Cons.prems by simp
qed simp

lemma numbered_nul_free: "list_all nul_free hl \<Longrightarrow> list_all nul_free (numbered hl)"
  unfolding numbered_def list_all_iff
  by (auto simp: enumerate_eq_zip intro!: nul_free_numbered dest!: set_zip_rightD)

definition host_ok :: "string \<Rightarrow> bool" where
  "host_ok h \<longleftrightarrow> nul_free h \<and> h \<noteq> [] \<and> CHR '','' \<notin> set h"

definition hosts_ok :: "'j lib \<Rightarrow> (string \<Rightarrow> string list) \<Rightarrow> 'j \<Rightarrow> bool" where
  "hosts_ok L expand nl \<longleftrightarrow>
     list_all (\<lambda>v. case json_string_value L v of None \<Rightarrow> True | Some s \<Rightarrow> list_all host_ok (expand s))
       (json_array_elems L nl)"

lemma hosts_ok_concat:
  assumes "hosts_ok L expand nl" and "map (json_string_value L) (json_array_elems L nl) = map Some ss"
  shows "list_all host_ok (concat (map expand ss))"
proof -
  have "list_all host_ok (expand s)" if "s \<in> set ss" for s
  proof -
    have "Some s \<in> set (map (json_string_value L) (json_array_elems L nl))" using that assms(2) by simp
    then obtain v where "v \<in> set (json_array_elems L nl)" "json_string_value L v = Some s" by auto
    then show ?thesis using assms(1) by (fastforce simp: hosts_ok_def list_all_iff)
  qed
  then show ?thesis by (auto simp: list_all_iff)
qed

context hostlist
begin

lemma maps_node_create_eq:
  assumes "maps_node_create L H (Some nl) = Some s"
    and "hosts_ok L expand nl"
  shows "\<exists>ss. map (json_string_value L) (json_array_elems L nl) = map Some ss
    \<and> (let hl = concat (map expand ss) in s = join CHR '','' (if distinct hl then hl else numbered hl))"
proof -
  from assms(1) obtain hl where hl: "append_hosts L H [] (json_array_elems L nl) = Some hl"
    and s: "s = argz_stringify (add_nodes (contains_duplicates H hl) 0 [] hl) CHR '',''"
    by (auto simp: maps_node_create_def Let_def split: option.splits if_splits)
  from append_hosts_eq [OF hl] obtain ss where ss: "map (json_string_value L) (json_array_elems L nl) = map Some ss"
    "hl = concat (map expand ss)" by auto
  have nf: "list_all nul_free hl" using hosts_ok_concat [OF assms(2) ss(1)] ss(2) by (auto simp: list_all_iff host_ok_def)
  have "s = join CHR '','' (if distinct hl then hl else numbered hl)"
    using s contains_duplicates_iff [of hl] add_nodes_plain [OF nf, of 0 "[]"] add_nodes_numbered [OF nf, of 0 "[]"]
      argz_stringify_of [OF nf] argz_stringify_of [OF numbered_nul_free [OF nf]]
    by (auto simp: numbered_def)
  with ss show ?thesis by (auto simp: Let_def)
qed

end

text \<open>
  C23. The node map is the hosts of the job in order, separated by commas: the expanded names as they
  are when no host appears twice, and otherwise each followed by its position.
\<close>

theorem maps_node_create_correct:
  assumes "hostlist H expand" and "maps_node_create L H (Some nl) = Some s"
    and "hosts_ok L expand nl"
  shows "\<exists>ss hl. map (json_string_value L) (json_array_elems L nl) = map Some ss
    \<and> hl = concat (map expand ss)
    \<and> split_sep CHR '','' s = (if distinct hl then hl else numbered hl)"
proof -
  from hostlist.maps_node_create_eq [OF assms] obtain ss where
    ss: "map (json_string_value L) (json_array_elems L nl) = map Some ss"
    "s = join CHR '','' (if distinct (concat (map expand ss)) then concat (map expand ss)
         else numbered (concat (map expand ss)))"
    by (auto simp: Let_def)
  let ?hl = "concat (map expand ss)"
  have hl: "list_all (\<lambda>h. h \<noteq> [] \<and> CHR '','' \<notin> set h) ?hl"
    using hosts_ok_concat [OF assms(3) ss(1)] by (auto simp: list_all_iff host_ok_def)
  have "list_all (\<lambda>h. h \<noteq> [] \<and> CHR '','' \<notin> set h) (numbered ?hl)"
    unfolding numbered_def list_all_iff
  proof (intro ballI)
    fix x assume "x \<in> set (map (\<lambda>(i, node). snprintf (HOST_NAME_MAX + 1) (node @ show_nat i)) (enumerate 0 ?hl))"
    then obtain i node where x: "x = take 64 (node @ show_nat i)" and node: "node \<in> set ?hl"
      by (auto simp: enumerate_eq_zip snprintf_def HOST_NAME_MAX_def dest: set_zip_rightD)
    have "CHR '','' \<notin> set (show_nat i)" by (simp add: show_nat_not_in)
    with hl node x show "x \<noteq> [] \<and> CHR '','' \<notin> set x"
      by (auto simp: list_all_iff dest!: in_set_takeD)
  qed
  with hl split_join [of "CHR '',''"] ss show ?thesis by (intro exI [of _ ss] exI [of _ ?hl]) auto
qed

theorem maps_node_create_correct_witness:
  "\<exists>ss hl. map (json_string_value json_lib) (json_array_elems json_lib (JArr [JStr ''a'', JStr ''b'', JStr ''a'']))
      = map Some ss
    \<and> hl = concat (map (\<lambda>s. [s]) ss)
    \<and> split_sep CHR '','' ''a0,b1,a2'' = (if distinct hl then hl else numbered hl)"
  by (rule maps_node_create_correct [OF plain.hostlist_axioms]; code_simp)

definition ends_in_digit :: "string \<Rightarrow> bool" where
  "ends_in_digit s \<longleftrightarrow> s \<noteq> [] \<and> is_digit (last s)"

lemma numbered_inject:
  assumes "a @ show_nat i = b @ show_nat j" and "\<not> ends_in_digit a" "\<not> ends_in_digit b"
  shows "i = j"
proof -
  have suffix: "takeWhile is_digit (rev (x @ show_nat k)) = rev (show_nat k)" if "\<not> ends_in_digit x" for x k
  proof -
    have "takeWhile is_digit (rev x) = []"
      using that by (cases x rule: rev_cases) (auto simp: ends_in_digit_def)
    moreover have "takeWhile is_digit (rev (show_nat k) @ rev x) = rev (show_nat k) @ takeWhile is_digit (rev x)"
      by (rule takeWhile_append2) (auto dest: show_nat_digits)
    ultimately show ?thesis by simp
  qed
  show ?thesis using suffix [OF assms(2), of i] suffix [OF assms(3), of j] assms(1) by simp
qed

lemma numbered_nth:
  "i < length hl \<Longrightarrow> numbered hl ! i = snprintf 65 (hl ! i @ show_nat i)"
  by (simp add: numbered_def nth_enumerate_eq HOST_NAME_MAX_def)

lemma numbered_distinct:
  assumes "list_all (\<lambda>h. \<not> ends_in_digit h) hl"
    and "\<And>i. i < length hl \<Longrightarrow> length (hl ! i) + length (show_nat i) \<le> 64"
  shows "distinct (numbered hl)"
proof -
  have "length (numbered hl) = length hl" by (simp add: numbered_def)
  moreover have "numbered hl ! i \<noteq> numbered hl ! j" if "i < length hl" "j < length hl" "i \<noteq> j" for i j
  proof
    assume "numbered hl ! i = numbered hl ! j"
    then have "hl ! i @ show_nat i = hl ! j @ show_nat j"
      using that assms(2) [of i] assms(2) [of j] by (simp add: numbered_nth snprintf_def)
    from numbered_inject [OF this] that assms(1) show False by (simp add: list_all_length)
  qed
  ultimately show ?thesis by (simp add: distinct_conv_nth)
qed

lemma add_nodes_entries:
  assumes "list_all nul_free hl"
  shows "argz_entries (add_nodes True 0 [] hl) = numbered hl"
  using add_nodes_numbered [OF assms, of 0 "[]"] argz_entries_of [OF numbered_nul_free [OF assms]]
  by (simp add: numbered_def)

text \<open>
  When names have to be made unique they are, provided no name ends in a digit and none is so
  long that it is cut.
\<close>

theorem maps_uniqify_distinct:
  assumes "list_all (\<lambda>h. nul_free h \<and> \<not> ends_in_digit h) hl"
    and "\<And>i. i < length hl \<Longrightarrow> length (hl ! i) + length (show_nat i) \<le> HOST_NAME_MAX"
  shows "distinct (argz_entries (add_nodes True 0 [] hl)) \<and> length (argz_entries (add_nodes True 0 [] hl)) = length hl"
proof -
  have nf: "list_all nul_free hl" and dig: "list_all (\<lambda>h. \<not> ends_in_digit h) hl"
    using assms(1) by (auto simp: list_all_iff)
  show ?thesis using numbered_distinct [OF dig] assms(2)
    by (simp add: add_nodes_entries [OF nf] HOST_NAME_MAX_def) (simp add: numbered_def)
qed

theorem maps_uniqify_distinct_witness:
  "distinct (argz_entries (add_nodes True 0 [] [''a'', ''b'', ''a'']))"
proof -
  have "length ([''a'', ''b'', ''a''] ! i) + length (show_nat i) \<le> HOST_NAME_MAX"
    if "i < length [''a'', ''b'', ''a'']" for i
  proof -
    have "i = 0 \<or> i = 1 \<or> i = 2" using that by auto
    moreover have "length (show_nat 0) = 1" "length (show_nat 1) = 1" "length (show_nat 2) = 1" by code_simp+
    ultimately show ?thesis by (auto simp: HOST_NAME_MAX_def)
  qed
  moreover have "list_all (\<lambda>h. nul_free h \<and> \<not> ends_in_digit h) [''a'', ''b'', ''a'']"
    by (simp add: ends_in_digit_def is_digit_def nul_free_def)
  ultimately show ?thesis using maps_uniqify_distinct by blast
qed

text \<open>
  Names that end in a digit can still collide: of eleven shells on two hosts, the first and the
  last are given the same name.
\<close>

theorem maps_uniqify_collision:
  "let hl = ''a1'' # replicate 10 ''a'' in contains_duplicates plain_hosts hl
   \<and> argz_entries (add_nodes True 0 [] hl) ! 0 = ''a10'' \<and> argz_entries (add_nodes True 0 [] hl) ! 10 = ''a10''"
  by code_simp

end
