(* ===== verification/Px_Main.thy ===== *)
theory Px_Main
  imports Abort Dmodex Notify Infovec Maps "HOL-Library.AList"
begin

text \<open>
  \<^verbatim>\<open>src/shell/plugins/main.c\<close>: the entry points of the shell plugin. What is outside the repository is
  a parameter: the flux shell's calls (\<open>shell_env\<close>), flux task maps and id sets (\<open>taskmap\<close>; an id set is
  the list of its ids in ascending order), the PMIx server library (\<open>pmix_server\<close>), and which
  allocations succeed (\<open>mem_env\<close>, by info key and task rank).

  A function returns its status (negative is failure), its state and the calls it made, in order.
  \<open>andthen\<close> runs the next step unless the status is negative, which is how the sources chain their calls
  with \<open>||\<close> and early returns.
\<close>

definition andthen :: "int \<times> 's \<times> 'e list \<Rightarrow> ('s \<Rightarrow> int \<times> 's \<times> 'e list) \<Rightarrow> int \<times> 's \<times> 'e list" where
  "andthen r f = (case r of (rc, s, es) \<Rightarrow>
     if rc < 0 then r else case f s of (rc', s', es') \<Rightarrow> (rc', s', es @ es'))"

subsection \<open>The libraries around the plugin\<close>

record taskmap =
  taskmap_taskids :: "int \<Rightarrow> u32 list option"
  taskmap_nodeid :: "int \<Rightarrow> int"
  taskmap_encode :: "string option"
  idset_encode :: "u32 list \<Rightarrow> string option"

record pmix_server =
  generate_regex :: "string \<Rightarrow> int \<times> string"
  generate_ppn :: "string \<Rightarrow> int \<times> string"
  server_init_rc :: int
  register_nspace_rc :: int
  register_client_rc :: "pmix_proc_t \<Rightarrow> int"
  server_finalize_rc :: int
  setup_fork :: "pmix_proc_t \<Rightarrow> int \<times> string list option"
  register_event :: int
  error_string :: "int \<Rightarrow> string"
  get_version :: string

definition PMIX_OPERATION_SUCCEEDED :: int where
  "PMIX_OPERATION_SUCCEEDED = - 157"

record mem_env =
  px_calloc_ok :: bool
  iv_calloc_ok :: "int option \<Rightarrow> bool"
  strdup_ok :: "string \<Rightarrow> bool"
  realloc_ok :: "string \<Rightarrow> int \<Rightarrow> bool"
  darray_ok :: "int \<Rightarrow> bool"
  handle_ok :: "string \<Rightarrow> bool"

record 'j shell_env =
  aux_set_ok :: bool
  shell_info :: "(u64 \<times> int) option"
  jobid_f58 :: "u64 \<Rightarrow> string option"
  rank_ntasks :: "int \<Rightarrow> int option"
  jobspec_ntasks :: "int option"
  shell_tmpdir :: "string option"
  shell_taskmap :: "taskmap option"
  shell_nodelist :: "'j option"
  shell_size :: "int option"
  service_ok :: bool
  open_send_ok :: bool
  open_recv_ok :: bool
  watcher_ok :: bool
  verbose_opt :: "int option"

text \<open>The attribute keys of the PMIx standard.\<close>

definition PMIX_SERVER_TMPDIR :: string where "PMIX_SERVER_TMPDIR = ''pmix.srvr.tmpdir''"
definition PMIX_SERVER_RANK :: string where "PMIX_SERVER_RANK = ''pmix.srv.rank''"
definition PMIX_JOBID :: string where "PMIX_JOBID = ''pmix.jobid''"
definition PMIX_LOCAL_PEERS :: string where "PMIX_LOCAL_PEERS = ''pmix.lpeers''"
definition PMIX_NODE_MAP :: string where "PMIX_NODE_MAP = ''pmix.nmap''"
definition PMIX_PROC_MAP :: string where "PMIX_PROC_MAP = ''pmix.pmap''"
definition PMIX_TDIR_RMCLEAN :: string where "PMIX_TDIR_RMCLEAN = ''pmix.tdir.rmclean''"
definition PMIX_JOB_NUM_APPS :: string where "PMIX_JOB_NUM_APPS = ''pmix.job.napps''"
definition PMIX_TMPDIR :: string where "PMIX_TMPDIR = ''pmix.tmpdir''"
definition PMIX_LOCAL_SIZE :: string where "PMIX_LOCAL_SIZE = ''pmix.local.size''"
definition PMIX_UNIV_SIZE :: string where "PMIX_UNIV_SIZE = ''pmix.univ.size''"
definition PMIX_JOB_SIZE :: string where "PMIX_JOB_SIZE = ''pmix.job.size''"
definition PMIX_APPNUM :: string where "PMIX_APPNUM = ''pmix.appnum''"
definition PMIX_PROC_INFO_ARRAY :: string where "PMIX_PROC_INFO_ARRAY = ''pmix.pdata''"
definition PMIX_RANK :: string where "PMIX_RANK = ''pmix.rank''"
definition PMIX_NODEID :: string where "PMIX_NODEID = ''pmix.nodeid''"
definition PMIX_LOCAL_RANK :: string where "PMIX_LOCAL_RANK = ''pmix.lrank''"
definition PMIX_NODE_RANK :: string where "PMIX_NODE_RANK = ''pmix.nrank''"

lemmas pmix_keys =
  PMIX_SERVER_TMPDIR_def PMIX_SERVER_RANK_def PMIX_JOBID_def PMIX_LOCAL_PEERS_def PMIX_NODE_MAP_def
  PMIX_PROC_MAP_def PMIX_TDIR_RMCLEAN_def PMIX_JOB_NUM_APPS_def PMIX_TMPDIR_def PMIX_LOCAL_SIZE_def
  PMIX_UNIV_SIZE_def PMIX_JOB_SIZE_def PMIX_APPNUM_def PMIX_PROC_INFO_ARRAY_def PMIX_RANK_def
  PMIX_NODEID_def PMIX_LOCAL_RANK_def PMIX_NODE_RANK_def

subsection \<open>State\<close>

record ('j, 'm) px =
  px_id :: u64
  px_nspace :: string
  px_shell_rank :: int
  local_nprocs :: int
  total_nprocs :: int
  px_taskmap :: "taskmap option"
  job_tmpdir :: "string option"
  px_it :: "(upcall, 'j) interthread option"
  px_fence :: "('j, 'm) fence option"
  px_abort :: "abort option"
  px_notify :: "notify option"
  px_dmodex :: "unit option"

text \<open>\<^verbatim>\<open>server_callbacks\<close> and the global contexts, with the \<^verbatim>\<open>px\<close> attached to the plugin.\<close>

record ('j, 'm) world =
  aux_px :: "('j, 'm) px option"
  fence_nb :: bool
  abort_fn :: bool
  direct_modex :: bool
  fence_ctx :: bool
  abort_ctx :: "abort option"
  notify_ctx :: "notify option"
  dmodex_ctx :: bool

datatype ('j, 'm) px_effect =
    PLog log_msg
  | PLogError string
  | PFree "block list"
  | PAcquire "it_resource list"
  | PRelease "it_resource list"
  | PEvents "event_reg list"
  | PFence "('j, 'm, fence_call) effect list"
  | ServerInit bool bool bool "pmix_info_t list"
  | ServerFinalize
  | RegisterNspace string int "pmix_info_t list"
  | RegisterClient pmix_proc_t
  | FreePx

text \<open>A step that fills an info vector.\<close>

type_synonym ('j, 'm) ivstep = "int \<times> infovec option \<times> ('j, 'm) px_effect list"

definition px_destroy ::
    "pmix_server \<Rightarrow> ('j, 'm) px option \<Rightarrow> ('j, 'm) world \<Rightarrow> ('j, 'm) world \<times> ('j, 'm) px_effect list" where
  "px_destroy P pxp W =
     (case pxp of
        None \<Rightarrow> (W, [])
      | Some px \<Rightarrow>
          (case notify_destroy (px_notify px) (notify_ctx W) of
             (nctx, calls) \<Rightarrow>
               (W\<lparr>notify_ctx := nctx, fence_ctx := snd (fence_destroy (px_fence px) (fence_ctx W)),
                  abort_ctx := abort_destroy (px_abort px) (abort_ctx W),
                  dmodex_ctx := dmodex_destroy (px_dmodex px) (dmodex_ctx W)\<rparr>,
                [PEvents calls, ServerFinalize]
                @ (if server_finalize_rc P \<noteq> 0
                   then [PLog (LWarn (''PMIx_server_finalize: '' @ error_string P (server_finalize_rc P)))] else [])
                @ [PFence (fst (fence_destroy (px_fence px) (fence_ctx W))), PRelease (interthread_destroy (px_it px)), FreePx])))"

subsection \<open>The info entries of the namespace\<close>

text \<open>The status of a setter, and what it frees.\<close>

definition of_set :: "iv_result \<Rightarrow> ('j, 'm) ivstep" where
  "of_set r = (if fst r = None then 0 else - 1, snd r, [])"

definition of_set_free :: "iv_result \<times> block list \<Rightarrow> ('j, 'm) ivstep" where
  "of_set_free r = (if fst (fst r) = None then 0 else - 1, snd (fst r), [PFree (snd r)])"

text \<open>Storing a string the vector takes over; it is freed here if it is not taken.\<close>

definition steal_str ::
    "mem_env \<Rightarrow> infovec option \<Rightarrow> string \<Rightarrow> string \<Rightarrow> ('j, 'm) ivstep" where
  "steal_str M iv key s =
     (case infovec_set_str_new (realloc_ok M key 0) iv (Some key) (Some s) of
        (None, iv) \<Rightarrow> (0, iv, [])
      | (Some _, iv) \<Rightarrow> (- 1, iv, [PFree [B_string s]]))"

definition set_lpeers ::
    "mem_env \<Rightarrow> infovec option \<Rightarrow> string \<Rightarrow> taskmap \<Rightarrow> int \<Rightarrow> ('j, 'm) ivstep" where
  "set_lpeers M iv key tm srank =
     (case taskmap_taskids tm srank of
        None \<Rightarrow> (- 1, iv, [])
      | Some ids \<Rightarrow>
          (case idset_encode tm ids of
             None \<Rightarrow> (- 1, iv, [])
           | Some s \<Rightarrow> andthen (0, iv, [PLog (LDebug (''local_peers = '' @ s))]) (\<lambda>iv. steal_str M iv key s)))"

text \<open>
  The status tested is that of the comparison, 1 if it holds: the message names error 1 whatever the
  library returned.
\<close>

definition set_node_map ::
    "'j lib \<Rightarrow> hostlib \<Rightarrow> pmix_server \<Rightarrow> mem_env \<Rightarrow> 'j option \<Rightarrow> infovec option \<Rightarrow> string
     \<Rightarrow> ('j, 'm) ivstep" where
  "set_node_map L H P M nodelist iv key =
     (case maps_node_create L H nodelist of
        None \<Rightarrow> (- 1, iv, [])
      | Some raw \<Rightarrow>
          (case generate_regex P raw of
             (rc, cooked) \<Rightarrow>
               if rc \<noteq> 0 then
                 (- 1, iv, [PLog (LDebug (''node_map = '' @ raw)), PFree [B_string raw],
                           PLog (LWarn (''PMIx_generate_regex: '' @ error_string P 1))])
               else
                 (case steal_str M iv key cooked of
                    (rc, iv, es) \<Rightarrow>
                      (rc, iv, PLog (LDebug (''node_map = '' @ raw)) # es @ [PFree [B_string raw]]))))"

definition set_proc_map ::
    "pmix_server \<Rightarrow> mem_env \<Rightarrow> infovec option \<Rightarrow> string \<Rightarrow> taskmap
     \<Rightarrow> ('j, 'm) ivstep" where
  "set_proc_map P M iv key tm =
     (case taskmap_encode tm of
        None \<Rightarrow> (- 1, iv, [])
      | Some raw \<Rightarrow>
          (case generate_ppn P raw of
             (rc, cooked) \<Rightarrow>
               if rc \<noteq> 0 then
                 (- 1, iv, [PLog (LDebug (''proc_map = '' @ raw)), PFree [B_string raw],
                           PLog (LWarn (''PMIx_generate_ppn: '' @ error_string P 1))])
               else
                 (case steal_str M iv key cooked of
                    (rc, iv, es) \<Rightarrow>
                      (rc, iv, PLog (LDebug (''proc_map = '' @ raw)) # es @ [PFree [B_string raw]]))))"

text \<open>The loop over the ids of a node; an id is compared with the rank as an unsigned number.\<close>

fun local_rank_loop :: "u32 list \<Rightarrow> u32 \<Rightarrow> int \<Rightarrow> int" where
  "local_rank_loop [] r local_rank = - 1"
| "local_rank_loop (i # ids) r local_rank =
     (if i = r then local_rank else local_rank_loop ids r (local_rank + 1))"

definition get_local_rank :: "taskmap \<Rightarrow> int \<Rightarrow> int \<Rightarrow> int" where
  "get_local_rank tm nodeid r =
     (case taskmap_taskids tm nodeid of
        None \<Rightarrow> - 1
      | Some ranks \<Rightarrow> local_rank_loop ranks (word_of_int r) 0)"

text \<open>The vector of one task.\<close>

definition task_info :: "mem_env \<Rightarrow> int \<Rightarrow> int \<Rightarrow> int \<Rightarrow> ('j, 'm) ivstep" where
  "task_info M i nodeid local_rank =
     (case infovec_create (iv_calloc_ok M (Some i)) of
        None \<Rightarrow> (- 1, None, [])
      | Some ri \<Rightarrow>
          andthen (andthen (andthen
            (of_set (infovec_set_rank (realloc_ok M PMIX_RANK i) (Some ri) (Some PMIX_RANK) (word_of_int i)))
            (\<lambda>ri. of_set (infovec_set_u32 (realloc_ok M PMIX_NODEID i) ri (Some PMIX_NODEID) (word_of_int nodeid))))
            (\<lambda>ri. of_set (infovec_set_u16 (realloc_ok M PMIX_LOCAL_RANK i) ri (Some PMIX_LOCAL_RANK) (word_of_int local_rank))))
            (\<lambda>ri. of_set (infovec_set_u16 (realloc_ok M PMIX_NODE_RANK i) ri (Some PMIX_NODE_RANK) (word_of_int local_rank))))"

text \<open>One iteration of the loop.\<close>

definition set_proc_info ::
    "mem_env \<Rightarrow> infovec option \<Rightarrow> string \<Rightarrow> taskmap \<Rightarrow> int \<Rightarrow> ('j, 'm) ivstep" where
  "set_proc_info M iv key tm i =
     (let nodeid = taskmap_nodeid tm i; local_rank = get_local_rank tm nodeid i;
          failed = (\<lambda>iv ri. (- 1, iv, [PLog (LWarn (''error setting '' @ key @ '' for rank '' @ show_int i)),
                                       PFree (infovec_destroy ri)])) in
      if nodeid < 0 \<or> local_rank < 0 then (- 1, iv, [])
      else
        (case (task_info M i nodeid local_rank :: ('j, 'm) ivstep) of
           (rc, ri, _) \<Rightarrow>
             if rc < 0 then failed iv ri
             else
               (case infovec_set_infovec_new (realloc_ok M key i) (darray_ok M i) iv (Some key) ri of
                  ((Some _, iv), _) \<Rightarrow> failed iv ri
                | ((None, iv), bs) \<Rightarrow> (0, iv, [PFree bs]))))"

fun set_proc_infos_loop ::
    "mem_env \<Rightarrow> infovec option \<Rightarrow> string \<Rightarrow> taskmap \<Rightarrow> nat \<Rightarrow> nat \<Rightarrow> ('j, 'm) ivstep" where
  "set_proc_infos_loop M iv key tm i 0 = (0, iv, [])"
| "set_proc_infos_loop M iv key tm i (Suc left) =
     andthen (set_proc_info M iv key tm (int i)) (\<lambda>iv. set_proc_infos_loop M iv key tm (Suc i) left)"

definition set_proc_infos ::
    "mem_env \<Rightarrow> infovec option \<Rightarrow> string \<Rightarrow> taskmap \<Rightarrow> int \<Rightarrow> ('j, 'm) ivstep" where
  "set_proc_infos M iv key tm n = set_proc_infos_loop M iv key tm 0 (nat n)"

subsection \<open>Initialisation\<close>

text \<open>Reading the job's parameters from the shell; an early return keeps what has been read.\<close>

definition px_read_info ::
    "'j shell_env \<Rightarrow> ('j, 'm) px \<Rightarrow> int \<times> ('j, 'm) px \<times> ('j, 'm) px_effect list" where
  "px_read_info S px =
     (case shell_info S of
        None \<Rightarrow> (- 1, px, [])
      | Some (jid, srank) \<Rightarrow>
          let px = px\<lparr>px_id := jid, px_shell_rank := srank\<rparr>;
              es = [PLog (LDebug (''jobid = '' @ show_nat (unat jid))),
                    PLog (LDebug (''shell_rank = '' @ show_int srank))] in
          (case jobid_f58 S jid of
             None \<Rightarrow> (- 1, px, es)
           | Some ns \<Rightarrow>
               let px = px\<lparr>px_nspace := ns\<rparr> in
               (case rank_ntasks S srank of
                  None \<Rightarrow> (- 1, px, es)
                | Some nl \<Rightarrow>
                    let px = px\<lparr>local_nprocs := nl\<rparr>;
                        es = es @ [PLog (LDebug (''local_nprocs = '' @ show_int nl))] in
                    (case jobspec_ntasks S of
                       None \<Rightarrow> (- 1, px, es)
                     | Some nt \<Rightarrow>
                         let px = px\<lparr>total_nprocs := nt\<rparr>;
                             es = es @ [PLog (LDebug (''total_nprocs = '' @ show_int nt))] in
                         (case shell_tmpdir S of
                            None \<Rightarrow> (- 1, px, es)
                          | Some dir \<Rightarrow>
                              let px = px\<lparr>job_tmpdir := Some dir\<rparr> in
                              (case shell_taskmap S of
                                 None \<Rightarrow> (- 1, px, es @ [PLogError ''failed to get taskmap''])
                               | Some tm \<Rightarrow> (0, px\<lparr>px_taskmap := Some tm\<rparr>, es)))))))"

definition px_version_note :: "pmix_server \<Rightarrow> ('j, 'm) px \<Rightarrow> ('j, 'm) px_effect list" where
  "px_version_note P px =
     (if px_shell_rank px = 0
      then [PLog (LDebug (''server outsourced to '' @ takeWhile (\<lambda>c. c \<noteq> CHR '','') (get_version P)))]
      else [])"

text \<open>The channel and the handlers on it, in the order of the sources.\<close>

definition px_create_it ::
    "'j shell_env \<Rightarrow> mem_env \<Rightarrow> ('j, 'm) px \<times> ('j, 'm) world
     \<Rightarrow> int \<times> (('j, 'm) px \<times> ('j, 'm) world) \<times> ('j, 'm) px_effect list" where
  "px_create_it S M pw =
     (case pw of (px, W) \<Rightarrow>
       (case interthread_create (handle_ok M ''interthread'') (open_send_ok S) (open_recv_ok S)
               (watcher_ok S) (verbose_opt S) of
          (None, acq, rel) \<Rightarrow>
            (- 1, (px, W), [PAcquire acq, PRelease rel,
               PLogError ''could not create interthread message channel ''])
        | (Some it, acq, rel) \<Rightarrow> (0, (px\<lparr>px_it := Some it\<rparr>, W), [PAcquire acq, PRelease rel])))"

definition px_create_fence ::
    "'j shell_env \<Rightarrow> mem_env \<Rightarrow> ('j, 'm) px \<times> ('j, 'm) world
     \<Rightarrow> int \<times> (('j, 'm) px \<times> ('j, 'm) world) \<times> ('j, 'm) px_effect list" where
  "px_create_fence S M pw =
     (case pw of (px, W) \<Rightarrow>
       (case px_it px of
          None \<Rightarrow> (- 1, pw, [])
        | Some it \<Rightarrow>
            (case fence_create (handle_ok M ''fence'')
                    (case shell_size S of None \<Rightarrow> None | Some n \<Rightarrow> Some (n, px_shell_rank px))
                    (service_ok S) it (fence_ctx W) of
               (None, ctx, it) \<Rightarrow>
                 (- 1, (px\<lparr>px_it := Some it\<rparr>, W\<lparr>fence_ctx := ctx\<rparr>), [PLogError ''could not create fence handler''])
             | (Some fx, ctx, it) \<Rightarrow>
                 (0, (px\<lparr>px_it := Some it, px_fence := Some fx\<rparr>, W\<lparr>fence_nb := True, fence_ctx := ctx\<rparr>), []))))"

definition px_create_abort ::
    "mem_env \<Rightarrow> ('j, 'm) px \<times> ('j, 'm) world
     \<Rightarrow> int \<times> (('j, 'm) px \<times> ('j, 'm) world) \<times> ('j, 'm) px_effect list" where
  "px_create_abort M pw =
     (case pw of (px, W) \<Rightarrow>
       (case px_it px of
          None \<Rightarrow> (- 1, pw, [])
        | Some it \<Rightarrow>
            (case abort_create (handle_ok M ''abort'') it (abort_ctx W) of
               (None, ctx, it) \<Rightarrow>
                 (- 1, (px\<lparr>px_it := Some it\<rparr>, W\<lparr>abort_ctx := ctx\<rparr>), [PLogError ''could not create abort handler''])
             | (Some ab, ctx, it) \<Rightarrow>
                 (0, (px\<lparr>px_it := Some it, px_abort := Some ab\<rparr>, W\<lparr>abort_fn := True, abort_ctx := ctx\<rparr>), []))))"

definition px_create_dmodex ::
    "mem_env \<Rightarrow> ('j, 'm) px \<times> ('j, 'm) world
     \<Rightarrow> int \<times> (('j, 'm) px \<times> ('j, 'm) world) \<times> ('j, 'm) px_effect list" where
  "px_create_dmodex M pw =
     (case pw of (px, W) \<Rightarrow>
       (case px_it px of
          None \<Rightarrow> (- 1, pw, [])
        | Some it \<Rightarrow>
            (case dmodex_create (handle_ok M ''dmodex'') it (dmodex_ctx W) of
               (None, ctx, it) \<Rightarrow>
                 (- 1, (px\<lparr>px_it := Some it\<rparr>, W\<lparr>dmodex_ctx := ctx\<rparr>), [PLogError ''could not create dmodex handler''])
             | (Some dx, ctx, it) \<Rightarrow>
                 (0, (px\<lparr>px_it := Some it, px_dmodex := Some dx\<rparr>, W\<lparr>direct_modex := True, dmodex_ctx := ctx\<rparr>), []))))"

definition px_server_init ::
    "pmix_server \<Rightarrow> ('j, 'm) px \<times> ('j, 'm) world
     \<Rightarrow> int \<times> (('j, 'm) px \<times> ('j, 'm) world) \<times> ('j, 'm) px_effect list" where
  "px_server_init P pw =
     (case pw of (px, W) \<Rightarrow>
       let info = [Info (strlcpy_field PMIX_SERVER_TMPDIR (PMIX_MAX_KEYLEN + 1)) 0 (V_STRING (job_tmpdir px)),
                   Info (strlcpy_field PMIX_SERVER_RANK (PMIX_MAX_KEYLEN + 1)) 0
                     (V_PROC_RANK (word_of_int (px_shell_rank px)))];
           call = ServerInit (fence_nb W) (abort_fn W) (direct_modex W) info in
       if server_init_rc P \<noteq> 0
       then (- 1, pw, [call, PLog (LWarn (''PMIx_server_init: '' @ error_string P (server_init_rc P)))])
       else (0, pw, [call]))"

definition px_create_notify ::
    "pmix_server \<Rightarrow> mem_env \<Rightarrow> ('j, 'm) px \<times> ('j, 'm) world
     \<Rightarrow> int \<times> (('j, 'm) px \<times> ('j, 'm) world) \<times> ('j, 'm) px_effect list" where
  "px_create_notify P M pw =
     (case pw of (px, W) \<Rightarrow>
       (case px_it px of
          None \<Rightarrow> (- 1, pw, [])
        | Some it \<Rightarrow>
            (case notify_create (handle_ok M ''notify'') (register_event P) it (notify_ctx W) of
               (None, ctx, it, calls) \<Rightarrow>
                 (- 1, (px\<lparr>px_it := Some it\<rparr>, W\<lparr>notify_ctx := ctx\<rparr>),
                  [PEvents calls, PLogError ''could not create notify handler''])
             | (Some nf, ctx, it, calls) \<Rightarrow>
                 (0, (px\<lparr>px_it := Some it, px_notify := Some nf\<rparr>, W\<lparr>notify_ctx := ctx\<rparr>), [PEvents calls]))))"

text \<open>The vector for the namespace: its entries in order, each only if the ones before succeeded.\<close>

definition px_namespace ::
    "'j lib \<Rightarrow> hostlib \<Rightarrow> pmix_server \<Rightarrow> 'j shell_env \<Rightarrow> mem_env \<Rightarrow> ('j, 'm) px \<Rightarrow> taskmap \<Rightarrow> string
     \<Rightarrow> ('j, 'm) ivstep" where
  "px_namespace L H P S M px tm dir =
     (let u32 = (\<lambda>key v iv. of_set (infovec_set_u32 (realloc_ok M key 0) iv (Some key) v));
          str = (\<lambda>key s iv. of_set_free (infovec_set_str (strdup_ok M key) (realloc_ok M key 0) iv (Some key) (Some s))) in
      case infovec_create (iv_calloc_ok M None) of
        None \<Rightarrow> (- 1, None, [])
      | Some iv \<Rightarrow>
          andthen (andthen (andthen (andthen (andthen (andthen (andthen (andthen (andthen (andthen (andthen
            (str PMIX_JOBID (px_nspace px) (Some iv))
            (\<lambda>iv. set_lpeers M iv PMIX_LOCAL_PEERS tm (px_shell_rank px)))
            (\<lambda>iv. set_node_map L H P M (shell_nodelist S) iv PMIX_NODE_MAP))
            (\<lambda>iv. set_proc_map P M iv PMIX_PROC_MAP tm))
            (\<lambda>iv. of_set (infovec_set_bool (realloc_ok M PMIX_TDIR_RMCLEAN 0) iv (Some PMIX_TDIR_RMCLEAN) True)))
            (u32 PMIX_JOB_NUM_APPS 1))
            (str PMIX_TMPDIR dir))
            (u32 PMIX_LOCAL_SIZE (word_of_int (local_nprocs px))))
            (u32 PMIX_UNIV_SIZE (word_of_int (total_nprocs px))))
            (u32 PMIX_JOB_SIZE (word_of_int (total_nprocs px))))
            (u32 PMIX_APPNUM 0))
            (\<lambda>iv. set_proc_infos M iv PMIX_PROC_INFO_ARRAY tm (total_nprocs px)))"

definition px_register ::
    "'j lib \<Rightarrow> hostlib \<Rightarrow> pmix_server \<Rightarrow> 'j shell_env \<Rightarrow> mem_env \<Rightarrow> ('j, 'm) px \<times> ('j, 'm) world
     \<Rightarrow> int \<times> (('j, 'm) px \<times> ('j, 'm) world) \<times> ('j, 'm) px_effect list" where
  "px_register L H P S M pw =
     (case pw of (px, W) \<Rightarrow>
       (case (px_taskmap px, job_tmpdir px) of
          (Some tm, Some dir) \<Rightarrow>
            (case px_namespace L H P S M px tm dir of
               (rc, iv, es) \<Rightarrow>
                 if rc < 0 then
                   (- 1, pw, es @ [PLogError ''error creating namespace'', PFree (infovec_destroy iv)])
                 else
                   let call = RegisterNspace (px_nspace px) (local_nprocs px)
                                (case iv of None \<Rightarrow> [] | Some iv \<Rightarrow> take (infovec_count iv) (infovec_info iv)) in
                   if register_nspace_rc P \<noteq> PMIX_OPERATION_SUCCEEDED then
                     (- 1, pw, es @ [call,
                        PLog (LWarn (''PMIx_server_register_nspace: '' @ error_string P (register_nspace_rc P))),
                        PFree (infovec_destroy iv)])
                   else (0, pw, es @ [call, PFree (infovec_destroy iv)]))
        | _ \<Rightarrow> (- 1, pw, [])))"

definition px_empty :: "('j, 'm) px" where
  "px_empty = \<lparr>px_id = 0, px_nspace = [], px_shell_rank = 0, local_nprocs = 0, total_nprocs = 0,
     px_taskmap = None, job_tmpdir = None, px_it = None, px_fence = None, px_abort = None,
     px_notify = None, px_dmodex = None\<rparr>"

definition px_start ::
    "pmix_server \<Rightarrow> 'j shell_env \<Rightarrow> ('j, 'm) world \<Rightarrow> int \<times> (('j, 'm) px \<times> ('j, 'm) world) \<times> ('j, 'm) px_effect list" where
  "px_start P S W =
     (case px_read_info S px_empty of
        (rc, px, es) \<Rightarrow> (rc, (px, W), es @ (if rc < 0 then [] else px_version_note P px)))"

text \<open>On failure the structure stays attached to the plugin, which destroys it when it is unloaded.\<close>

definition px_init ::
    "'j lib \<Rightarrow> hostlib \<Rightarrow> pmix_server \<Rightarrow> 'j shell_env \<Rightarrow> mem_env \<Rightarrow> ('j, 'm) world
     \<Rightarrow> int \<times> ('j, 'm) world \<times> ('j, 'm) px_effect list" where
  "px_init L H P S M W =
     (if \<not> px_calloc_ok M then (- 1, W, [])
      else if \<not> aux_set_ok S then (case px_destroy P (Some px_empty) W of (W, es) \<Rightarrow> (- 1, W, es))
      else
        (case andthen (andthen (andthen (andthen (andthen (andthen (andthen
                (px_start P S W)
                (px_create_it S M))
                (px_create_fence S M))
                (px_create_abort M))
                (px_create_dmodex M))
                (px_server_init P))
                (px_create_notify P M))
                (px_register L H P S M) of
           (rc, (px, W), es) \<Rightarrow> (rc, W\<lparr>aux_px := Some px\<rparr>, es)))"

subsection \<open>Tasks\<close>

text \<open>
  The command of a task with its environment; \<^verbatim>\<open>flux_cmd_setenvf\<close> with overwriting replaces the value of a
  name. A variable without a value is formatted from a null pointer, which is undefined. The first
  result is the name that could not be set, if there is one.
\<close>

definition cmd_setenv :: "(string \<times> string) list \<Rightarrow> string \<Rightarrow> string \<Rightarrow> (string \<times> string) list" where
  "cmd_setenv cmd name val = AList.update name val cmd"

fun set_task_env ::
    "(string \<Rightarrow> bool) \<Rightarrow> (string \<times> string) list \<Rightarrow> string list \<Rightarrow> (string option \<times> (string \<times> string) list) outcome" where
  "set_task_env ok cmd [] = Ok (None, cmd)"
| "set_task_env ok cmd (e # es) =
     (let name = takeWhile (\<lambda>c. c \<noteq> CHR ''='') e in
      if CHR ''='' \<notin> set e then Undef
      else if \<not> ok name then Ok (Some name, cmd)
      else set_task_env ok (cmd_setenv cmd name (drop (Suc (length name)) e)) es)"

record task_env =
  shell_ok :: bool
  task_cmd :: "(string \<times> string) list option"
  task_rank :: "int option"
  setenv_ok :: "string \<Rightarrow> bool"

definition px_task_init ::
    "pmix_server \<Rightarrow> task_env \<Rightarrow> ('j, 'm) world
     \<Rightarrow> (int \<times> (string \<times> string) list option \<times> ('j, 'm) px_effect list) outcome" where
  "px_task_init P T W =
     (case (shell_ok T, aux_px W, task_cmd T, task_rank T) of
        (True, Some px, Some cmd, Some r) \<Rightarrow>
          let proc = \<lparr>nspace = snprintf (PMIX_MAX_NSLEN + 1) (px_nspace px), rank = word_of_int r\<rparr>;
              name = nspace proc @ ''.'' @ show_int (sint (rank proc)) in
          (case setup_fork P proc of
             (rc, envp) \<Rightarrow>
               if rc \<noteq> 0 then
                 Ok (- 1, Some cmd, [PLog (LWarn (''PMIx_server_setup_fork '' @ name @ '': '' @ error_string P rc))])
               else
                 bind_outcome
                   (case envp of None \<Rightarrow> Ok (None, cmd) | Some env \<Rightarrow> set_task_env (setenv_ok T) cmd env)
                   (\<lambda>(failed, cmd). case failed of
                      Some var \<Rightarrow>
                        Ok (- 1, Some cmd, [PLog (LWarn (''flux_cmd_setenvf '' @ var @ '' failed''))])
                    | None \<Rightarrow>
                        let rc = register_client_rc P proc in
                        if rc \<noteq> PMIX_OPERATION_SUCCEEDED then
                          Ok (- 1, Some cmd, [RegisterClient proc,
                            PLog (LWarn (''PMIx_server_register_client '' @ name @ '': '' @ error_string P rc))])
                        else Ok (0, Some cmd, [RegisterClient proc])))
      | _ \<Rightarrow> Ok (- 1, task_cmd T, []))"

subsection \<open>Loading\<close>

text \<open>\<open>create_ok\<close> says whether the vector can be allocated.\<close>

definition member_of_csv :: "bool \<Rightarrow> string \<Rightarrow> string \<Rightarrow> bool" where
  "member_of_csv create_ok csv name =
     (if create_ok then list_ex (\<lambda>entry. entry = name) (argz_entries (argz_create_sep csv CHR '','')) else False)"

datatype plugin_call =
    SetName string
  | SetOpt string string int
  | AddHandler string
  | LogError string
  | LogDebug string
  | LogWarn string

text \<open>
  The shell option is \<open>None\<close> when it is not a string; otherwise it may be absent. The calls made are
  the second result.
\<close>

definition flux_plugin_init ::
    "bool \<Rightarrow> bool \<Rightarrow> string option option \<Rightarrow> bool \<Rightarrow> bool \<Rightarrow> (string \<Rightarrow> bool) \<Rightarrow> int \<times> plugin_call list" where
  "flux_plugin_init get_shell_ok set_name_ok pmi_opt create_ok setopt_ok add_ok =
     (if \<not> get_shell_ok then (- 1, [])
      else if \<not> set_name_ok then (- 1, [SetName ''pmix''])
      else case pmi_opt of
             None \<Rightarrow> (- 1, [SetName ''pmix'', LogError ''pmi shell option must be a string''])
           | Some None \<Rightarrow> (0, [SetName ''pmix''])
           | Some (Some csv) \<Rightarrow>
               if \<not> member_of_csv create_ok csv ''pmix'' then (0, [SetName ''pmix''])
               else
                 let cs = [SetName ''pmix'', LogDebug ''server is enabled'', SetOpt ''hwloc'' ''xmlfile'' 1]
                          @ (if setopt_ok then [] else [LogWarn ''unable to set Flux hwloc.xmlfile shell option'']) in
                 if \<not> add_ok ''shell.init'' then (- 1, cs @ [AddHandler ''shell.init''])
                 else if \<not> add_ok ''task.init'' then (- 1, cs @ [AddHandler ''shell.init'', AddHandler ''task.init''])
                 else (0, cs @ [AddHandler ''shell.init'', AddHandler ''task.init'']))"

subsection \<open>What a chain of steps does\<close>

lemma andthen_ok_iff:
  "andthen r f = (rc, s', es) \<and> 0 \<le> rc \<longleftrightarrow>
   (\<exists>rc1 s es1 es2. r = (rc1, s, es1) \<and> 0 \<le> rc1 \<and> f s = (rc, s', es2) \<and> 0 \<le> rc \<and> es = es1 @ es2)"
  by (cases r; cases "f (fst (snd r))") (auto simp: andthen_def)

text \<open>The calls into the PMIx server among the effects.\<close>

fun is_call :: "('j, 'm) px_effect \<Rightarrow> bool" where
  "is_call (ServerInit _ _ _ _) = True"
| "is_call ServerFinalize = True"
| "is_call (RegisterNspace _ _ _) = True"
| "is_call (RegisterClient _) = True"
| "is_call _ = False"

abbreviation calls :: "('j, 'm) px_effect list \<Rightarrow> ('j, 'm) px_effect list" where
  "calls es \<equiv> filter is_call es"

fun quiet :: "('j, 'm) px_effect \<Rightarrow> bool" where
  "quiet (PLog _) = True"
| "quiet (PFree _) = True"
| "quiet _ = False"

lemma calls_quiet [simp]: "list_all quiet es \<Longrightarrow> calls es = []"
  by (induction es) (auto elim: quiet.elims)

text \<open>
  A step on an info vector only logs and frees, and where it succeeds \<open>ok\<close> holds and it has
  appended \<open>new\<close>.
\<close>

definition adds ::
    "infovec option \<Rightarrow> ('j, 'm) ivstep \<Rightarrow> bool \<Rightarrow> pmix_info_t list \<Rightarrow> bool" where
  "adds ivp r ok new \<longleftrightarrow> list_all quiet (snd (snd r)) \<and>
     (0 \<le> fst r \<longrightarrow> ok \<and> (\<exists>iv iv'. ivp = Some iv \<and> fst (snd r) = Some iv' \<and> iv_info iv' = iv_info iv @ new))"

lemma adds_andthen:
  assumes "adds ivp r ok new" and "\<And>ivp. adds ivp (f ivp) ok' new'"
  shows "adds ivp (andthen r f) (ok \<and> ok') (new @ new')"
proof -
  obtain rc s es where r: "r = (rc, s, es)" by (cases r) auto
  obtain rc' s' es' where f: "f s = (rc', s', es')" by (cases "f s") auto
  show ?thesis
    using assms(1) assms(2) [of s] by (auto simp: adds_def andthen_def r f)
qed

lemma adds_debug: "adds ivp (f ivp) ok new \<Longrightarrow> adds ivp (andthen (0, ivp, [PLog l]) f) ok new"
  by (cases "f ivp") (auto simp: adds_def andthen_def)

lemma of_set_adds:
  assumes "key_ok key"
  shows "adds ivp (of_set (infovec_set_u32 ok ivp (Some key) x)) True [Info key 0 (V_UINT32 x)]"
    and "adds ivp (of_set (infovec_set_u16 ok ivp (Some key) y)) True [Info key 0 (V_UINT16 y)]"
    and "adds ivp (of_set (infovec_set_bool ok ivp (Some key) b)) True [Info key 0 (V_BOOL b)]"
    and "adds ivp (of_set (infovec_set_rank ok ivp (Some key) x)) True [Info key 0 (V_PROC_RANK x)]"
    and "adds ivp (of_set_free (infovec_set_str ok' ok ivp (Some key) (Some s))) True [Info key 0 (V_STRING (Some s))]"
    and "adds ivp (steal_str M ivp key s) True [Info key 0 (V_STRING (Some s))]"
proof -
  have key: "strlcpy_field key 512 = key"
    using assms by (simp add: key_ok_def PMIX_MAX_KEYLEN_def)
  note fill = alloc_fill(1) [of _ _ _ key, unfolded key]
  show "adds ivp (of_set (infovec_set_u32 ok ivp (Some key) x)) True [Info key 0 (V_UINT32 x)]"
    by (cases ivp) (auto simp: adds_def of_set_def infovec_set_u32_def fill split: option.split)
  show "adds ivp (of_set (infovec_set_u16 ok ivp (Some key) y)) True [Info key 0 (V_UINT16 y)]"
    by (cases ivp) (auto simp: adds_def of_set_def infovec_set_u16_def fill split: option.split)
  show "adds ivp (of_set (infovec_set_bool ok ivp (Some key) b)) True [Info key 0 (V_BOOL b)]"
    by (cases ivp) (auto simp: adds_def of_set_def infovec_set_bool_def fill split: option.split)
  show "adds ivp (of_set (infovec_set_rank ok ivp (Some key) x)) True [Info key 0 (V_PROC_RANK x)]"
    by (cases ivp) (auto simp: adds_def of_set_def infovec_set_rank_def fill split: option.split)
  show "adds ivp (of_set_free (infovec_set_str ok' ok ivp (Some key) (Some s))) True [Info key 0 (V_STRING (Some s))]"
    by (cases ivp) (auto simp: adds_def of_set_free_def infovec_set_str_def infovec_set_str_new_def fill split: option.split)
  show "adds ivp (steal_str M ivp key s) True [Info key 0 (V_STRING (Some s))]"
    by (cases ivp) (auto simp: adds_def steal_str_def infovec_set_str_new_def fill split: option.split)
qed

lemma pmix_keys_ok [simp]:
  "key_ok PMIX_JOBID" "key_ok PMIX_LOCAL_PEERS" "key_ok PMIX_NODE_MAP" "key_ok PMIX_PROC_MAP"
  "key_ok PMIX_TDIR_RMCLEAN" "key_ok PMIX_JOB_NUM_APPS" "key_ok PMIX_TMPDIR" "key_ok PMIX_LOCAL_SIZE"
  "key_ok PMIX_UNIV_SIZE" "key_ok PMIX_JOB_SIZE" "key_ok PMIX_APPNUM" "key_ok PMIX_PROC_INFO_ARRAY"
  "key_ok PMIX_RANK" "key_ok PMIX_NODEID" "key_ok PMIX_LOCAL_RANK" "key_ok PMIX_NODE_RANK"
  "key_ok PMIX_SERVER_TMPDIR" "key_ok PMIX_SERVER_RANK"
  by (simp_all add: key_ok_def nul_free_def PMIX_MAX_KEYLEN_def pmix_keys)

subsection \<open>The namespace\<close>

text \<open>What the maps of a job are made of.\<close>

definition local_peers :: "taskmap \<Rightarrow> int \<Rightarrow> string option" where
  "local_peers tm r = (case taskmap_taskids tm r of None \<Rightarrow> None | Some ids \<Rightarrow> idset_encode tm ids)"

definition cooked :: "(string \<Rightarrow> int \<times> string) \<Rightarrow> string option \<Rightarrow> string option" where
  "cooked g raw = (case raw of None \<Rightarrow> None | Some s \<Rightarrow> if fst (g s) = 0 then Some (snd (g s)) else None)"

definition placed :: "taskmap \<Rightarrow> nat \<Rightarrow> bool" where
  "placed tm i \<longleftrightarrow> 0 \<le> taskmap_nodeid tm (int i) \<and> 0 \<le> get_local_rank tm (taskmap_nodeid tm (int i)) (int i)"

definition task_entry :: "taskmap \<Rightarrow> nat \<Rightarrow> pmix_info_t" where
  "task_entry tm i =
     (let nodeid = taskmap_nodeid tm (int i); lr = get_local_rank tm nodeid (int i) in
      Info PMIX_PROC_INFO_ARRAY 0 (V_DATA_ARRAY (Some
        [Info PMIX_RANK 0 (V_PROC_RANK (word_of_int (int i))), Info PMIX_NODEID 0 (V_UINT32 (word_of_int nodeid)),
         Info PMIX_LOCAL_RANK 0 (V_UINT16 (word_of_int lr)), Info PMIX_NODE_RANK 0 (V_UINT16 (word_of_int lr))])))"

definition namespace_infos ::
    "string \<Rightarrow> string \<Rightarrow> string \<Rightarrow> string \<Rightarrow> string \<Rightarrow> int \<Rightarrow> int \<Rightarrow> taskmap \<Rightarrow> pmix_info_t list" where
  "namespace_infos ns peers nodes pmap dir nl nt tm =
     [Info PMIX_JOBID 0 (V_STRING (Some ns)), Info PMIX_LOCAL_PEERS 0 (V_STRING (Some peers)),
      Info PMIX_NODE_MAP 0 (V_STRING (Some nodes)), Info PMIX_PROC_MAP 0 (V_STRING (Some pmap)),
      Info PMIX_TDIR_RMCLEAN 0 (V_BOOL True), Info PMIX_JOB_NUM_APPS 0 (V_UINT32 1),
      Info PMIX_TMPDIR 0 (V_STRING (Some dir)), Info PMIX_LOCAL_SIZE 0 (V_UINT32 (word_of_int nl)),
      Info PMIX_UNIV_SIZE 0 (V_UINT32 (word_of_int nt)), Info PMIX_JOB_SIZE 0 (V_UINT32 (word_of_int nt)),
      Info PMIX_APPNUM 0 (V_UINT32 0)] @ map (task_entry tm) [0..<nat nt]"

lemma set_lpeers_adds:
  "key_ok key \<Longrightarrow> adds ivp (set_lpeers M ivp key tm r) (local_peers tm r \<noteq> None)
     [Info key 0 (V_STRING (Some (the (local_peers tm r))))]"
  using of_set_adds(6) [of key] adds_debug
  by (cases "taskmap_taskids tm r") (fastforce simp: set_lpeers_def local_peers_def adds_def split: option.split)+

lemma adds_wrap:
  "adds ivp r ok new \<Longrightarrow> r = (rc, ivp', es) \<Longrightarrow> adds ivp (rc, ivp', PLog l # es @ [PFree bs]) ok new"
  by (simp add: adds_def)

lemma adds_fail: "list_all quiet es \<Longrightarrow> adds ivp (- 1, ivp', es) ok new"
  by (simp add: adds_def)

lemma set_node_map_adds:
  assumes "key_ok key"
  shows "adds ivp (set_node_map L H P M nl ivp key) (cooked (generate_regex P) (maps_node_create L H nl) \<noteq> None)
    [Info key 0 (V_STRING (Some (the (cooked (generate_regex P) (maps_node_create L H nl)))))]"
proof (cases "maps_node_create L H nl")
  case (Some raw)
  then show ?thesis
    using adds_wrap [OF of_set_adds(6) [OF assms, of ivp M "snd (generate_regex P raw)"]]
    by (auto simp: set_node_map_def cooked_def adds_fail split: prod.split)
qed (simp add: set_node_map_def adds_def)

lemma set_proc_map_adds:
  assumes "key_ok key"
  shows "adds ivp (set_proc_map P M ivp key tm) (cooked (generate_ppn P) (taskmap_encode tm) \<noteq> None)
    [Info key 0 (V_STRING (Some (the (cooked (generate_ppn P) (taskmap_encode tm)))))]"
proof (cases "taskmap_encode tm")
  case (Some raw)
  then show ?thesis
    using adds_wrap [OF of_set_adds(6) [OF assms, of ivp M "snd (generate_ppn P raw)"]]
    by (auto simp: set_proc_map_def cooked_def adds_fail split: prod.split)
qed (simp add: set_proc_map_def adds_def)

lemma task_info_entries:
  fixes es :: "('j, 'm) px_effect list"
  assumes "task_info M i nodeid lr = (rc, ri, es)" and "0 \<le> rc"
  shows "\<exists>iv. ri = Some iv \<and> iv_info iv =
    [Info PMIX_RANK 0 (V_PROC_RANK (word_of_int i)), Info PMIX_NODEID 0 (V_UINT32 (word_of_int nodeid)),
     Info PMIX_LOCAL_RANK 0 (V_UINT16 (word_of_int lr)), Info PMIX_NODE_RANK 0 (V_UINT16 (word_of_int lr))]"
proof (cases "infovec_create (iv_calloc_ok M (Some i))")
  case (Some iv0)
  have "adds (Some iv0) (task_info M i nodeid lr :: ('j, 'm) ivstep) (((True \<and> True) \<and> True) \<and> True)
      ((([Info PMIX_RANK 0 (V_PROC_RANK (word_of_int i))] @ [Info PMIX_NODEID 0 (V_UINT32 (word_of_int nodeid))])
        @ [Info PMIX_LOCAL_RANK 0 (V_UINT16 (word_of_int lr))]) @ [Info PMIX_NODE_RANK 0 (V_UINT16 (word_of_int lr))])"
    unfolding task_info_def Some option.case
    by (intro adds_andthen of_set_adds) simp_all
  moreover have "iv_info iv0 = []" using Some by (auto simp: infovec_create_def split: if_splits)
  ultimately show ?thesis using assms by (auto simp: adds_def)
qed (use assms in \<open>auto simp: task_info_def\<close>)

lemma set_infovec_adds:
  assumes "infovec_set_infovec_new ok ok' ivp (Some key) (Some ri) = ((None, ivp'), bs)" and "key_ok key"
  shows "\<exists>iv iv'. ivp = Some iv \<and> ivp' = Some iv'
     \<and> iv_info iv' = iv_info iv @ [Info key 0 (V_DATA_ARRAY (Some (iv_info ri)))]"
proof -
  have "strlcpy_field key 512 = key" using assms(2) by (simp add: key_ok_def PMIX_MAX_KEYLEN_def)
  then show ?thesis
    using assms(1) by (auto simp: infovec_set_infovec_new_def alloc_fill(1) split: option.splits if_splits)
qed

lemma set_proc_info_adds:
  "adds ivp (set_proc_info M ivp PMIX_PROC_INFO_ARRAY tm (int i) :: ('j, 'm) ivstep)
     (placed tm i) [task_entry tm i]"
proof (cases "placed tm i")
  case True
  define nodeid where "nodeid = taskmap_nodeid tm (int i)"
  define lr where "lr = get_local_rank tm nodeid (int i)"
  obtain rc ri es where ti: "(task_info M (int i) nodeid lr :: ('j, 'm) ivstep) = (rc, ri, es)"
    by (metis prod_cases3)
  obtain e ivp' bs where si: "infovec_set_infovec_new (realloc_ok M PMIX_PROC_INFO_ARRAY (int i)) (darray_ok M (int i))
      ivp (Some PMIX_PROC_INFO_ARRAY) ri = ((e, ivp'), bs)"
    by (metis surj_pair)
  have eq: "(set_proc_info M ivp PMIX_PROC_INFO_ARRAY tm (int i) :: ('j, 'm) ivstep) =
      (if rc < 0 \<or> e \<noteq> None then (- 1, if rc < 0 then ivp else ivp',
         [PLog (LWarn (''error setting '' @ PMIX_PROC_INFO_ARRAY @ '' for rank '' @ show_int (int i))),
          PFree (infovec_destroy ri)]) else (0, ivp', [PFree bs]))"
    using True ti si by (auto simp: set_proc_info_def placed_def nodeid_def lr_def split: option.split)
  have "0 \<le> rc \<Longrightarrow> e = None \<Longrightarrow> \<exists>iv iv'. ivp = Some iv \<and> ivp' = Some iv' \<and> iv_info iv' = iv_info iv @ [task_entry tm i]"
  proof -
    assume "0 \<le> rc" "e = None"
    then obtain iv where "ri = Some iv" and iv: "iv_info iv =
      [Info PMIX_RANK 0 (V_PROC_RANK (word_of_int (int i))), Info PMIX_NODEID 0 (V_UINT32 (word_of_int nodeid)),
       Info PMIX_LOCAL_RANK 0 (V_UINT16 (word_of_int lr)), Info PMIX_NODE_RANK 0 (V_UINT16 (word_of_int lr))]"
      using task_info_entries [OF ti] by blast
    with si \<open>e = None\<close> show ?thesis
      using set_infovec_adds [of _ _ ivp PMIX_PROC_INFO_ARRAY iv ivp' bs]
      by (simp add: task_entry_def Let_def nodeid_def [symmetric] lr_def [symmetric] iv)
  qed
  then show ?thesis unfolding eq using True by (auto simp: adds_def)
next
  case False
  then show ?thesis by (auto simp: set_proc_info_def placed_def Let_def adds_fail)
qed

lemma set_proc_infos_loop_adds:
  "adds ivp (set_proc_infos_loop M ivp PMIX_PROC_INFO_ARRAY tm i (Suc left) :: ('a, 'b) ivstep)
     (list_all (placed tm) [i..<i + Suc left]) (map (task_entry tm) [i..<i + Suc left])"
proof (induction left arbitrary: i ivp)
  case 0
  have "adds ivp r ok new \<Longrightarrow> adds ivp (andthen r (\<lambda>iv. (0, iv, []))) ok new"
    for r :: "('a, 'b) ivstep" and ok new
    by (cases r) (auto simp: adds_def andthen_def)
  from this [OF set_proc_info_adds]
  have "adds ivp (andthen (set_proc_info M ivp PMIX_PROC_INFO_ARRAY tm (int i) :: ('a, 'b) ivstep)
      (\<lambda>iv. (0, iv, []))) (placed tm i) [task_entry tm i]" .
  then show ?case by simp
next
  case (Suc left)
  have "adds ivp (andthen (set_proc_info M ivp PMIX_PROC_INFO_ARRAY tm (int i))
        (\<lambda>iv. set_proc_infos_loop M iv PMIX_PROC_INFO_ARRAY tm (Suc i) (Suc left)) :: ('a, 'b) ivstep)
      (placed tm i \<and> list_all (placed tm) [Suc i..<Suc i + Suc left])
      ([task_entry tm i] @ map (task_entry tm) [Suc i..<Suc i + Suc left])"
    by (intro adds_andthen set_proc_info_adds Suc.IH)
  moreover have "[i..<i + Suc (Suc left)] = i # [Suc i..<Suc i + Suc left]" by (subst upt_conv_Cons) auto
  ultimately show ?case by (subst set_proc_infos_loop.simps) simp
qed

lemma set_proc_infos_adds:
  assumes "ivp \<noteq> None \<or> 0 < n"
  shows "adds ivp (set_proc_infos M ivp PMIX_PROC_INFO_ARRAY tm n)
     (\<forall>j<nat n. placed tm j) (map (task_entry tm) [0..<nat n])"
proof (cases "nat n")
  case 0
  then show ?thesis using assms by (auto simp: set_proc_infos_def adds_def)
next
  case (Suc k)
  have "list_all (placed tm) [0..<nat n] = (\<forall>j<nat n. placed tm j)" by (auto simp: list_all_iff)
  then show ?thesis
    using set_proc_infos_loop_adds [of ivp M tm 0 k, folded Suc] unfolding set_proc_infos_def Suc [symmetric] by (simp add: Suc [symmetric])
qed

text \<open>The last step when the vector exists.\<close>

lemma adds_andthen_last:
  assumes "adds ivp r ok new" and "\<And>iv. adds (Some iv) (f (Some iv)) ok' new'"
  shows "adds ivp (andthen r f) (ok \<and> ok') (new @ new')"
proof -
  obtain rc s es where r: "r = (rc, s, es)" by (cases r) auto
  then show ?thesis
  proof (cases "rc < 0")
    case False
    then obtain iv where "s = Some iv" using assms(1) r by (auto simp: adds_def)
    then show ?thesis using assms(1) assms(2) [of iv]
      by (cases "f s") (auto simp: adds_def andthen_def r)
  qed (use assms(1) in \<open>auto simp: adds_def andthen_def\<close>)
qed

lemma adds_eq: "adds ivp r ok new \<Longrightarrow> ok = ok' \<Longrightarrow> new = new' \<Longrightarrow> adds ivp r ok' new'"
  by simp

lemma px_namespace_chain:
  assumes "infovec_create (iv_calloc_ok M None) = Some iv0"
  shows "adds (Some iv0) (px_namespace L H P S M px tm dir)
      (local_peers tm (px_shell_rank px) \<noteq> None
          \<and> cooked (generate_regex P) (maps_node_create L H (shell_nodelist S)) \<noteq> None
          \<and> cooked (generate_ppn P) (taskmap_encode tm) \<noteq> None \<and> (\<forall>j<nat (total_nprocs px). placed tm j))
      (namespace_infos (px_nspace px) (the (local_peers tm (px_shell_rank px)))
           (the (cooked (generate_regex P) (maps_node_create L H (shell_nodelist S))))
           (the (cooked (generate_ppn P) (taskmap_encode tm))) dir (local_nprocs px) (total_nprocs px) tm)"
proof -
  note step = adds_andthen [OF _ of_set_adds(1)] adds_andthen [OF _ of_set_adds(5)]
    adds_andthen [OF _ of_set_adds(3)] adds_andthen [OF _ set_proc_map_adds] adds_andthen [OF _ set_node_map_adds]
    adds_andthen [OF _ set_lpeers_adds]
  show ?thesis
    unfolding px_namespace_def Let_def assms option.case
    by (rule adds_eq, rule adds_andthen_last, (rule step of_set_adds(5) pmix_keys_ok)+, rule set_proc_infos_adds)
       (auto simp: namespace_infos_def)
qed

lemma px_namespace_quiet: "px_namespace L H P S M px tm dir = (rc, ivp, es) \<Longrightarrow> list_all quiet es"
  using px_namespace_chain [of M _ L H P S px tm dir]
  by (cases "infovec_create (iv_calloc_ok M None)") (auto simp: adds_def px_namespace_def)

lemma px_namespace_adds:
  assumes "px_namespace L H P S M px tm dir = (rc, ivp, es)" and "0 \<le> rc"
  shows "calls es = [] \<and> (\<exists>iv peers nodes pmap. ivp = Some iv
     \<and> local_peers tm (px_shell_rank px) = Some peers
     \<and> cooked (generate_regex P) (maps_node_create L H (shell_nodelist S)) = Some nodes
     \<and> cooked (generate_ppn P) (taskmap_encode tm) = Some pmap
     \<and> (\<forall>j<nat (total_nprocs px). placed tm j)
     \<and> iv_info iv = namespace_infos (px_nspace px) peers nodes pmap dir (local_nprocs px) (total_nprocs px) tm)"
proof (cases "infovec_create (iv_calloc_ok M None)")
  case (Some iv0)
  then have "iv_info iv0 = []" by (auto simp: infovec_create_def split: if_splits)
  with px_namespace_chain [OF Some, of L H P S px tm dir] assms show ?thesis by (auto simp: adds_def)
qed (use assms in \<open>simp add: px_namespace_def\<close>)

subsection \<open>Start of the plugin\<close>

definition px_of_info :: "u64 \<Rightarrow> int \<Rightarrow> string \<Rightarrow> int \<Rightarrow> int \<Rightarrow> string \<Rightarrow> taskmap \<Rightarrow> ('j, 'm) px" where
  "px_of_info jid sr ns nl nt dir tm =
     px_empty\<lparr>px_id := jid, px_shell_rank := sr, px_nspace := ns, local_nprocs := nl, total_nprocs := nt,
       job_tmpdir := Some dir, px_taskmap := Some tm\<rparr>"

definition reads_info :: "'j shell_env \<Rightarrow> u64 \<Rightarrow> int \<Rightarrow> string \<Rightarrow> int \<Rightarrow> int \<Rightarrow> string \<Rightarrow> taskmap \<Rightarrow> bool" where
  "reads_info S jid sr ns nl nt dir tm \<longleftrightarrow>
     shell_info S = Some (jid, sr) \<and> jobid_f58 S jid = Some ns \<and> rank_ntasks S sr = Some nl
     \<and> jobspec_ntasks S = Some nt \<and> shell_tmpdir S = Some dir \<and> shell_taskmap S = Some tm"

lemma px_read_info_ok:
  assumes "px_read_info S px_empty = (rc, px, es)" and "0 \<le> rc"
  shows "calls es = [] \<and> (\<exists>jid sr ns nl nt dir tm. reads_info S jid sr ns nl nt dir tm
           \<and> px = px_of_info jid sr ns nl nt dir tm)"
  using assms
  by (auto simp: px_read_info_def reads_info_def px_of_info_def px_empty_def Let_def split: option.splits)

abbreviation topics :: "(upcall, 'j) interthread \<Rightarrow> (string \<times> upcall) list" where
  "topics it \<equiv> map (\<lambda>h. (htopic h, cb h)) (handlers it)"

definition all_topics :: "(string \<times> upcall) list" where
  "all_topics = [(''fence_upcall'', H_fence), (''abort_upcall'', H_abort), (''dmodex_upcall'', H_dmodex),
     (''notify_upcall'', H_notify)]"

lemma register_topics:
  "interthread_register it tpc h = Inr it' \<Longrightarrow> nul_free tpc \<Longrightarrow> length tpc < 32 \<Longrightarrow>
   topics it' = topics it @ [(tpc, h)] \<and> queue it' = queue it"
  by (auto simp: interthread_register_def TOPIC_SIZE_def split: if_splits)

text \<open>Each creation adds its topic and leaves what it does not create as it was.\<close>

lemma px_create_it_ok:
  "px_create_it S M (px, W) = (rc, (px', W'), es) \<Longrightarrow> 0 \<le> rc \<Longrightarrow>
   calls es = [] \<and> W' = W \<and> (\<exists>it. px' = px\<lparr>px_it := Some it\<rparr> \<and> topics it = [] \<and> queue it = [])"
  by (auto simp: px_create_it_def interthread_create_def Let_def split: option.splits if_splits prod.splits)

lemma px_create_fence_ok:
  assumes "px_create_fence S M (px, W) = (rc, (px', W'), es)" and "0 \<le> rc" and "px_it px = Some it"
  shows "es = [] \<and> W' = W\<lparr>fence_nb := True, fence_ctx := True\<rparr> \<and> (\<exists>it' fx. px' = px\<lparr>px_it := Some it', px_fence := Some fx\<rparr>
     \<and> topics it' = topics it @ [(''fence_upcall'', H_fence)] \<and> queue it' = queue it)"
proof -
  from assms obtain fx ctx it' where fc: "fence_create (handle_ok M ''fence'')
      (case shell_size S of None \<Rightarrow> None | Some n \<Rightarrow> Some (n, px_shell_rank px)) (service_ok S) it (fence_ctx W) = (Some fx, ctx, it')"
    and r: "px' = px\<lparr>px_it := Some it', px_fence := Some fx\<rparr>" "W' = W\<lparr>fence_nb := True, fence_ctx := ctx\<rparr>" "es = []"
    by (auto simp: px_create_fence_def split: option.splits prod.splits)
  then have "interthread_register it ''fence_upcall'' H_fence = Inr it'" "ctx"
    by (auto simp: fence_create_def split: if_splits sum.splits option.splits)
  from register_topics [OF this(1)] this(2) r show ?thesis by (auto simp: nul_free_def)
qed

lemma px_create_abort_ok:
  assumes "px_create_abort M (px, W) = (rc, (px', W'), es)" and "0 \<le> rc" and "px_it px = Some it"
  shows "es = [] \<and> (\<exists>it' ab. px' = px\<lparr>px_it := Some it', px_abort := Some ab\<rparr>
     \<and> W' = W\<lparr>abort_fn := True, abort_ctx := Some ab\<rparr>
     \<and> topics it' = topics it @ [(''abort_upcall'', H_abort)] \<and> queue it' = queue it)"
proof -
  from assms obtain ab ctx it' where ac: "abort_create (handle_ok M ''abort'') it (abort_ctx W) = (Some ab, ctx, it')"
    and r: "px' = px\<lparr>px_it := Some it', px_abort := Some ab\<rparr>" "W' = W\<lparr>abort_fn := True, abort_ctx := ctx\<rparr>" "es = []"
    by (auto simp: px_create_abort_def split: option.splits prod.splits)
  then have "interthread_register it ''abort_upcall'' H_abort = Inr it'" "ctx = Some ab"
    by (auto simp: abort_create_def Let_def split: if_splits sum.splits)
  from register_topics [OF this(1)] this(2) r show ?thesis by (auto simp: nul_free_def)
qed

lemma px_create_dmodex_ok:
  assumes "px_create_dmodex M (px, W) = (rc, (px', W'), es)" and "0 \<le> rc" and "px_it px = Some it"
  shows "es = [] \<and> W' = W\<lparr>direct_modex := True, dmodex_ctx := True\<rparr>
     \<and> (\<exists>it'. px' = px\<lparr>px_it := Some it', px_dmodex := Some ()\<rparr>
     \<and> topics it' = topics it @ [(''dmodex_upcall'', H_dmodex)] \<and> queue it' = queue it)"
proof -
  from assms obtain dx ctx it' where dc: "dmodex_create (handle_ok M ''dmodex'') it (dmodex_ctx W) = (Some dx, ctx, it')"
    and r: "px' = px\<lparr>px_it := Some it', px_dmodex := Some dx\<rparr>" "W' = W\<lparr>direct_modex := True, dmodex_ctx := ctx\<rparr>" "es = []"
    by (auto simp: px_create_dmodex_def split: option.splits prod.splits)
  then have "interthread_register it ''dmodex_upcall'' H_dmodex = Inr it'" "ctx = True"
    by (auto simp: dmodex_create_def split: if_splits sum.splits)
  from register_topics [OF this(1)] this(2) r show ?thesis by (auto simp: nul_free_def)
qed

lemma px_create_notify_ok:
  assumes "px_create_notify P M (px, W) = (rc, (px', W'), es)" and "0 \<le> rc" and "px_it px = Some it"
  shows "calls es = [] \<and> (\<exists>it' nf. px' = px\<lparr>px_it := Some it', px_notify := Some nf\<rparr> \<and> W' = W\<lparr>notify_ctx := Some nf\<rparr>
     \<and> topics it' = topics it @ [(''notify_upcall'', H_notify)] \<and> queue it' = queue it)"
proof -
  from assms obtain nf ctx it' ev where nc: "notify_create (handle_ok M ''notify'') (register_event P) it (notify_ctx W)
        = (Some nf, ctx, it', ev)"
    and r: "px' = px\<lparr>px_it := Some it', px_notify := Some nf\<rparr>" "W' = W\<lparr>notify_ctx := ctx\<rparr>" "calls es = []"
    by (auto simp: px_create_notify_def split: option.splits prod.splits)
  then have "interthread_register it ''notify_upcall'' H_notify = Inr it'" "ctx = Some nf"
    by (auto simp: notify_create_def Let_def split: if_splits sum.splits prod.splits)
  from register_topics [OF this(1)] this(2) r show ?thesis by (auto simp: nul_free_def)
qed

definition server_infos :: "string \<Rightarrow> int \<Rightarrow> pmix_info_t list" where
  "server_infos dir sr = [Info PMIX_SERVER_TMPDIR 0 (V_STRING (Some dir)),
     Info PMIX_SERVER_RANK 0 (V_PROC_RANK (word_of_int sr))]"

lemma px_server_init_ok:
  assumes "px_server_init P (px, W) = (rc, pw', es)" and "0 \<le> rc" and "job_tmpdir px = Some dir"
  shows "pw' = (px, W)
    \<and> es = [ServerInit (fence_nb W) (abort_fn W) (direct_modex W) (server_infos dir (px_shell_rank px))]"
proof -
  have "strlcpy_field PMIX_SERVER_TMPDIR 512 = PMIX_SERVER_TMPDIR" "strlcpy_field PMIX_SERVER_RANK 512 = PMIX_SERVER_RANK"
    using pmix_keys_ok(17,18) by (simp_all add: key_ok_def PMIX_MAX_KEYLEN_def)
  then show ?thesis
    using assms by (auto simp: px_server_init_def server_infos_def Let_def PMIX_MAX_KEYLEN_def split: if_splits)
qed

lemma px_register_ok:
  assumes "px_register L H P S M (px, W) = (rc, pw', es)" and "0 \<le> rc"
    and "job_tmpdir px = Some dir" "px_taskmap px = Some tm"
  shows "pw' = (px, W) \<and> rc = 0 \<and> (\<exists>peers nodes pmap.
     local_peers tm (px_shell_rank px) = Some peers
     \<and> cooked (generate_regex P) (maps_node_create L H (shell_nodelist S)) = Some nodes
     \<and> cooked (generate_ppn P) (taskmap_encode tm) = Some pmap
     \<and> (\<forall>j<nat (total_nprocs px). placed tm j)
     \<and> calls es = [RegisterNspace (px_nspace px) (local_nprocs px)
         (namespace_infos (px_nspace px) peers nodes pmap dir (local_nprocs px) (total_nprocs px) tm)])"
proof -
  obtain rc1 ivp es1 where ns: "px_namespace L H P S M px tm dir = (rc1, ivp, es1)" by (metis prod_cases3)
  have "\<not> rc1 < 0" and r: "pw' = (px, W)" "rc = 0"
    "es = es1 @ [RegisterNspace (px_nspace px) (local_nprocs px)
        (case ivp of None \<Rightarrow> [] | Some iv \<Rightarrow> take (infovec_count iv) (infovec_info iv)), PFree (infovec_destroy ivp)]"
    using assms ns by (auto simp: px_register_def Let_def split: if_splits)
  with px_namespace_adds [OF ns] show ?thesis by (auto simp: infovec_count_def infovec_info_def)
qed

text \<open>What holds of the state and of the calls made when a chain of steps succeeds.\<close>

definition after :: "int \<times> 's \<times> ('j, 'm) px_effect list \<Rightarrow> ('s \<Rightarrow> ('j, 'm) px_effect list \<Rightarrow> bool) \<Rightarrow> bool" where
  "after r Q \<longleftrightarrow> (0 \<le> fst r \<longrightarrow> Q (fst (snd r)) (calls (snd (snd r))))"

lemma afterI: "(\<And>rc s es. r = (rc, s, es) \<Longrightarrow> 0 \<le> rc \<Longrightarrow> Q s (calls es)) \<Longrightarrow> after r Q"
  by (cases r) (simp add: after_def)

lemma after_andthen:
  assumes "after r Q" and "\<And>s cs. Q s cs \<Longrightarrow> after (f s) (\<lambda>s' cs'. Q' s' (cs @ cs'))"
  shows "after (andthen r f) Q'"
proof (rule afterI)
  fix rc s es assume "andthen r f = (rc, s, es)" "0 \<le> rc"
  then obtain rc1 s1 es1 es2 where "r = (rc1, s1, es1)" "0 \<le> rc1" "f s1 = (rc, s, es2)" "es = es1 @ es2"
    using andthen_ok_iff [of r f rc s es] by blast
  with assms(1) assms(2) [of s1 "calls es1"] \<open>0 \<le> rc\<close> show "Q' s (calls es)" by (simp add: after_def)
qed

lemma after_seq:
  assumes "after r (\<lambda>s cs. A s \<and> cs = c)" and "\<And>s. A s \<Longrightarrow> after (f s) (\<lambda>s' cs'. A' s' \<and> cs' = c')"
  shows "after (andthen r f) (\<lambda>s cs. A' s \<and> cs = c @ c')"
  using assms by (intro after_andthen [OF assms(1)]) (auto simp: after_def)

text \<open>The plugin after creating the first \<open>n\<close> handlers.\<close>

definition stage ::
    "string \<Rightarrow> int \<Rightarrow> int \<Rightarrow> int \<Rightarrow> string \<Rightarrow> taskmap \<Rightarrow> nat \<Rightarrow> ('j, 'm) px \<times> ('j, 'm) world \<Rightarrow> bool" where
  "stage ns sr nl nt dir tm n pw \<longleftrightarrow>
     px_nspace (fst pw) = ns \<and> px_shell_rank (fst pw) = sr \<and> local_nprocs (fst pw) = nl \<and> total_nprocs (fst pw) = nt
     \<and> job_tmpdir (fst pw) = Some dir \<and> px_taskmap (fst pw) = Some tm
     \<and> (\<exists>it. px_it (fst pw) = Some it \<and> topics it = take n all_topics \<and> queue it = [])
     \<and> (0 < n \<longrightarrow> fence_nb (snd pw)) \<and> (1 < n \<longrightarrow> abort_fn (snd pw)) \<and> (2 < n \<longrightarrow> direct_modex (snd pw))"

lemma stage_it:
  assumes "fst pw = px_of_info jid sr ns nl nt dir tm"
  shows "after (px_create_it S M pw) (\<lambda>pw cs. stage ns sr nl nt dir tm 0 pw \<and> cs = [])"
proof (rule afterI)
  fix rc s es assume "px_create_it S M pw = (rc, s, es)" "0 \<le> rc"
  then obtain it where "calls es = []" "fst s = (fst pw)\<lparr>px_it := Some it\<rparr>" "topics it = []" "queue it = []"
    using px_create_it_ok [of S M "fst pw" "snd pw" rc "fst s" "snd s" es] by auto
  then show "stage ns sr nl nt dir tm 0 s \<and> calls es = []"
    by (simp add: stage_def assms px_of_info_def)
qed

lemma stage_fence:
  assumes "stage ns sr nl nt dir tm 0 pw"
  shows "after (px_create_fence S M pw) (\<lambda>pw cs. stage ns sr nl nt dir tm 1 pw \<and> cs = [])"
proof (rule afterI)
  fix rc s es assume "px_create_fence S M pw = (rc, s, es)" "0 \<le> rc"
  with assms px_create_fence_ok [of S M "fst pw" "snd pw" rc "fst s" "snd s" es]
  show "stage ns sr nl nt dir tm 1 s \<and> calls es = []"
    by (auto simp: stage_def all_topics_def prod_eq_iff)
qed

lemma stage_abort:
  assumes "stage ns sr nl nt dir tm 1 pw"
  shows "after (px_create_abort M pw) (\<lambda>pw cs. stage ns sr nl nt dir tm 2 pw \<and> cs = [])"
proof (rule afterI)
  fix rc s es assume "px_create_abort M pw = (rc, s, es)" "0 \<le> rc"
  with assms px_create_abort_ok [of M "fst pw" "snd pw" rc "fst s" "snd s" es]
  show "stage ns sr nl nt dir tm 2 s \<and> calls es = []"
    by (fastforce simp: stage_def all_topics_def prod_eq_iff)
qed

lemma stage_dmodex:
  assumes "stage ns sr nl nt dir tm 2 pw"
  shows "after (px_create_dmodex M pw) (\<lambda>pw cs. stage ns sr nl nt dir tm 3 pw \<and> cs = [])"
proof (rule afterI)
  fix rc s es assume "px_create_dmodex M pw = (rc, s, es)" "0 \<le> rc"
  with assms px_create_dmodex_ok [of M "fst pw" "snd pw" rc "fst s" "snd s" es]
  show "stage ns sr nl nt dir tm 3 s \<and> calls es = []"
    by (fastforce simp: stage_def all_topics_def prod_eq_iff)
qed

lemma stage_server_init:
  assumes "stage ns sr nl nt dir tm 3 pw"
  shows "after (px_server_init P pw) (\<lambda>pw cs. stage ns sr nl nt dir tm 3 pw
           \<and> cs = [ServerInit True True True (server_infos dir sr)])"
proof (rule afterI)
  fix rc s es assume "px_server_init P pw = (rc, s, es)" "0 \<le> rc"
  with assms px_server_init_ok [of P "fst pw" "snd pw" rc s es dir]
  show "stage ns sr nl nt dir tm 3 s \<and> calls es = [ServerInit True True True (server_infos dir sr)]"
    by (auto simp: stage_def)
qed

lemma stage_notify:
  assumes "stage ns sr nl nt dir tm 3 pw"
  shows "after (px_create_notify P M pw) (\<lambda>pw cs. stage ns sr nl nt dir tm 4 pw \<and> cs = [])"
proof (rule afterI)
  fix rc s es assume "px_create_notify P M pw = (rc, s, es)" "0 \<le> rc"
  with assms px_create_notify_ok [of P M "fst pw" "snd pw" rc "fst s" "snd s" es]
  show "stage ns sr nl nt dir tm 4 s \<and> calls es = []"
    by (fastforce simp: stage_def all_topics_def prod_eq_iff)
qed

lemma stage_register:
  assumes "stage ns sr nl nt dir tm 4 pw"
  shows "after (px_register L H P S M pw) (\<lambda>pw cs. stage ns sr nl nt dir tm 4 pw
     \<and> (\<exists>peers nodes pmap. local_peers tm sr = Some peers
        \<and> cooked (generate_regex P) (maps_node_create L H (shell_nodelist S)) = Some nodes
        \<and> cooked (generate_ppn P) (taskmap_encode tm) = Some pmap
        \<and> list_all (placed tm) [0..<nat nt]
        \<and> cs = [RegisterNspace ns nl (namespace_infos ns peers nodes pmap dir nl nt tm)]))"
proof (rule afterI)
  fix rc s es assume r: "px_register L H P S M pw = (rc, s, es)" "0 \<le> rc"
  have px: "px_nspace (fst pw) = ns" "px_shell_rank (fst pw) = sr" "local_nprocs (fst pw) = nl"
    "total_nprocs (fst pw) = nt" "job_tmpdir (fst pw) = Some dir" "px_taskmap (fst pw) = Some tm"
    using assms by (simp_all add: stage_def)
  from px_register_ok [of L H P S M "fst pw" "snd pw" rc s es dir tm, unfolded px] r assms
  show "stage ns sr nl nt dir tm 4 s \<and> (\<exists>peers nodes pmap. local_peers tm sr = Some peers
        \<and> cooked (generate_regex P) (maps_node_create L H (shell_nodelist S)) = Some nodes
        \<and> cooked (generate_ppn P) (taskmap_encode tm) = Some pmap
        \<and> list_all (placed tm) [0..<nat nt]
        \<and> calls es = [RegisterNspace ns nl (namespace_infos ns peers nodes pmap dir nl nt tm)])"
    by (auto simp: px list_all_iff)
qed

definition px_chain ::
    "'j lib \<Rightarrow> hostlib \<Rightarrow> pmix_server \<Rightarrow> 'j shell_env \<Rightarrow> mem_env \<Rightarrow> int \<times> (('j, 'm) px \<times> ('j, 'm) world) \<times> ('j, 'm) px_effect list
     \<Rightarrow> int \<times> (('j, 'm) px \<times> ('j, 'm) world) \<times> ('j, 'm) px_effect list" where
  "px_chain L H P S M start =
     andthen (andthen (andthen (andthen (andthen (andthen (andthen start (px_create_it S M))
       (px_create_fence S M)) (px_create_abort M)) (px_create_dmodex M)) (px_server_init P))
       (px_create_notify P M)) (px_register L H P S M)"

lemma px_chain_after:
  assumes "after start (\<lambda>pw cs. fst pw = px_of_info jid sr ns nl nt dir tm \<and> cs = [])"
  shows "after (px_chain L H P S M start) (\<lambda>pw cs. stage ns sr nl nt dir tm 4 pw
     \<and> (\<exists>peers nodes pmap. local_peers tm sr = Some peers
        \<and> cooked (generate_regex P) (maps_node_create L H (shell_nodelist S)) = Some nodes
        \<and> cooked (generate_ppn P) (taskmap_encode tm) = Some pmap
        \<and> list_all (placed tm) [0..<nat nt]
        \<and> cs = [ServerInit True True True (server_infos dir sr),
                RegisterNspace ns nl (namespace_infos ns peers nodes pmap dir nl nt tm)]))"
proof -
  note chain = after_seq [OF after_seq [OF after_seq [OF after_seq [OF after_seq [OF after_seq [OF
    assms stage_it] stage_fence] stage_abort] stage_dmodex] stage_server_init] stage_notify]
  show ?thesis
    unfolding px_chain_def
    by (rule after_andthen [OF chain], assumption+) (insert stage_register, fastforce simp: after_def)
qed

lemma px_init_chain:
  "px_init L H P S M W = (0, W', es) \<Longrightarrow>
   \<exists>px W1. px_chain L H P S M (px_start P S W) = (0, (px, W1), es)
     \<and> W' = W1\<lparr>aux_px := Some px\<rparr>"
  by (auto simp: px_init_def px_chain_def [symmetric] split: if_splits prod.splits)

lemma px_start_after:
  assumes "reads_info S jid sr ns nl nt dir tm"
  shows "after (px_start P S W)
     (\<lambda>pw cs. fst pw = px_of_info jid sr ns nl nt dir tm \<and> cs = [])"
  using assms
  by (auto simp: after_def px_start_def px_read_info_def reads_info_def px_of_info_def px_empty_def Let_def px_version_note_def)

lemma px_chain_fails: "rc < 0 \<Longrightarrow> px_chain L H P S M (rc, s, es) = (rc, s, es)"
  by (simp add: px_chain_def andthen_def)

lemma px_init_ok:
  fixes W :: "('a, 'b) world"
  assumes "px_init L H P S M W = (0, W', es)"
  shows "\<exists>jid sr ns nl nt dir tm peers nodes pmap px it.
     reads_info S jid sr ns nl nt dir tm
     \<and> local_peers tm sr = Some peers
     \<and> cooked (generate_regex P) (maps_node_create L H (shell_nodelist S)) = Some nodes
     \<and> cooked (generate_ppn P) (taskmap_encode tm) = Some pmap
     \<and> list_all (placed tm) [0..<nat nt]
     \<and> calls es = [ServerInit True True True (server_infos dir sr),
                   RegisterNspace ns nl (namespace_infos ns peers nodes pmap dir nl nt tm)]
     \<and> aux_px W' = Some px \<and> px_nspace px = ns \<and> px_it px = Some it
     \<and> topics it = all_topics \<and> queue it = []"
proof -
  obtain rc px0 es0 where ri: "(px_read_info S px_empty :: int \<times> ('a, 'b) px \<times> ('a, 'b) px_effect list) = (rc, px0, es0)"
    by (metis prod_cases3)
  from px_init_chain [OF assms] obtain px W1 where c: "px_chain L H P S M (px_start P S W) = (0, (px, W1), es)"
    and W': "W' = W1\<lparr>aux_px := Some px\<rparr>" by blast
  have "0 \<le> rc" using c ri px_chain_fails [of rc L H P S M "(px0, W)" es0] by (cases "rc < 0") (auto simp: px_start_def)
  from px_read_info_ok [OF ri this] obtain jid sr ns nl nt dir tm where info: "reads_info S jid sr ns nl nt dir tm"
    by blast
  from px_chain_after [OF px_start_after [OF this, of P W], of L H P S M] c W' info
  show ?thesis by (fastforce simp: after_def stage_def all_topics_def)
qed

text \<open>
  C8. When the initialisation succeeds, the PMIx server was initialised once, with all three upcalls
  in place and the directory and rank of the shell, and then the namespace of the job was registered
  once, with exactly the documented entries: the job's name, peers and maps, its sizes, and for every
  task an entry with its rank, node and local rank. The channel then dispatches the four upcalls.
\<close>

theorem px_init_registers_namespace:
  fixes W :: "('a, 'b) world"
  assumes "px_init L H P S M W = (0, W', es)"
  shows "\<exists>jid sr ns nl nt dir tm peers nodes pmap px it.
     reads_info S jid sr ns nl nt dir tm
     \<and> local_peers tm sr = Some peers
     \<and> cooked (generate_regex P) (maps_node_create L H (shell_nodelist S)) = Some nodes
     \<and> cooked (generate_ppn P) (taskmap_encode tm) = Some pmap
     \<and> list_all (placed tm) [0..<nat nt]
     \<and> calls es = [ServerInit True True True (server_infos dir sr),
                   RegisterNspace ns nl (namespace_infos ns peers nodes pmap dir nl nt tm)]
     \<and> aux_px W' = Some px \<and> px_nspace px = ns \<and> px_it px = Some it
     \<and> topics it = all_topics \<and> queue it = []"
  using assms by (rule px_init_ok)

text \<open>A job of two tasks on one shell.\<close>

definition demo_taskmap :: taskmap where
  "demo_taskmap = \<lparr>taskmap_taskids = (\<lambda>n. if n = 0 then Some [0, 1] else None),
     taskmap_nodeid = (\<lambda>i. if i = 0 \<or> i = 1 then 0 else - 1), taskmap_encode = Some ''0,1'',
     idset_encode = (\<lambda>ids. Some ''0,1'')\<rparr>"

definition demo_server :: pmix_server where
  "demo_server = \<lparr>generate_regex = (\<lambda>s. (0, s)), generate_ppn = (\<lambda>s. (0, s)), server_init_rc = 0,
     register_nspace_rc = PMIX_OPERATION_SUCCEEDED, register_client_rc = (\<lambda>p. PMIX_OPERATION_SUCCEEDED),
     server_finalize_rc = 0, setup_fork = (\<lambda>p. (0, Some [''PMIX_RANK=1'', ''PMIX_SERVER_URI=tcp4://x=y''])),
     register_event = 0, error_string = (\<lambda>rc. []), get_version = ''OpenPMIx 4.1, master''\<rparr>"

definition demo_job_shell :: "json shell_env" where
  "demo_job_shell = \<lparr>aux_set_ok = True, shell_info = Some (7, 0), jobid_f58 = (\<lambda>i. Some ''f8''),
     rank_ntasks = (\<lambda>r. Some 2), jobspec_ntasks = Some 2, shell_tmpdir = Some ''/tmp'',
     shell_taskmap = Some demo_taskmap, shell_nodelist = Some (JArr [JStr ''n0'']), shell_size = Some 1,
     service_ok = True, open_send_ok = True, open_recv_ok = True, watcher_ok = True, verbose_opt = None\<rparr>"

definition demo_all_mem :: mem_env where
  "demo_all_mem = \<lparr>px_calloc_ok = True, iv_calloc_ok = (\<lambda>i. True), strdup_ok = (\<lambda>k. True),
     realloc_ok = (\<lambda>k i. True), darray_ok = (\<lambda>i. True), handle_ok = (\<lambda>s. True)\<rparr>"

definition world_init :: "('j, 'm) world" where
  "world_init = \<lparr>aux_px = None, fence_nb = False, abort_fn = False, direct_modex = False, fence_ctx = False, abort_ctx = None,
     notify_ctx = None, dmodex_ctx = False\<rparr>"

lemma demo_px_init: "fst (px_init json_lib plain_hosts demo_server demo_job_shell demo_all_mem (world_init :: (json, unit) world)) = 0"
  by code_simp

theorem px_init_registers_namespace_witness:
  "\<exists>W' es. px_init json_lib plain_hosts demo_server demo_job_shell demo_all_mem (world_init :: (json, unit) world) = (0, W', es)
     \<and> calls es = [ServerInit True True True (server_infos ''/tmp'' 0),
          RegisterNspace ''f8'' 2 (namespace_infos ''f8'' ''0,1'' ''n0'' ''0,1'' ''/tmp'' 2 2 demo_taskmap)]"
proof -
  obtain W' es where r: "px_init json_lib plain_hosts demo_server demo_job_shell demo_all_mem (world_init :: (json, unit) world) = (0, W', es)"
    using demo_px_init by (metis prod.exhaust_sel)
  have nodes: "maps_node_create json_lib plain_hosts (shell_nodelist demo_job_shell) = Some ''n0''" by code_simp
  from px_init_registers_namespace [OF r]
  have "calls es = [ServerInit True True True (server_infos ''/tmp'' 0),
          RegisterNspace ''f8'' 2 (namespace_infos ''f8'' ''0,1'' ''n0'' ''0,1'' ''/tmp'' 2 2 demo_taskmap)]"
    unfolding nodes by (auto simp: reads_info_def demo_job_shell_def local_peers_def cooked_def demo_server_def demo_taskmap_def)
  with r show ?thesis by blast
qed

subsection \<open>Resources\<close>

text \<open>The resources of the channel acquired and released.\<close>

fun acquired :: "('j, 'm) px_effect list \<Rightarrow> it_resource multiset" where
  "acquired [] = {#}"
| "acquired (PAcquire rs # es) = mset rs + acquired es"
| "acquired (_ # es) = acquired es"

fun released :: "('j, 'm) px_effect list \<Rightarrow> it_resource multiset" where
  "released [] = {#}"
| "released (PRelease rs # es) = mset rs + released es"
| "released (_ # es) = released es"

lemma acquired_append [simp]: "acquired (es @ fs) = acquired es + acquired fs"
  by (induction es rule: acquired.induct) simp_all

lemma released_append [simp]: "released (es @ fs) = released es + released fs"
  by (induction es rule: released.induct) simp_all

text \<open>What the plugin holds: the resources of the channel, and no global context but those it keeps; the
  PMIx server has not been finalized.\<close>

definition holds :: "('j, 'm) px \<Rightarrow> ('j, 'm) world \<Rightarrow> ('j, 'm) px_effect list \<Rightarrow> bool" where
  "holds px W es \<longleftrightarrow>
     acquired es = released es + mset (interthread_destroy (px_it px))
     \<and> (abort_ctx W = None \<or> abort_ctx W = px_abort px) \<and> (notify_ctx W = None \<or> notify_ctx W = px_notify px)
     \<and> (fence_ctx W \<longrightarrow> px_fence px \<noteq> None) \<and> (dmodex_ctx W \<longrightarrow> px_dmodex px \<noteq> None) \<and> ServerFinalize \<notin> set es"

definition keeps ::
    "(('j, 'm) px \<times> ('j, 'm) world \<Rightarrow> int \<times> (('j, 'm) px \<times> ('j, 'm) world) \<times> ('j, 'm) px_effect list) \<Rightarrow> bool" where
  "keeps f \<longleftrightarrow> (\<forall>px W es rc px' W' es'. holds px W es \<longrightarrow> f (px, W) = (rc, (px', W'), es') \<longrightarrow> holds px' W' (es @ es'))"

lemma keepsI:
  "(\<And>px W es rc px' W' es'. holds px W es \<Longrightarrow> f (px, W) = (rc, (px', W'), es') \<Longrightarrow> holds px' W' (es @ es')) \<Longrightarrow> keeps f"
  by (simp add: keeps_def)

definition balanced :: "int \<times> (('j, 'm) px \<times> ('j, 'm) world) \<times> ('j, 'm) px_effect list \<Rightarrow> bool" where
  "balanced r \<longleftrightarrow> holds (fst (fst (snd r))) (snd (fst (snd r))) (snd (snd r))"

lemma balanced_andthen:
  assumes "balanced r" and "keeps f"
  shows "balanced (andthen r f)"
proof -
  obtain rc px W es where r: "r = (rc, (px, W), es)" by (metis surj_pair)
  obtain rc' px' W' es' where f: "f (px, W) = (rc', (px', W'), es')" by (metis surj_pair)
  have "holds px W es" using assms(1) by (simp add: balanced_def r)
  with assms(2) f have "holds px' W' (es @ es')" unfolding keeps_def by blast
  with assms(1) show ?thesis by (simp add: balanced_def andthen_def r f)
qed

lemma destroy_register [simp]:
  "interthread_register it tpc h = Inr it' \<Longrightarrow> interthread_destroy (Some it') = interthread_destroy (Some it)"
  by (auto simp: interthread_register_def interthread_destroy_def split: if_splits)

lemma interthread_create_balanced:
  "interthread_create a b c d v = (itp, acq, rel) \<Longrightarrow> mset acq = mset rel + mset (interthread_destroy itp)"
  by (auto simp: interthread_create_def interthread_destroy_def Let_def split: if_splits)

lemma keeps_fence: "keeps (px_create_fence S M)"
proof (rule keepsI)
  fix px :: "('a, 'b) px" and W es rc px' W' es'
  assume h: "holds px W es" and r: "px_create_fence S M (px, W) = (rc, (px', W'), es')"
  show "holds px' W' (es @ es')"
  proof (cases "px_it px")
    case (Some it)
    obtain fxp :: "('a, 'b) fence option" and ctx it' where fc: "fence_create (handle_ok M ''fence'')
      (case shell_size S of None \<Rightarrow> None | Some n \<Rightarrow> Some (n, px_shell_rank px)) (service_ok S) it (fence_ctx W) = (fxp, ctx, it')"
      by (metis prod_cases3)
    then have "interthread_destroy (Some it') = interthread_destroy (Some it)"
      "fxp = None \<Longrightarrow> ctx \<Longrightarrow> fence_ctx W"
      by (auto simp: fence_create_def split: if_splits sum.splits option.splits)
    with h r fc Some show ?thesis
      by (cases fxp) (auto simp: px_create_fence_def holds_def)
  qed (use h r in \<open>auto simp: px_create_fence_def holds_def\<close>)
qed

lemma keeps_abort: "keeps (px_create_abort M)"
  by (rule keepsI)
     (auto simp: px_create_abort_def holds_def abort_create_def abort_destroy_def Let_def
       split: option.splits if_splits sum.splits)

lemma keeps_dmodex: "keeps (px_create_dmodex M)"
  by (rule keepsI)
     (auto simp: px_create_dmodex_def holds_def dmodex_create_def dmodex_destroy_def
       split: option.splits if_splits sum.splits)

lemma keeps_notify: "keeps (px_create_notify P M)"
  by (rule keepsI)
     (auto simp: px_create_notify_def holds_def notify_create_def notify_destroy_def Let_def
       split: option.splits if_splits sum.splits)

lemma keeps_server_init: "keeps (px_server_init P)"
  by (rule keepsI) (auto simp: px_server_init_def holds_def Let_def split: if_splits)

lemma keeps_register: "keeps (px_register L H P S M)"
proof (rule keepsI)
  fix px :: "('a, 'b) px" and W es rc px' W' es'
  assume h: "holds px W es" and r: "px_register L H P S M (px, W) = (rc, (px', W'), es')"
  have *: "list_all quiet es1 \<Longrightarrow> acquired es1 = {#} \<and> released es1 = {#} \<and> ServerFinalize \<notin> set es1" for es1 :: "('a, 'b) px_effect list"
    by (induction es1) (auto elim: quiet.elims)
  have "acquired es' = {#} \<and> released es' = {#} \<and> px' = px \<and> W' = W \<and> ServerFinalize \<notin> set es'"
    using r by (auto simp: px_register_def Let_def dest!: px_namespace_quiet * split: option.splits if_splits prod.splits)
  with h show "holds px' W' (es @ es')" by (simp add: holds_def)
qed

lemma px_chain_balanced:
  fixes start :: "int \<times> (('a, 'b) px \<times> ('a, 'b) world) \<times> ('a, 'b) px_effect list"
  assumes "balanced start" and "px_it (fst (fst (snd start))) = None"
  shows "balanced (px_chain L H P S M start)"
proof -
  obtain rc px W es where s: "start = (rc, (px, W), es)" by (metis surj_pair)
  have "balanced (andthen start (px_create_it S M))"
    using assms interthread_create_balanced
    by (fastforce simp: s andthen_def balanced_def px_create_it_def holds_def interthread_destroy_def
        split: prod.splits option.splits)
  from this keeps_fence show ?thesis
    unfolding px_chain_def
    by (intro balanced_andthen [OF _ keeps_register] balanced_andthen [OF _ keeps_notify]
        balanced_andthen [OF _ keeps_server_init] balanced_andthen [OF _ keeps_dmodex]
        balanced_andthen [OF _ keeps_abort]) (rule balanced_andthen)
qed

text \<open>Destroying the structure gives back what it holds and finalizes the server.\<close>

lemma px_destroy_holds:
  assumes "holds px W es" and "px_destroy P (Some px) W = (W'', es')"
  shows "acquired (es @ es') = released (es @ es')
    \<and> \<not> fence_ctx W'' \<and> abort_ctx W'' = None \<and> notify_ctx W'' = None \<and> \<not> dmodex_ctx W''
    \<and> count_list (es @ es') ServerFinalize = 1"
proof -
  obtain nctx cs where n: "notify_destroy (px_notify px) (notify_ctx W) = (nctx, cs)" by (metis surj_pair)
  then have "nctx = None" using assms(1) by (auto simp: holds_def notify_destroy_def split: option.splits if_splits)
  moreover have "abort_destroy (px_abort px) (abort_ctx W) = None" "\<not> dmodex_destroy (px_dmodex px) (dmodex_ctx W)"
      "\<not> snd (fence_destroy (px_fence px) (fence_ctx W))"
    using assms(1) by (auto simp: holds_def abort_destroy_def dmodex_destroy_def fence_destroy_def split: option.splits)
  moreover have "count_list es ServerFinalize = 0" using assms(1) by (simp add: holds_def)
  moreover have "acquired es = released es + mset (interthread_destroy (px_it px))"
    using assms(1) by (simp add: holds_def)
  ultimately show ?thesis using assms(2) by (cases "server_finalize_rc P = 0") (auto simp: px_destroy_def n)
qed

text \<open>
  C9. However far the initialisation gets and whichever call or allocation fails, destroying the
  plugin's structure afterwards releases exactly the connections, watcher and memory of the channel that
  were acquired, leaves none of the four global contexts (fence, abort, notify, dmodex) set, and finalizes
  the PMIx server exactly once, unless not even the structure could be allocated.
\<close>

theorem px_lifecycle_balanced:
  fixes W' :: "('a, 'b) world"
  assumes "px_init L H P S M world_init = (rc, W', es)"
    and "px_destroy P (aux_px W') W' = (W'', es')"
  shows "acquired (es @ es') = released (es @ es')
    \<and> \<not> fence_ctx W'' \<and> abort_ctx W'' = None \<and> notify_ctx W'' = None \<and> \<not> dmodex_ctx W''
    \<and> count_list (es @ es') ServerFinalize = (if px_calloc_ok M then 1 else 0)"
proof (cases "px_calloc_ok M \<and> aux_set_ok S")
  case True
  let ?start = "px_start P S (world_init :: ('a, 'b) world)"
  have start: "balanced ?start \<and> px_it (fst (fst (snd ?start))) = None"
    by (auto simp: balanced_def holds_def px_start_def px_read_info_def px_empty_def world_init_def Let_def
        interthread_destroy_def px_version_note_def split: option.split)
  obtain px W where c: "px_chain L H P S M ?start = (rc, (px, W), es)" and W': "W' = W\<lparr>aux_px := Some px\<rparr>"
    using assms(1) True by (auto simp: px_init_def px_chain_def [symmetric] split: if_splits prod.splits)
  from start px_chain_balanced [of ?start L H P S M] have "holds px W es" by (simp add: c balanced_def)
  then have "holds px W' es" by (simp add: W' holds_def)
  from px_destroy_holds [OF this] assms(2) True show ?thesis by (simp add: W')
next
  case False
  then have "W' = world_init \<and> acquired es = {#} \<and> released es = {#}
    \<and> count_list es ServerFinalize = (if px_calloc_ok M then 1 else 0)"
    using assms(1) by (auto simp: px_init_def px_destroy_def px_empty_def world_init_def interthread_destroy_def
        notify_destroy_def abort_destroy_def dmodex_destroy_def fence_destroy_def split: if_splits)
  with assms(2) show ?thesis by (auto simp: px_destroy_def world_init_def)
qed

theorem px_lifecycle_balanced_witness:
  "let r = px_init json_lib plain_hosts demo_server (demo_job_shell\<lparr>watcher_ok := False\<rparr>) demo_all_mem world_init;
       W' = (fst (snd r) :: (json, unit) world); d = px_destroy demo_server (aux_px W') W' in
   acquired (snd (snd r) @ snd d) = released (snd (snd r) @ snd d) \<and> \<not> fence_ctx (fst d)
     \<and> acquired (snd (snd r)) = {#R_memory, R_send, R_recv#}
     \<and> count_list (snd (snd r) @ snd d) ServerFinalize = 1"
proof -
  let ?r = "px_init json_lib plain_hosts demo_server (demo_job_shell\<lparr>watcher_ok := False\<rparr>) demo_all_mem
    (world_init :: (json, unit) world)"
  have "acquired (snd (snd ?r)) = {#R_memory, R_send, R_recv#}" by code_simp
  moreover obtain rc W' es where r: "?r = (rc, W', es)" by (metis prod_cases3)
  moreover obtain W'' es' where d: "px_destroy demo_server (aux_px W') W' = (W'', es')" by (metis surj_pair)
  ultimately show ?thesis unfolding Let_def using px_lifecycle_balanced [OF r d] by (simp add: demo_all_mem_def)
qed

subsection \<open>Local ranks\<close>

lemma local_rank_loop_eq:
  "local_rank_loop ids r lr = (if r \<in> set ids then lr + int (length (takeWhile (\<lambda>i. i \<noteq> r) ids)) else - 1)"
  by (induction ids arbitrary: lr) auto

text \<open>
  The local rank of a task is its position among the tasks of its node, in ascending order, that is
  the number of tasks of the node with a smaller rank; it is -1 exactly when the node does not run it.
\<close>

theorem get_local_rank_counts:
  assumes "taskmap_taskids tm nodeid = Some ids" and "sorted_wrt (<) ids" and "0 \<le> r" "r < 2 ^ 32"
  shows "get_local_rank tm nodeid r =
    (if word_of_int r \<in> set ids then int (length (filter (\<lambda>i. uint i < r) ids)) else - 1)"
proof -
  let ?r = "word_of_int r :: u32"
  have r: "uint ?r = r" using assms(3,4) by (simp add: uint_word_of_int)
  have "takeWhile (\<lambda>i. i \<noteq> ?r) ids = filter (\<lambda>i. uint i < r) ids" if "?r \<in> set ids"
    using assms(2) that
  proof (induction ids)
    case (Cons i ids)
    show ?case
    proof (cases "i = ?r")
      case True
      have "\<not> uint j < r" if "j \<in> set ids" for j
        using Cons.prems(1) True that r by (auto simp: word_less_def)
      then have "filter (\<lambda>i. uint i < r) ids = []" by (simp add: filter_empty_conv)
      then show ?thesis using True r by simp
    next
      case False
      then have "?r \<in> set ids" using Cons.prems(2) by auto
      then have "uint i < r" using Cons.prems(1) r by (auto simp: word_less_def)
      then show ?thesis using Cons False \<open>?r \<in> set ids\<close> by simp
    qed
  qed simp
  then show ?thesis using assms(1) by (simp add: get_local_rank_def local_rank_loop_eq)
qed

theorem get_local_rank_counts_witness: "get_local_rank demo_taskmap 0 1 = 1"
proof -
  have "taskmap_taskids demo_taskmap 0 = Some [0, 1]" "sorted_wrt (<) [0, 1 :: u32]"
    by (simp_all add: demo_taskmap_def)
  from get_local_rank_counts [OF this, of 1] show ?thesis by simp
qed

subsection \<open>Tasks and loading\<close>

text \<open>The name and value of an entry.\<close>

definition env_pair :: "string \<Rightarrow> string \<times> string" where
  "env_pair e = (takeWhile (\<lambda>c. c \<noteq> CHR ''='') e, tl (dropWhile (\<lambda>c. c \<noteq> CHR ''='') e))"

lemma set_task_env_map:
  "set_task_env ok cmd es = Ok (None, cmd') \<Longrightarrow> map_of cmd' = map_of cmd ++ map_of (rev (map env_pair es))"
proof (induction ok cmd es rule: set_task_env.induct)
  case (2 ok cmd e es)
  let ?n = "takeWhile (\<lambda>c. c \<noteq> CHR ''='') e"
  have d: "drop (Suc (length ?n)) e = tl (dropWhile (\<lambda>c. c \<noteq> CHR ''='') e)"
    by (metis drop_Suc dropWhile_eq_drop tl_drop)
  from 2 have "map_of cmd' = map_of (cmd_setenv cmd ?n (drop (Suc (length ?n)) e)) ++ map_of (rev (map env_pair es))"
    by (auto simp: Let_def split: if_splits)
  also have "\<dots> = map_of cmd ++ map_of (rev (map env_pair (e # es)))"
    unfolding cmd_setenv_def update_conv' d by (simp add: env_pair_def)
  finally show ?case .
qed simp

text \<open>
  C11. When a task is prepared successfully, every variable PMIx asks for is in the task's environment
  with the text after the first equals sign (the last one given for a name wins), no other variable of
  the command is changed, and the task is registered as a client under the job's namespace and its rank.
\<close>

theorem px_task_init_environment:
  assumes "px_task_init P T W = Ok (0, Some cmd', es)"
  shows "\<exists>px cmd r env. aux_px W = Some px \<and> task_cmd T = Some cmd \<and> task_rank T = Some r
     \<and> setup_fork P \<lparr>nspace = snprintf 256 (px_nspace px), rank = word_of_int r\<rparr> = (0, env)
     \<and> map_of cmd' = map_of cmd ++ map_of (rev (map env_pair (case env of None \<Rightarrow> [] | Some e \<Rightarrow> e)))
     \<and> es = [RegisterClient \<lparr>nspace = snprintf 256 (px_nspace px), rank = word_of_int r\<rparr>]"
  using assms set_task_env_map
  by (auto simp: px_task_init_def Let_def PMIX_MAX_NSLEN_def outcome_simps split: bool.splits option.splits prod.splits if_splits)

definition demo_task :: task_env where
  "demo_task = \<lparr>shell_ok = True, task_cmd = Some [(''PATH'', ''/bin''), (''PMIX_RANK'', ''9'')], task_rank = Some 1,
     setenv_ok = (\<lambda>v. True)\<rparr>"

theorem px_task_init_environment_witness:
  "let W = (world_init\<lparr>aux_px := Some (px_empty\<lparr>px_nspace := ''f8''\<rparr>)\<rparr> :: (json, unit) world) in
   \<exists>cmd' es. px_task_init demo_server demo_task W = Ok (0, Some cmd', es)
     \<and> map_of cmd' ''PMIX_SERVER_URI'' = Some ''tcp4://x=y'' \<and> map_of cmd' ''PMIX_RANK'' = Some ''1''
     \<and> map_of cmd' ''PATH'' = Some ''/bin''"
proof -
  let ?W = "world_init\<lparr>aux_px := Some (px_empty\<lparr>px_nspace := ''f8''\<rparr>)\<rparr> :: (json, unit) world"
  let ?cmd = "[(''PATH'', ''/bin''), (''PMIX_RANK'', ''1''), (''PMIX_SERVER_URI'', ''tcp4://x=y'')]"
  have r: "px_task_init demo_server demo_task ?W = Ok (0, Some ?cmd, [RegisterClient \<lparr>nspace = ''f8'', rank = 1\<rparr>])"
    by code_simp
  from px_task_init_environment [OF r] have "map_of ?cmd = map_of [(''PATH'', ''/bin''), (''PMIX_RANK'', ''9'')] ++
      map_of (rev (map env_pair [''PMIX_RANK=1'', ''PMIX_SERVER_URI=tcp4://x=y'']))"
    by (auto simp: demo_task_def demo_server_def)
  then have "map_of ?cmd ''PMIX_SERVER_URI'' = Some ''tcp4://x=y''" "map_of ?cmd ''PMIX_RANK'' = Some ''1''"
      "map_of ?cmd ''PATH'' = Some ''/bin''" by (simp_all add: env_pair_def map_add_def)
  with r show ?thesis unfolding Let_def by blast
qed

text \<open>
  The plugin serves the job, that is it installs its two handlers, exactly when the option \<^verbatim>\<open>pmi\<close> is a
  list with \<^verbatim>\<open>pmix\<close> among its comma-separated elements; without the option or without that element it
  succeeds and stays inactive.
\<close>

theorem flux_plugin_init_enabled:
  assumes "nul_free csv"
  shows "let r = flux_plugin_init True True (Some (Some csv)) True setopt_ok (\<lambda>t. True) in
     fst r = 0 \<and> (AddHandler ''shell.init'' \<in> set (snd r) \<longleftrightarrow> ''pmix'' \<in> set (split_sep CHR '','' csv))
     \<and> (AddHandler ''task.init'' \<in> set (snd r) \<longleftrightarrow> ''pmix'' \<in> set (split_sep CHR '','' csv))"
proof -
  obtain e where e: "argz_entries (argz_create_sep csv CHR '','') = split_sep CHR '','' csv @ e" "set e \<subseteq> {[]}"
    using argz_create_sep_entries [OF assms, of "CHR '',''"] by auto
  then have "member_of_csv True csv ''pmix'' \<longleftrightarrow> ''pmix'' \<in> set (split_sep CHR '','' csv)"
    by (auto simp: member_of_csv_def list_ex_iff)
  then show ?thesis by (auto simp: flux_plugin_init_def Let_def)
qed

theorem flux_plugin_init_enabled_witness:
  "AddHandler ''task.init'' \<in> set (snd (flux_plugin_init True True (Some (Some ''pmi1,pmix'')) True True (\<lambda>t. True)))"
proof -
  have "''pmix'' \<in> set (split_sep CHR '','' ''pmi1,pmix'')" "nul_free ''pmi1,pmix''" by (simp_all add: nul_free_def)
  with flux_plugin_init_enabled [of "''pmi1,pmix''" True] show ?thesis unfolding Let_def by blast
qed

end
