(* ===== verification/Tap.thy ===== *)
theory Tap
  imports Cstdio "HOL-Library.Signed_Division"
begin

text \<open>
  \<^verbatim>\<open>src/common/libtap/tap.c\<close>: the test harness of the unit tests. Its static variables and the text it
  has printed are the record \<open>tap\<close>. A message is the text its format and arguments produce, \<open>None\<close> being
  a null format. Functions that leave the process return \<open>Exit\<close> with its status.
\<close>

record tap =
  expected_tests :: int
  failed_tests :: int
  current_test :: int
  todo_mesg :: "string option"
  out :: string

datatype 'a run = Ret 'a tap | Exit int tap

definition NO_PLAN :: int where "NO_PLAN = - 1"
definition SKIP_ALL :: int where "SKIP_ALL = - 2"

definition tap_init :: tap where
  "tap_init = \<lparr>expected_tests = NO_PLAN, failed_tests = 0, current_test = 0, todo_mesg = None, out = []\<rparr>"

definition printf :: "string \<Rightarrow> tap \<Rightarrow> tap" where
  "printf s t = t\<lparr>out := out t @ s\<rparr>"

abbreviation nl :: char where
  "nl \<equiv> CHR 0x0A"

text \<open>The allocation is taken to succeed.\<close>

definition vstrdupf :: "string option \<Rightarrow> string" where
  "vstrdupf fmt = (case fmt of None \<Rightarrow> [] | Some s \<Rightarrow> s)"

text \<open>
  The loop of \<^verbatim>\<open>diag\<close>: \<open>line\<close> is the text from the variable \<^verbatim>\<open>line\<close> up to position \<open>i\<close>, the second argument
  the rest of the message; the loop ends when \<^verbatim>\<open>line\<close> points at the end of the message.
\<close>

fun diag_loop :: "string \<Rightarrow> string \<Rightarrow> string" where
  "diag_loop line [] = (if line = [] then [] else ''# '' @ line @ [nl])"
| "diag_loop line (c # rest) =
     (if c = nl then ''# '' @ line @ [nl] @ diag_loop [] rest else diag_loop (line @ [c]) rest)"

definition diag :: "string option \<Rightarrow> tap \<Rightarrow> int \<times> tap" where
  "diag fmt t = (case fmt of None \<Rightarrow> (0, t) | Some s \<Rightarrow> (0, printf (diag_loop [] (vstrdupf fmt)) t))"

definition diag' :: "string \<Rightarrow> tap \<Rightarrow> tap" where
  "diag' s t = snd (diag (Some s) t)"

definition tap_plan :: "int \<Rightarrow> string option \<Rightarrow> tap \<Rightarrow> unit run" where
  "tap_plan tests fmt t =
     (let t = t\<lparr>expected_tests := tests\<rparr> in
      if tests = SKIP_ALL then Exit 0 (diag' (''SKIP '' @ vstrdupf fmt @ [nl]) (printf ''1..0 '' t))
      else if tests \<noteq> NO_PLAN then Ret () (printf (''1..'' @ show_int tests @ [nl]) t)
      else Ret () t)"

text \<open>The line with the verdict, and the explanation of a failure.\<close>

definition vok_line :: "int \<Rightarrow> string \<Rightarrow> tap \<Rightarrow> tap" where
  "vok_line test name t =
     (let t = (if test = 0 then printf ''not '' t else t);
          t = t\<lparr>current_test := current_test t + 1\<rparr>;
          t = printf (''ok '' @ show_int (current_test t)) t;
          t = (if name \<noteq> [] then printf ('' - '' @ name) t else t);
          t = (case todo_mesg t of
                 None \<Rightarrow> t
               | Some m \<Rightarrow> (let t = printf '' # TODO'' t in if m \<noteq> [] then printf ('' '' @ m) t else t)) in
      printf [nl] t)"

definition vok_failed :: "string \<Rightarrow> int \<Rightarrow> string \<Rightarrow> tap \<Rightarrow> tap" where
  "vok_failed file line name t =
     (let t = printf ''#   Failed '' t;
          t = (if todo_mesg t \<noteq> None then printf ''(TODO) '' t else t);
          t = printf ''test '' t;
          t = (if name \<noteq> [] then printf ([CHR 0x27] @ name @ [CHR 0x27, nl] @ ''#   '') t else t);
          t = printf (''at '' @ file @ '' line '' @ show_int line @ ''.'' @ [nl]) t in
      if todo_mesg t = None then t\<lparr>failed_tests := failed_tests t + 1\<rparr> else t)"

definition vok_at_loc :: "string \<Rightarrow> int \<Rightarrow> int \<Rightarrow> string option \<Rightarrow> tap \<Rightarrow> int \<times> tap" where
  "vok_at_loc file line test fmt t =
     (let name = vstrdupf fmt; t = vok_line test name t in
      (test, if test = 0 then vok_failed file line name t else t))"

definition ok_at_loc :: "string \<Rightarrow> int \<Rightarrow> int \<Rightarrow> string option \<Rightarrow> tap \<Rightarrow> int \<times> tap" where
  "ok_at_loc file line test fmt t = (test, snd (vok_at_loc file line test fmt t))"

text \<open>The first character at which two texts differ decides, as for \<^verbatim>\<open>strcmp\<close>; the null pointer is first.\<close>

fun strcmp :: "string \<Rightarrow> string \<Rightarrow> int" where
  "strcmp [] [] = 0"
| "strcmp [] (b # bs) = - int (of_char b)"
| "strcmp (a # as) [] = int (of_char a)"
| "strcmp (a # as) (b # bs) = (if a = b then strcmp as bs else int (of_char a) - int (of_char b))"

definition mystrcmp :: "string option \<Rightarrow> string option \<Rightarrow> int" where
  "mystrcmp a b =
     (if a = None \<and> b = None then 0 else case a of
        None \<Rightarrow> - 1
      | Some x \<Rightarrow> (case b of None \<Rightarrow> 1 | Some y \<Rightarrow> strcmp x y))"

definition show_ptr :: "string option \<Rightarrow> string" where
  "show_ptr p = (case p of None \<Rightarrow> ''(null)'' | Some s \<Rightarrow> s)"

definition quoted :: "string \<Rightarrow> string" where
  "quoted s = [CHR 0x27] @ s @ [CHR 0x27]"

definition is_at_loc :: "string \<Rightarrow> int \<Rightarrow> string option \<Rightarrow> string option \<Rightarrow> string option \<Rightarrow> tap \<Rightarrow> int \<times> tap" where
  "is_at_loc file line got expected fmt t =
     (let test = (if mystrcmp got expected = 0 then 1 else 0);
          t = snd (vok_at_loc file line test fmt t) in
      (test, if test = 0
             then diag' (''    expected: '' @ quoted (show_ptr expected)) (diag' (''         got: '' @ quoted (show_ptr got)) t)
             else t))"

definition isnt_at_loc :: "string \<Rightarrow> int \<Rightarrow> string option \<Rightarrow> string option \<Rightarrow> string option \<Rightarrow> tap \<Rightarrow> int \<times> tap" where
  "isnt_at_loc file line got expected fmt t =
     (let test = mystrcmp got expected;
          t = snd (vok_at_loc file line test fmt t) in
      (test, if test = 0
             then diag' ''    expected: anything else'' (diag' (''         got: '' @ quoted (show_ptr got)) t)
             else t))"

text \<open>The operators on \<^verbatim>\<open>int\<close>; overflow, a division by zero and a bad shift are undefined.\<close>

definition in_int :: "int \<Rightarrow> int outcome" where
  "in_int i = (if - (2 ^ 31) \<le> i \<and> i < 2 ^ 31 then Ok i else Undef)"

definition cmp_op :: "int \<Rightarrow> string \<Rightarrow> int \<Rightarrow> int outcome option" where
  "cmp_op a op b =
     (let b01 = (\<lambda>c. Some (Ok (if c then 1 else 0))) in
      if op = ''||'' then b01 (a \<noteq> 0 \<or> b \<noteq> 0)
      else if op = ''&&'' then b01 (a \<noteq> 0 \<and> b \<noteq> 0)
      else if op = ''|'' then Some (Ok (a OR b))
      else if op = ''^'' then Some (Ok (a XOR b))
      else if op = ''&'' then Some (Ok (a AND b))
      else if op = ''=='' then b01 (a = b)
      else if op = ''!='' then b01 (a \<noteq> b)
      else if op = ''<'' then b01 (a < b)
      else if op = ''>'' then b01 (a > b)
      else if op = ''<='' then b01 (a \<le> b)
      else if op = ''>='' then b01 (a \<ge> b)
      else if op = ''<<'' then Some (if a < 0 \<or> b < 0 \<or> 32 \<le> b then Undef else in_int (a * 2 ^ nat b))
      else if op = ''>>'' then Some (if b < 0 \<or> 32 \<le> b then Undef else Ok (a div 2 ^ nat b))
      else if op = ''+'' then Some (in_int (a + b))
      else if op = ''-'' then Some (in_int (a - b))
      else if op = ''*'' then Some (in_int (a * b))
      else if op = ''/'' then Some (if b = 0 then Undef else in_int (a sdiv b))
      else if op = ''%'' then
        Some (if b = 0 then Undef else bind_outcome (in_int (a sdiv b)) (\<lambda>q. Ok (a - q * b)))
      else None)"

definition cmp_ok_at_loc :: "string \<Rightarrow> int \<Rightarrow> int \<Rightarrow> string \<Rightarrow> int \<Rightarrow> string option \<Rightarrow> tap \<Rightarrow> (int \<times> tap) outcome" where
  "cmp_ok_at_loc file line a op b fmt t =
     bind_outcome (case cmp_op a op b of
                     None \<Rightarrow> Ok (diag (Some (''unrecognized operator '' @ quoted op)) t)
                   | Some r \<Rightarrow> bind_outcome r (\<lambda>test. Ok (test, t)))
       (\<lambda>(test, t).
          let t = snd (vok_at_loc file line test fmt t) in
          Ok (test, if test = 0
                    then diag' (''    '' @ show_int b) (diag' (''        '' @ op) (diag' (''    '' @ show_int a) t))
                    else t))"

text \<open>Buffers are lists of bytes with at least \<open>n\<close> elements; reading past the end is undefined.\<close>

fun mem_diff_loop :: "nat \<Rightarrow> byte list \<Rightarrow> byte list \<Rightarrow> nat \<Rightarrow> nat option outcome" where
  "mem_diff_loop i a b 0 = Ok None"
| "mem_diff_loop i a b (Suc n) =
     (if length a \<le> i \<or> length b \<le> i then Undef
      else if a ! i \<noteq> b ! i then Ok (Some i)
      else mem_diff_loop (Suc i) a b n)"

datatype mem_diff = SameMem | DiffAt nat | NullMem

text \<open>Equal pointers are given by \<open>same\<close>; they need not be read.\<close>

definition find_mem_diff :: "bool \<Rightarrow> byte list option \<Rightarrow> byte list option \<Rightarrow> nat \<Rightarrow> mem_diff outcome" where
  "find_mem_diff same a b n =
     (if same \<or> a = None \<and> b = None then Ok SameMem
      else case (a, b) of
             (Some x, Some y) \<Rightarrow>
               bind_outcome (mem_diff_loop 0 x y n) (\<lambda>d. Ok (case d of None \<Rightarrow> SameMem | Some i \<Rightarrow> DiffAt i))
           | _ \<Rightarrow> Ok NullMem)"

definition hex_digit :: "nat \<Rightarrow> char" where
  "hex_digit n = (if n < 10 then char_of (48 + n) else char_of (87 + n))"

definition show_hex :: "byte \<Rightarrow> string" where
  "show_hex b = ''0x'' @ [hex_digit (unat b div 16), hex_digit (unat b mod 16)]"

definition cmp_mem_at_loc ::
    "string \<Rightarrow> int \<Rightarrow> bool \<Rightarrow> byte list option \<Rightarrow> byte list option \<Rightarrow> nat \<Rightarrow> string option \<Rightarrow> tap \<Rightarrow> (int \<times> tap) outcome" where
  "cmp_mem_at_loc file line same got expected n fmt t =
     bind_outcome (find_mem_diff same got expected n)
       (\<lambda>diff.
          let test = (if diff = SameMem then 1 else 0);
              t = snd (vok_at_loc file line test fmt t);
              null = (\<lambda>p. if p = None then ''NULL'' else ''not NULL'') in
          Ok (test, case diff of
                SameMem \<Rightarrow> t
              | DiffAt i \<Rightarrow>
                  diag' (''    expected: '' @ show_hex (the expected ! i))
                    (diag' (''         got: '' @ show_hex (the got ! i))
                      (diag' (''    Difference starts at offset '' @ show_int (int i)) t))
              | NullMem \<Rightarrow>
                  diag' (''    expected: '' @ null expected) (diag' (''         got: '' @ null got) t)))"

definition exit_status :: "tap \<Rightarrow> int \<times> tap" where
  "exit_status t =
     (let (retval, t) =
        (if expected_tests t = NO_PLAN then (0, printf (''1..'' @ show_int (current_test t) @ [nl]) t)
         else if current_test t \<noteq> expected_tests t then
           (2, diag' (''Looks like you planned '' @ show_int (expected_tests t) @ '' test''
                      @ (if expected_tests t > 1 then ''s'' else '''') @ '' but ran ''
                      @ show_int (current_test t) @ ''.'') t)
         else (0, t)) in
      if failed_tests t \<noteq> 0 then
        (1, diag' (''Looks like you failed '' @ show_int (failed_tests t) @ '' test''
                   @ (if failed_tests t > 1 then ''s'' else '''') @ '' of ''
                   @ show_int (current_test t) @ '' run.'') t)
      else (retval, t))"

definition bail_out :: "string \<Rightarrow> tap \<Rightarrow> int run" where
  "bail_out mesg t = Exit 255 (printf (''Bail out!  '' @ mesg @ [nl]) t)"

fun skip_loop :: "nat \<Rightarrow> string \<Rightarrow> tap \<Rightarrow> tap" where
  "skip_loop 0 why t = t"
| "skip_loop (Suc n) why t =
     (let t = t\<lparr>current_test := current_test t + 1\<rparr>;
          t = printf (''ok '' @ show_int (current_test t) @ '' '') t in
      skip_loop n why (diag' (''skip '' @ why @ [nl]) t))"

definition tap_skip :: "int \<Rightarrow> string option \<Rightarrow> tap \<Rightarrow> tap" where
  "tap_skip n fmt t = skip_loop (nat n) (vstrdupf fmt) t"

definition tap_todo :: "string option \<Rightarrow> tap \<Rightarrow> tap" where
  "tap_todo fmt t = t\<lparr>todo_mesg := Some (vstrdupf fmt)\<rparr>"

definition tap_end_todo :: "tap \<Rightarrow> tap" where
  "tap_end_todo t = t\<lparr>todo_mesg := None\<rparr>"

text \<open>The shared flag is \<open>None\<close> until it is mapped; the first result is the previous value.\<close>

definition tap_test_died :: "int \<Rightarrow> int option \<Rightarrow> int \<times> int option" where
  "tap_test_died status test_died =
     (let test_died = (case test_died of None \<Rightarrow> 0 | Some d \<Rightarrow> d) in (test_died, Some status))"

text \<open>\<open>regcomp\<close> is the error of compiling the expression, if any; \<open>regexec\<close> the error of matching it.\<close>

definition like_at_loc ::
    "(string \<Rightarrow> string option) \<Rightarrow> (string \<Rightarrow> string \<Rightarrow> int) \<Rightarrow> bool \<Rightarrow> string \<Rightarrow> int \<Rightarrow> string \<Rightarrow> string \<Rightarrow> string option
     \<Rightarrow> tap \<Rightarrow> int run" where
  "like_at_loc regcomp regexec for_match file line got expected fmt t =
     (case regcomp expected of
        Some _ \<Rightarrow> Exit 255 t
      | None \<Rightarrow>
          let err = regexec expected got;
              test = (if for_match then (if err = 0 then 1 else 0) else err);
              t = snd (vok_at_loc file line test fmt t);
              verdict = (if for_match then ''    doesn'' @ [CHR 0x27] @ ''t match: '' else ''          matches: '') in
          Ret test (if test = 0
                    then diag' (verdict @ quoted expected) (diag' (''                   '' @ quoted got) t)
                    else t))"

subsection \<open>What the harness reports\<close>

lemma printf_fields [simp]:
  "expected_tests (printf s t) = expected_tests t" "failed_tests (printf s t) = failed_tests t"
  "current_test (printf s t) = current_test t" "todo_mesg (printf s t) = todo_mesg t"
  by (simp_all add: printf_def)

lemma diag_fields [simp]:
  "expected_tests (diag' s t) = expected_tests t" "failed_tests (diag' s t) = failed_tests t"
  "current_test (diag' s t) = current_test t" "todo_mesg (diag' s t) = todo_mesg t"
  by (simp_all add: diag'_def diag_def)

lemma diag_Some: "diag (Some s) t = (0, diag' s t)"
  by (simp add: diag'_def diag_def)

text \<open>One test moves the counters: it is numbered, and it counts as failed unless it is expected to fail.\<close>

definition counts :: "tap \<Rightarrow> int \<Rightarrow> tap \<Rightarrow> bool" where
  "counts t test t' \<longleftrightarrow> expected_tests t' = expected_tests t \<and> todo_mesg t' = todo_mesg t
     \<and> current_test t' = current_test t + 1
     \<and> failed_tests t' = failed_tests t + (if test = 0 \<and> todo_mesg t = None then 1 else 0)"

lemma vok_line_fields [simp]:
  "expected_tests (vok_line test name t) = expected_tests t" "failed_tests (vok_line test name t) = failed_tests t"
  "current_test (vok_line test name t) = current_test t + 1" "todo_mesg (vok_line test name t) = todo_mesg t"
  by (cases "todo_mesg t", simp_all add: vok_line_def Let_def)+

lemma vok_failed_fields [simp]:
  "expected_tests (vok_failed file line name t) = expected_tests t"
  "failed_tests (vok_failed file line name t) = failed_tests t + (if todo_mesg t = None then 1 else 0)"
  "current_test (vok_failed file line name t) = current_test t" "todo_mesg (vok_failed file line name t) = todo_mesg t"
  by (simp_all add: vok_failed_def Let_def)

lemma vok_counts: "vok_at_loc file line test fmt t = (r, t') \<Longrightarrow> r = test \<and> counts t test t'"
  by (auto simp: vok_at_loc_def counts_def Let_def)

lemma snd_vok_counts [simp]: "counts t test (snd (vok_at_loc file line test fmt t))"
  using vok_counts by (metis prod.collapse)

lemma counts_diag [simp]: "counts t test (diag' s t') = counts t test t'" "counts (diag' s t) test t' = counts t test t'"
  by (simp_all add: counts_def)

lemma checks_count:
  "ok_at_loc file line test fmt t = (r, t') \<Longrightarrow> counts t r t'"
  "is_at_loc file line got expected fmt t = (r, t') \<Longrightarrow> counts t r t'"
  "isnt_at_loc file line got expected fmt t = (r, t') \<Longrightarrow> counts t r t'"
  "cmp_ok_at_loc file line a op b fmt t = Ok (r, t') \<Longrightarrow> counts t r t'"
  "cmp_mem_at_loc file line same mgot mexpected n fmt t = Ok (r, t') \<Longrightarrow> counts t r t'"
  "like_at_loc rc re m file line sgot sexpected fmt t = Ret r t' \<Longrightarrow> counts t r t'"
proof -
  show "ok_at_loc file line test fmt t = (r, t') \<Longrightarrow> counts t r t'" by (auto simp: ok_at_loc_def)
  show "is_at_loc file line got expected fmt t = (r, t') \<Longrightarrow> counts t r t'"
    by (auto simp: is_at_loc_def Let_def simp del: append.simps split: if_splits)
  show "isnt_at_loc file line got expected fmt t = (r, t') \<Longrightarrow> counts t r t'"
    by (auto simp: isnt_at_loc_def Let_def simp del: append.simps split: if_splits)
  have un: "counts t x (snd (vok_at_loc file line x fmt (diag' s t)))" for s x
    using snd_vok_counts [of "diag' s t"] by (simp del: snd_vok_counts)
  show "cmp_ok_at_loc file line a op b fmt t = Ok (r, t') \<Longrightarrow> counts t r t'"
    by (cases "cmp_op a op b") (auto simp: cmp_ok_at_loc_def Let_def outcome_simps diag_Some un simp del: append.simps split: if_splits)
  show "counts t r t'" if "cmp_mem_at_loc file line same mgot mexpected n fmt t = Ok (r, t')"
  proof (cases "find_mem_diff same mgot mexpected n")
    case (Ok d)
    with that show ?thesis by (cases d) (auto simp: cmp_mem_at_loc_def Let_def outcome_simps simp del: append.simps)
  qed (use that in \<open>simp_all add: cmp_mem_at_loc_def\<close>)
  show "like_at_loc rc re m file line sgot sexpected fmt t = Ret r t' \<Longrightarrow> counts t r t'"
    by (auto simp: like_at_loc_def Let_def simp del: append.simps split: option.splits if_splits)
qed

lemma skip_loop_fields:
  "expected_tests (skip_loop n why t) = expected_tests t \<and> failed_tests (skip_loop n why t) = failed_tests t
   \<and> current_test (skip_loop n why t) = current_test t + int n \<and> todo_mesg (skip_loop n why t) = todo_mesg t"
  by (induction n arbitrary: t) (simp_all add: Let_def)

text \<open>
  The runs of a test program: a plan or none, then checks, skipped tests, and sections of tests that
  are expected to fail. The indices are the plan, the number of tests and the number that failed outside
  such sections.
\<close>

inductive tap_run :: "tap \<Rightarrow> int \<Rightarrow> nat \<Rightarrow> nat \<Rightarrow> bool" where
  run_no_plan: "tap_run tap_init NO_PLAN 0 0"
| run_plan: "tap_plan n fmt tap_init = Ret () t \<Longrightarrow> tap_run t n 0 0"
| run_ok: "tap_run t p n f \<Longrightarrow> ok_at_loc file line test fmt t = (r, t') \<Longrightarrow>
    tap_run t' p (n + 1) (f + (if r = 0 \<and> todo_mesg t = None then 1 else 0))"
| run_is: "tap_run t p n f \<Longrightarrow> is_at_loc file line got expected fmt t = (r, t') \<Longrightarrow>
    tap_run t' p (n + 1) (f + (if r = 0 \<and> todo_mesg t = None then 1 else 0))"
| run_isnt: "tap_run t p n f \<Longrightarrow> isnt_at_loc file line got expected fmt t = (r, t') \<Longrightarrow>
    tap_run t' p (n + 1) (f + (if r = 0 \<and> todo_mesg t = None then 1 else 0))"
| run_cmp: "tap_run t p n f \<Longrightarrow> cmp_ok_at_loc file line a op b fmt t = Ok (r, t') \<Longrightarrow>
    tap_run t' p (n + 1) (f + (if r = 0 \<and> todo_mesg t = None then 1 else 0))"
| run_mem: "tap_run t p n f \<Longrightarrow> cmp_mem_at_loc file line same mgot mexpected k fmt t = Ok (r, t') \<Longrightarrow>
    tap_run t' p (n + 1) (f + (if r = 0 \<and> todo_mesg t = None then 1 else 0))"
| run_like: "tap_run t p n f \<Longrightarrow> like_at_loc rc re m file line sgot sexpected fmt t = Ret r t' \<Longrightarrow>
    tap_run t' p (n + 1) (f + (if r = 0 \<and> todo_mesg t = None then 1 else 0))"
| run_diag: "tap_run t p n f \<Longrightarrow> tap_run (snd (diag fmt t)) p n f"
| run_skip: "tap_run t p n f \<Longrightarrow> tap_run (tap_skip k fmt t) p (n + nat k) f"
| run_todo: "tap_run t p n f \<Longrightarrow> tap_run (tap_todo fmt t) p n f"
| run_end_todo: "tap_run t p n f \<Longrightarrow> tap_run (tap_end_todo t) p n f"

lemma tap_run_counters:
  "tap_run t p n f \<Longrightarrow> expected_tests t = p \<and> current_test t = int n \<and> failed_tests t = int f"
proof (induction rule: tap_run.induct)
  case (run_plan n fmt t)
  then show ?case by (auto simp: tap_plan_def tap_init_def Let_def split: if_splits)
next
  case (run_ok t p n f _ _ _ _ r t')
  with checks_count(1) [OF run_ok.hyps(2)] show ?case by (auto simp: counts_def)
next
  case (run_is t p n f _ _ _ _ _ r t')
  with checks_count(2) [OF run_is.hyps(2)] show ?case by (auto simp: counts_def)
next
  case (run_isnt t p n f _ _ _ _ _ r t')
  with checks_count(3) [OF run_isnt.hyps(2)] show ?case by (auto simp: counts_def)
next
  case (run_cmp t p n f _ _ _ _ _ _ r t')
  with checks_count(4) [OF run_cmp.hyps(2)] show ?case by (auto simp: counts_def)
next
  case (run_mem t p n f _ _ _ _ _ _ _ r t')
  with checks_count(5) [OF run_mem.hyps(2)] show ?case by (auto simp: counts_def)
next
  case (run_like t p n f _ _ _ _ _ _ _ _ r t')
  with checks_count(6) [OF run_like.hyps(2)] show ?case by (auto simp: counts_def)
next
  case (run_diag t p n f fmt)
  then show ?case by (cases fmt) (simp_all add: diag_def)
next
  case (run_skip t p n f k fmt)
  then show ?case by (simp add: tap_skip_def skip_loop_fields)
qed (simp_all add: tap_init_def tap_todo_def tap_end_todo_def)

text \<open>
  C27. A test program that ends with \<^verbatim>\<open>exit_status\<close> exits with 0 exactly when no test failed, other than
  those expected to fail, and the number of tests run is the one planned (if there was a plan); with a
  failure it exits with 1, and with the wrong number of tests alone with 2.
\<close>

theorem tap_exit_status_correct:
  assumes "tap_run t p n f"
  shows "fst (exit_status t) = (if f \<noteq> 0 then 1 else if p \<noteq> NO_PLAN \<and> p \<noteq> int n then 2 else 0)"
  using tap_run_counters [OF assms] by (auto simp: exit_status_def)

theorem tap_exit_status_correct_witness:
  "\<exists>t. tap_run t 2 2 1 \<and> fst (exit_status t) = 1"
proof -
  have "\<exists>t1. tap_plan 2 None tap_init = Ret () t1" by (simp add: tap_plan_def NO_PLAN_def SKIP_ALL_def Let_def)
  then obtain t1 where t1: "tap_plan 2 None tap_init = Ret () t1" by blast
  then have todo: "todo_mesg t1 = None" by (auto simp: tap_plan_def tap_init_def Let_def split: if_splits)
  note r1 = run_plan [OF t1]
  obtain t2 where t2: "ok_at_loc ''x.c'' 3 1 (Some ''first'') t1 = (1, t2)" by (simp add: ok_at_loc_def)
  from vok_counts todo t2 have todo2: "todo_mesg t2 = None"
    using checks_count(1) [OF t2] by (simp add: counts_def)
  obtain t3 where t3: "ok_at_loc ''x.c'' 4 0 (Some ''second'') t2 = (0, t3)" by (simp add: ok_at_loc_def)
  have run: "tap_run t3 2 2 1" using run_ok [OF run_ok [OF r1 t2] t3] todo todo2 by (simp add: numeral_2_eq_2)
  from tap_exit_status_correct [OF run] run show ?thesis by auto
qed

end
