(* ===== verification/Pingpong.thy ===== *)
theory Pingpong
  imports Prelude
begin

text \<open>
  \<^verbatim>\<open>t/src/mpi_pingpong.c\<close>: two MPI processes pass a counter back and forth. MPI is not part of the
  repository; its messages between two ranks arrive in the order they were sent, so each direction is a
  queue. A state holds the loop counter of each process, what is in flight, what process 0 logged,
  whether a process has exited because it received the wrong counter, and whether the behaviour has become
  undefined: the loop bound \<^verbatim>\<open>limit*2\<close> is computed in an \<^verbatim>\<open>int\<close>, which overflows from a count of \<^verbatim>\<open>2^30\<close> on.
\<close>

record pingpong =
  pp_count :: "bool \<Rightarrow> nat"
  in_flight :: "bool \<Rightarrow> nat list"
  completed :: "nat list"
  bad_data :: bool
  overflowed :: bool

text \<open>The processes are \<open>False\<close> (rank 0) and \<open>True\<close> (rank 1); \<open>in_flight p\<close> is what was sent by \<open>p\<close>.\<close>

definition rank_of :: "bool \<Rightarrow> nat" where
  "rank_of p = (if p then 1 else 0)"

definition pp_init :: pingpong where
  "pp_init = \<lparr>pp_count = (\<lambda>_. 0), in_flight = (\<lambda>_. []), completed = [], bad_data = False, overflowed = False\<rparr>"

definition pp_log :: "bool \<Rightarrow> pingpong \<Rightarrow> pingpong" where
  "pp_log p s =
     (if \<not> p \<and> pp_count s p mod 2 = 1 then s\<lparr>completed := completed s @ [pp_count s p div 2]\<rparr> else s)"

definition pp_next :: "bool \<Rightarrow> pingpong \<Rightarrow> pingpong" where
  "pp_next p s = s\<lparr>pp_count := (pp_count s)(p := pp_count s p + 1)\<rparr>"

definition my_turn :: "bool \<Rightarrow> pingpong \<Rightarrow> bool" where
  "my_turn p s \<longleftrightarrow> pp_count s p mod 2 = rank_of p"

text \<open>The body of the loop at process \<open>p\<close>: \<open>None\<close> while it waits for a message.\<close>

definition pp_body :: "bool \<Rightarrow> pingpong \<Rightarrow> pingpong option" where
  "pp_body p s =
     (if my_turn p s then
        Some (pp_next p (pp_log p (s\<lparr>in_flight := (in_flight s)(p := in_flight s p @ [pp_count s p])\<rparr>)))
      else case in_flight s (\<not> p) of
             [] \<Rightarrow> None
           | ncount # rest \<Rightarrow>
               let s = s\<lparr>in_flight := (in_flight s)((\<not> p) := rest)\<rparr> in
               if ncount \<noteq> pp_count s p then Some (s\<lparr>bad_data := True\<rparr>)
               else Some (pp_next p (pp_log p s)))"

text \<open>
  A process that evaluates the loop condition: undefined when \<^verbatim>\<open>limit*2\<close> does not fit, and otherwise the
  body while its counter is below the bound.
\<close>

inductive pp_step :: "nat \<Rightarrow> pingpong \<Rightarrow> pingpong \<Rightarrow> bool" for limit where
  pp_move: "\<not> bad_data s \<Longrightarrow> \<not> overflowed s \<Longrightarrow> int limit * 2 \<le> int_max \<Longrightarrow> pp_count s p < limit * 2 \<Longrightarrow>
    pp_body p s = Some s' \<Longrightarrow> pp_step limit s s'"
| pp_overflow: "\<not> bad_data s \<Longrightarrow> \<not> overflowed s \<Longrightarrow> int_max < int limit * 2 \<Longrightarrow>
    pp_step limit s (s\<lparr>overflowed := True\<rparr>)"

inductive pp_run :: "nat \<Rightarrow> nat \<Rightarrow> pingpong \<Rightarrow> bool" for limit where
  pp_start: "pp_run limit 0 pp_init"
| pp_more: "pp_run limit n s \<Longrightarrow> pp_step limit s s' \<Longrightarrow> pp_run limit (Suc n) s'"

text \<open>
  What precedes the loop: the options are parsed, and the process exits (with the status given) unless
  the count is at least 1 and there are two processes. \<open>optindex\<close> is what parsing the options returned.
\<close>

definition pp_setup :: "bool \<Rightarrow> int \<Rightarrow> int \<Rightarrow> int \<Rightarrow> int \<Rightarrow> (int \<times> string) + nat" where
  "pp_setup optparse_ok optindex argc limit nprocs =
     (if \<not> optparse_ok then Inl (1, ''error setting up option parsing'')
      else if optindex < 0 then Inl (1, [])
      else if optindex \<noteq> argc then Inl (1, ''usage'')
      else if limit < 1 then Inl (1, ''count must be at least 1'')
      else if nprocs \<noteq> 2 then Inl (1, ''this program requires exactly 2 processes'')
      else Inr (nat limit))"

inductive_cases pp_stepE: "pp_step limit s s'"

lemma my_turn_parity [simp]: "my_turn False s \<longleftrightarrow> even (pp_count s False)" "my_turn True s \<longleftrightarrow> odd (pp_count s True)"
  by (simp_all add: my_turn_def rank_of_def odd_iff_mod_2_eq_one even_iff_mod_2_eq_zero)

lemma pp_log_parity [simp]:
  "pp_log True s = s"
  "pp_log False s = (if odd (pp_count s False) then s\<lparr>completed := completed s @ [pp_count s False div 2]\<rparr> else s)"
  by (auto simp: pp_log_def)

text \<open>One process is at most one message ahead of the other.\<close>

definition pp_inv :: "pingpong \<Rightarrow> bool" where
  "pp_inv s \<longleftrightarrow> (let a = pp_count s False; b = pp_count s True in
     \<not> bad_data s \<and> \<not> overflowed s \<and> completed s = [0..<a div 2] \<and>
     (a = b \<and> in_flight s False = [] \<and> in_flight s True = []
      \<or> a = Suc b \<and> even b \<and> in_flight s False = [b] \<and> in_flight s True = []
      \<or> b = Suc a \<and> odd a \<and> in_flight s True = [a] \<and> in_flight s False = []))"

lemma pp_inv_init: "pp_inv pp_init"
  by (simp add: pp_inv_def pp_init_def)

lemma pp_inv_body:
  assumes inv: "pp_inv s" and body: "pp_body p s = Some s'"
  shows "pp_inv s' \<and> pp_count s' False + pp_count s' True = Suc (pp_count s False + pp_count s True)"
proof -
  obtain a b where ab: "pp_count s False = a" "pp_count s True = b" by blast
  have inv': "\<not> bad_data s" "\<not> overflowed s" "completed s = [0..<a div 2]"
    and three: "a = b \<and> in_flight s False = [] \<and> in_flight s True = []
      \<or> a = Suc b \<and> even b \<and> in_flight s False = [b] \<and> in_flight s True = []
      \<or> b = Suc a \<and> odd a \<and> in_flight s True = [a] \<and> in_flight s False = []"
    using inv unfolding pp_inv_def Let_def ab by blast+
  from three body inv' show ?thesis
    by (elim disjE; cases p)
       (auto simp: pp_inv_def pp_body_def pp_next_def Let_def ab upt_Suc_append simp del: upt.simps split: if_splits)
qed

lemma pp_run_inv: "pp_run limit n s \<Longrightarrow> limit < 2 ^ 30 \<Longrightarrow> pp_inv s \<and> pp_count s False + pp_count s True = n
    \<and> pp_count s False \<le> limit * 2 \<and> pp_count s True \<le> limit * 2"
proof (induction rule: pp_run.induct)
  case pp_start
  then show ?case by (simp add: pp_inv_init) (simp add: pp_init_def)
next
  case (pp_more n s s')
  from pp_more.prems have "int limit * 2 \<le> int_max" by (simp add: int_max_def)
  with pp_more.hyps(2) obtain p where p: "pp_count s p < limit * 2" "pp_body p s = Some s'"
    by (auto elim: pp_stepE)
  have "pp_count s' q \<le> pp_count s q + (if q = p then 1 else 0)" for q
    using p(2) by (auto simp: pp_body_def pp_next_def pp_log_def Let_def split: if_splits list.splits)
  from this [of False] this [of True] pp_more.IH [OF pp_more.prems] pp_inv_body [OF _ p(2)] p(1) show ?case by (cases p) auto
qed

text \<open>Somebody can always move until both are done.\<close>

lemma pp_progress:
  assumes "pp_inv s" and "pp_count s False < limit * 2 \<or> pp_count s True < limit * 2"
    and "pp_count s False \<le> limit * 2" "pp_count s True \<le> limit * 2" and "limit < 2 ^ 30"
  shows "\<exists>s'. pp_step limit s s'"
proof -
  obtain a b where ab: "pp_count s False = a" "pp_count s True = b" by blast
  have fits: "int limit * 2 \<le> int_max" using assms(5) by (simp add: int_max_def)
  have ok: "\<not> bad_data s" "\<not> overflowed s"
    and three: "a = b \<and> in_flight s False = [] \<and> in_flight s True = []
      \<or> a = Suc b \<and> even b \<and> in_flight s False = [b] \<and> in_flight s True = []
      \<or> b = Suc a \<and> odd a \<and> in_flight s True = [a] \<and> in_flight s False = []"
    using assms(1) unfolding pp_inv_def Let_def ab by blast+
  have "a < limit * 2 \<and> pp_body False s \<noteq> None \<or> b < limit * 2 \<and> pp_body True s \<noteq> None"
    using three assms(2-4) unfolding ab
    by (elim disjE conjE) (cases "even b"; auto simp: pp_body_def Let_def ab)+
  then show ?thesis using ok ab fits by (auto intro: pp_move)
qed

text \<open>
  C26. For a count below \<^verbatim>\<open>2^30\<close>, so that \<^verbatim>\<open>limit*2\<close> fits an \<^verbatim>\<open>int\<close>: however the two processes are
  scheduled and however many messages MPI buffers, nothing overflows, no process ever receives a wrong
  counter, the run takes at most \<open>4 * limit\<close> steps, and when neither process can move both have finished
  and process 0 has logged every round trip once, in order.
\<close>

theorem pingpong_completes:
  assumes "pp_run limit n s" and "limit < 2 ^ 30"
  shows "\<not> bad_data s \<and> \<not> overflowed s \<and> n \<le> 4 * limit
     \<and> ((\<exists>s'. pp_step limit s s') \<or>
        n = 4 * limit \<and> pp_count s False = limit * 2 \<and> pp_count s True = limit * 2 \<and> completed s = [0..<limit])"
proof -
  have inv: "pp_inv s" "pp_count s False + pp_count s True = n" "pp_count s False \<le> limit * 2" "pp_count s True \<le> limit * 2"
    using pp_run_inv [OF assms] by auto
  show ?thesis
  proof (cases "\<exists>s'. pp_step limit s s'")
    case False
    with pp_progress [OF inv(1) _ inv(3,4) assms(2)]
    have "pp_count s False = limit * 2" "pp_count s True = limit * 2"
      using inv(3,4) by (metis le_neq_implies_less)+
    then show ?thesis using inv(1,2) by (simp add: pp_inv_def Let_def)
  qed (use inv in \<open>simp add: pp_inv_def Let_def\<close>)
qed

theorem pingpong_completes_witness: "\<exists>s. pp_run 1 1 s \<and> \<not> bad_data s \<and> \<not> overflowed s"
proof -
  have "\<exists>s. pp_body False pp_init = Some s" by (simp add: pp_body_def pp_init_def)
  then obtain s where s: "pp_body False pp_init = Some s" by blast
  have "pp_run 1 (Suc 0) s" using pp_more [OF pp_start pp_move [OF _ _ _ _ s]] by (simp add: pp_init_def int_max_def)
  with pingpong_completes [OF this] show ?thesis by auto
qed

text \<open>From a count of \<^verbatim>\<open>2^30\<close> on the first evaluation of the loop condition is undefined.\<close>

lemma pingpong_overflows: "2 ^ 30 \<le> limit \<Longrightarrow> \<exists>s. pp_run limit 1 s \<and> overflowed s"
  using pp_more [OF pp_start pp_overflow, of limit] by (force simp: pp_init_def int_max_def)

end
