(* ===== verification/Unsetenv.thy ===== *)
theory Unsetenv
  imports Prelude "HOL-Library.Sublist"
begin

text \<open>
  \<^verbatim>\<open>src/common/libutil/unsetenv_glob.c\<close>: removing the environment variables whose names match a shell
  pattern. The environment is the list of its entries, in order. \<^verbatim>\<open>unsetenv\<close> removes every entry of
  the name, and refuses an empty name or one with an equals sign. Pattern matching itself
  (\<^verbatim>\<open>fnmatch\<close> with no flags) is an argument; its result is a match, no match, or an error.
\<close>

type_synonym environ = "string list"

datatype fnm = FNM_MATCH | FNM_NOMATCH | FNM_ERROR

definition unsetenv :: "string \<Rightarrow> environ \<Rightarrow> errno + environ" where
  "unsetenv name env =
     (if name = [] \<or> CHR ''='' \<in> set name then Inl EINVAL
      else Inr (filter (\<lambda>e. \<not> prefix (name @ ''='') e) env))"

definition getenv :: "string \<Rightarrow> environ \<Rightarrow> string option" where
  "getenv name env =
     (case filter (prefix (name @ ''='')) env of [] \<Rightarrow> None | e # _ \<Rightarrow> Some (drop (length name + 1) e))"

text \<open>The copy of the string up to the delimiter; \<open>None\<close> when memory runs out.\<close>

definition split :: "bool \<Rightarrow> string \<Rightarrow> char \<Rightarrow> string option" where
  "split strdup_ok s delim = (if strdup_ok then Some (takeWhile (\<lambda>c. c \<noteq> delim) s) else None)"

definition unsetenv_glob_entry ::
    "(string \<Rightarrow> string \<Rightarrow> fnm) \<Rightarrow> bool \<Rightarrow> string \<Rightarrow> string \<Rightarrow> environ \<Rightarrow> (errno + nat) \<times> environ" where
  "unsetenv_glob_entry fnmatch strdup_ok entry pattern env =
     (case split strdup_ok entry CHR ''='' of
        None \<Rightarrow> (Inl ENOMEM, env)
      | Some name \<Rightarrow>
          (case fnmatch pattern name of
             FNM_ERROR \<Rightarrow> (Inl EINVAL, env)
           | FNM_NOMATCH \<Rightarrow> (Inr 0, env)
           | FNM_MATCH \<Rightarrow>
               (case unsetenv name env of
                  Inl e \<Rightarrow> (Inl e, env)
                | Inr env \<Rightarrow> (Inr 1, env))))"

fun unsetenv_glob_loop ::
    "(string \<Rightarrow> string \<Rightarrow> fnm) \<Rightarrow> bool \<Rightarrow> string list \<Rightarrow> string \<Rightarrow> nat \<Rightarrow> environ \<Rightarrow> (errno + nat) \<times> environ" where
  "unsetenv_glob_loop fnmatch strdup_ok [] pattern cnt env = (Inr cnt, env)"
| "unsetenv_glob_loop fnmatch strdup_ok (entry # entries) pattern cnt env =
     (case unsetenv_glob_entry fnmatch strdup_ok entry pattern env of
        (Inl e, env) \<Rightarrow> (Inl e, env)
      | (Inr rc, env) \<Rightarrow> unsetenv_glob_loop fnmatch strdup_ok entries pattern (cnt + rc) env)"

text \<open>The loop runs over a copy of the environment taken at the start.\<close>

definition unsetenv_glob ::
    "(string \<Rightarrow> string \<Rightarrow> fnm) \<Rightarrow> bool \<Rightarrow> bool \<Rightarrow> string option \<Rightarrow> environ \<Rightarrow> (errno + nat) \<times> environ" where
  "unsetenv_glob fnmatch argz_ok strdup_ok patternp env =
     (case patternp of
        None \<Rightarrow> (Inl EINVAL, env)
      | Some pattern \<Rightarrow>
          if \<not> argz_ok then (Inl ENOMEM, env)
          else unsetenv_glob_loop fnmatch strdup_ok env pattern 0 env)"

subsection \<open>Correctness\<close>

definition env_ok :: "environ \<Rightarrow> bool" where
  "env_ok env \<longleftrightarrow> list_all (\<lambda>e. CHR ''='' \<in> set e \<and> e \<noteq> [] \<and> hd e \<noteq> CHR ''='') env"

abbreviation name_of :: "string \<Rightarrow> string" where
  "name_of e \<equiv> takeWhile (\<lambda>c. c \<noteq> CHR ''='') e"

lemma name_of_entry:
  assumes "CHR ''='' \<in> set e"
  shows "prefix (n @ ''='') e \<and> CHR ''='' \<notin> set n \<longleftrightarrow> name_of e = n"
proof
  assume "prefix (n @ ''='') e \<and> CHR ''='' \<notin> set n"
  then obtain r where "e = n @ ''='' @ r" "CHR ''='' \<notin> set n" by (auto simp: prefix_def)
  then show "name_of e = n" by (auto simp: takeWhile_append)
next
  assume n: "name_of e = n"
  have "dropWhile (\<lambda>c. c \<noteq> CHR ''='') e \<noteq> []" using assms by (auto simp: dropWhile_eq_Nil_conv)
  then obtain c r where "dropWhile (\<lambda>c. c \<noteq> CHR ''='') e = c # r" by (meson neq_Nil_conv)
  then have "e = n @ ''='' @ r" using n by (simp add: dropWhile_eq_Cons_conv)
  then have "prefix (n @ ''='') e" by (simp add: prefix_def)
  moreover have "CHR ''='' \<notin> set n" using n by (auto dest: set_takeWhileD)
  ultimately show "prefix (n @ ''='') e \<and> CHR ''='' \<notin> set n" by simp
qed

lemma unsetenv_eq:
  assumes "env_ok env" "n \<noteq> []" "CHR ''='' \<notin> set n"
  shows "unsetenv n env = Inr (filter (\<lambda>e. name_of e \<noteq> n) env)"
proof -
  have "filter (\<lambda>e. \<not> prefix (n @ ''='') e) env = filter (\<lambda>e. name_of e \<noteq> n) env"
    using assms name_of_entry [of _ n] by (intro filter_cong) (auto simp: env_ok_def list_all_iff)
  then show ?thesis using assms by (simp add: unsetenv_def)
qed

lemma env_ok_filter: "env_ok env \<Longrightarrow> env_ok (filter P env)"
  by (auto simp: env_ok_def list_all_iff)

lemma unsetenv_glob_loop_eq:
  assumes "\<And>n. fnmatch pattern n \<noteq> FNM_ERROR" and "env_ok todo" "env_ok env"
  shows "unsetenv_glob_loop fnmatch True todo pattern cnt env =
    (Inr (cnt + length (filter (\<lambda>e. fnmatch pattern (name_of e) = FNM_MATCH) todo)),
     filter (\<lambda>e. \<not> (fnmatch pattern (name_of e) = FNM_MATCH \<and> name_of e \<in> name_of ` set todo)) env)"
  using assms(2,3)
proof (induction todo arbitrary: cnt env)
  case Nil
  then show ?case by simp
next
  case (Cons e todo)
  have e: "name_of e \<noteq> []" "CHR ''='' \<notin> set (name_of e)" "env_ok todo"
    using Cons.prems(1) by (cases e; auto simp: env_ok_def dest: set_takeWhileD)+
  show ?case
  proof (cases "fnmatch pattern (name_of e)")
    case FNM_MATCH
    have "filter P (filter (\<lambda>x. name_of x \<noteq> name_of e) env) = filter (\<lambda>x. name_of x \<noteq> name_of e \<and> P x) env" for P
      by simp
    then show ?thesis using FNM_MATCH e unsetenv_eq [OF Cons.prems(2) e(1,2)]
        Cons.IH [OF e(3) env_ok_filter [OF Cons.prems(2)], of "cnt + 1" "\<lambda>x. name_of x \<noteq> name_of e"]
      by (auto simp: unsetenv_glob_entry_def split_def intro!: filter_cong)
  next
    case FNM_NOMATCH
    then show ?thesis using Cons.IH [OF e(3) Cons.prems(2), of cnt]
      by (auto simp: unsetenv_glob_entry_def split_def intro!: filter_cong)
  next
    case FNM_ERROR
    then show ?thesis using assms(1) by blast
  qed
qed

lemma unsetenv_glob_eq:
  assumes "\<And>n. fnmatch pattern n \<noteq> FNM_ERROR" and "env_ok env"
  shows "unsetenv_glob fnmatch True True (Some pattern) env =
    (Inr (length (filter (\<lambda>e. fnmatch pattern (name_of e) = FNM_MATCH) env)),
     filter (\<lambda>e. fnmatch pattern (name_of e) \<noteq> FNM_MATCH) env)"
  using unsetenv_glob_loop_eq [of fnmatch pattern env env 0] assms
  by (auto simp: unsetenv_glob_def intro!: filter_cong)

text \<open>
  C24. With memory available and a valid pattern, exactly the variables whose names match are removed,
  the others stay in order, and the result is the number of matching entries.
\<close>

theorem unsetenv_glob_removes_matching:
  assumes "\<And>n. fnmatch pattern n \<noteq> FNM_ERROR" and "env_ok env"
  shows "unsetenv_glob fnmatch True True (Some pattern) env =
    (Inr (length (filter (\<lambda>e. fnmatch pattern (takeWhile (\<lambda>c. c \<noteq> CHR ''='') e) = FNM_MATCH) env)),
     filter (\<lambda>e. fnmatch pattern (takeWhile (\<lambda>c. c \<noteq> CHR ''='') e) \<noteq> FNM_MATCH) env)"
  using assms by (rule unsetenv_glob_eq)

text \<open>A matcher for literal characters and the star, for the pattern the client plugin uses.\<close>

fun star_match :: "string \<Rightarrow> string \<Rightarrow> bool" where
  "star_match [] s = (s = [])"
| "star_match (p # ps) [] = (p = CHR ''*'' \<and> star_match ps [])"
| "star_match (p # ps) (c # cs) =
     (if p = CHR ''*'' then star_match ps (c # cs) \<or> star_match (p # ps) cs
      else p = c \<and> star_match ps cs)"

definition star_fnmatch :: "string \<Rightarrow> string \<Rightarrow> fnm" where
  "star_fnmatch p s = (if star_match p s then FNM_MATCH else FNM_NOMATCH)"

lemma star_match_prefix:
  "CHR ''*'' \<notin> set p \<Longrightarrow> star_match (p @ ''*'') s \<longleftrightarrow> prefix p s"
proof (induction p arbitrary: s)
  case Nil
  have "star_match ''*'' s" for s by (induction s) auto
  then show ?case by simp
next
  case (Cons c p)
  then show ?case by (cases s) auto
qed

theorem unsetenv_glob_removes_matching_witness:
  "let env = [''PMIX_RANK=3'', ''PATH=/bin'', ''PMIX_NAMESPACE=f1''] in
   unsetenv_glob star_fnmatch True True (Some ''PMIX_*'') env
     = (Inr (length (filter (\<lambda>e. star_fnmatch ''PMIX_*'' (takeWhile (\<lambda>c. c \<noteq> CHR ''='') e) = FNM_MATCH) env)),
        [''PATH=/bin''])"
  unfolding Let_def
  by (subst unsetenv_glob_removes_matching) (auto simp: star_fnmatch_def env_ok_def)

end
