(* ===== verification/Upmi.thy ===== *)
theory Upmi
  imports Cstdio Unsetenv Codec
begin

text \<open>
  \<^verbatim>\<open>src/upmi/pmix.c\<close>: the client plugin through which flux uses a PMIx server. The PMIx client library,
  which is not part of the repository, is the record \<open>pmix_client\<close>: functions on a client state \<open>'s\<close>
  that return a status (0 is success). An operation gets its input arguments as a JSON object and
  returns 0 or -1, the output arguments it packed (if packing succeeded), and the new state: the
  client state, the global \<^verbatim>\<open>myproc\<close> and the environment.
\<close>

text \<open>
  The scopes of a key, and the arguments of the calls as the plugin passes them: the attributes are a
  list (a null pointer with count 0 is the empty list), the processes of a fence are \<open>None\<close> for a null
  pointer, which means all processes of the namespace.
\<close>

datatype pmix_scope = PMIX_LOCAL | PMIX_REMOTE | PMIX_GLOBAL

record 's pmix_client =
  PMIx_Init :: "'s \<Rightarrow> pmix_info_t list \<Rightarrow> int \<times> pmix_proc_t \<times> 's"
  PMIx_Put :: "'s \<Rightarrow> pmix_scope \<Rightarrow> string \<Rightarrow> pmix_value_t \<Rightarrow> int \<times> 's"
  PMIx_Get :: "'s \<Rightarrow> pmix_proc_t \<Rightarrow> string \<Rightarrow> pmix_info_t list \<Rightarrow> int \<times> pmix_value_t"
  PMIx_Commit :: "'s \<Rightarrow> int \<times> 's"
  PMIx_Fence :: "'s \<Rightarrow> pmix_proc_t list option \<Rightarrow> pmix_info_t list \<Rightarrow> int \<times> 's"
  PMIx_Finalize :: "'s \<Rightarrow> pmix_info_t list \<Rightarrow> int \<times> 's"
  PMIx_Error_string :: "int \<Rightarrow> string"

record 's upmi =
  client :: 's
  myproc :: pmix_proc_t
  env :: environ

definition PMIX_COLLECT_DATA :: string where "PMIX_COLLECT_DATA = ''pmix.collect''"
definition PMIX_JOB_SIZE :: string where "PMIX_JOB_SIZE = ''pmix.job.size''"

text \<open>The error message is cut to the 128 characters of the buffer.\<close>

definition setverror :: "'j lib \<Rightarrow> string \<Rightarrow> 'j option" where
  "setverror L message = json_pack L [(''errmsg'', PkS (snprintf 128 message))]"

definition seterror :: "'j lib \<Rightarrow> string \<Rightarrow> 's upmi \<Rightarrow> int \<times> 'j option \<times> 's upmi" where
  "seterror L message s = (- 1, setverror L message, s)"

definition op_put :: "'j lib \<Rightarrow> 's pmix_client \<Rightarrow> 'j \<Rightarrow> 's upmi \<Rightarrow> int \<times> 'j option \<times> 's upmi" where
  "op_put L C args s =
     (case json_unpack L args [(''key'', UpS), (''value'', UpS)] of
        Some [UvS key, UvS val] \<Rightarrow>
          (case PMIx_Put C (client s) PMIX_GLOBAL key (V_STRING (Some val)) of
             (rc, cl) \<Rightarrow>
               let s = s\<lparr>client := cl\<rparr> in
               if rc \<noteq> 0 then seterror L (''PMIx_Put: '' @ PMIx_Error_string C rc) s else (0, None, s))
      | _ \<Rightarrow> seterror L ''error unpacking put arguments'' s)"

definition op_get :: "'j lib \<Rightarrow> 's pmix_client \<Rightarrow> 'j \<Rightarrow> 's upmi \<Rightarrow> int \<times> 'j option \<times> 's upmi" where
  "op_get L C args s =
     (case json_unpack L args [(''key'', UpS), (''rank'', UpI)] of
        Some [UvS key, UvI rnk] \<Rightarrow>
          let proc = \<lparr>nspace = strlcpy_field (nspace (myproc s)) (PMIX_MAX_NSLEN + 1),
                      rank = (if sint rnk < 0 then PMIX_RANK_WILDCARD else rnk)\<rparr> in
          (case PMIx_Get C (client s) proc key [] of
             (rc, val) \<Rightarrow>
               if rc \<noteq> 0 then seterror L (''PMIx_Get: '' @ PMIx_Error_string C rc) s
               else (case val of
                       V_STRING (Some str) \<Rightarrow>
                         (case json_pack L [(''value'', PkS str)] of
                            None \<Rightarrow> (- 1, None, s)
                          | Some j \<Rightarrow> (0, Some j, s))
                     | _ \<Rightarrow> seterror L ''PMIx_Get: wrong value type'' s))
      | _ \<Rightarrow> seterror L ''error unpacking get arguments'' s)"

definition op_barrier :: "'j lib \<Rightarrow> 's pmix_client \<Rightarrow> 's upmi \<Rightarrow> int \<times> 'j option \<times> 's upmi" where
  "op_barrier L C s =
     (case PMIx_Commit C (client s) of
        (rc, cl) \<Rightarrow>
          let s = s\<lparr>client := cl\<rparr> in
          if rc \<noteq> 0 then seterror L (''PMIx_Commit: '' @ PMIx_Error_string C rc) s
          else
            (case PMIx_Fence C (client s) None
                    [Info (strlcpy_field PMIX_COLLECT_DATA (PMIX_MAX_KEYLEN + 1)) 0 (V_BOOL True)] of
               (rc, cl) \<Rightarrow>
                 let s = s\<lparr>client := cl\<rparr> in
                 if rc \<noteq> 0 then seterror L (''PMIx_Fence: '' @ PMIx_Error_string C rc) s else (0, None, s)))"

definition op_initialize :: "'j lib \<Rightarrow> 's pmix_client \<Rightarrow> 's upmi \<Rightarrow> int \<times> 'j option \<times> 's upmi" where
  "op_initialize L C s =
     (case PMIx_Init C (client s) [] of
        (rc, me, cl) \<Rightarrow>
          let s = s\<lparr>client := cl, myproc := me\<rparr> in
          if rc \<noteq> 0 then seterror L (''PMIx_Init: '' @ PMIx_Error_string C rc) s
          else
            let proc = \<lparr>nspace = strlcpy_field (nspace me) (PMIX_MAX_NSLEN + 1), rank = PMIX_RANK_WILDCARD\<rparr> in
            (case PMIx_Get C (client s) proc PMIX_JOB_SIZE [] of
               (rc, val) \<Rightarrow>
                 if rc \<noteq> 0 then seterror L (''PMIx_Get size: '' @ PMIx_Error_string C rc) s
                 else (case val of
                         V_UINT32 sz \<Rightarrow>
                           (case json_pack L [(''rank'', PkI (rank me)), (''name'', PkS (nspace me)), (''size'', PkI sz)] of
                              None \<Rightarrow> (- 1, None, s)
                            | Some j \<Rightarrow> (0, Some j, s))
                       | _ \<Rightarrow> seterror L ''PMIx_Get size: wrong type'' s)))"

text \<open>\<open>mem_ok\<close> says whether the copies of the environment can be allocated.\<close>

definition op_finalize ::
    "'j lib \<Rightarrow> 's pmix_client \<Rightarrow> (string \<Rightarrow> string \<Rightarrow> fnm) \<Rightarrow> bool \<Rightarrow> (errno \<Rightarrow> string) \<Rightarrow> 's upmi
     \<Rightarrow> int \<times> 'j option \<times> 's upmi" where
  "op_finalize L C fnmatch mem_ok strerror s =
     (case PMIx_Finalize C (client s) [] of
        (rc, cl) \<Rightarrow>
          let s = s\<lparr>client := cl\<rparr> in
          if rc \<noteq> 0 then seterror L (PMIx_Error_string C rc) s
          else (case unsetenv_glob fnmatch mem_ok mem_ok (Some ''PMIX_*'') (env s) of
                  (Inl e, en) \<Rightarrow> seterror L (''unsetenv PMIX_*: '' @ strerror e) (s\<lparr>env := en\<rparr>)
                | (Inr _, en) \<Rightarrow> (0, None, s\<lparr>env := en\<rparr>)))"

definition op_preinit :: "'j lib \<Rightarrow> 's upmi \<Rightarrow> int \<times> 'j option \<times> 's upmi" where
  "op_preinit L s =
     (if getenv ''PMIX_SERVER_URI'' (env s) = None \<and> getenv ''PMIX_SERVER_URI2'' (env s) = None
      then seterror L ''PMIX_SERVER_URI* not found in environment'' s
      else (0, None, s))"

datatype upmi_op = Op_put | Op_get | Op_barrier | Op_initialize | Op_finalize | Op_preinit

definition optab :: "(string \<times> upmi_op) list" where
  "optab = [(''upmi.put'', Op_put), (''upmi.get'', Op_get), (''upmi.barrier'', Op_barrier),
            (''upmi.initialize'', Op_initialize), (''upmi.finalize'', Op_finalize), (''upmi.preinit'', Op_preinit)]"

text \<open>Registration of the table under the plugin's name.\<close>

definition upmi_plugin_init :: "(string \<Rightarrow> (string \<times> upmi_op) list \<Rightarrow> bool) \<Rightarrow> int" where
  "upmi_plugin_init register = (if register ''pmix'' optab then 0 else - 1)"

subsection \<open>What the PMIx client library promises\<close>

text \<open>
  A key put globally by a process, committed, and followed by a fence of the whole namespace that
  collects data can be read back
  from the process's own rank; the other calls do not change who the process is.
\<close>

locale pmix_kvs =
  fixes C :: "'s pmix_client" and self :: "'s \<Rightarrow> pmix_proc_t"
  assumes put_self: "PMIx_Put C s sc k v = (rc, s') \<Longrightarrow> self s' = self s"
    and put_commit_fence_get: "PMIx_Put C s PMIX_GLOBAL k v = (0, s1) \<Longrightarrow> PMIx_Commit C s1 = (0, s2) \<Longrightarrow>
        PMIx_Fence C s2 None [Info ''pmix.collect'' 0 (V_BOOL True)] = (0, s3) \<Longrightarrow>
        PMIx_Get C s3 (self s) k [] = (0, v)"

text \<open>An instance: a process alone in its job, with its pending and its published keys.\<close>

record kvs =
  kvs_self :: pmix_proc_t
  kvs_pending :: "(string \<times> pmix_value_t) list"
  kvs_store :: "(string \<times> pmix_value_t) list"

definition single_client :: "kvs pmix_client" where
  "single_client =
     \<lparr>PMIx_Init = (\<lambda>s is. (0, kvs_self s, s)),
      PMIx_Put = (\<lambda>s sc k v. (0, s\<lparr>kvs_pending := (k, v) # kvs_pending s\<rparr>)),
      PMIx_Get = (\<lambda>s p k is. case (if p = kvs_self s then map_of (kvs_store s) k else None) of
                            Some v \<Rightarrow> (0, v)
                          | None \<Rightarrow> if k = PMIX_JOB_SIZE then (0, V_UINT32 1) else (- 1, V_OTHER 0)),
      PMIx_Commit = (\<lambda>s. (0, s\<lparr>kvs_store := kvs_pending s @ kvs_store s\<rparr>)),
      PMIx_Fence = (\<lambda>s ps is. (0, s)),
      PMIx_Finalize = (\<lambda>s is. (0, s)),
      PMIx_Error_string = (\<lambda>rc. ''PMIX_ERROR'')\<rparr>"

interpretation single: pmix_kvs single_client kvs_self
  by unfold_locales (auto simp: single_client_def)

subsection \<open>Put, barrier, get\<close>

context pmix_kvs
begin

lemma put_barrier_get:
  assumes "jansson L"
    and put: "json_unpack L a [(''key'', UpS), (''value'', UpS)] = Some [UvS key, UvS val]"
    and get: "json_unpack L b [(''key'', UpS), (''rank'', UpI)] = Some [UvS key, UvI (rank (self (client s)))]"
    and me: "myproc s = self (client s)" "proc_ok (myproc s)" "0 \<le> sint (rank (myproc s))"
    and ops: "op_put L C a s = (0, o1, s1)" "op_barrier L C s1 = (0, o2, s2)" "json_pack L [(''value'', PkS val)] = Some j"
  shows "op_get L C b s2 = (0, Some j, s2) \<and> json_unpack L j [(''value'', UpS)] = Some [UvS val]"
proof -
  from ops(1) put obtain c1 where c1: "PMIx_Put C (client s) PMIX_GLOBAL key (V_STRING (Some val)) = (0, c1)" "s1 = s\<lparr>client := c1\<rparr>"
    by (auto simp: op_put_def seterror_def Let_def split: prod.splits if_splits)
  have collect: "strlcpy_field PMIX_COLLECT_DATA (PMIX_MAX_KEYLEN + 1) = ''pmix.collect''"
    by (simp add: PMIX_COLLECT_DATA_def PMIX_MAX_KEYLEN_def nul_free_def)
  from ops(2) obtain c2 c3 where c2: "PMIx_Commit C (client s1) = (0, c2)"
    and c3: "PMIx_Fence C c2 None [Info ''pmix.collect'' 0 (V_BOOL True)] = (0, c3)" and s2: "s2 = s1\<lparr>client := c3\<rparr>"
    unfolding op_barrier_def collect by (auto simp: seterror_def Let_def split: prod.splits if_splits)
  have "PMIx_Get C c3 (self (client s)) key [] = (0, V_STRING (Some val))"
    using put_commit_fence_get [OF c1(1) _ c3] c2 c1(2) by simp
  moreover have "strlcpy_field (nspace (myproc s)) (PMIX_MAX_NSLEN + 1) = nspace (myproc s)"
    using me(2) by (simp add: proc_ok_def)
  moreover obtain ns r where "self (client s) = \<lparr>nspace = ns, rank = r\<rparr>" by (cases "self (client s)")
  ultimately have "op_get L C b s2 = (0, Some j, s2)"
    using get me ops(3) c1(2) s2 by (simp add: op_get_def Let_def)
  moreover have "json_unpack L j [(''value'', UpS)] = Some [UvS val]"
    by (rule jansson.unpack_pack [OF assms(1) ops(3)]) auto
  ultimately show ?thesis by blast
qed

end

text \<open>
  What a process publishes through the plugin it reads back: after a successful put and barrier,
  a get of the same key for the process's own rank succeeds and its output arguments hold the value,
  for every PMIx library that keeps the promise of put, commit and fence. The plugin asks for that
  promise with the arguments it passes: the global scope, all processes, and the attribute to collect.
\<close>

theorem upmi_put_barrier_get:
  assumes "pmix_kvs C self" and "jansson L"
    and "json_unpack L a [(''key'', UpS), (''value'', UpS)] = Some [UvS key, UvS val]"
    and "json_unpack L b [(''key'', UpS), (''rank'', UpI)] = Some [UvS key, UvI (rank (self (client s)))]"
    and "myproc s = self (client s)" "proc_ok (myproc s)" "0 \<le> sint (rank (myproc s))"
    and "op_put L C a s = (0, o1, s1)" "op_barrier L C s1 = (0, o2, s2)" "json_pack L [(''value'', PkS val)] = Some j"
  shows "op_get L C b s2 = (0, Some j, s2) \<and> json_unpack L j [(''value'', UpS)] = Some [UvS val]"
  using assms by (rule pmix_kvs.put_barrier_get)

definition demo_upmi :: "kvs upmi" where
  "demo_upmi = \<lparr>client = \<lparr>kvs_self = \<lparr>nspace = ''f1'', rank = 0\<rparr>, kvs_pending = [], kvs_store = []\<rparr>,
     myproc = \<lparr>nspace = ''f1'', rank = 0\<rparr>, env = [''PMIX_SERVER_URI2=tcp4://x'', ''PATH=/bin'']\<rparr>"

theorem upmi_put_barrier_get_witness:
  "let s2 = snd (snd (op_barrier json_lib single_client (snd (snd (op_put json_lib single_client
        (JObj [(''key'', JStr ''k''), (''value'', JStr ''v'')]) demo_upmi)))))
   in op_get json_lib single_client (JObj [(''key'', JStr ''k''), (''rank'', JInt 0)]) s2
        = (0, Some (JObj [(''value'', JStr ''v'')]), s2)
      \<and> json_unpack json_lib (JObj [(''value'', JStr ''v'')]) [(''value'', UpS)] = Some [UvS ''v'']"
proof -
  let ?a = "JObj [(''key'', JStr ''k''), (''value'', JStr ''v'')]"
  let ?b = "JObj [(''key'', JStr ''k''), (''rank'', JInt 0)]"
  let ?s1 = "snd (snd (op_put json_lib single_client ?a demo_upmi))"
  let ?s2 = "snd (snd (op_barrier json_lib single_client ?s1))"
  show ?thesis unfolding Let_def
  proof (rule upmi_put_barrier_get [OF single.pmix_kvs_axioms jlib.jansson_axioms])
    show "op_put json_lib single_client ?a demo_upmi = (0, None, ?s1)" by code_simp
    show "op_barrier json_lib single_client ?s1 = (0, None, ?s2)" by code_simp
  qed (code_simp+)
qed

subsection \<open>Finalize\<close>

lemma prefix_takeWhile: "(\<And>c. c \<in> set p \<Longrightarrow> Q c) \<Longrightarrow> prefix p (takeWhile Q e) \<longleftrightarrow> prefix p e"
proof (induction p arbitrary: e)
  case (Cons c p)
  then show ?case by (cases e) auto
qed simp

lemma getenv_cleared:
  assumes "prefix p (name @ ''='')"
  shows "getenv name (filter (\<lambda>e. \<not> prefix p e) en) = None"
proof -
  have "filter (prefix (name @ ''='')) (filter (\<lambda>e. \<not> prefix p e) en) = []"
    using prefix_order.trans [OF assms] by (auto simp: filter_empty_conv)
  then show ?thesis unfolding getenv_def by (simp only: list.case)
qed

text \<open>
  A successful finalize leaves no environment variable whose name begins with \<^verbatim>\<open>PMIX_\<close> and keeps
  all others in order, so that a later probe of the environment fails.
\<close>

theorem upmi_finalize_clears_environment:
  assumes "\<And>n. fnmatch ''PMIX_*'' n = (if prefix ''PMIX_'' n then FNM_MATCH else FNM_NOMATCH)"
    and "env_ok (env s)" and "op_finalize L C fnmatch True strerror s = (0, out, s')"
  shows "env s' = filter (\<lambda>e. \<not> prefix ''PMIX_'' e) (env s) \<and> fst (op_preinit L s') = - 1"
proof -
  let ?keep = "filter (\<lambda>e. \<not> prefix ''PMIX_'' e) (env s)"
  have "unsetenv_glob fnmatch True True (Some ''PMIX_*'') (env s)
      = (Inr (length (filter (\<lambda>e. prefix ''PMIX_'' (name_of e)) (env s))),
         filter (\<lambda>e. \<not> prefix ''PMIX_'' (name_of e)) (env s))"
    using unsetenv_glob_eq [of fnmatch "''PMIX_*''" "env s"] assms(1,2) by simp
  moreover have "prefix ''PMIX_'' (name_of e) = prefix ''PMIX_'' e" for e by (rule prefix_takeWhile) auto
  ultimately have "env s' = ?keep"
    using assms(3) by (auto simp: op_finalize_def seterror_def Let_def split: prod.splits if_splits)
  moreover have "getenv ''PMIX_SERVER_URI'' ?keep = None" "getenv ''PMIX_SERVER_URI2'' ?keep = None"
    by (rule getenv_cleared; simp)+
  ultimately show ?thesis by (simp add: op_preinit_def seterror_def)
qed

theorem upmi_finalize_clears_environment_witness:
  "let r = op_finalize json_lib single_client star_fnmatch True (\<lambda>_. ''error'') demo_upmi in
   env (snd (snd r)) = [''PATH=/bin''] \<and> fst (op_preinit json_lib (snd (snd r))) = - 1"
proof -
  let ?r = "op_finalize json_lib single_client star_fnmatch True (\<lambda>_. ''error'') demo_upmi"
  have star: "star_fnmatch ''PMIX_*'' n = (if prefix ''PMIX_'' n then FNM_MATCH else FNM_NOMATCH)" for n
    using star_match_prefix [of "''PMIX_''" n] by (simp add: star_fnmatch_def)
  have "env_ok (env demo_upmi)" by code_simp
  moreover have "?r = (0, None, snd (snd ?r))" by code_simp
  ultimately have "env (snd (snd ?r)) = filter (\<lambda>e. \<not> prefix ''PMIX_'' e) (env demo_upmi)
      \<and> fst (op_preinit json_lib (snd (snd ?r))) = - 1"
    using upmi_finalize_clears_environment [of star_fnmatch, OF star] by blast
  then show ?thesis unfolding Let_def by (simp add: demo_upmi_def)
qed

end
