(* ===== verification/Test_Clients.thy ===== *)
theory Test_Clients
  imports Upmi Notify
begin

text \<open>
  The client programs of the test suite, \<^verbatim>\<open>t/src/*.c\<close>, with their logging (\<^verbatim>\<open>log.c\<close>) and timing
  (\<^verbatim>\<open>monotime.c\<close>) helpers. The PMIx client library is a parameter as in the PMI plugin, with the further
  calls the tests make. A program's state is the client library's state, the log prefix, what was written
  to standard error and standard output, and the calls the tests are about. \<open>Quit\<close> is the end of the
  process with its exit status. Formatted messages are the text the format produces; that \<^verbatim>\<open>vasprintf\<close>
  runs out of memory is not modelled. Elapsed times are shown as \<open>#\<close>.
\<close>

text \<open>The ranges of an event; null pointers to a callback and its argument are 0.\<close>

datatype pmix_range = PMIX_RANGE_LOCAL | PMIX_RANGE_NAMESPACE | PMIX_RANGE_SESSION | PMIX_RANGE_GLOBAL

record 's test_client = "'s pmix_client" +
  PMIx_Abort :: "'s \<Rightarrow> int \<Rightarrow> string option \<Rightarrow> pmix_proc_t list \<Rightarrow> 's"
  PMIx_Notify_event ::
    "'s \<Rightarrow> int \<Rightarrow> pmix_proc_t \<Rightarrow> pmix_range \<Rightarrow> pmix_info_t list \<Rightarrow> u64 \<Rightarrow> u64 \<Rightarrow> int \<times> 's"
  strerror :: "int \<Rightarrow> string"
  progname :: string

record 's cproc =
  pmix :: 's
  prog :: "string option"
  stderr :: string
  stdout :: string

datatype ('a, 's) cres = Cont 'a "'s cproc" | Quit int "'s cproc"

primrec cbind :: "('a, 's) cres \<Rightarrow> ('a \<Rightarrow> 's cproc \<Rightarrow> ('b, 's) cres) \<Rightarrow> ('b, 's) cres" where
  "cbind (Cont x s) f = f x s"
| "cbind (Quit rc s) f = Quit rc s"

subsection \<open>log.c\<close>

text \<open>The last component of a path, as POSIX \<^verbatim>\<open>basename\<close> gives it.\<close>

definition basename :: "string \<Rightarrow> string" where
  "basename p =
     (if p = [] then ''.''
      else let q = rev (dropWhile (\<lambda>c. c = CHR ''/'') (rev p)) in
           if q = [] then ''/'' else rev (takeWhile (\<lambda>c. c \<noteq> CHR ''/'') (rev q)))"

definition log_init :: "'s test_client \<Rightarrow> string option \<Rightarrow> 's cproc \<Rightarrow> 's cproc" where
  "log_init C p s = s\<lparr>prog := Some (case p of None \<Rightarrow> progname C | Some q \<Rightarrow> basename q)\<rparr>"

definition set_prog :: "'s test_client \<Rightarrow> 's cproc \<Rightarrow> 's cproc" where
  "set_prog C s = (if prog s = None then log_init C None s else s)"

definition verr :: "'s test_client \<Rightarrow> int \<Rightarrow> string \<Rightarrow> 's cproc \<Rightarrow> 's cproc" where
  "verr C errnum msg s =
     (let s = set_prog C s in
      s\<lparr>stderr := stderr s @ the (prog s) @ '': '' @ msg @ '': '' @ strerror C errnum @ newline\<rparr>)"

definition vlog :: "'s test_client \<Rightarrow> string \<Rightarrow> 's cproc \<Rightarrow> 's cproc" where
  "vlog C msg s = (let s = set_prog C s in s\<lparr>stderr := stderr s @ the (prog s) @ '': '' @ msg @ newline\<rparr>)"

definition log_err_exit :: "'s test_client \<Rightarrow> int \<Rightarrow> string \<Rightarrow> 's cproc \<Rightarrow> ('a, 's) cres" where
  "log_err_exit C errno msg s = Quit 1 (verr C errno msg s)"

definition log_err :: "'s test_client \<Rightarrow> int \<Rightarrow> string \<Rightarrow> 's cproc \<Rightarrow> 's cproc" where
  "log_err C errno msg s = verr C errno msg s"

definition log_errn_exit :: "'s test_client \<Rightarrow> int \<Rightarrow> string \<Rightarrow> 's cproc \<Rightarrow> ('a, 's) cres" where
  "log_errn_exit C errnum msg s = Quit 1 (verr C errnum msg s)"

definition log_errn :: "'s test_client \<Rightarrow> int \<Rightarrow> string \<Rightarrow> 's cproc \<Rightarrow> 's cproc" where
  "log_errn C errnum msg s = verr C errnum msg s"

definition log_msg_exit :: "'s test_client \<Rightarrow> string \<Rightarrow> 's cproc \<Rightarrow> ('a, 's) cres" where
  "log_msg_exit C msg s = Quit 1 (vlog C msg s)"

definition log_msg :: "'s test_client \<Rightarrow> string \<Rightarrow> 's cproc \<Rightarrow> 's cproc" where
  "log_msg C msg s = vlog C msg s"

subsection \<open>monotime.c\<close>

record timespec =
  tv_sec :: int
  tv_nsec :: int

definition ts_diff :: "timespec \<Rightarrow> timespec \<Rightarrow> timespec" where
  "ts_diff start stop =
     (if tv_nsec stop - tv_nsec start < 0
      then \<lparr>tv_sec = tv_sec stop - tv_sec start - 1, tv_nsec = 1000000000 + tv_nsec stop - tv_nsec start\<rparr>
      else \<lparr>tv_sec = tv_sec stop - tv_sec start, tv_nsec = tv_nsec stop - tv_nsec start\<rparr>)"

text \<open>In nanoseconds, without the rounding of \<^verbatim>\<open>double\<close>; the clock reading is an argument.\<close>

definition monotime_since :: "timespec \<Rightarrow> timespec \<Rightarrow> int" where
  "monotime_since ts t0 = (let d = ts_diff t0 ts in tv_sec d * 1000000000 + tv_nsec d)"

definition monotime_isset :: "timespec \<Rightarrow> bool" where
  "monotime_isset t \<longleftrightarrow> tv_sec t \<noteq> 0 \<or> tv_nsec t \<noteq> 0"

definition ts_ok :: "timespec \<Rightarrow> bool" where
  "ts_ok t \<longleftrightarrow> 0 \<le> tv_nsec t \<and> tv_nsec t < 1000000000"

lemma ts_diff_correct:
  assumes "ts_ok a" "ts_ok b"
  shows "ts_ok (ts_diff a b)"
    and "tv_sec (ts_diff a b) * 1000000000 + tv_nsec (ts_diff a b)
      = (tv_sec b * 1000000000 + tv_nsec b) - (tv_sec a * 1000000000 + tv_nsec a)"
  using assms by (auto simp: ts_diff_def ts_ok_def)

subsection \<open>What the programs share\<close>

text \<open>
  Options as the option parser gives them: the argument of a long option, if it was given. The parser,
  which is not part of the repository, has set up its table (\<open>optparse_ok\<close>) and returned the index of
  the first argument that is not an option.
\<close>

record cargs =
  optparse_ok :: bool
  optindex :: int
  argc :: int
  argv :: "string list"
  opt :: "string \<Rightarrow> string option"
  opt_int :: "string \<Rightarrow> int option"

definition get_int :: "cargs \<Rightarrow> string \<Rightarrow> int \<Rightarrow> int" where
  "get_int A name dflt = (case opt_int A name of None \<Rightarrow> dflt | Some i \<Rightarrow> i)"

text \<open>The number at the start of a text, as \<^verbatim>\<open>strtol\<close> and \<^verbatim>\<open>strtoul\<close> in base 10 read it (blanks and signs
  skipped, no digits read as 0); no argument of the tests is out of range.\<close>

definition strtol :: "string \<Rightarrow> int" where
  "strtol s =
     (let s = dropWhile (\<lambda>c. c = CHR '' '') s;
          neg = (s \<noteq> [] \<and> hd s = CHR ''-'');
          s = (if s \<noteq> [] \<and> (hd s = CHR ''-'' \<or> hd s = CHR ''+'') then tl s else s);
          n = int (read_nat (takeWhile is_digit s)) in
      if neg then - n else n)"

definition parse_args :: "'s test_client \<Rightarrow> cargs \<Rightarrow> int \<Rightarrow> 's cproc \<Rightarrow> (unit, 's) cres" where
  "parse_args C A free_args s =
     (if \<not> optparse_ok A then log_msg_exit C ''error setting up option parsing'' s
      else if optindex A < 0 then Quit 1 s
      else if optindex A \<noteq> argc A - free_args then Quit 1 (s\<lparr>stderr := stderr s @ ''usage'' @ newline\<rparr>)
      else Cont () s)"

definition show_proc :: "pmix_proc_t \<Rightarrow> string" where
  "show_proc p = nspace p @ ''.'' @ show_int (sint (rank p))"

definition rank0_msg :: "'s test_client \<Rightarrow> pmix_proc_t \<Rightarrow> string \<Rightarrow> 's cproc \<Rightarrow> 's cproc" where
  "rank0_msg C self msg s = (if rank self = 0 then log_msg C msg s else s)"

text \<open>Initialisation: the log prefix is the name of the process.\<close>

definition client_init :: "'s test_client \<Rightarrow> 's cproc \<Rightarrow> (pmix_proc_t, 's) cres" where
  "client_init C s =
     (case PMIx_Init C (pmix s) [] of
        (rc, self, st) \<Rightarrow>
          let s = s\<lparr>pmix := st\<rparr> in
          if rc \<noteq> 0 then log_msg_exit C (''PMIx_Init: '' @ PMIx_Error_string C rc) s
          else Cont self (log_init C (Some (snprintf 512 (show_proc self))) s))"

definition wildcard :: "pmix_proc_t \<Rightarrow> pmix_proc_t" where
  "wildcard self = \<lparr>nspace = strlcpy_field (nspace self) (PMIX_MAX_NSLEN + 1), rank = PMIX_RANK_WILDCARD\<rparr>"

definition client_size :: "'s test_client \<Rightarrow> pmix_proc_t \<Rightarrow> 's cproc \<Rightarrow> (unit, 's) cres" where
  "client_size C self s =
     (case PMIx_Get C (pmix s) (wildcard self) PMIX_JOB_SIZE [] of
        (rc, val) \<Rightarrow>
          if rc \<noteq> 0 then log_msg_exit C (''PMIx_Get '' @ PMIX_JOB_SIZE @ '': '' @ PMIx_Error_string C rc) s
          else Cont () (rank0_msg C self (''there are ''
                 @ show_int (case val of V_UINT32 n \<Rightarrow> sint n | _ \<Rightarrow> - 1) @ '' tasks'') s))"

definition client_finalize :: "'s test_client \<Rightarrow> 's cproc \<Rightarrow> (unit, 's) cres" where
  "client_finalize C s =
     (case PMIx_Finalize C (pmix s) [] of
        (rc, st) \<Rightarrow>
          let s = s\<lparr>pmix := st\<rparr> in
          if rc \<noteq> 0 then log_msg_exit C (''PMIx_Finalize: '' @ PMIx_Error_string C rc) s else Cont () s)"

subsection \<open>barrier.c\<close>

definition PMIX_COLLECT_GENERATED_JOB_INFO :: string where "PMIX_COLLECT_GENERATED_JOB_INFO = ''pmix.collect.gen''"
definition PMIX_TIMEOUT :: string where "PMIX_TIMEOUT = ''pmix.timeout''"

definition set_info_bool ::
    "'s test_client \<Rightarrow> string \<Rightarrow> u32 \<Rightarrow> string \<Rightarrow> 's cproc \<Rightarrow> pmix_info_t \<times> 's cproc" where
  "set_info_bool C name flags optarg s =
     (let val = (optarg \<noteq> ''false'') in
      (Info (strlcpy_field name (PMIX_MAX_KEYLEN + 1)) flags (V_BOOL val),
       log_msg C (''Setting '' @ name @ ''='' @ (if val then ''true'' else ''false'') @ '' flags='' @ show_int (sint flags)) s))"

text \<open>
  The value is tagged as an \<^verbatim>\<open>int\<close> but stored through the boolean member of the union, in a structure that
  was zeroed: what a reader finds (on a little-endian machine) is 1 or 0.
\<close>

definition set_info_int ::
    "'s test_client \<Rightarrow> string \<Rightarrow> u32 \<Rightarrow> int \<Rightarrow> 's cproc \<Rightarrow> pmix_info_t \<times> 's cproc" where
  "set_info_int C name flags optarg s =
     (Info (strlcpy_field name (PMIX_MAX_KEYLEN + 1)) flags (V_INT (if optarg \<noteq> 0 then 1 else 0)),
      log_msg C (''Setting '' @ name @ ''='' @ show_int optarg @ '' flags='' @ show_int (sint flags)) s)"

text \<open>A leading plus sign makes the attribute required.\<close>

definition split_plus :: "string \<Rightarrow> u32 \<times> string" where
  "split_plus arg = (if arg \<noteq> [] \<and> hd arg = CHR ''+'' then (PMIX_INFO_REQD, tl arg) else (0, arg))"

text \<open>One option of the list; a full array is an error. The error number is the argument \<open>errno\<close>.\<close>

definition info_opt ::
    "'s test_client \<Rightarrow> int \<Rightarrow> cargs \<Rightarrow> bool \<Rightarrow> nat \<Rightarrow> string
     \<Rightarrow> (u32 \<Rightarrow> string \<Rightarrow> 's cproc \<Rightarrow> pmix_info_t \<times> 's cproc) \<Rightarrow> pmix_info_t list \<Rightarrow> 's cproc
     \<Rightarrow> (pmix_info_t list, 's) cres" where
  "info_opt C errno A checked ninfo name set_info infos s =
     (case opt A name of
        None \<Rightarrow> Cont infos s
      | Some arg \<Rightarrow>
          (case split_plus arg of
             (flags, arg) \<Rightarrow>
               if checked \<and> length infos = ninfo then log_err_exit C errno ''too many attribute options'' s
               else (case set_info flags arg s of (entry, s) \<Rightarrow> Cont (infos @ [entry]) s)))"

definition parse_info_opts ::
    "'s test_client \<Rightarrow> int \<Rightarrow> cargs \<Rightarrow> nat \<Rightarrow> 's cproc \<Rightarrow> (pmix_info_t list, 's) cres" where
  "parse_info_opts C errno A ninfo s =
     cbind (cbind (cbind
       (info_opt C errno A True ninfo ''collect-data'' (set_info_bool C PMIX_COLLECT_DATA) [] s)
       (info_opt C errno A True ninfo ''collect-job-info'' (set_info_bool C PMIX_COLLECT_GENERATED_JOB_INFO)))
       (info_opt C errno A True ninfo ''timeout'' (\<lambda>flags arg. set_info_int C PMIX_TIMEOUT flags (strtol arg))))
       (info_opt C errno A False ninfo ''unknown'' (\<lambda>flags arg. set_info_int C ''pmix.unknown'' flags (strtol arg)))"

text \<open>
  The id set is a parameter: \<open>idset_decode\<close> gives its members in ascending order. Without the option the
  caller's null pointer, all processes of the namespace, stays as it is.
\<close>

definition parse_procs_opt ::
    "'s test_client \<Rightarrow> (string \<Rightarrow> u32 list option) \<Rightarrow> int \<Rightarrow> bool \<Rightarrow> cargs \<Rightarrow> pmix_proc_t \<Rightarrow> 's cproc
     \<Rightarrow> (pmix_proc_t list option, 's) cres" where
  "parse_procs_opt C idset_decode errno calloc_ok A self s =
     (case opt A ''procs'' of
        None \<Rightarrow> Cont None s
      | Some str \<Rightarrow>
          (case idset_decode str of
             None \<Rightarrow> log_err_exit C errno (''could not make an idset from '' @ [CHR 0x27] @ str @ [CHR 0x27]) s
           | Some ids \<Rightarrow>
               if \<not> calloc_ok then log_err_exit C errno ''allocating procs'' s
               else Cont (Some (map (\<lambda>i. \<lparr>nspace = snprintf (PMIX_MAX_NSLEN + 1) (nspace self), rank = i\<rparr>) ids)) s))"

definition barrier_main ::
    "'s test_client \<Rightarrow> (string \<Rightarrow> u32 list option) \<Rightarrow> int \<Rightarrow> bool \<Rightarrow> cargs \<Rightarrow> 's cproc \<Rightarrow> (unit, 's) cres" where
  "barrier_main C idset_decode errno calloc_ok A s =
     cbind (parse_args C A 0 s) (\<lambda>_ s.
     cbind (client_init C s) (\<lambda>self s.
     cbind (client_size C self (rank0_msg C self ''completed PMIx_Init.'' s)) (\<lambda>_ s.
     cbind (parse_info_opts C errno A 8 s) (\<lambda>entry s.
     cbind (parse_procs_opt C idset_decode errno calloc_ok A self s) (\<lambda>ps s.
       case PMIx_Fence C (pmix s) ps entry of
         (rc, st) \<Rightarrow>
           let s = s\<lparr>pmix := st\<rparr> in
           if rc \<noteq> 0 then log_msg_exit C (''PMIx_Fence: '' @ PMIx_Error_string C rc) s
           else
             cbind (client_finalize C (rank0_msg C self ''completed barrier in #s.'' s)) (\<lambda>_ s.
               Cont () (rank0_msg C self ''completed PMIx_Finalize.'' s)))))))"

subsection \<open>getkey.c\<close>

definition getkey ::
    "'s test_client \<Rightarrow> cargs \<Rightarrow> pmix_proc_t \<Rightarrow> pmix_proc_t \<Rightarrow> string \<Rightarrow> 's cproc \<Rightarrow> (unit, 's) cres" where
  "getkey C A self proc key s =
     (let prefix = (if opt A ''label-io'' \<noteq> None then snprintf 16 (show_int (sint (rank self)) @ '': '') else []);
          say = (\<lambda>text. Cont () (s\<lparr>stdout := stdout s @ prefix @ text @ newline\<rparr>)) in
      case PMIx_Get C (pmix s) proc key [] of
        (rc, val) \<Rightarrow>
          if rc \<noteq> 0 then log_msg_exit C (''PMIx_Get '' @ key @ '': '' @ PMIx_Error_string C rc) s
          else (case val of
                  V_BOOL b \<Rightarrow> say (if b then ''true'' else ''false'')
                | V_UINT32 n \<Rightarrow> say (show_nat (unat n))
                | V_UINT16 n \<Rightarrow> say (show_nat (unat n))
                | V_PROC_RANK n \<Rightarrow> say (show_nat (unat n))
                | V_STRING str \<Rightarrow> say (case str of None \<Rightarrow> ''(null)'' | Some str \<Rightarrow> str)
                | _ \<Rightarrow> log_msg_exit C ((''Error: I don'' @ [CHR 0x27] @ ''t know this type yet: '')
                         @ show_nat (unat (value_type val))) s))"

definition getkey_main :: "'s test_client \<Rightarrow> cargs \<Rightarrow> 's cproc \<Rightarrow> (unit, 's) cres" where
  "getkey_main C A s =
     cbind (parse_args C A 1 s) (\<lambda>_ s.
       let key = argv A ! nat (optindex A) in
       cbind (client_init C s) (\<lambda>self s.
         let proc = \<lparr>nspace = snprintf (PMIX_MAX_NSLEN + 1) (nspace self),
                     rank = (case opt A ''proc'' of
                               None \<Rightarrow> rank self
                             | Some str \<Rightarrow> if str = ''*'' then PMIX_RANK_WILDCARD else word_of_int (strtol str))\<rparr>;
             only = get_int A ''rank'' (- 1) in
         cbind (if only = - 1 \<or> word_of_int only = rank self then getkey C A self proc key s else Cont () s)
           (\<lambda>_ s. client_finalize C s)))"

subsection \<open>abort.c and notify.c\<close>

definition abort_main :: "'s test_client \<Rightarrow> cargs \<Rightarrow> 's cproc \<Rightarrow> (unit, 's) cres" where
  "abort_main C A s =
     cbind (parse_args C A 0 s) (\<lambda>_ s.
     cbind (client_init C s) (\<lambda>self s.
     cbind (client_size C self (rank0_msg C self ''completed PMIx_Init.'' s)) (\<lambda>_ s.
       let s = (if rank self = word_of_int (get_int A ''rank'' 0)
                then s\<lparr>pmix := PMIx_Abort C (pmix s) (get_int A ''status'' 1) (opt A ''message'') []\<rparr> else s) in
       cbind (client_finalize C s) (\<lambda>_ s. Cont () (rank0_msg C self ''completed PMIx_Finalize.'' s)))))"

definition event_infos :: "cargs \<Rightarrow> pmix_info_t list" where
  "event_infos A =
     (case opt A ''message'' of
        None \<Rightarrow> []
      | Some m \<Rightarrow> [Info (strlcpy_field PMIX_EVENT_TEXT_MESSAGE (PMIX_MAX_KEYLEN + 1)) 0 (V_STRING (Some m))])"

definition notify_main :: "'s test_client \<Rightarrow> cargs \<Rightarrow> 's cproc \<Rightarrow> (unit, 's) cres" where
  "notify_main C A s =
     cbind (parse_args C A 0 s) (\<lambda>_ s.
     cbind (client_init C s) (\<lambda>self s.
     cbind (client_size C self (rank0_msg C self ''completed PMIx_Init.'' s)) (\<lambda>_ s.
       case PMIx_Notify_event C (pmix s) (get_int A ''status'' 0) self PMIX_RANGE_GLOBAL (event_infos A) 0 0 of
         (rc, st) \<Rightarrow>
           let s = s\<lparr>pmix := st\<rparr> in
           if rc \<noteq> 0 then log_msg_exit C (''PMIx_Notify_event: '' @ PMIx_Error_string C rc) s
           else cbind (client_finalize C s) (\<lambda>_ s. Cont () (rank0_msg C self ''completed PMIx_Finalize.'' s)))))"

subsection \<open>bizcard.c\<close>

definition PMIX_HOSTNAME :: string where "PMIX_HOSTNAME = ''pmix.hname''"
definition PMIX_LOCAL_RANK :: string where "PMIX_LOCAL_RANK = ''pmix.lrank''"
definition PMIX_SERVER_RANK :: string where "PMIX_SERVER_RANK = ''pmix.srv.rank''"

text \<open>Fetching a key of a given type; \<open>pick\<close> selects the member of the union for that type.\<close>

definition get_typed ::
    "'s test_client \<Rightarrow> pmix_proc_t \<Rightarrow> string \<Rightarrow> (pmix_value_t \<Rightarrow> 'a option) \<Rightarrow> 's cproc \<Rightarrow> ('a, 's) cres" where
  "get_typed C proc key pick s =
     (case PMIx_Get C (pmix s) proc key [] of
        (rc, val) \<Rightarrow>
          if rc \<noteq> 0 then log_msg_exit C (''PMIx_Get '' @ key @ '': '' @ PMIx_Error_string C rc) s
          else (case pick val of
                  None \<Rightarrow> log_msg_exit C (''PMIx_Get '' @ key @ '': return unexpected type'') s
                | Some x \<Rightarrow> Cont x s))"

definition biz_card :: "pmix_proc_t \<Rightarrow> string \<Rightarrow> u16 \<Rightarrow> u32 \<Rightarrow> string" where
  "biz_card self hostname lrank srank =
     snprintf 2048 (
       ''+-------------------------------'' @ newline
       @ ''| Hello, my name is '' @ show_proc self @ newline
       @ ''|   I live on '' @ hostname @ newline
       @ ''|   My local rank is '' @ show_nat (unat lrank) @ newline
       @ ''|   My server rank is '' @ show_int (sint srank) @ newline
       @ ''+-------------------------------'' @ newline)"

text \<open>The loop over the arguments; \<open>strtoul_ok\<close> says whether reading a number sets no error.\<close>

fun print_cards ::
    "'s test_client \<Rightarrow> int \<Rightarrow> (string \<Rightarrow> bool) \<Rightarrow> pmix_proc_t \<Rightarrow> string list \<Rightarrow> 's cproc \<Rightarrow> (unit, 's) cres" where
  "print_cards C errno strtoul_ok self [] s = Cont () s"
| "print_cards C errno strtoul_ok self (arg # args) s =
     (let proc = \<lparr>nspace = strlcpy_field (nspace self) (PMIX_MAX_NSLEN + 1), rank = word_of_int (strtol arg)\<rparr>;
          name = ''PMIx_Get rank '' @ show_int (sint (rank proc)) @ '' card: '' in
      if \<not> strtoul_ok arg
      then log_err_exit C errno (''Error parsing argument '' @ [CHR 0x27] @ arg @ [CHR 0x27]) s
      else case PMIx_Get C (pmix s) proc ''card'' [] of
             (rc, val) \<Rightarrow>
               if rc \<noteq> 0 then log_msg_exit C (name @ PMIx_Error_string C rc) s
               else (case val of
                       V_STRING str \<Rightarrow>
                         print_cards C errno strtoul_ok self args
                           (s\<lparr>stderr := stderr s @ (case str of None \<Rightarrow> ''(null)'' | Some str \<Rightarrow> str)\<rparr>)
                     | _ \<Rightarrow> log_msg_exit C (name @ ''returned wrong type'') s))"

text \<open>Storing the card and exchanging the cards.\<close>

definition exchange_cards :: "'s test_client \<Rightarrow> pmix_proc_t \<Rightarrow> string \<Rightarrow> 's cproc \<Rightarrow> (unit, 's) cres" where
  "exchange_cards C self buf s =
     (case PMIx_Put C (pmix s) PMIX_GLOBAL ''card'' (V_STRING (Some buf)) of
        (rc, st) \<Rightarrow>
          let s = s\<lparr>pmix := st\<rparr> in
          if rc \<noteq> 0 then log_msg_exit C (''PMIx_Put card: '' @ PMIx_Error_string C rc) s
          else (case PMIx_Commit C (pmix s) of
             (rc, st) \<Rightarrow>
               let s = s\<lparr>pmix := st\<rparr> in
               if rc \<noteq> 0 then log_msg_exit C (''PMIx_Commit: '' @ PMIx_Error_string C rc) s
               else (case PMIx_Fence C (pmix s) None
                            [Info (strlcpy_field PMIX_COLLECT_DATA (PMIX_MAX_KEYLEN + 1)) 0 (V_BOOL True)] of
                  (rc, st) \<Rightarrow>
                    let s = s\<lparr>pmix := st\<rparr> in
                    if rc \<noteq> 0 then log_msg_exit C (''PMIx_Fence: '' @ PMIx_Error_string C rc) s
                    else Cont () (rank0_msg C self ''PMIx_Fence completed in #s'' s))))"

definition bizcard_main ::
    "'s test_client \<Rightarrow> int \<Rightarrow> (string \<Rightarrow> bool) \<Rightarrow> string list \<Rightarrow> 's cproc \<Rightarrow> (unit, 's) cres" where
  "bizcard_main C errno strtoul_ok args s =
     cbind (client_init C s) (\<lambda>self s.
     cbind (get_typed C (wildcard self) PMIX_JOB_SIZE (\<lambda>v. case v of V_UINT32 n \<Rightarrow> Some n | _ \<Rightarrow> None)
              (rank0_msg C self ''completed PMIx_Init.'' s)) (\<lambda>size s.
     cbind (get_typed C self PMIX_HOSTNAME (\<lambda>v. case v of V_STRING x \<Rightarrow> Some x | _ \<Rightarrow> None)
              (rank0_msg C self (''there are '' @ show_int (sint size) @ '' tasks'') s)) (\<lambda>host s.
     cbind (get_typed C self PMIX_LOCAL_RANK (\<lambda>v. case v of V_UINT16 n \<Rightarrow> Some n | _ \<Rightarrow> None) s) (\<lambda>lrank s.
     cbind (get_typed C self PMIX_SERVER_RANK (\<lambda>v. case v of V_PROC_RANK n \<Rightarrow> Some n | _ \<Rightarrow> None) s) (\<lambda>srank s.
       let hostname = snprintf 128 (case host of None \<Rightarrow> ''(null)'' | Some h \<Rightarrow> h) in
       cbind (exchange_cards C self (biz_card self hostname lrank srank) s) (\<lambda>_ s.
       cbind (if rank self = 0 then print_cards C errno strtoul_ok self args s else Cont () s) (\<lambda>_ s.
       cbind (client_finalize C s) (\<lambda>_ s.
         Cont () (rank0_msg C self ''completed PMIx_Finalize'' s)))))))))"

subsection \<open>The barrier test and the plugin\<close>

text \<open>The attributes the options ask for.\<close>

definition opt_info :: "cargs \<Rightarrow> string \<Rightarrow> string \<Rightarrow> (string \<Rightarrow> pmix_value_t) \<Rightarrow> pmix_info_t list" where
  "opt_info A name key val =
     (case opt A name of None \<Rightarrow> [] | Some arg \<Rightarrow> [Info key (fst (split_plus arg)) (val (snd (split_plus arg)))])"

definition barrier_infos :: "cargs \<Rightarrow> pmix_info_t list" where
  "barrier_infos A =
     opt_info A ''collect-data'' ''pmix.collect'' (\<lambda>a. V_BOOL (a \<noteq> ''false''))
     @ opt_info A ''collect-job-info'' ''pmix.collect.gen'' (\<lambda>a. V_BOOL (a \<noteq> ''false''))
     @ opt_info A ''timeout'' ''pmix.timeout'' (\<lambda>a. V_INT (if strtol a \<noteq> 0 then 1 else 0))
     @ opt_info A ''unknown'' ''pmix.unknown'' (\<lambda>a. V_INT (if strtol a \<noteq> 0 then 1 else 0))"

lemma info_opt_ok:
  assumes "length infos < ninfo" and "\<And>flags a s. fst (set_info flags a s) = Info key flags (val a)"
  shows "\<exists>s'. info_opt C errno A ch ninfo name set_info infos s = Cont (infos @ opt_info A name key val) s'"
proof (cases "opt A name")
  case (Some arg)
  obtain flags a where sp: "split_plus arg = (flags, a)" by (cases "split_plus arg")
  obtain s' where "set_info flags a s = (Info key flags (val a), s')" using assms(2) by (metis prod.collapse)
  with Some sp assms(1) show ?thesis by (simp add: info_opt_def opt_info_def)
qed (simp add: info_opt_def opt_info_def)

lemma opt_info_length: "length (opt_info A name key val) \<le> 1"
  by (simp add: opt_info_def split: option.split)

lemma set_info_fst:
  "key_ok name \<Longrightarrow> fst (set_info_bool C name flags a s) = Info name flags (V_BOOL (a \<noteq> ''false''))"
  "key_ok name \<Longrightarrow> fst (set_info_int C name flags n s) = Info name flags (V_INT (if n \<noteq> 0 then 1 else 0))"
  by (simp_all add: set_info_bool_def set_info_int_def key_ok_def Let_def del: append.simps)

lemma info_opt_bool:
  "length infos < ninfo \<Longrightarrow> key_ok key \<Longrightarrow>
   \<exists>s'. info_opt C errno A ch ninfo name (set_info_bool C key) infos s
     = Cont (infos @ opt_info A name key (\<lambda>a. V_BOOL (a \<noteq> ''false''))) s'"
  by (rule info_opt_ok) (simp_all only: set_info_fst)

lemma info_opt_int:
  "length infos < ninfo \<Longrightarrow> key_ok key \<Longrightarrow>
   \<exists>s'. info_opt C errno A ch ninfo name (\<lambda>flags arg. set_info_int C key flags (strtol arg)) infos s
     = Cont (infos @ opt_info A name key (\<lambda>a. V_INT (if strtol a \<noteq> 0 then 1 else 0))) s'"
  by (rule info_opt_ok) (simp_all only: set_info_fst)

lemma barrier_keys:
  "key_ok PMIX_COLLECT_DATA" "key_ok PMIX_COLLECT_GENERATED_JOB_INFO" "key_ok PMIX_TIMEOUT" "key_ok ''pmix.unknown''"
  by (simp_all add: key_ok_def nul_free_def PMIX_MAX_KEYLEN_def PMIX_COLLECT_DATA_def
      PMIX_COLLECT_GENERATED_JOB_INFO_def PMIX_TIMEOUT_def)

lemma parse_info_opts_eq: "\<exists>s'. parse_info_opts C errno A 8 s = Cont (barrier_infos A) s'"
proof -
  let ?b = "\<lambda>a. V_BOOL (a \<noteq> ''false'')" and ?i = "\<lambda>a. V_INT (if strtol a \<noteq> 0 then 1 else 0)"
  let ?l1 = "opt_info A ''collect-data'' PMIX_COLLECT_DATA ?b"
  let ?l2 = "?l1 @ opt_info A ''collect-job-info'' PMIX_COLLECT_GENERATED_JOB_INFO ?b"
  let ?l3 = "?l2 @ opt_info A ''timeout'' PMIX_TIMEOUT ?i"
  let ?l4 = "?l3 @ opt_info A ''unknown'' ''pmix.unknown'' ?i"
  have len: "length ?l1 < 8" "length ?l2 < 8" "length ?l3 < 8"
    using opt_info_length [of A "''collect-data''" PMIX_COLLECT_DATA ?b]
      opt_info_length [of A "''collect-job-info''" PMIX_COLLECT_GENERATED_JOB_INFO ?b]
      opt_info_length [of A "''timeout''" PMIX_TIMEOUT ?i] by simp_all
  obtain s1 where 1: "info_opt C errno A True 8 ''collect-data'' (set_info_bool C PMIX_COLLECT_DATA) [] s = Cont ?l1 s1"
    using info_opt_bool [of "[]" 8, OF _ barrier_keys(1)] by fastforce
  obtain s2 where 2: "info_opt C errno A True 8 ''collect-job-info'' (set_info_bool C PMIX_COLLECT_GENERATED_JOB_INFO) ?l1 s1
      = Cont ?l2 s2"
    using info_opt_bool [OF len(1) barrier_keys(2)] by blast
  obtain s3 where 3: "info_opt C errno A True 8 ''timeout'' (\<lambda>flags arg. set_info_int C PMIX_TIMEOUT flags (strtol arg)) ?l2 s2
      = Cont ?l3 s3"
    using info_opt_int [OF len(2) barrier_keys(3)] by blast
  obtain s4 where 4: "info_opt C errno A False 8 ''unknown'' (\<lambda>flags arg. set_info_int C ''pmix.unknown'' flags (strtol arg)) ?l3 s3
      = Cont ?l4 s4"
    using info_opt_int [OF len(3) barrier_keys(4)] by blast
  have "?l4 = barrier_infos A"
    by (simp add: barrier_infos_def PMIX_COLLECT_DATA_def PMIX_COLLECT_GENERATED_JOB_INFO_def PMIX_TIMEOUT_def)
  then show ?thesis using 1 2 3 4 by (simp add: parse_info_opts_def)
qed

definition required :: "cargs \<Rightarrow> string \<Rightarrow> bool" where
  "required A name \<longleftrightarrow> (case opt A name of None \<Rightarrow> False | Some arg \<Rightarrow> arg \<noteq> [] \<and> hd arg = CHR ''+'')"

lemma opt_info_attr_ok:
  "key \<noteq> ''pmix.collect'' \<Longrightarrow> list_all attr_ok (opt_info A name key val) \<longleftrightarrow> \<not> required A name"
  by (auto simp: opt_info_def attr_ok_def required_def split_plus_def PMIX_INFO_REQD_def split: option.split)

lemma barrier_infos_attr_ok:
  "list_all attr_ok (barrier_infos A) \<longleftrightarrow>
   \<not> required A ''collect-job-info'' \<and> \<not> required A ''timeout'' \<and> \<not> required A ''unknown''"
proof -
  have "list_all attr_ok (opt_info A ''collect-data'' ''pmix.collect'' (\<lambda>a. V_BOOL (a \<noteq> ''false'')))"
    by (simp add: opt_info_def attr_ok_def split: option.split)
  then show ?thesis by (simp add: barrier_infos_def opt_info_attr_ok)
qed

lemma barrier_infos_collect:
  "wants_collect (barrier_infos A) \<longleftrightarrow>
   (case opt A ''collect-data'' of None \<Rightarrow> False | Some arg \<Rightarrow> snd (split_plus arg) \<noteq> ''false'')"
  by (auto simp: barrier_infos_def wants_collect_def opt_info_def split: option.split)

text \<open>
  The attributes the barrier test puts together from its options are accepted by the plugin's fence
  exactly when none but the collection of data is marked as required, data is then collected exactly when
  the test asks for it, and otherwise the fence is refused with a bad parameter.
\<close>

theorem barrier_attributes_meet_fence:
  "\<exists>infos s'. parse_info_opts C errno A 8 s = Cont infos s'
     \<and> (if required A ''collect-job-info'' \<or> required A ''timeout'' \<or> required A ''unknown''
        then fst (parse_fence_attrs c infos) = PMIX_ERR_BAD_PARAM
        else fst (parse_fence_attrs c infos) = PMIX_SUCCESS
           \<and> collect (fst (snd (parse_fence_attrs c infos))) =
             (collect c \<or> (case opt A ''collect-data'' of None \<Rightarrow> False | Some arg \<Rightarrow> snd (split_plus arg) \<noteq> ''false'')))"
proof -
  obtain s' where s': "parse_info_opts C errno A 8 s = Cont (barrier_infos A) s'" using parse_info_opts_eq by blast
  show ?thesis
  proof (cases "list_all attr_ok (barrier_infos A)")
    case True
    with parse_fence_attrs_ok [OF this, of c] s' barrier_infos_attr_ok [of A] barrier_infos_collect [of A]
    show ?thesis by auto
  next
    case False
    with parse_fence_attrs_bad [OF this, of c] s' barrier_infos_attr_ok [of A] show ?thesis by auto
  qed
qed

text \<open>
  The timeout of the barrier test does not reach PMIx: \<^verbatim>\<open>--timeout=30\<close> is logged as 30 and stored as 1.
\<close>

theorem barrier_timeout_lost:
  "let A = \<lparr>optparse_ok = True, optindex = 1, argc = 1, argv = [''barrier''],
            opt = (\<lambda>name. if name = ''timeout'' then Some ''30'' else None), opt_int = (\<lambda>name. None)\<rparr> in
   (\<exists>s'. parse_info_opts C 0 A 8 s = Cont [Info ''pmix.timeout'' 0 (V_INT 1)] s')
   \<and> snd (set_info_int C PMIX_TIMEOUT 0 (strtol ''30'') s) = log_msg C ''Setting pmix.timeout=30 flags=0'' s"
proof -
  have n: "strtol ''30'' = 30" by code_simp
  have sh: "show_int 30 = ''30''" "show_int 0 = ''0''" by code_simp+
  show ?thesis
    unfolding Let_def
    using parse_info_opts_eq [of C 0 "\<lparr>optparse_ok = True, optindex = 1, argc = 1, argv = [''barrier''],
            opt = (\<lambda>name. if name = ''timeout'' then Some ''30'' else None), opt_int = (\<lambda>name. None)\<rparr>" s]
    by (simp add: n sh barrier_infos_def opt_info_def split_plus_def set_info_int_def PMIX_TIMEOUT_def)
qed

subsection \<open>Business cards\<close>

text \<open>
  A process that stored its card, committed and fenced prints exactly that card when asked for its own
  rank, whatever else the client library does.
\<close>

context pmix_kvs
begin

lemma bizcard_prints_card:
  fixes T :: "'s test_client"
  assumes "pmix_client.truncate T = C" and "exchange_cards T me buf s = Cont () s1"
    and "me = self (pmix s)" "proc_ok me" "strtol arg = uint (rank me)" "ok arg"
  shows "print_cards T errno ok me [arg] s1 = Cont () (s1\<lparr>stderr := stderr s1 @ buf\<rparr>)"
proof -
  have C: "PMIx_Put T = PMIx_Put C" "PMIx_Commit T = PMIx_Commit C" "PMIx_Fence T = PMIx_Fence C" "PMIx_Get T = PMIx_Get C"
    using assms(1) by (auto simp: pmix_client.truncate_def)
  have key: "strlcpy_field PMIX_COLLECT_DATA (PMIX_MAX_KEYLEN + 1) = ''pmix.collect''"
    by (simp add: PMIX_COLLECT_DATA_def PMIX_MAX_KEYLEN_def nul_free_def)
  from assms(2) obtain c1 c2 c3 where ops: "PMIx_Put C (pmix s) PMIX_GLOBAL ''card'' (V_STRING (Some buf)) = (0, c1)"
    "PMIx_Commit C c1 = (0, c2)" "PMIx_Fence C c2 None [Info ''pmix.collect'' 0 (V_BOOL True)] = (0, c3)" "pmix s1 = c3"
    unfolding exchange_cards_def C key
    by (auto simp: log_msg_exit_def rank0_msg_def log_msg_def vlog_def set_prog_def log_init_def Let_def simp del: append.simps split: prod.splits if_splits)
  have get: "PMIx_Get C (pmix s1) me ''card'' [] = (0, V_STRING (Some buf))"
    using put_commit_fence_get [OF ops(1-3)] ops(4) assms(3) by simp
  have "\<lparr>nspace = strlcpy_field (nspace me) (PMIX_MAX_NSLEN + 1), rank = word_of_int (strtol arg)\<rparr> = me"
    using assms(4,5) by (cases me) (simp add: proc_ok_def)
  then show ?thesis using get assms(6) by (simp add: C Let_def)
qed

end

end
