(* ===== verification/Spec2Isabelle.thy ===== *)
theory Spec2Isabelle
  imports Osu_Benchmarks Mpibench_Main Px_Main Tap Pingpong Test_Clients
begin

text \<open>
  A verification development for flux-pmix: the Flux shell plugin that serves PMIx to the tasks of a
  parallel job, the PMI client plugin, the small libraries both use, and the clients of its test suite.

  \<^bold>\<open>The program.\<close> Every node of a job runs a Flux shell, and every shell loads the plugin
  (\<^verbatim>\<open>src/shell/plugins\<close>). The plugin runs a PMIx server in a thread of its own. What the server asks of it
  (fence, abort, direct modex, event notification) is encoded as JSON and sent through a channel
  to the shell's thread, where a handler decodes and serves it. A fence enters an exchange with the other
  shells: data travels up a k-ary tree of shells, the root has everything, and the result travels down
  again. The PMI client plugin (\<^verbatim>\<open>src/upmi\<close>) lets a Flux broker use any PMIx server as its bootstrap.

  \<^bold>\<open>The theories\<close>, each over the files it names, bottom up:
  \<^item> \<open>Prelude\<close>: C types and outcomes, C strings, integer conversions. \<open>Cstdio\<close> and \<open>Argz\<close>: what the sources
    use of \<^verbatim>\<open>printf\<close> and of the C library's argz vectors.
  \<^item> \<open>Base64\<close> (\<^verbatim>\<open>libccan/ccan/base64\<close>): the codec with its tables, encoder and decoder loops. The
    decoder works on the caller's buffer, stores three bytes at a time as the code does, and a load or store outside
    a buffer is the error \<open>OVERRUN\<close>. Round trip, bounds, the pregenerated tables, other alphabets.
  \<^item> \<open>Strlcpy\<close> (\<^verbatim>\<open>libutil/strlcpy.c\<close>), \<open>Unsetenv\<close> (\<^verbatim>\<open>libutil/unsetenv_glob.c\<close>).
  \<^item> \<open>Jansson\<close>: the interface of the JSON library as a record of functions, its promises as the locales
    \<open>jansson\<close> and \<open>jansson_mem\<close>, interpreted on a model of JSON values. \<open>Pmix_Types\<close>: the PMIx data types.
  \<^item> \<open>Codec\<close> (\<^verbatim>\<open>codec.c\<close>): every encoder and decoder, with the heap blocks each allocates and frees. Round
    trips, what decoding untrusted JSON guarantees, the branches that are undefined or leak.
  \<^item> \<open>Kary\<close> and \<open>Exchange\<close> (\<^verbatim>\<open>exchange.c\<close>): tree arithmetic at 32 bits; one shell's sessions, requests,
    responses and exit callbacks as handlers that return the new state and the calls made, the destruction of
    the future of a pending request (\<open>FutureDestroyed\<close>) included. Histories of a shell under any failure of the
    calls it makes: callbacks exactly once, nothing undefined, no future that outlives its session.
  \<^item> \<open>Exchange_System\<close>: all shells of a job with the messages in flight, as a step relation. Every completed
    round has the data of all shells, no deadlock, and an exact bound on the number of steps.
  \<^item> \<open>Interthread\<close> (\<^verbatim>\<open>interthread.c\<close>): handler table, packing, sending, dispatching.
  \<^item> \<open>Fence\<close> (\<^verbatim>\<open>fence.c\<close>), \<open>Abort\<close> (\<^verbatim>\<open>abort.c\<close>), \<open>Dmodex\<close> (\<^verbatim>\<open>dmodex.c\<close>), \<open>Notify\<close> (\<^verbatim>\<open>notify.c\<close>): the server side,
    the shell side and the life cycle of each, with its global context; what is submitted arrives, is served once,
    and is freed. That a fence is answered once assumes that jansson gets its memory: the finding at \<^verbatim>\<open>fence.c:176\<close>
    (\<open>fence_enomem_answered_and_outstanding\<close>) shows what happens otherwise.
  \<^item> \<open>Infovec\<close> (\<^verbatim>\<open>infovec.c\<close>) and \<open>Maps\<close> (\<^verbatim>\<open>maps.c\<close>): info vectors with the blocks they own; node maps over the
    interface \<open>hostlist\<close>.
  \<^item> \<open>Px_Main\<close> (\<^verbatim>\<open>main.c\<close>): start of the plugin step by step, the namespace registered, preparation of tasks,
    loading, destruction. What a successful start registered, and that every failure path gives back what
    was acquired, no global context left set.
  \<^item> \<open>Upmi\<close> (\<^verbatim>\<open>src/upmi/pmix.c\<close>): the operations of the PMI client plugin over the interface \<open>pmix_kvs\<close>, with the
    scope, process and info arguments of every PMIx call.
  \<^item> \<open>Tap\<close> (\<^verbatim>\<open>libtap/tap.c\<close>): the unit-test harness; its exit status means what it should.
  \<^item> \<open>Test_Clients\<close> (\<^verbatim>\<open>t/src\<close>: log, monotime, barrier, getkey, abort, notify, bizcard) and \<open>Pingpong\<close>
    (\<^verbatim>\<open>t/src/mpi_pingpong.c\<close>): the programs the system tests run, and how the barrier test's attributes
    meet the plugin's fence. The product \<^verbatim>\<open>limit*2\<close> of ping-pong is an \<^verbatim>\<open>int\<close>; from a count of 2^30 on it overflows.
  \<^item> \<open>Cstdlib\<close>: \<^verbatim>\<open>strtod\<close>, \<^verbatim>\<open>atoi\<close>, \<^verbatim>\<open>atol\<close>, \<^verbatim>\<open>strcasecmp\<close> and the rounding of a \<^verbatim>\<open>double\<close>, and programs that may
    exit or be undefined. \<open>Mpi_Collectives\<close>: the collective operations of MPI as a record of functions on the
    buffers of all members, their promises as the locale \<open>mpi_collectives\<close>, interpreted on a model that
    delivers block by block.
  \<^item> \<open>Mpibench_Args\<close>, \<open>Mpibench\<close> and \<open>Mpibench_Main\<close> (\<^verbatim>\<open>t/mpibench/mpiBench.c\<close>): the benchmark of the collectives
    the system tests run. Its options; its buffers, patterns, checks and timed collectives; its main program.
    What the checks find, and that a run over a faithful MPI completes with the whole report.
  \<^item> \<open>Getopt\<close>: \<^verbatim>\<open>getopt_long\<close> and \<^verbatim>\<open>strtok\<close>. \<open>Osu_Options\<close> (\<^verbatim>\<open>t/osu-micro-benchmarks/util/osu_util.c\<close>): the options
    all OSU benchmarks share, that an accepted command line leaves valid ones, and when processing is undefined.
  \<^item> \<open>Mpi_Floats\<close>: single-precision arithmetic and the reductions of MPI, whose order of adding is open, as the
    locale \<open>mpi_reductions\<close>. \<open>Osu_Validate\<close> and \<open>Osu_Util\<close> (\<^verbatim>\<open>util/osu_util_mpi.c\<close>): filling and validating
    buffers, allocation, printing. \<open>Osu_Coll\<close> and \<open>Osu_Reduce\<close> (\<^verbatim>\<open>mpi/collective\<close>): the thirteen blocking collective
    benchmarks, one definition each over the parts their \<^verbatim>\<open>main\<close> functions share; a run is that of all processes
    of a job. \<open>Osu_Coll_Run\<close>, \<open>Osu_Coll_Correct\<close>, \<open>Osu_Reduce_Correct\<close> and \<open>Osu_Benchmarks\<close>: that runs complete, stay
    within their buffers and validate without errors, and when they do not end.
  \<^item> this theory: the path of upcalls from the server thread through the started plugin to their effects.

  \<^bold>\<open>How code becomes definitions.\<close> A C function is a definition of the same name. Structures are records; a
  pointer that may be null is an \<open>option\<close>. Calls whose result the repository does not determine (the flux
  shell and its messages, PMIx, jansson, host lists, task maps, allocations) are arguments: records of
  functions, or booleans that say whether a call succeeds. What a function does to the outside is the list
  of its calls, in order. Failures are values (\<open>option\<close>, an \<open>errno\<close>, a negative status); undefined behaviour
  of C is the outcome \<open>Undef\<close>. Memory is accounted for by the blocks allocated and freed, not by addresses.
  Integers are words where their width matters (tree arithmetic, ranks, JSON integers, sizes of buffers).

  \<^bold>\<open>Loops and fuel.\<close> All loops are structural recursions or recursions with a measure; no definition has fuel
  except \<open>drain\<close>, which receives as many messages as it is told to and is used with the length of the
  queue. Runs of the distributed exchange and of ping-pong are inductive step relations whose number of
  steps is bounded by theorem. The loop over the sizes of the OSU benchmarks (\<open>osu_sweep\<close>) is a partial function
  that ends, unless the first size is 0, for memory limits below 2^30 bytes. The loop over the message sizes of \<^verbatim>\<open>mpiBench\<close> (\<open>sweep\<close>) does not end when the size
  wraps around; it is a partial function, and that it ends below 2^63 is part of \<open>mpibench_completes\<close>. That
  theorem asks for fewer than 2^30 processes, a memory limit below 2^31 bytes and a requested size whose
  product with twice the number of processes is below 2^64: then every count and displacement is an \<^verbatim>\<open>int\<close>; and
  for a clock whose successive readings, which are all the program divides by, give estimates that divide the time limit to
  an \<^verbatim>\<open>int\<close> (\<open>limit_ok\<close>).

  \<^bold>\<open>Not modelled.\<close> The reactor and the transport of flux messages (flux-core), the PMIx library, MPI and jansson
  are parameters. Tracing of payloads is reduced to what is traced, times to a placeholder. Of \<^verbatim>\<open>mpiBench\<close> the
  variants behind compile flags and the layout of the printed figures are left out. Of the OSU benchmarks under
  \<^verbatim>\<open>t/osu-micro-benchmarks\<close>, third-party programs that the system tests run, the processing of options and the
  blocking collectives are modelled, for builds without accelerators and without what goes to \<^verbatim>\<open>stderr\<close>; the
  non-blocking, point-to-point, one-sided and startup programs are left out; shell scripts, build files and container recipes are not programs of
  the modelled language.
\<close>

subsection \<open>From the server thread to the shell\<close>

text \<open>
  The upcalls a PMIx server makes, other than fences (whose path through the channel and the exchange is
  the subject of the theory \<^verbatim>\<open>Fence\<close>), and what the shell's reactor does with the messages they become.
\<close>

datatype request =
    Abort_req pmix_proc_t u64 u32 "string option" "pmix_proc_t list" u64 u64
  | Notify_req u64 u32 pmix_proc_t "pmix_info_t list" "pmix_info_t list" u64 u64
  | Modex_req pmix_proc_t "pmix_info_t list" u64 u64

fun upcall :: "'j lib \<Rightarrow> send_env \<Rightarrow> (upcall, 'j) interthread \<Rightarrow> request \<Rightarrow> bool \<times> (upcall, 'j) interthread" where
  "upcall L E it (Abort_req p so status message ps f d) =
     (case abort_server_cb L E it p so status message ps f d of (rc, it) \<Rightarrow> (rc = PMIX_SUCCESS, it))"
| "upcall L E it (Notify_req eid status source is rs f d) = notify_server_cb L E it eid status source is rs f d"
| "upcall L E it (Modex_req p is f d) =
     (case dmodex_server_cb L E it p is f d of (rc, it) \<Rightarrow> (rc = PMIX_SUCCESS, it))"

fun upcalls :: "'j lib \<Rightarrow> send_env \<Rightarrow> (upcall, 'j) interthread \<Rightarrow> request list \<Rightarrow> bool \<times> (upcall, 'j) interthread" where
  "upcalls L E it [] = (True, it)"
| "upcalls L E it (r # rs) =
     (case upcall L E it r of (ok, it) \<Rightarrow> (case upcalls L E it rs of (ok', it) \<Rightarrow> (ok \<and> ok', it)))"

datatype shell_effects =
    Abort_effects "abort_effect list outcome"
  | Notify_effects "notify_effect list outcome"
  | Modex_effects "dmodex_effect list outcome"
  | Other_event

definition shell_handle ::
    "'j lib \<Rightarrow> (pmix_status \<Rightarrow> string) \<Rightarrow> int option \<Rightarrow> (nat \<Rightarrow> int option) \<Rightarrow> (upcall, 'j) recv_event \<Rightarrow> shell_effects" where
  "shell_handle L err ssize nt ev =
     (case ev of
        RecvCall H_abort m \<Rightarrow> Abort_effects (abort_shell_cb L (payload m))
      | RecvCall H_notify m \<Rightarrow> Notify_effects (notify_shell_cb L (payload m))
      | RecvCall H_dmodex m \<Rightarrow> Modex_effects (dmodex_shell_cb L err True ssize nt (payload m))
      | _ \<Rightarrow> Other_event)"

fun request_ok :: "'j lib \<Rightarrow> int option \<Rightarrow> (nat \<Rightarrow> int option) \<Rightarrow> request \<Rightarrow> bool" where
  "request_ok L ssize nt (Abort_req p so status message ps f d) \<longleftrightarrow>
     proc_ok p \<and> list_all proc_ok ps \<and> malloc_ok L (length ps * sizeof_proc)"
| "request_ok L ssize nt (Notify_req eid status source is rs f d) \<longleftrightarrow>
     proc_ok source \<and> list_all (info_ok L) is \<and> list_all (info_ok L) rs
     \<and> malloc_ok L (length is * sizeof_info) \<and> malloc_ok L (length rs * sizeof_info)"
| "request_ok L ssize nt (Modex_req p is f d) \<longleftrightarrow>
     proc_ok p \<and> list_all (info_ok L) is \<and> malloc_ok L (length is * sizeof_info)
     \<and> (\<exists>sr. lookup_shell_rank ssize nt (sint (rank p)) = Ok sr)"

text \<open>What each request is to bring about.\<close>

fun served :: "int option \<Rightarrow> (nat \<Rightarrow> int option) \<Rightarrow> request \<Rightarrow> shell_effects \<Rightarrow> bool" where
  "served ssize nt (Abort_req p so status message ps f d) eff \<longleftrightarrow>
     eff = Abort_effects (Ok ([Raise ''exec'' 0 (abort_note p status (case message of Some s \<Rightarrow> s | None \<Rightarrow> ''(no message)''))]
       @ (if f \<noteq> 0 then [OpCbfunc f PMIX_SUCCESS d] else []) @ [AFree (B_procs ps)]))"
| "served ssize nt (Notify_req eid status source is rs f d) eff \<longleftrightarrow>
     eff = Notify_effects (Ok [NLog (LWarn (notify_note source status (event_text None is))),
       NFree (codec_info_array_destroy (Some is) @ codec_info_array_destroy (Some rs))])"
| "served ssize nt (Modex_req p is f d) eff \<longleftrightarrow>
     (\<exists>sr log. lookup_shell_rank ssize nt (sint (rank p)) = Ok sr \<and>
       eff = Modex_effects (Ok ([DLog log]
         @ (if f \<noteq> 0
            then [ModexCbfunc f (if sr < 0 then PMIX_ERR_PROC_ENTRY_NOT_FOUND else PMIX_ERR_NOT_IMPLEMENTED) d] else [])
         @ [DFree (codec_info_array_destroy (Some is))])))"

lemma find_handler_topics: "map_option cb (find_handler t hs) = map_of (map (\<lambda>h. (htopic h, cb h)) hs) t"
  by (induction hs) auto

lemma dispatch_topics:
  assumes "topics it = all_topics" and "map_of all_topics t = Some h"
  shows "dispatch (handlers it) \<lparr>topic = Some t, payload = pl\<rparr> = RecvCall h \<lparr>topic = Some t, payload = pl\<rparr>"
  using find_handler_topics [of t "handlers it"] assms
  by (auto simp: dispatch_def split: option.splits)

lemma served_message:
  assumes "topics it = all_topics" and "map_of all_topics t = Some h"
    and "it' = it\<lparr>queue := queue it @ [\<lparr>topic = Some t, payload = pl\<rparr>]\<rparr>"
    and "served ssize nt r (shell_handle L err ssize nt (RecvCall h \<lparr>topic = Some t, payload = pl\<rparr>))"
  shows "\<exists>m. it' = it\<lparr>queue := queue it @ [m]\<rparr> \<and> served ssize nt r (shell_handle L err ssize nt (dispatch (handlers it) m))"
  using assms(3,4) dispatch_topics [OF assms(1,2), of pl] by (intro exI [of _ "\<lparr>topic = Some t, payload = pl\<rparr>"]) simp

lemma upcall_served:
  assumes "jansson L" and "upcall L E it r = (True, it')" and "request_ok L ssize nt r" and "topics it = all_topics"
  shows "\<exists>m. it' = it\<lparr>queue := queue it @ [m]\<rparr> \<and> served ssize nt r (shell_handle L err ssize nt (dispatch (handlers it) m))"
proof (cases r)
  case (Abort_req p so status message ps f d)
  then have s: "abort_server_cb L E it p so status message ps f d = (PMIX_SUCCESS, it')"
    using assms(2) by (auto split: prod.splits)
  obtain pl where pl: "it' = it\<lparr>queue := queue it @ [\<lparr>topic = Some ''abort_upcall'', payload = Some pl\<rparr>]\<rparr>"
    "abort_shell_cb L (Some pl) =
      Ok ([Raise ''exec'' 0 (abort_note p status (case message of Some s \<Rightarrow> s | None \<Rightarrow> ''(no message)''))]
          @ (if f \<noteq> 0 then [OpCbfunc f PMIX_SUCCESS d] else []) @ [AFree (B_procs ps)])"
    using jansson.abort_roundtrip [OF assms(1) s] assms(3) unfolding Abort_req request_ok.simps by blast
  show ?thesis
    by (rule served_message [OF assms(4) _ pl(1), of H_abort]) (simp_all add: pl(2) Abort_req shell_handle_def all_topics_def)
next
  case (Notify_req eid status source "is" rs f d)
  then have s: "notify_server_cb L E it eid status source is rs f d = (True, it')" using assms(2) by simp
  obtain pl where pl: "it' = it\<lparr>queue := queue it @ [\<lparr>topic = Some ''notify_upcall'', payload = Some pl\<rparr>]\<rparr>"
    "notify_shell_cb L (Some pl) = Ok [NLog (LWarn (notify_note source status (event_text None is))),
          NFree (codec_info_array_destroy (Some is) @ codec_info_array_destroy (Some rs))]"
    using jansson.notify_roundtrip [OF assms(1) s] assms(3) unfolding Notify_req request_ok.simps by blast
  show ?thesis
    by (rule served_message [OF assms(4) _ pl(1), of H_notify]) (simp_all add: pl(2) Notify_req shell_handle_def all_topics_def)
next
  case (Modex_req p "is" f d)
  then have s: "dmodex_server_cb L E it p is f d = (PMIX_SUCCESS, it')" using assms(2) by (auto split: prod.splits)
  from assms(3) Modex_req obtain sr where ok: "proc_ok p" "list_all (info_ok L) is" "malloc_ok L (length is * sizeof_info)"
    "lookup_shell_rank ssize nt (sint (rank p)) = Ok sr" by auto
  from jansson.dmodex_roundtrip [OF assms(1) s ok, of err] obtain pl log where
    pl: "it' = it\<lparr>queue := queue it @ [\<lparr>topic = Some ''dmodex_upcall'', payload = Some pl\<rparr>]\<rparr>"
      "dmodex_shell_cb L err True ssize nt (Some pl) = Ok ([DLog log]
          @ (if f \<noteq> 0 then [ModexCbfunc f (if sr < 0 then PMIX_ERR_PROC_ENTRY_NOT_FOUND else PMIX_ERR_NOT_IMPLEMENTED) d]
             else []) @ [DFree (codec_info_array_destroy (Some is))])"
    by blast
  show ?thesis
    by (rule served_message [OF assms(4) _ pl(1), of H_dmodex])
       (simp_all add: pl(2) ok(4) Modex_req shell_handle_def all_topics_def)
qed

lemma upcalls_served:
  assumes "jansson L"
  shows "upcalls L E it rs = (True, it') \<Longrightarrow> list_all (request_ok L ssize nt) rs \<Longrightarrow> topics it = all_topics \<Longrightarrow>
    \<exists>ms. it' = it\<lparr>queue := queue it @ ms\<rparr>
      \<and> list_all2 (\<lambda>r m. served ssize nt r (shell_handle L err ssize nt (dispatch (handlers it) m))) rs ms"
proof (induction rs arbitrary: it)
  case Nil
  then show ?case by (intro exI [of _ "[]"]) simp
next
  case (Cons r rs)
  then obtain it1 where r: "upcall L E it r = (True, it1)" and rest: "upcalls L E it1 rs = (True, it')"
    by (auto split: prod.splits)
  from Cons.prems upcall_served [OF assms r, of ssize nt err] obtain m where
    m: "it1 = it\<lparr>queue := queue it @ [m]\<rparr>" "served ssize nt r (shell_handle L err ssize nt (dispatch (handlers it) m))"
    by auto
  from Cons.IH [OF rest] Cons.prems m(1) obtain ms where "it' = it\<lparr>queue := queue it @ m # ms\<rparr>"
    "list_all2 (\<lambda>r m. served ssize nt r (shell_handle L err ssize nt (dispatch (handlers it) m))) rs ms"
    by auto
  with m(2) show ?case by (intro exI [of _ "m # ms"]) simp
qed

text \<open>
  C1. Once the plugin has started, whatever aborts, event notifications and direct-modex requests the
  server thread hands over are served by the shell in that order, each exactly once: an abort raises the
  job exception with its text and releases the caller, a notification is logged, a direct-modex request is
  answered with an error, and everything decoded on the way is freed.
\<close>

theorem upcalls_served_in_order:
  assumes "jansson L" and "px_init L H P S M W = (0, W', es)"
    and "list_all (request_ok L ssize nt) rs"
    and "upcalls L E (the (px_it (the (aux_px W')))) rs = (True, it')"
  shows "list_all2 (served ssize nt) rs (map (shell_handle L err ssize nt) (snd (drain (length (queue it')) it')))"
proof -
  obtain px it where it: "aux_px W' = Some px" "px_it px = Some it" "topics it = all_topics" "queue it = []"
    using px_init_ok [OF assms(2)] by blast
  from upcalls_served [OF assms(1) _ assms(3) it(3), of E it' err] assms(4) it obtain ms where
    "it' = it\<lparr>queue := ms\<rparr>"
    "list_all2 (\<lambda>r m. served ssize nt r (shell_handle L err ssize nt (dispatch (handlers it) m))) rs ms"
    by auto
  then show ?thesis using drain_queue [of it'] by (simp add: list.rel_map)
qed

definition demo_requests :: "request list" where
  "demo_requests = [Modex_req \<lparr>nspace = ''f8'', rank = 1\<rparr> [] 5 6,
     Abort_req \<lparr>nspace = ''f8'', rank = 0\<rparr> 0 1 (Some ''giving up'') [] 7 8]"

theorem upcalls_served_in_order_witness:
  "let it = the (px_it (the (aux_px (fst (snd (px_init json_lib plain_hosts demo_server demo_job_shell demo_all_mem
         (world_init :: (json, unit) world)))))));
       it' = snd (upcalls json_lib demo_send_env it demo_requests) in
   list_all2 (served (Some 1) (\<lambda>_. Some 2)) demo_requests
     (map (shell_handle json_lib (\<lambda>_. []) (Some 1) (\<lambda>_. Some 2)) (snd (drain (length (queue it')) it')))"
proof -
  let ?i = "px_init json_lib plain_hosts demo_server demo_job_shell demo_all_mem (world_init :: (json, unit) world)"
  let ?it = "the (px_it (the (aux_px (fst (snd ?i)))))"
  obtain W' es where i: "?i = (0, W', es)" using demo_px_init by (metis prod.exhaust_sel)
  have "fst (upcalls json_lib demo_send_env ?it demo_requests)" by code_simp
  then have u: "upcalls json_lib demo_send_env ?it demo_requests = (True, snd (upcalls json_lib demo_send_env ?it demo_requests))"
    by (metis (full_types) prod.collapse)
  have "lookup_shell_rank (Some 1) (\<lambda>_. Some 2) 1 = Ok 0" by code_simp
  then have ok: "list_all (request_ok json_lib (Some 1) (\<lambda>_. Some 2)) demo_requests"
    by (simp add: demo_requests_def proc_ok_def nul_free_def PMIX_MAX_NSLEN_def json_lib_def)
  from upcalls_served_in_order [OF jlib.jansson_axioms i ok, of demo_send_env _ "\<lambda>_. []"] u show ?thesis
    unfolding Let_def i by simp
qed

end
